(* ===== verification/Prelude.thy ===== *)
theory Prelude
  imports
    Main
    "HOL-Library.AList"
    "HOL-Library.List_Lexorder"
    "HOL-Library.Char_ord"
    "HOL-Library.Sublist"
begin

text \<open>
  What every component shares.

  A Go \<open>string\<close> and a Go \<open>[]byte\<close> are both sequences of bytes: type \<open>bytes\<close>, a list of
  \<open>char\<close>. \<open>length\<close> is Go's \<open>len\<close>, and the list order is the bytewise order of
  Go's \<open><\<close> on strings.

  A Go map is an association list with distinct keys (\<open>gomap\<close>). The order of the list is the order
  in which a \<open>range\<close> loop happens to visit the entries, which Go leaves open: a lemma about every
  association list is a lemma about every iteration order. Reading is \<open>map_of\<close>, \<open>m[k] = v\<close> is
  \<open>AList.update\<close>, \<open>delete(m, k)\<close> is \<open>AList.delete\<close>.

  A Go function with an error result returns an \<open>outcome\<close>: a value, an error, or a run-time panic (a
  nil dereference), which no error handling of the source catches.
\<close>

section \<open>Bytes\<close>

type_synonym bytes = "char list"

abbreviation byte_of :: "char \<Rightarrow> nat" where
  "byte_of c \<equiv> of_char c"

abbreviation NUL :: char where
  "NUL \<equiv> CHR 0x00"

abbreviation LF :: char where
  "LF \<equiv> CHR 0x0A"

text \<open>Go's \<open>clear\<close> on a byte slice: every byte becomes zero, the length stays.\<close>

definition zeroed :: "bytes \<Rightarrow> bytes" where
  "zeroed b = replicate (length b) NUL"

lemma length_zeroed [simp]: "length (zeroed b) = length b"
  by (simp add: zeroed_def)

lemma set_zeroed: "set (zeroed b) \<subseteq> {NUL}"
  by (auto simp: zeroed_def)

lemma zeroed_idem [simp]: "zeroed (zeroed b) = zeroed b"
  by (simp add: zeroed_def)

lemma zeroed_Nil [simp]: "zeroed [] = []"
  by (simp add: zeroed_def)

section \<open>Outcomes\<close>

datatype ('e, 'a) outcome = Ok (ok_val: 'a) | Er (er_val: 'e) | Panic

fun obind :: "('e, 'a) outcome \<Rightarrow> ('a \<Rightarrow> ('e, 'b) outcome) \<Rightarrow> ('e, 'b) outcome" where
  "obind (Ok x) f = f x"
| "obind (Er e) f = Er e"
| "obind Panic f = Panic"

definition is_ok :: "('e, 'a) outcome \<Rightarrow> bool" where
  "is_ok r \<longleftrightarrow> (case r of Ok _ \<Rightarrow> True | _ \<Rightarrow> False)"

lemma is_ok_simps [simp]: "is_ok (Ok x)" "\<not> is_ok (Er e)" "\<not> is_ok Panic"
  by (simp_all add: is_ok_def)

lemma is_okE: "is_ok r \<Longrightarrow> (\<And>x. r = Ok x \<Longrightarrow> P) \<Longrightarrow> P"
  by (cases r) auto

lemma obind_eq_Ok: "obind r f = Ok y \<longleftrightarrow> (\<exists>x. r = Ok x \<and> f x = Ok y)"
  by (cases r) auto

lemma obind_eq_Panic: "obind r f = Panic \<longleftrightarrow> r = Panic \<or> (\<exists>x. r = Ok x \<and> f x = Panic)"
  by (cases r) auto

section \<open>Go maps as association lists\<close>

type_synonym ('k, 'v) gomap = "('k \<times> 'v) list"

definition gomap_ok :: "('k, 'v) gomap \<Rightarrow> bool" where
  "gomap_ok m \<longleftrightarrow> distinct (map fst m)"

definition has_key :: "('k, 'v) gomap \<Rightarrow> 'k \<Rightarrow> bool" where
  "has_key m k \<longleftrightarrow> map_of m k \<noteq> None"

lemma gomap_ok_Nil [simp]: "gomap_ok []"
  by (simp add: gomap_ok_def)

lemma gomap_ok_update [simp]: "gomap_ok m \<Longrightarrow> gomap_ok (AList.update k v m)"
  by (simp add: gomap_ok_def distinct_update)

lemma gomap_ok_delete [simp]: "gomap_ok m \<Longrightarrow> gomap_ok (AList.delete k m)"
  by (simp add: gomap_ok_def distinct_delete)

lemma set_update_subset: "set (AList.update k v m) \<subseteq> insert (k, v) (set m)"
  by (induction m) auto

lemma set_delete_subset: "set (AList.delete k m) \<subseteq> set m"
  by (auto simp: AList.delete_eq)

lemma gomap_ok_Cons [simp]: "gomap_ok (p # m) \<longleftrightarrow> fst p \<notin> fst ` set m \<and> gomap_ok m"
  by (auto simp: gomap_ok_def)

lemma gomap_mem: "gomap_ok m \<Longrightarrow> (k, v) \<in> set m \<longleftrightarrow> map_of m k = Some v"
  by (simp add: gomap_ok_def)

lemma has_key_iff: "has_key m k \<longleftrightarrow> k \<in> fst ` set m"
  by (simp add: has_key_def map_of_eq_None_iff)

lemma gomap_set_eq:
  assumes "gomap_ok m" and "gomap_ok m'" and "map_of m = map_of m'"
  shows "set m = set m'"
proof -
  have "(k, v) \<in> set m \<longleftrightarrow> (k, v) \<in> set m'" for k v
    using assms by (simp add: gomap_mem)
  then show ?thesis by auto
qed

lemma gomap_ok_filter [simp]: "gomap_ok m \<Longrightarrow> gomap_ok (filter P m)"
  by (auto simp: gomap_ok_def distinct_map inj_on_def)

subsection \<open>The contract of a dictionary\<close>

text \<open>
  What the components that keep a map rely on. The laws are those of a finite map; the lemmas
  proved from them are the ones the components use, so that none of them unfolds the association
  list.
\<close>

locale dictionary =
  fixes look :: "'m \<Rightarrow> 'k \<Rightarrow> 'v option"
    and put :: "'k \<Rightarrow> 'v \<Rightarrow> 'm \<Rightarrow> 'm"
    and del :: "'k \<Rightarrow> 'm \<Rightarrow> 'm"
    and inv :: "'m \<Rightarrow> bool"
  assumes look_put: "inv m \<Longrightarrow> look (put k v m) = (look m)(k \<mapsto> v)"
    and look_del: "inv m \<Longrightarrow> look (del k m) = (look m)(k := None)"
    and inv_put: "inv m \<Longrightarrow> inv (put k v m)"
    and inv_del: "inv m \<Longrightarrow> inv (del k m)"
begin

lemma look_put_same: "inv m \<Longrightarrow> look (put k v m) k = Some v"
  by (simp add: look_put)

lemma look_put_other: "inv m \<Longrightarrow> k \<noteq> k' \<Longrightarrow> look (put k v m) k' = look m k'"
  by (simp add: look_put)

lemma look_del_same: "inv m \<Longrightarrow> look (del k m) k = None"
  by (simp add: look_del)

lemma look_del_other: "inv m \<Longrightarrow> k \<noteq> k' \<Longrightarrow> look (del k m) k' = look m k'"
  by (simp add: look_del)

lemma put_put: "inv m \<Longrightarrow> look (put k v (put k w m)) = look (put k v m)"
  by (simp add: look_put inv_put)

lemma del_put: "inv m \<Longrightarrow> look (del k (put k v m)) = look (del k m)"
  by (simp add: look_put look_del inv_put)

end

interpretation gm: dictionary map_of AList.update AList.delete gomap_ok
  by unfold_locales (simp_all add: update_conv' delete_conv')

section \<open>The contract of a codec\<close>

text \<open>
  An encoder, a decoder, and the values the encoder is meant for. Decoding an encoding gives the
  value back. Codecs compose: a value is base64 text, which is the content of a JSON string, and so
  on up to a line of the protocol.
\<close>

locale codec =
  fixes enc :: "'a \<Rightarrow> 'b"
    and dec :: "'b \<Rightarrow> 'a option"
    and good :: "'a \<Rightarrow> bool"
  assumes dec_enc: "good x \<Longrightarrow> dec (enc x) = Some x"
begin

lemma enc_inj: "good x \<Longrightarrow> good y \<Longrightarrow> enc x = enc y \<Longrightarrow> x = y"
  by (metis dec_enc option.inject)

lemma dec_enc_list:
  "\<forall>x \<in> set xs. good x \<Longrightarrow> those (map (\<lambda>x. dec (enc x)) xs) = Some xs"
  by (induction xs) (simp_all add: dec_enc)

end

locale codec_chain =
  inner: codec enc1 dec1 good1 + outer: codec enc2 dec2 good2
  for enc1 :: "'a \<Rightarrow> 'b" and dec1 :: "'b \<Rightarrow> 'a option" and good1 :: "'a \<Rightarrow> bool"
    and enc2 :: "'b \<Rightarrow> 'c" and dec2 :: "'c \<Rightarrow> 'b option" and good2 :: "'b \<Rightarrow> bool" +
  assumes good_enc: "good1 x \<Longrightarrow> good2 (enc1 x)"

sublocale codec_chain \<subseteq> chain: codec "\<lambda>x. enc2 (enc1 x)" "\<lambda>z. Option.bind (dec2 z) dec1" good1
proof
  fix x
  assume "good1 x"
  then show "Option.bind (dec2 (enc2 (enc1 x))) dec1 = Some x"
    by (simp add: outer.dec_enc inner.dec_enc good_enc)
qed

section \<open>Sorting by key\<close>

text \<open>
  The code sorts by a name that is unique in the list. Then the result depends on the elements
  only, not on the order a \<open>range\<close> loop produced them in.
\<close>

lemma sort_key_unique:
  assumes "set xs = set ys" and "distinct (map f xs)" and "distinct (map f ys)"
  shows "sort_key f xs = sort_key f ys"
proof (rule map_sorted_distinct_set_unique [of f])
  show "inj_on f (set (sort_key f xs) \<union> set (sort_key f ys))"
    using assms by (simp add: distinct_map)
  show "sorted (map f (sort_key f xs))" and "sorted (map f (sort_key f ys))"
    by simp_all
  have "distinct xs" and "distinct ys"
    using assms by (simp_all add: distinct_map)
  then show "distinct (map f (sort_key f xs))" and "distinct (map f (sort_key f ys))"
    using assms by (simp_all add: distinct_map)
  show "set (sort_key f xs) = set (sort_key f ys)"
    using assms by simp
qed

lemma gomap_sort_unique:
  assumes "gomap_ok m" and "gomap_ok m'" and "map_of m = map_of m'"
  shows "sort_key fst m = sort_key fst m'"
  using assms by (intro sort_key_unique gomap_set_eq) (simp_all add: gomap_ok_def)

lemma gomap_ok_sort [simp]: "gomap_ok m \<Longrightarrow> gomap_ok (sort_key fst m)"
  by (auto simp: gomap_ok_def distinct_map)

lemma map_of_sort [simp]: "gomap_ok m \<Longrightarrow> map_of (sort_key fst m) = map_of m"
  by (subst map_of_inject_set) (auto simp: gomap_ok_def distinct_map)

section \<open>Lists\<close>

text \<open>Splitting at the first occurrence of a byte: \<open>bytes.IndexByte\<close>, \<open>strings.Cut\<close>.\<close>

fun cut_at :: "char \<Rightarrow> bytes \<Rightarrow> (bytes \<times> bytes) option" where
  "cut_at c [] = None"
| "cut_at c (x # xs) = (if x = c then Some ([], xs)
     else map_option (\<lambda>(a, b). (x # a, b)) (cut_at c xs))"

lemma cut_at_None_iff: "cut_at c s = None \<longleftrightarrow> c \<notin> set s"
  by (induction s) auto

lemma cut_at_append: "c \<notin> set a \<Longrightarrow> cut_at c (a @ c # b) = Some (a, b)"
  by (induction a) auto

lemma cut_at_SomeD: "cut_at c s = Some (a, b) \<Longrightarrow> s = a @ c # b \<and> c \<notin> set a"
proof (induction s arbitrary: a)
  case (Cons x s)
  then show ?case by (cases "x = c") auto
qed simp

lemma cut_at_Some_iff: "cut_at c s = Some (a, b) \<longleftrightarrow> s = a @ c # b \<and> c \<notin> set a"
  using cut_at_append cut_at_SomeD by fast

lemma cut_at_append_left: "cut_at c a = Some (x, y) \<Longrightarrow> cut_at c (a @ b) = Some (x, y @ b)"
  by (auto simp: cut_at_Some_iff)

text \<open>\<open>strings.Join\<close>, and \<open>strings.Split\<close> by a byte.\<close>

fun join_with :: "bytes \<Rightarrow> bytes list \<Rightarrow> bytes" where
  "join_with sep [] = []"
| "join_with sep [s] = s"
| "join_with sep (s # ss) = s @ sep @ join_with sep ss"

fun cons_word :: "char \<Rightarrow> bytes list \<Rightarrow> bytes list" where
  "cons_word c [] = [[c]]"
| "cons_word c (w # ws) = (c # w) # ws"

fun split_by :: "char \<Rightarrow> bytes \<Rightarrow> bytes list" where
  "split_by x [] = [[]]"
| "split_by x (c # cs) = (if c = x then [] # split_by x cs else cons_word c (split_by x cs))"

lemma cons_word_ne [simp]: "cons_word c ws \<noteq> []"
  by (cases ws) auto

lemma cons_word_append [simp]: "ws \<noteq> [] \<Longrightarrow> cons_word c (ws @ vs) = cons_word c ws @ vs"
  by (cases ws) auto

lemma set_cons_word: "w \<in> set (cons_word c ws) \<Longrightarrow> w = [c] \<or> w \<in> set ws \<or> (\<exists>v \<in> set ws. w = c # v)"
  by (cases ws) auto

lemma split_by_ne [simp]: "split_by x s \<noteq> []"
  by (cases s) simp_all

lemma split_by_free: "w \<in> set (split_by x s) \<Longrightarrow> x \<notin> set w"
proof (induction s arbitrary: w)
  case (Cons c s)
  then show ?case by (auto split: if_splits dest!: set_cons_word)
qed simp

lemma split_by_word: "x \<notin> set w \<Longrightarrow> split_by x w = [w]"
  by (induction w) auto

lemma split_by_append: "x \<notin> set w \<Longrightarrow> split_by x (w @ x # s) = w # split_by x s"
  by (induction w) auto

lemma split_by_cat: "split_by x (a @ x # b) = split_by x a @ split_by x b"
  by (induction a) auto

lemma split_join:
  assumes "ws \<noteq> []" and "\<forall>w \<in> set ws. x \<notin> set w"
  shows "split_by x (join_with [x] ws) = ws"
  using assms
proof (induction "[x]" ws rule: join_with.induct)
  case (3 w v vs)
  then show ?case by (simp add: split_by_append)
qed (auto simp: split_by_word)

end
