(* ===== verification/GoText.thy ===== *)
theory GoText
  imports Prelude
begin

text \<open>
  The text functions of Go's standard library that the module calls: UTF-8 decoding and encoding
  (unicode/utf8), control characters and white space (unicode), trimming (strings, bytes). A rune is
  a \<open>nat\<close>. An ill-formed byte decodes as U+FFFD with size 1.
\<close>

section \<open>UTF-8\<close>

definition RuneError :: nat where "RuneError = 65533"

definition cont :: "nat \<Rightarrow> nat \<Rightarrow> nat \<Rightarrow> bool" where
  "cont lo hi b \<longleftrightarrow> lo \<le> b \<and> b \<le> hi"

text \<open>
  The well-formed sequence at the head of a byte string, as its rune and its length. The bounds on
  the second byte exclude overlong forms, surrogates and runes above U+10FFFF.
\<close>

fun utf8_head :: "bytes \<Rightarrow> (nat \<times> nat) option" where
  "utf8_head [] = None"
| "utf8_head (c # cs) =
     (let b0 = byte_of c in
      if b0 < 128 then Some (b0, 1)
      else if b0 < 194 then None
      else if b0 < 224 then
        (case cs of
          c1 # _ \<Rightarrow> let b1 = byte_of c1 in
            if cont 128 191 b1 then Some ((b0 - 192) * 64 + (b1 - 128), 2) else None
        | _ \<Rightarrow> None)
      else if b0 < 240 then
        (case cs of
          c1 # c2 # _ \<Rightarrow> let b1 = byte_of c1; b2 = byte_of c2 in
            if cont (if b0 = 224 then 160 else 128) (if b0 = 237 then 159 else 191) b1
               \<and> cont 128 191 b2
            then Some ((b0 - 224) * 4096 + (b1 - 128) * 64 + (b2 - 128), 3) else None
        | _ \<Rightarrow> None)
      else if b0 < 245 then
        (case cs of
          c1 # c2 # c3 # _ \<Rightarrow> let b1 = byte_of c1; b2 = byte_of c2; b3 = byte_of c3 in
            if cont (if b0 = 240 then 144 else 128) (if b0 = 244 then 143 else 191) b1
               \<and> cont 128 191 b2 \<and> cont 128 191 b3
            then Some ((b0 - 240) * 262144 + (b1 - 128) * 4096 + (b2 - 128) * 64 + (b3 - 128), 4)
            else None
        | _ \<Rightarrow> None)
      else None)"

text \<open>\<open>utf8.DecodeRune\<close> on a non-empty string.\<close>

definition decode_rune :: "bytes \<Rightarrow> nat \<times> nat" where
  "decode_rune s = (case utf8_head s of Some (r, n) \<Rightarrow> (r, n) | None \<Rightarrow> (RuneError, 1))"

lemma utf8_head_len: "utf8_head s = Some (r, n) \<Longrightarrow> 1 \<le> n \<and> n \<le> length s \<and> n \<le> 4"
  by (cases s) (auto simp: Let_def split: if_splits list.splits)

lemma decode_rune_pos: "0 < snd (decode_rune s)"
  by (auto simp: decode_rune_def dest: utf8_head_len split: option.split)

lemma utf8_head_ascii: "byte_of c < (128::nat) \<Longrightarrow> utf8_head (c # cs) = Some (byte_of c, 1)"
  by simp

lemma utf8_head_take:
  assumes "utf8_head s = Some (r, n)"
  shows "utf8_head (take n s @ t) = Some (r, n)"
  using assms by (cases s) (auto simp: Let_def split: if_splits list.splits)

lemma utf8_head_multi:
  assumes "utf8_head (c # cs) = Some (r, n)" and "\<not> byte_of c < (128::nat)"
  shows "128 \<le> r \<and> 2 \<le> n \<and> (\<forall>x \<in> set (take n (c # cs)). 128 \<le> (byte_of x :: nat))"
proof (cases "byte_of c < (224::nat)")
  case True
  with assms show ?thesis
    by (auto simp: Let_def cont_def split: if_splits list.splits)
next
  case False
  show ?thesis
  proof (cases "byte_of c < (240::nat)")
    case True
    with False assms show ?thesis
      by (auto simp: Let_def cont_def split: if_splits list.splits)
  next
    case f: False
    with False assms show ?thesis
      by (auto simp: Let_def cont_def split: if_splits list.splits)
  qed
qed

declare utf8_head.simps(2) [simp del]

text \<open>\<open>for _, r := range s\<close>: the runes of a string with their byte offsets.\<close>

function runes_from :: "nat \<Rightarrow> bytes \<Rightarrow> (nat \<times> nat) list" where
  "runes_from i [] = []"
| "runes_from i (c # cs) =
     (let (r, n) = decode_rune (c # cs) in (i, r) # runes_from (i + n) (drop n (c # cs)))"
  by pat_completeness auto
termination
proof (relation "measure (\<lambda>(i, s). length s)", goal_cases)
  case (2 i c cs p r n)
  then show ?case
    using decode_rune_pos [of "c # cs"] by (simp add: prod_eq_iff split: prod.splits)
qed simp

definition runes :: "bytes \<Rightarrow> (nat \<times> nat) list" where
  "runes s = runes_from 0 s"

text \<open>\<open>utf8.ValidString\<close>.\<close>

function utf8_valid :: "bytes \<Rightarrow> bool" where
  "utf8_valid [] \<longleftrightarrow> True"
| "utf8_valid (c # cs) \<longleftrightarrow>
     (case utf8_head (c # cs) of None \<Rightarrow> False | Some (r, n) \<Rightarrow> utf8_valid (drop n (c # cs)))"
  by pat_completeness auto
termination
proof (relation "measure length", goal_cases)
  case (2 c cs p r n)
  then show ?case using utf8_head_len [of "c # cs" r n] by simp
qed simp

declare utf8_valid.simps(2) [simp del]
declare runes_from.simps(2) [simp del]

lemma utf8_valid_ascii_Cons [simp]:
  "byte_of c < (128::nat) \<Longrightarrow> utf8_valid (c # cs) = utf8_valid cs"
  by (simp add: utf8_valid.simps(2) utf8_head_ascii)

lemma utf8_valid_ascii: "\<forall>c \<in> set s. byte_of c < (128::nat) \<Longrightarrow> utf8_valid s"
  by (induction s) auto

lemma utf8_valid_head_append:
  assumes "utf8_head s = Some (r, n)"
  shows "utf8_valid (take n s @ t) = utf8_valid t"
proof -
  from utf8_head_len [OF assms] obtain c cs where s: "s = c # cs" and n: "0 < n" "n \<le> length s"
    by (cases s) auto
  then obtain cs' where t: "take n s @ t = c # cs'" by (cases n) auto
  have "utf8_head (c # cs') = Some (r, n)"
    using utf8_head_take [OF assms, of t] t by simp
  then have "utf8_valid (c # cs') = utf8_valid (drop n (c # cs'))"
    by (simp add: utf8_valid.simps(2))
  then show ?thesis using t n by (metis append_eq_conv_conj length_take min.absorb2)
qed

lemma utf8_valid_append: "utf8_valid a \<Longrightarrow> utf8_valid (a @ b) = utf8_valid b"
proof (induction a rule: utf8_valid.induct)
  case (2 c cs)
  then obtain r n where h: "utf8_head (c # cs) = Some (r, n)"
    and v: "utf8_valid (drop n (c # cs))"
    by (auto simp: utf8_valid.simps(2) split: option.splits)
  have "(c # cs) @ b = take n (c # cs) @ (drop n (c # cs) @ b)"
    by (metis append.assoc append_take_drop_id)
  also have "utf8_valid \<dots> = utf8_valid (drop n (c # cs) @ b)"
    by (rule utf8_valid_head_append [OF h])
  finally show ?case
    using "2.IH" [OF h refl v] by simp
qed simp

text \<open>\<open>utf8.AppendRune\<close>; a surrogate or a value above U+10FFFF is written as U+FFFD.\<close>

definition encode_rune :: "nat \<Rightarrow> bytes" where
  "encode_rune r0 =
     (let r = (if (55296 \<le> r0 \<and> r0 \<le> 57343) \<or> 1114111 < r0 then RuneError else r0) in
      if r < 128 then [char_of r]
      else if r < 2048 then [char_of (192 + r div 64), char_of (128 + r mod 64)]
      else if r < 65536 then
        [char_of (224 + r div 4096), char_of (128 + r div 64 mod 64), char_of (128 + r mod 64)]
      else
        [char_of (240 + r div 262144), char_of (128 + r div 4096 mod 64),
         char_of (128 + r div 64 mod 64), char_of (128 + r mod 64)])"

section \<open>Classes of runes\<close>

text \<open>\<open>unicode.IsControl\<close>.\<close>

definition is_control :: "nat \<Rightarrow> bool" where
  "is_control r \<longleftrightarrow> r < 32 \<or> (127 \<le> r \<and> r < 160)"

text \<open>\<open>strings.ContainsFunc(s, unicode.IsControl)\<close>.\<close>

definition contains_control :: "bytes \<Rightarrow> bool" where
  "contains_control s \<longleftrightarrow> (\<exists>(i, r) \<in> set (runes s). is_control r)"

text \<open>The UTF-8 forms of the runes for which \<open>unicode.IsSpace\<close> holds.\<close>

definition space_encs :: "bytes list" where
  "space_encs =
     map encode_rune ([9, 10, 11, 12, 13, 32, 133, 160, 5760] @ [8192..<8203]
       @ [8232, 8233, 8239, 8287, 12288])"

text \<open>
  \<open>strings.TrimSpace\<close> and \<open>bytes.TrimSpace\<close>. Since a UTF-8 form is read off its own bytes, trimming
  runes at either end is trimming these byte sequences there.
\<close>

function strip :: "bytes list \<Rightarrow> bytes \<Rightarrow> bytes" where
  "strip encs s =
     (case find (\<lambda>e. e \<noteq> [] \<and> take (length e) s = e) encs of
        None \<Rightarrow> s
      | Some e \<Rightarrow> strip encs (drop (length e) s))"
  by pat_completeness auto
termination
proof (relation "measure (\<lambda>(encs, s). length s)", goal_cases)
  case (2 encs s e)
  then have "e \<noteq> []" and "take (length e) s = e"
    by (auto simp: find_Some_iff)
  then show ?case by (cases s) auto
qed simp

declare strip.simps [simp del]

definition trim_space :: "bytes \<Rightarrow> bytes" where
  "trim_space s = rev (strip (map rev space_encs) (rev (strip space_encs s)))"

lemma strip_suffix: "\<exists>p. s = p @ strip encs s"
proof (induction encs s rule: strip.induct)
  case (1 encs s)
  show ?case
  proof (cases "find (\<lambda>e. e \<noteq> [] \<and> take (length e) s = e) encs")
    case None
    then show ?thesis by (subst strip.simps) simp
  next
    case (Some e)
    from "1.IH" [OF Some] obtain p where "drop (length e) s = p @ strip encs (drop (length e) s)"
      by blast
    then have "s = (take (length e) s @ p) @ strip encs (drop (length e) s)"
      by (metis append.assoc append_take_drop_id)
    moreover have "strip encs s = strip encs (drop (length e) s)"
      using Some by (subst strip.simps) simp
    ultimately show ?thesis by (metis (no_types))
  qed
qed

lemma strip_idem: "strip encs (strip encs s) = strip encs s"
proof (induction encs s rule: strip.induct)
  case (1 encs s)
  show ?case
  proof (cases "find (\<lambda>e. e \<noteq> [] \<and> take (length e) s = e) encs")
    case None
    then have "strip encs s = s" by (subst strip.simps) simp
    then show ?thesis by simp
  next
    case (Some e)
    then have "strip encs s = strip encs (drop (length e) s)" by (subst strip.simps) simp
    then show ?thesis using "1.IH" [OF Some] by simp
  qed
qed

lemma strip_id_iff:
  "strip encs s = s \<longleftrightarrow> (\<forall>e \<in> set encs. e \<noteq> [] \<longrightarrow> take (length e) s \<noteq> e)"
proof (cases "find (\<lambda>e. e \<noteq> [] \<and> take (length e) s = e) encs")
  case None
  then have "strip encs s = s" by (subst strip.simps) simp
  moreover have "\<forall>e \<in> set encs. e \<noteq> [] \<longrightarrow> take (length e) s \<noteq> e"
    using None by (auto simp: find_None_iff)
  ultimately show ?thesis by simp
next
  case (Some e)
  then have e: "e \<in> set encs" "e \<noteq> []" "take (length e) s = e"
    by (auto simp: find_Some_iff)
  obtain p where "drop (length e) s = p @ strip encs (drop (length e) s)"
    using strip_suffix by blast
  then have "length (strip encs (drop (length e) s)) \<le> length (drop (length e) s)"
    by (metis length_append le_add2)
  moreover have "length (drop (length e) s) < length s"
    using e by (cases s; cases e) auto
  ultimately have "length (strip encs (drop (length e) s)) < length s"
    by linarith
  moreover have "strip encs s = strip encs (drop (length e) s)"
    using Some by (subst strip.simps) simp
  ultimately show ?thesis using e by (metis nat_neq_iff)
qed

section \<open>Lines\<close>

text \<open>
  \<open>bufio.Scanner\<close> with a buffer of at most \<open>k\<close> bytes: lines without their line feed and one carriage
  return before it. A line that does not fit ends the scan with an error.
\<close>

definition drop_cr :: "bytes \<Rightarrow> bytes" where
  "drop_cr l = (if l \<noteq> [] \<and> last l = CHR 0x0D then butlast l else l)"

function scan_lines :: "nat \<Rightarrow> bytes \<Rightarrow> bytes list \<times> bool" where
  "scan_lines k s =
     (if s = [] then ([], False)
      else case cut_at LF s of
             None \<Rightarrow> if length s < k then ([drop_cr s], False) else ([], True)
           | Some (l, rest) \<Rightarrow>
               if length l < k then
                 (case scan_lines k rest of (ls, tooLong) \<Rightarrow> (drop_cr l # ls, tooLong))
               else ([], True))"
  by pat_completeness auto
termination
  by (relation "measure (\<lambda>(k, s). length s)") (auto dest!: cut_at_SomeD)

declare scan_lines.simps [simp del]

lemma LF_butlast: "LF \<notin> set l \<Longrightarrow> LF \<notin> set (drop_cr l)"
  by (auto simp: drop_cr_def dest: in_set_butlastD)

lemma scan_lines_no_LF: "l \<in> set (fst (scan_lines k s)) \<Longrightarrow> LF \<notin> set l"
proof (induction k s rule: scan_lines.induct)
  case (1 k s)
  show ?case
  proof (cases "cut_at LF s")
    case None
    then have "LF \<notin> set s" by (simp add: cut_at_None_iff)
    with None 1(2) show ?thesis
      by (subst (asm) scan_lines.simps) (auto intro!: LF_butlast split: if_splits)
  next
    case (Some p)
    obtain a rest where p: "p = (a, rest)" by (cases p)
    with Some have a: "LF \<notin> set a" by (simp add: cut_at_Some_iff)
    from 1(2) Some p have "s \<noteq> [] \<and> length a < k \<and> (l = drop_cr a \<or> l \<in> set (fst (scan_lines k rest)))"
      by (subst (asm) scan_lines.simps) (auto split: if_splits prod.splits)
    with 1(1) [OF _ Some p [symmetric]] LF_butlast [OF a] show ?thesis by auto
  qed
qed

end
