(* ===== verification/Base64.thy ===== *)
theory Base64
  imports Prelude
begin

text \<open>
  encoding/base64's standard alphabet with padding, which encoding/json uses for \<open>[]byte\<close>. The decoder
  skips CR and LF and, like Go's \<open>StdEncoding\<close>, ignores the unused low bits of a padded group.
\<close>

definition b64_char :: "nat \<Rightarrow> char" where
  "b64_char n =
     (if n < 26 then char_of (65 + n)
      else if n < 52 then char_of (97 + (n - 26))
      else if n < 62 then char_of (48 + (n - 52))
      else if n = 62 then CHR ''+'' else CHR ''/'')"

definition b64_val :: "char \<Rightarrow> nat option" where
  "b64_val c =
     (let b = byte_of c in
      if 65 \<le> b \<and> b \<le> 90 then Some (b - 65)
      else if 97 \<le> b \<and> b \<le> 122 then Some (b - 97 + 26)
      else if 48 \<le> b \<and> b \<le> 57 then Some (b - 48 + 52)
      else if b = 43 then Some 62
      else if b = 47 then Some 63
      else None)"

definition PAD :: char where "PAD = CHR ''=''"

fun b64_encode :: "bytes \<Rightarrow> bytes" where
  "b64_encode [] = []"
| "b64_encode [a] =
     [b64_char (byte_of a div 4), b64_char (byte_of a mod 4 * 16), PAD, PAD]"
| "b64_encode [a, b] =
     [b64_char (byte_of a div 4), b64_char (byte_of a mod 4 * 16 + byte_of b div 16),
      b64_char (byte_of b mod 16 * 4), PAD]"
| "b64_encode (a # b # c # rest) =
     b64_char (byte_of a div 4) # b64_char (byte_of a mod 4 * 16 + byte_of b div 16)
       # b64_char (byte_of b mod 16 * 4 + byte_of c div 64) # b64_char (byte_of c mod 64)
       # b64_encode rest"

fun b64_groups :: "bytes \<Rightarrow> bytes option" where
  "b64_groups [] = Some []"
| "b64_groups (w # x # y # z # rest) =
     (if z = PAD then
        (if rest \<noteq> [] then None
         else if y = PAD then
           (case (b64_val w, b64_val x) of
              (Some p, Some q) \<Rightarrow> Some [char_of (p * 4 + q div 16)]
            | _ \<Rightarrow> None)
         else
           (case (b64_val w, b64_val x, b64_val y) of
              (Some p, Some q, Some r) \<Rightarrow>
                Some [char_of (p * 4 + q div 16), char_of (q mod 16 * 16 + r div 4)]
            | _ \<Rightarrow> None))
      else
        (case (b64_val w, b64_val x, b64_val y, b64_val z) of
           (Some p, Some q, Some r, Some s) \<Rightarrow>
             map_option (\<lambda>t. char_of (p * 4 + q div 16) # char_of (q mod 16 * 16 + r div 4)
               # char_of (r mod 4 * 64 + s) # t) (b64_groups rest)
         | _ \<Rightarrow> None))"
| "b64_groups _ = None"

definition b64_decode :: "bytes \<Rightarrow> bytes option" where
  "b64_decode s = b64_groups (filter (\<lambda>c. c \<noteq> CHR 0x0D \<and> c \<noteq> LF) s)"

lemma byte_of_char_of [simp]: "n < 256 \<Longrightarrow> byte_of (char_of n) = n" for n :: nat
  by (simp add: of_char_of)

lemma byte_lt [simp]: "byte_of c < (256::nat)"
  by (metis of_char_mod_256 mod_less_divisor zero_less_numeral)

lemma b64_char_byte:
  "n < 64 \<Longrightarrow> byte_of (b64_char n) =
     (if n < 26 then 65 + n else if n < 52 then 71 + n else if n < 62 then n - 4
      else if n = 62 then 43 else (47::nat))"
  by (auto simp: b64_char_def)

lemma b64_val_char [simp]: "n < 64 \<Longrightarrow> b64_val (b64_char n) = Some n"
  by (auto simp: b64_val_def Let_def b64_char_byte)

lemma PAD_byte: "byte_of PAD = (61::nat)"
  by (simp add: PAD_def)

lemma b64_char_neq_PAD [simp]: "n < 64 \<Longrightarrow> b64_char n \<noteq> PAD"
  using b64_char_byte [of n] by (auto simp: PAD_def split: if_splits)

text \<open>The bytes of an encoding are letters, digits and \<open>+/=\<close>: safe in JSON and on a line.\<close>

definition b64_byte :: "char \<Rightarrow> bool" where
  "b64_byte c \<longleftrightarrow> (43 \<le> (byte_of c :: nat) \<and> byte_of c \<le> (122::nat)) \<and> byte_of c \<noteq> (92::nat)"

lemma b64_byte_char: "n < 64 \<Longrightarrow> b64_byte (b64_char n)"
  by (auto simp: b64_byte_def b64_char_byte)

lemma b64_byte_PAD: "b64_byte PAD"
  by (simp add: b64_byte_def PAD_byte)

lemma split_digit: "y < k \<Longrightarrow> (x * k + y) div k = x" "y < k \<Longrightarrow> (x * k + y) mod k = y"
  for x y k :: nat
  by simp_all

lemma div_bound: "a < 256 \<Longrightarrow> a div 4 < 64" "a < 256 \<Longrightarrow> a div 16 < 16"
  "a < 256 \<Longrightarrow> a div 64 < 4" for a :: nat
  by (simp_all add: less_mult_imp_div_less)

lemma mod_bound: "a mod 4 < 4" "a mod 16 < 16" "a mod 64 < 64" for a :: nat
  by simp_all

lemma sextets [simp]:
  "byte_of a div 4 < (64::nat)" "byte_of a mod 4 * 16 < (64::nat)"
  "byte_of a mod 4 * 16 + byte_of b div 16 < (64::nat)"
  "byte_of b mod 16 * 4 < (64::nat)" "byte_of b mod 16 * 4 + byte_of c div 64 < (64::nat)"
  "byte_of c mod 64 < (64::nat)"
  using div_bound [OF byte_lt, of a] div_bound [OF byte_lt, of b] div_bound [OF byte_lt, of c]
    mod_bound [of "byte_of a"] mod_bound [of "byte_of b"] mod_bound [of "byte_of c"]
  by linarith+

lemma b64_encode_bytes: "\<forall>c \<in> set (b64_encode s). b64_byte c"
  by (induction s rule: b64_encode.induct)
    (simp_all add: b64_byte_char [OF sextets(1)] b64_byte_char [OF sextets(2)]
      b64_byte_char [OF sextets(3)] b64_byte_char [OF sextets(4)] b64_byte_char [OF sextets(5)]
      b64_byte_char [OF sextets(6)] b64_byte_PAD)

lemma octets [simp]:
  "byte_of a div 4 * 4 + (byte_of a mod 4 * 16) div 16 = (byte_of a :: nat)"
  "byte_of a div 4 * 4 + (byte_of a mod 4 * 16 + byte_of b div 16) div 16 = (byte_of a :: nat)"
  "(byte_of a mod 4 * 16 + byte_of b div 16) mod 16 * 16 + (byte_of b mod 16 * 4) div 4
     = (byte_of b :: nat)"
  "(byte_of a mod 4 * 16 + byte_of b div 16) mod 16 * 16
     + (byte_of b mod 16 * 4 + byte_of c div 64) div 4 = (byte_of b :: nat)"
  "(byte_of b mod 16 * 4 + byte_of c div 64) mod 4 * 64 + byte_of c mod 64 = (byte_of c :: nat)"
proof -
  have b: "byte_of b div 16 < (16::nat)" and c: "byte_of c div 64 < (4::nat)"
    using div_bound [OF byte_lt] by blast+
  show "byte_of a div 4 * 4 + (byte_of a mod 4 * 16) div 16 = (byte_of a :: nat)"
    by simp
  show "byte_of a div 4 * 4 + (byte_of a mod 4 * 16 + byte_of b div 16) div 16 = (byte_of a :: nat)"
    using b by (simp only: split_digit div_mult_mod_eq)
  show "(byte_of a mod 4 * 16 + byte_of b div 16) mod 16 * 16 + (byte_of b mod 16 * 4) div 4
     = (byte_of b :: nat)"
    using b by (simp only: split_digit div_mult_mod_eq div_mult_self_is_m zero_less_numeral)
  show "(byte_of a mod 4 * 16 + byte_of b div 16) mod 16 * 16
     + (byte_of b mod 16 * 4 + byte_of c div 64) div 4 = (byte_of b :: nat)"
    using b c by (simp only: split_digit div_mult_mod_eq)
  show "(byte_of b mod 16 * 4 + byte_of c div 64) mod 4 * 64 + byte_of c mod 64
     = (byte_of c :: nat)"
    using c by (simp only: split_digit div_mult_mod_eq)
qed

lemmas b64_sextet_simps =
  b64_val_char [OF sextets(1)] b64_val_char [OF sextets(2)] b64_val_char [OF sextets(3)]
  b64_val_char [OF sextets(4)] b64_val_char [OF sextets(5)] b64_val_char [OF sextets(6)]
  b64_char_neq_PAD [OF sextets(4)] b64_char_neq_PAD [OF sextets(6)]

lemma b64_groups_encode: "b64_groups (b64_encode s) = Some s"
proof (induction s rule: b64_encode.induct)
  case (2 a)
  show ?case
    by (simp only: b64_encode.simps b64_groups.simps b64_sextet_simps octets char_of_char simp_thms
        if_True if_False prod.case option.case)
next
  case (3 a b)
  show ?case
    by (simp only: b64_encode.simps b64_groups.simps b64_sextet_simps octets char_of_char simp_thms
        if_True if_False prod.case option.case)
next
  case (4 a b c rest)
  show ?case
    by (simp only: b64_encode.simps b64_groups.simps b64_sextet_simps octets char_of_char simp_thms
        if_True if_False prod.case option.case "4.IH" option.map)
qed simp

lemma b64_decode_encode: "b64_decode (b64_encode s) = Some s"
proof -
  have "filter (\<lambda>c. c \<noteq> CHR 0x0D \<and> c \<noteq> LF) (b64_encode s) = b64_encode s"
    using b64_encode_bytes [of s] by (auto simp: filter_id_conv b64_byte_def)
  then show ?thesis by (simp add: b64_decode_def b64_groups_encode)
qed

interpretation b64: codec b64_encode b64_decode "\<lambda>_. True"
  by unfold_locales (rule b64_decode_encode)

lemma length_b64_encode: "length (b64_encode s) = 4 * ((length s + 2) div 3)"
proof (induction s rule: b64_encode.induct)
  case (4 a b c rest)
  have "length (a # b # c # rest) + 2 = length rest + 2 + 3" by simp
  then have "(length (a # b # c # rest) + 2) div 3 = (length rest + 2) div 3 + 1"
    by (simp only: div_add_self2)
  with 4 show ?case by simp
qed simp_all

end
