(* ===== verification/JsonText.thy ===== *)
theory JsonText
  imports GoText Base64
begin

text \<open>
  The lexical level of encoding/json: string literals and numbers. A literal is handled as its raw
  content (the bytes between the quotes), so that a value the program only passes on keeps its
  spelling. \<open>quote_lit\<close> writes the content of a literal the way the encoder does, \<open>unquote_lit\<close> reads
  it the way the decoder does, \<open>lex_str\<close> finds its end.
\<close>

abbreviation DQ :: char where "DQ \<equiv> CHR 0x22"
abbreviation BSL :: char where "BSL \<equiv> CHR 0x5C"

section \<open>Hexadecimal escapes\<close>

definition hexdig :: "nat \<Rightarrow> char" where
  "hexdig n = (if n < 10 then char_of (48 + n) else char_of (87 + n))"

definition hexval :: "char \<Rightarrow> nat option" where
  "hexval c =
     (let b = byte_of c in
      if 48 \<le> b \<and> b \<le> 57 then Some (b - 48)
      else if 97 \<le> b \<and> b \<le> 102 then Some (b - 87)
      else if 65 \<le> b \<and> b \<le> 70 then Some (b - 55)
      else None)"

lemma hexval_hexdig [simp]: "n < 16 \<Longrightarrow> hexval (hexdig n) = Some n"
  by (auto simp: hexval_def hexdig_def Let_def)

definition hex4 :: "nat \<Rightarrow> bytes" where
  "hex4 r = [hexdig (r div 4096 mod 16), hexdig (r div 256 mod 16), hexdig (r div 16 mod 16),
     hexdig (r mod 16)]"

fun getu4 :: "bytes \<Rightarrow> nat option" where
  "getu4 (a # b # c # d # rest) =
     (case (hexval a, hexval b, hexval c, hexval d) of
        (Some p, Some q, Some r, Some s) \<Rightarrow> Some (p * 4096 + q * 256 + r * 16 + s)
      | _ \<Rightarrow> None)"
| "getu4 _ = None"

lemma hex4_sum:
  fixes r :: nat
  assumes "r < 65536"
  shows "r div 4096 mod 16 * 4096 + r div 256 mod 16 * 256 + r div 16 mod 16 * 16 + r mod 16 = r"
proof -
  have e: "r div 256 = r div 16 div 16" "r div 4096 = r div 16 div 16 div 16"
    by (simp_all flip: div_mult2_eq)
  have "r div 16 div 16 div 16 < 16"
    using assms by (simp add: less_mult_imp_div_less flip: div_mult2_eq)
  then have "r div 16 div 16 div 16 mod 16 = r div 16 div 16 div 16"
    by (rule mod_less)
  then show ?thesis
    unfolding e
    using div_mult_mod_eq [of r 16] div_mult_mod_eq [of "r div 16" 16]
      div_mult_mod_eq [of "r div 16 div 16" 16]
    by linarith
qed

lemma getu4_hex4: "r < 65536 \<Longrightarrow> getu4 (hex4 r @ t) = Some r"
  using hex4_sum [of r] by (simp add: hex4_def)

section \<open>Writing a literal\<close>

definition u_esc :: "nat \<Rightarrow> bytes" where
  "u_esc r = BSL # CHR ''u'' # hex4 r"

definition html_char :: "char \<Rightarrow> bool" where
  "html_char c \<longleftrightarrow> c = CHR ''<'' \<or> c = CHR ''>'' \<or> c = CHR ''&''"

definition esc_ascii :: "bool \<Rightarrow> char \<Rightarrow> bytes" where
  "esc_ascii html c =
     (if c = DQ \<or> c = BSL then [BSL, c]
      else if c = CHR 0x08 then [BSL, CHR ''b'']
      else if c = CHR 0x0C then [BSL, CHR ''f'']
      else if c = CHR 0x0A then [BSL, CHR ''n'']
      else if c = CHR 0x0D then [BSL, CHR ''r'']
      else if c = CHR 0x09 then [BSL, CHR ''t'']
      else if byte_of c < (32::nat) \<or> (html \<and> html_char c) then u_esc (byte_of c)
      else [c])"

function quote_lit :: "bool \<Rightarrow> bytes \<Rightarrow> bytes" where
  "quote_lit html [] = []"
| "quote_lit html (c # cs) =
     (if byte_of c < (128::nat) then esc_ascii html c @ quote_lit html cs
      else case utf8_head (c # cs) of
             None \<Rightarrow> u_esc RuneError @ quote_lit html cs
           | Some (r, n) \<Rightarrow>
               (if r = 8232 \<or> r = 8233 then u_esc r else take n (c # cs))
                 @ quote_lit html (drop n (c # cs)))"
  by pat_completeness auto
termination
proof (relation "measure (\<lambda>(h, s). length s)", goal_cases)
  case (4 html c cs x r n)
  then show ?case using utf8_head_len [of "c # cs" r n] by simp
qed simp_all

section \<open>Reading a literal\<close>

definition is_surrogate :: "nat \<Rightarrow> bool" where
  "is_surrogate r \<longleftrightarrow> 55296 \<le> r \<and> r < 57344"

text \<open>\<open>utf16.DecodeRune\<close>; \<open>None\<close> stands for U+FFFD, which no pair encodes.\<close>

definition utf16_pair :: "nat \<Rightarrow> nat \<Rightarrow> nat option" where
  "utf16_pair r1 r2 =
     (if 55296 \<le> r1 \<and> r1 < 56320 \<and> 56320 \<le> r2 \<and> r2 < 57344
      then Some ((r1 - 55296) * 1024 + (r2 - 56320) + 65536) else None)"

definition simple_esc :: "char \<Rightarrow> char option" where
  "simple_esc e =
     (if e = DQ \<or> e = BSL \<or> e = CHR ''/'' then Some e
      else if e = CHR ''b'' then Some (CHR 0x08)
      else if e = CHR ''f'' then Some (CHR 0x0C)
      else if e = CHR ''n'' then Some (CHR 0x0A)
      else if e = CHR ''r'' then Some (CHR 0x0D)
      else if e = CHR ''t'' then Some (CHR 0x09)
      else None)"

text \<open>What a backslash introduces: the bytes it stands for and the text after it.\<close>

fun unesc :: "bytes \<Rightarrow> (bytes \<times> bytes) option" where
  "unesc [] = None"
| "unesc (e # cs) =
     (if e = CHR ''u'' then
        (case getu4 cs of
           None \<Rightarrow> None
         | Some r \<Rightarrow>
             (let rest = drop 4 cs in
              if is_surrogate r then
                (case (if take 2 rest = [BSL, CHR ''u''] then getu4 (drop 2 rest) else None) of
                   None \<Rightarrow> Some (encode_rune RuneError, rest)
                 | Some r2 \<Rightarrow>
                     (case utf16_pair r r2 of
                        Some rr \<Rightarrow> Some (encode_rune rr, drop 6 rest)
                      | None \<Rightarrow> Some (encode_rune RuneError, rest)))
              else Some (encode_rune r, rest)))
      else map_option (\<lambda>x. ([x], cs)) (simple_esc e))"

lemma unesc_len: "unesc s = Some (out, rest) \<Longrightarrow> length rest < length s"
  by (cases s) (auto simp: Let_def split: if_splits option.splits)

function unquote_lit :: "bytes \<Rightarrow> bytes option" where
  "unquote_lit [] = Some []"
| "unquote_lit (c # cs) =
     (if c = BSL then
        (case unesc cs of
           None \<Rightarrow> None
         | Some (out, rest) \<Rightarrow> map_option ((@) out) (unquote_lit rest))
      else if c = DQ \<or> byte_of c < (32::nat) then None
      else if byte_of c < (128::nat) then map_option ((#) c) (unquote_lit cs)
      else case utf8_head (c # cs) of
             None \<Rightarrow> map_option ((@) (encode_rune RuneError)) (unquote_lit cs)
           | Some (r, n) \<Rightarrow> map_option ((@) (take n (c # cs))) (unquote_lit (drop n (c # cs))))"
  by pat_completeness auto
termination
proof (relation "measure length", goal_cases)
  case (2 c cs x out rest)
  then show ?case using unesc_len [of cs out rest] by simp
next
  case (5 c cs x r n)
  then show ?case using utf8_head_len [of "c # cs" r n] by simp
qed simp_all

declare quote_lit.simps(2) [simp del] and unquote_lit.simps(2) [simp del]

subsection \<open>Reading back what was written\<close>

lemma unesc_u_esc:
  assumes "r < 65536" and "\<not> is_surrogate r"
  shows "unesc (CHR ''u'' # hex4 r @ t) = Some (encode_rune r, t)"
proof -
  have "drop 4 (hex4 r @ t) = t" by (simp add: hex4_def)
  then show ?thesis using assms by (simp add: getu4_hex4)
qed

lemma encode_rune_ascii: "r < 128 \<Longrightarrow> encode_rune r = [char_of r]"
  by (simp add: encode_rune_def)

lemma unquote_u_esc:
  assumes "r < 65536" and "\<not> is_surrogate r"
  shows "unquote_lit (u_esc r @ t) = map_option ((@) (encode_rune r)) (unquote_lit t)"
  using unesc_u_esc [OF assms, of t]
  by (simp add: u_esc_def unquote_lit.simps(2) del: unesc.simps)

lemma esc_ascii_cases:
  obtains (hex) "esc_ascii h c = u_esc (byte_of c)"
    | (self) "esc_ascii h c = [c]" "c \<noteq> BSL" "c \<noteq> DQ" "\<not> byte_of c < (32::nat)"
    | (short) e where "esc_ascii h c = [BSL, e]" "simple_esc e = Some c" "e \<noteq> CHR ''u''"
proof -
  consider "c = DQ" | "c = BSL" | "c = CHR 0x08" | "c = CHR 0x0C" | "c = CHR 0x0A" | "c = CHR 0x0D"
    | "c = CHR 0x09"
    | "c \<notin> {DQ, BSL, CHR 0x08, CHR 0x0C, CHR 0x0A, CHR 0x0D, CHR 0x09}"
    by blast
  then show thesis
  proof cases
    case 8
    then show thesis
      using hex self
      by (cases "byte_of c < (32::nat) \<or> (h \<and> html_char c)") (auto simp: esc_ascii_def)
  next
    case 1
    show thesis by (rule short [of DQ]) (simp_all add: 1 esc_ascii_def simple_esc_def)
  next
    case 2
    show thesis by (rule short [of BSL]) (simp_all add: 2 esc_ascii_def simple_esc_def)
  next
    case 3
    show thesis by (rule short [of "CHR ''b''"]) (simp_all add: 3 esc_ascii_def simple_esc_def)
  next
    case 4
    show thesis by (rule short [of "CHR ''f''"]) (simp_all add: 4 esc_ascii_def simple_esc_def)
  next
    case 5
    show thesis by (rule short [of "CHR ''n''"]) (simp_all add: 5 esc_ascii_def simple_esc_def)
  next
    case 6
    show thesis by (rule short [of "CHR ''r''"]) (simp_all add: 6 esc_ascii_def simple_esc_def)
  next
    case 7
    show thesis by (rule short [of "CHR ''t''"]) (simp_all add: 7 esc_ascii_def simple_esc_def)
  qed
qed

lemma unquote_esc_ascii:
  assumes "byte_of c < (128::nat)"
  shows "unquote_lit (esc_ascii h c @ t) = map_option ((#) c) (unquote_lit t)"
proof -
  have one: "(@) [c] = (#) c" by auto
  show ?thesis
  proof (cases h c rule: esc_ascii_cases)
    case hex
    then show ?thesis
      using assms unquote_u_esc [of "byte_of c" t] one
      by (simp add: is_surrogate_def encode_rune_ascii)
  next
    case self
    then show ?thesis using assms by (simp add: unquote_lit.simps(2))
  next
    case (short e)
    then show ?thesis using one by (simp add: unquote_lit.simps(2))
  qed
qed

lemma byte_eqD: "byte_of c = (n::nat) \<Longrightarrow> c = char_of n"
  by (metis char_of_char)

text \<open>The line and paragraph separators, which the encoder escapes, have one UTF-8 form each.\<close>

lemma three_digits:
  fixes x y z k :: nat
  assumes "x * 4096 + y * 64 + z = 8232 + k" and "k \<le> 1" and "y < 64" and "z < 64"
  shows "x = 2 \<and> y = 0 \<and> z = 40 + k"
proof -
  have x: "x = 2" using assms by linarith
  have y: "y = 0" using assms x by linarith
  show ?thesis using assms x y by simp
qed

lemma utf8_head_three:
  assumes "utf8_head (c # cs) = Some (r, n)" and "224 \<le> (byte_of c :: nat)"
    and "byte_of c < (240::nat)"
  obtains c1 c2 cs' where "cs = c1 # c2 # cs'" "n = 3"
    "128 \<le> (byte_of c1 :: nat)" "byte_of c1 \<le> (191::nat)"
    "128 \<le> (byte_of c2 :: nat)" "byte_of c2 \<le> (191::nat)"
    "r = (byte_of c - 224) * 4096 + (byte_of c1 - 128) * 64 + (byte_of c2 - 128)"
proof (cases cs)
  case Nil
  with assms show ?thesis by (simp add: utf8_head.simps(2))
next
  case (Cons c1 cs1)
  with assms that show ?thesis
    by (cases cs1) (auto simp: utf8_head.simps(2) Let_def cont_def split: if_splits)
qed

lemma utf8_head_separator:
  assumes "utf8_head s = Some (8232 + k, n)" and "k \<le> 1"
  shows "take n s = encode_rune (8232 + k)"
proof -
  obtain c cs where s: "s = c # cs" using utf8_head_len [OF assms(1)] by (cases s) auto
  have range: "224 \<le> (byte_of c :: nat)" "byte_of c < (240::nat)"
    using assms by (auto simp: s utf8_head.simps(2) Let_def cont_def split: if_splits list.splits)
  from utf8_head_three [OF assms(1) [unfolded s] range] obtain c1 c2 cs'
    where cs: "cs = c1 # c2 # cs'" and n: "n = 3"
      and b: "128 \<le> (byte_of c1 :: nat)" "byte_of c1 \<le> (191::nat)"
        "128 \<le> (byte_of c2 :: nat)" "byte_of c2 \<le> (191::nat)"
      and r: "8232 + k = (byte_of c - 224) * 4096 + (byte_of c1 - 128) * 64 + (byte_of c2 - 128)"
    by metis
  have "byte_of c1 - 128 < (64::nat)" "byte_of c2 - 128 < (64::nat)" using b by linarith+
  from three_digits [OF r [symmetric] assms(2) this]
  have "byte_of c = (226::nat)" "byte_of c1 = (128::nat)" "byte_of c2 = 168 + k"
    using b range by linarith+
  then have "c = char_of (226::nat)" "c1 = char_of (128::nat)" "c2 = char_of (168 + k)"
    by (blast intro: byte_eqD)+
  moreover have "k = 0 \<or> k = 1" using assms(2) by auto
  ultimately show ?thesis
    by (auto simp: s cs n encode_rune_def Let_def)
qed

lemma unquote_multi:
  assumes "utf8_head (c # cs) = Some (r, n)" and "\<not> byte_of c < (128::nat)"
  shows "unquote_lit (take n (c # cs) @ t) = map_option ((@) (take n (c # cs))) (unquote_lit t)"
proof -
  have n: "0 < n" "n \<le> length (c # cs)" using utf8_head_len [OF assms(1)] by auto
  then obtain xs where xs: "take n (c # cs) = c # xs" by (cases n) auto
  have l: "length (c # xs) = n" using n by (simp add: xs [symmetric] del: take_Suc_Cons)
  have "utf8_head (c # xs @ t) = Some (r, n)"
    using utf8_head_take [OF assms(1), of t] by (simp add: xs)
  moreover have "take n (c # xs @ t) = c # xs" "drop n (c # xs @ t) = t"
    using l by (simp_all flip: append_Cons)
  ultimately show ?thesis
    using assms(2) by (auto simp: xs unquote_lit.simps(2))
qed

theorem unquote_quote: "utf8_valid s \<Longrightarrow> unquote_lit (quote_lit h s) = Some s"
proof (induction h s rule: quote_lit.induct)
  case (2 h c cs)
  show ?case
  proof (cases "byte_of c < (128::nat)")
    case True
    with "2.prems" "2.IH"(1) show ?thesis
      by (simp add: quote_lit.simps(2) unquote_esc_ascii)
  next
    case False
    from "2.prems" obtain r n where hd: "utf8_head (c # cs) = Some (r, n)"
      and v: "utf8_valid (drop n (c # cs))"
      by (auto simp: utf8_valid.simps(2) split: option.splits)
    have IH: "unquote_lit (quote_lit h (drop n (c # cs))) = Some (drop n (c # cs))"
      by (rule "2.IH"(3) [OF False hd refl v])
    have "unquote_lit (u_esc r @ quote_lit h (drop n (c # cs))) = Some (c # cs)"
      if "r = 8232 \<or> r = 8233"
    proof -
      have "take n (c # cs) = encode_rune r"
        using that utf8_head_separator [of "c # cs" 0 n] utf8_head_separator [of "c # cs" 1 n] hd
        by auto
      then have "encode_rune r @ drop n (c # cs) = c # cs"
        by (metis append_take_drop_id)
      moreover have "r < 65536" "\<not> is_surrogate r" using that by (auto simp: is_surrogate_def)
      ultimately show ?thesis using IH by (simp add: unquote_u_esc)
    qed
    with False hd IH show ?thesis
      by (simp add: quote_lit.simps(2) unquote_multi append_take_drop_id)
  qed
qed simp

interpretation jstr: codec "quote_lit h" unquote_lit utf8_valid for h
  by unfold_locales (rule unquote_quote)

section \<open>Finding the end of a literal\<close>

definition hex_char :: "char \<Rightarrow> bool" where
  "hex_char c \<longleftrightarrow> hexval c \<noteq> None"

fun cons_raw :: "bytes \<Rightarrow> (bytes \<times> bytes) option \<Rightarrow> (bytes \<times> bytes) option" where
  "cons_raw p None = None"
| "cons_raw p (Some (raw, rest)) = Some (p @ raw, rest)"

lemma cons_raw_Nil [simp]: "cons_raw [] r = r"
  by (cases r) auto

lemma cons_raw_cons_raw [simp]: "cons_raw p (cons_raw q r) = cons_raw (p @ q) r"
  by (cases r) auto

lemma cons_raw_Some: "cons_raw p r = Some (raw, rest) \<longleftrightarrow>
    (\<exists>raw'. r = Some (raw', rest) \<and> raw = p @ raw')"
  by (cases r) auto

function lex_str :: "bytes \<Rightarrow> (bytes \<times> bytes) option" where
  "lex_str [] = None"
| "lex_str (c # cs) =
     (if c = DQ then Some ([], cs)
      else if c = BSL then
        (case cs of
           [] \<Rightarrow> None
         | e # cs' \<Rightarrow>
             if e = CHR ''u'' then
               (if 4 \<le> length cs' \<and> list_all hex_char (take 4 cs')
                then cons_raw (BSL # e # take 4 cs') (lex_str (drop 4 cs')) else None)
             else if simple_esc e \<noteq> None then cons_raw [BSL, e] (lex_str cs')
             else None)
      else if byte_of c < (32::nat) then None
      else cons_raw [c] (lex_str cs))"
  by pat_completeness auto
termination by (relation "measure length") auto

declare lex_str.simps(2) [simp del]

definition raw_ok :: "bytes \<Rightarrow> bool" where
  "raw_ok raw \<longleftrightarrow> lex_str (raw @ [DQ]) = Some (raw, [])"

lemma lex_str_extend: "lex_str s = Some (raw, rest) \<Longrightarrow> lex_str (s @ t) = Some (raw, rest @ t)"
proof (induction s arbitrary: raw rule: lex_str.induct)
  case (2 c cs)
  show ?case
  proof (cases "c = BSL")
    case True
    with "2.prems" obtain e cs' where cs: "cs = e # cs'"
      by (auto simp: lex_str.simps(2) split: list.splits)
    show ?thesis
    proof (cases "e = CHR ''u''")
      case u: True
      with "2.prems" True cs obtain raw' where l: "4 \<le> length cs'" "list_all hex_char (take 4 cs')"
        and r: "lex_str (drop 4 cs') = Some (raw', rest)" "raw = BSL # e # take 4 cs' @ raw'"
        by (auto simp: lex_str.simps(2) cons_raw_Some split: if_splits)
      have "lex_str (drop 4 cs' @ t) = Some (raw', rest @ t)"
        using "2.IH"(1) [OF _ True cs u _ r(1)] True l by simp
      with True cs u l r show ?thesis
        by (simp add: lex_str.simps(2))
    next
      case False
      with "2.prems" True cs obtain raw' where "simple_esc e \<noteq> None"
        and r: "lex_str cs' = Some (raw', rest)" "raw = BSL # e # raw'"
        by (auto simp: lex_str.simps(2) cons_raw_Some split: if_splits)
      moreover have "lex_str (cs' @ t) = Some (raw', rest @ t)"
        using "2.IH"(2) [OF _ True cs False _ r(1)] True \<open>simple_esc e \<noteq> None\<close> by simp
      ultimately show ?thesis using True False cs
        by (auto simp: lex_str.simps(2))
    qed
  next
    case False
    with "2.prems" "2.IH"(3) show ?thesis
      by (auto simp: lex_str.simps(2) cons_raw_Some split: if_splits)
  qed
qed simp

lemma lex_str_raw: "raw_ok raw \<Longrightarrow> lex_str (raw @ DQ # t) = Some (raw, t)"
  using lex_str_extend [of "raw @ [DQ]" raw "[]" t] by (simp add: raw_ok_def)

lemma hex_char_hexdig [simp]: "n < 16 \<Longrightarrow> hex_char (hexdig n)"
  by (simp add: hex_char_def)

lemma lex_str_u_esc: "lex_str (u_esc r @ t) = cons_raw (u_esc r) (lex_str t)"
proof -
  have "take 4 (hex4 r @ t) = hex4 r" "drop 4 (hex4 r @ t) = t" "4 \<le> length (hex4 r @ t)"
    "list_all hex_char (hex4 r)"
    by (simp_all add: hex4_def)
  then show ?thesis by (simp add: u_esc_def lex_str.simps(2))
qed

lemma lex_str_plain:
  assumes "\<forall>c \<in> set p. c \<noteq> DQ \<and> c \<noteq> BSL \<and> 32 \<le> (byte_of c :: nat)"
  shows "lex_str (p @ t) = cons_raw p (lex_str t)"
  using assms
proof (induction p)
  case (Cons c p)
  then show ?case
    by (auto simp: lex_str.simps(2))
qed (simp add:)

lemma lex_str_esc_ascii: "lex_str (esc_ascii h c @ t) = cons_raw (esc_ascii h c) (lex_str t)"
proof (cases h c rule: esc_ascii_cases)
  case hex
  then show ?thesis by (simp add: lex_str_u_esc)
next
  case self
  then show ?thesis using lex_str_plain [of "[c]"] by auto
next
  case (short e)
  then show ?thesis by (simp add: lex_str.simps(2))
qed

lemma lex_str_multi:
  assumes "utf8_head (c # cs) = Some (r, n)" and "\<not> byte_of c < (128::nat)"
  shows "lex_str (take n (c # cs) @ t) = cons_raw (take n (c # cs)) (lex_str t)"
proof (rule lex_str_plain)
  show "\<forall>x \<in> set (take n (c # cs)). x \<noteq> DQ \<and> x \<noteq> BSL \<and> 32 \<le> (byte_of x :: nat)"
    using utf8_head_multi [OF assms] by fastforce
qed

lemma lex_str_quote: "lex_str (quote_lit h s @ t) = cons_raw (quote_lit h s) (lex_str t)"
proof (induction h s rule: quote_lit.induct)
  case (2 h c cs)
  show ?case
  proof (cases "byte_of c < (128::nat)")
    case True
    with "2.IH"(1) show ?thesis by (simp add: quote_lit.simps(2) lex_str_esc_ascii)
  next
    case False
    note IH = "2.IH"(2,3) [OF False]
    show ?thesis
    proof (cases "utf8_head (c # cs)")
      case None
      with False IH(1) show ?thesis by (simp add: quote_lit.simps(2) lex_str_u_esc)
    next
      case (Some rn)
      then obtain r n where "utf8_head (c # cs) = Some (r, n)" by (cases rn) auto
      with False IH(2) [of "(r, n)" r n] show ?thesis
        by (simp add: quote_lit.simps(2) lex_str_u_esc lex_str_multi)
    qed
  qed
qed (simp add:)

lemma raw_ok_quote [simp]: "raw_ok (quote_lit h s)"
  by (simp add: raw_ok_def lex_str_quote) (simp add: lex_str.simps(2))

lemma raw_ok_plain:
  "\<forall>c \<in> set p. c \<noteq> DQ \<and> c \<noteq> BSL \<and> 32 \<le> (byte_of c :: nat) \<Longrightarrow> raw_ok p"
  by (simp add: raw_ok_def lex_str_plain) (simp add: lex_str.simps(2))

lemma raw_ok_b64 [simp]: "raw_ok (b64_encode s)"
  by (rule raw_ok_plain) (use b64_encode_bytes [of s] in \<open>auto simp: b64_byte_def\<close>)

subsection \<open>What a literal stands for is UTF-8\<close>

lemma utf8_two:
  assumes "128 \<le> r" "r < 2048"
  shows "utf8_head (char_of (192 + r div 64) # char_of (128 + r mod 64) # t) = Some (r, 2)"
proof -
  have a: "2 \<le> r div 64" "r div 64 < 32" "r mod 64 < 64" using assms by auto
  have "r div 64 * 64 + r mod 64 = r" by simp
  with a show ?thesis by (simp add: utf8_head.simps(2) cont_def Let_def)
qed

lemma utf8_three:
  assumes "2048 \<le> r" "r < 65536" "\<not> (55296 \<le> r \<and> r \<le> 57343)"
  shows "utf8_head (char_of (224 + r div 4096) # char_of (128 + r div 64 mod 64)
      # char_of (128 + r mod 64) # t) = Some (r, 3)"
proof -
  define a b c where abc: "a = r div 4096" "b = r div 64 mod 64" "c = r mod 64"
  have "r = a * 4096 + b * 64 + c"
  proof -
    have "r = r div 64 * 64 + r mod 64" by simp
    moreover have "r div 64 = r div 64 div 64 * 64 + r div 64 mod 64" by (rule div_mult_mod_eq [symmetric])
    moreover have "r div 64 div 64 = r div 4096" by (simp add: div_mult2_eq [symmetric])
    ultimately show ?thesis unfolding abc by linarith
  qed
  moreover have "a < 16" "b < 64" "c < 64" using assms by (auto simp: abc)
  ultimately show ?thesis
    using assms unfolding abc [symmetric]
    by (auto simp add: utf8_head.simps(2) cont_def Let_def)
qed

lemma utf8_four:
  assumes "65536 \<le> r" "r \<le> 1114111"
  shows "utf8_head (char_of (240 + r div 262144) # char_of (128 + r div 4096 mod 64)
      # char_of (128 + r div 64 mod 64) # char_of (128 + r mod 64) # t) = Some (r, 4)"
proof -
  define a b c e where abc: "a = r div 262144" "b = r div 4096 mod 64" "c = r div 64 mod 64" "e = r mod 64"
  have "r = a * 262144 + b * 4096 + c * 64 + e"
  proof -
    have "r = r div 64 * 64 + r mod 64" by simp
    moreover have "r div 64 = r div 64 div 64 * 64 + r div 64 mod 64" by (rule div_mult_mod_eq [symmetric])
    moreover have "r div 64 div 64 = r div 4096" by (simp add: div_mult2_eq [symmetric])
    moreover have "r div 4096 = r div 4096 div 64 * 64 + r div 4096 mod 64" by (rule div_mult_mod_eq [symmetric])
    moreover have "r div 4096 div 64 = r div 262144" by (simp add: div_mult2_eq [symmetric])
    ultimately show ?thesis unfolding abc by linarith
  qed
  moreover have "a < 5" "b < 64" "c < 64" "e < 64" using assms by (auto simp: abc)
  ultimately show ?thesis
    using assms unfolding abc [symmetric]
    by (auto simp add: utf8_head.simps(2) cont_def Let_def)
qed

lemma utf8_valid_encode_rune [simp]: "utf8_valid (encode_rune r @ t) = utf8_valid t"
proof -
  have h: "utf8_head (s @ t) = Some (x, length s) \<Longrightarrow> utf8_valid (s @ t) = utf8_valid t" for s x
    using utf8_valid_head_append [of "s @ t" x "length s" t] by simp
  define q where "q = (if (55296 \<le> r \<and> r \<le> 57343) \<or> 1114111 < r then RuneError else r)"
  have q: "q \<le> 1114111" "\<not> (55296 \<le> q \<and> q \<le> 57343)" by (auto simp: q_def RuneError_def)
  consider "q < 128" | "128 \<le> q" "q < 2048" | "2048 \<le> q" "q < 65536" | "65536 \<le> q" by linarith
  then have "utf8_head (encode_rune r @ t) = Some (q, length (encode_rune r))"
  proof cases
    case 1
    then show ?thesis unfolding encode_rune_def q_def [symmetric] Let_def by (simp add: utf8_head_ascii)
  next
    case 2
    then show ?thesis unfolding encode_rune_def q_def [symmetric] Let_def by (simp add: utf8_two)
  next
    case 3
    then show ?thesis using q unfolding encode_rune_def q_def [symmetric] Let_def by (simp add: utf8_three)
  next
    case 4
    then show ?thesis using q unfolding encode_rune_def q_def [symmetric] Let_def by (simp add: utf8_four)
  qed
  then show ?thesis by (rule h)
qed

lemma unesc_valid: "unesc s = Some (out, rest) \<Longrightarrow> utf8_valid (out @ t) = utf8_valid t"
  by (cases s)
    (auto simp: Let_def simple_esc_def split: if_splits option.splits)

lemma unquote_valid: "unquote_lit s = Some u \<Longrightarrow> utf8_valid u"
proof (induction s arbitrary: u rule: unquote_lit.induct)
  case (2 c cs)
  show ?case
  proof (cases "c = BSL")
    case True
    with "2.prems" obtain out rest u' where "unesc cs = Some (out, rest)" "unquote_lit rest = Some u'"
      "u = out @ u'" by (auto simp: unquote_lit.simps(2) split: option.splits)
    with "2.IH"(1) [OF True] True show ?thesis by (simp add: unesc_valid)
  next
    case False
    note nb = False
    show ?thesis
    proof (cases "byte_of c < (128::nat)")
      case True
      with "2.prems" nb obtain u' where "\<not> (c = DQ \<or> byte_of c < (32::nat))"
        "unquote_lit cs = Some u'" "u = c # u'"
        by (auto simp: unquote_lit.simps(2) split: if_splits)
      with "2.IH"(2) [OF nb _ True] True show ?thesis by simp
    next
      case False
      then have c: "\<not> (c = DQ \<or> byte_of c < (32::nat))" by auto
      show ?thesis
      proof (cases "utf8_head (c # cs)")
        case None
        with "2.prems" nb False c obtain u' where "unquote_lit cs = Some u'" "u = encode_rune RuneError @ u'"
          by (auto simp: unquote_lit.simps(2))
        with "2.IH"(3) [OF nb c False None] show ?thesis by simp
      next
        case (Some p)
        obtain r n where p: "p = (r, n)" by (cases p)
        with Some "2.prems" nb False c obtain u' where "unquote_lit (drop n (c # cs)) = Some u'"
          "u = take n (c # cs) @ u'"
          by (auto simp: unquote_lit.simps(2))
        with "2.IH"(4) [OF nb c False Some p [symmetric]] Some p show ?thesis
          using utf8_valid_head_append [of "c # cs" r n u'] by simp
      qed
    qed
  qed
qed simp

end
