(* ===== verification/Json.thy ===== *)
theory Json
  imports JsonText
begin

text \<open>
  encoding/json: documents as syntax trees whose string literals and numbers keep their spelling, the
  compact form the encoder writes, and the scanner as a stack machine over tokens. The scanner
  accepts exactly one document and at most 10000 nested arrays and objects, like Go's.
\<close>

section \<open>Numbers\<close>

definition is_digit :: "char \<Rightarrow> bool" where
  "is_digit c \<longleftrightarrow> 48 \<le> (byte_of c :: nat) \<and> byte_of c \<le> (57::nat)"

definition num_char :: "char \<Rightarrow> bool" where
  "num_char c \<longleftrightarrow> is_digit c \<or> c \<in> set ''+-.eE''"

definition num_exp :: "bytes \<Rightarrow> bool" where
  "num_exp s = (case s of [] \<Rightarrow> True | c # r \<Rightarrow>
     (c = CHR ''e'' \<or> c = CHR ''E'') \<and>
     (let r' = (if r \<noteq> [] \<and> (hd r = CHR ''+'' \<or> hd r = CHR ''-'') then tl r else r)
      in r' \<noteq> [] \<and> list_all is_digit r'))"

definition num_frac :: "bytes \<Rightarrow> bool" where
  "num_frac s = (case s of [] \<Rightarrow> True | c # r \<Rightarrow>
     if c = CHR ''.'' then r \<noteq> [] \<and> is_digit (hd r) \<and> num_exp (dropWhile is_digit r)
     else num_exp s)"

definition valid_num :: "bytes \<Rightarrow> bool" where
  "valid_num s =
     (case (if s \<noteq> [] \<and> hd s = CHR ''-'' then tl s else s) of
        [] \<Rightarrow> False
      | c # r \<Rightarrow>
          if c = CHR ''0'' then num_frac r
          else is_digit c \<and> num_frac (dropWhile is_digit r))"

text \<open>Decimal integers: \<open>strconv.FormatInt\<close> and \<open>strconv.ParseInt\<close> in base 10, 64 bits.\<close>

fun dec_nat :: "nat \<Rightarrow> bytes" where
  "dec_nat n = (if n < 10 then [char_of (48 + n)] else dec_nat (n div 10) @ [char_of (48 + n mod 10)])"

declare dec_nat.simps [simp del]

definition print_int :: "int \<Rightarrow> bytes" where
  "print_int i = (if i < 0 then CHR ''-'' # dec_nat (nat (- i)) else dec_nat (nat i))"

definition read_nat :: "bytes \<Rightarrow> nat" where
  "read_nat ds = foldl (\<lambda>a c. a * 10 + (byte_of c - 48)) 0 ds"

definition int64_range :: "int \<Rightarrow> bool" where
  "int64_range i \<longleftrightarrow> - (2 ^ 63) \<le> i \<and> i < 2 ^ 63"

definition parse_int64 :: "bytes \<Rightarrow> int option" where
  "parse_int64 s =
     (let neg = (s \<noteq> [] \<and> hd s = CHR ''-'');
          ds = (if s \<noteq> [] \<and> (hd s = CHR ''-'' \<or> hd s = CHR ''+'') then tl s else s);
          i = (if neg then - int (read_nat ds) else int (read_nat ds))
      in if ds \<noteq> [] \<and> list_all is_digit ds \<and> int64_range i then Some i else None)"

lemma digit_char [simp]: "n < 10 \<Longrightarrow> is_digit (char_of (48 + n))" for n :: nat
  by (simp add: is_digit_def)

lemma dec_nat_digits: "list_all is_digit (dec_nat n)"
proof (induction n rule: dec_nat.induct)
  case (1 n)
  then show ?case by (subst dec_nat.simps) simp
qed

lemma dec_nat_nonempty [simp]: "dec_nat n \<noteq> []"
  by (subst dec_nat.simps) simp

lemma read_nat_dec [simp]: "read_nat (dec_nat n) = n"
proof (induction n rule: dec_nat.induct)
  case (1 n)
  then show ?case by (subst dec_nat.simps) (auto simp: read_nat_def)
qed

lemma dec_nat_hd: "hd (dec_nat n) = CHR ''0'' \<Longrightarrow> n = 0"
proof (induction n rule: dec_nat.induct)
  case (1 n)
  show ?case
  proof (cases "n < 10")
    case True
    with "1.prems" have "char_of (48 + n) = CHR ''0''" by (subst (asm) dec_nat.simps) simp
    then have "byte_of (char_of (48 + n)) = (byte_of (CHR ''0'') :: nat)" by (rule arg_cong)
    with True show ?thesis by simp
  next
    case False
    with "1" have "n div 10 = 0" by (subst (asm) dec_nat.simps) (simp add: hd_append)
    with False show ?thesis by simp
  qed
qed

lemma digit_not_sign: "is_digit c \<Longrightarrow> c \<noteq> CHR ''-'' \<and> c \<noteq> CHR ''+'' \<and> num_char c"
  by (auto simp: is_digit_def num_char_def)

lemma hd_dec_nat: "is_digit (hd (dec_nat n))"
  using dec_nat_digits [of n] by (cases "dec_nat n") auto

lemma num_frac_Nil [simp]: "num_frac []"
  by (simp add: num_frac_def)

lemma valid_num_dec: "valid_num (dec_nat n)"
proof (cases "dec_nat n")
  case (Cons c r)
  have c: "is_digit c" and r: "list_all is_digit r"
    using dec_nat_digits [of n] by (simp_all add: Cons)
  show ?thesis
  proof (cases "c = CHR ''0''")
    case True
    then have "n = 0" using dec_nat_hd [of n] by (simp add: Cons)
    then have "r = []" using Cons by (subst (asm) dec_nat.simps) simp
    with True Cons show ?thesis by (simp add: valid_num_def)
  next
    case False
    have "dropWhile is_digit r = []" using r by (simp add: list_all_iff)
    then have "num_frac (dropWhile is_digit r)" by (simp only: num_frac_Nil)
    with False c digit_not_sign [OF c] show ?thesis by (simp add: valid_num_def Cons)
  qed
qed simp

lemma valid_num_print: "valid_num (print_int i)"
proof (cases "i < 0")
  case True
  have "valid_num (dec_nat m) \<Longrightarrow> valid_num (CHR ''-'' # dec_nat m)" for m
    using digit_not_sign [OF hd_dec_nat [of m]] by (simp add: valid_num_def)
  with True show ?thesis by (simp add: print_int_def valid_num_dec)
qed (simp add: print_int_def valid_num_dec)

lemma parse_print_int: "int64_range i \<Longrightarrow> parse_int64 (print_int i) = Some i"
  using digit_not_sign [OF hd_dec_nat [of "nat i"]]
  by (auto simp: parse_int64_def print_int_def dec_nat_digits Let_def)

interpretation jint: codec print_int parse_int64 int64_range
  by unfold_locales (rule parse_print_int)

section \<open>Documents\<close>

datatype json = JNull | JBool bool | JNum bytes | JStr bytes | JArr "json list"
  | JObj "(bytes \<times> json) list"

fun json_ok :: "json \<Rightarrow> bool" where
  "json_ok (JNum s) \<longleftrightarrow> valid_num s \<and> list_all num_char s"
| "json_ok (JStr raw) \<longleftrightarrow> raw_ok raw"
| "json_ok (JArr js) \<longleftrightarrow> (\<forall>j \<in> set js. json_ok j)"
| "json_ok (JObj ms) \<longleftrightarrow> (\<forall>(k, j) \<in> set ms. raw_ok k \<and> json_ok j)"
| "json_ok _ \<longleftrightarrow> True"

fun max_list :: "nat list \<Rightarrow> nat" where
  "max_list [] = 0"
| "max_list (n # ns) = max n (max_list ns)"

fun json_depth :: "json \<Rightarrow> nat" where
  "json_depth (JArr js) = Suc (max_list (map json_depth js))"
| "json_depth (JObj ms) = Suc (max_list (map (\<lambda>(k, j). json_depth j) ms))"
| "json_depth _ = 0"

datatype tok = TLBrace | TRBrace | TLBrack | TRBrack | TColon | TComma
  | TStr bytes | TNum bytes | TTrue | TFalse | TNull

text \<open>The compact form, as tokens and as text.\<close>

fun join_tok :: "tok list list \<Rightarrow> tok list" where
  "join_tok [] = []"
| "join_tok [x] = x"
| "join_tok (x # y # ys) = x @ TComma # join_tok (y # ys)"

fun toks :: "json \<Rightarrow> tok list" where
  "toks JNull = [TNull]"
| "toks (JBool b) = [if b then TTrue else TFalse]"
| "toks (JNum s) = [TNum s]"
| "toks (JStr raw) = [TStr raw]"
| "toks (JArr js) = TLBrack # join_tok (map toks js) @ [TRBrack]"
| "toks (JObj ms) = TLBrace # join_tok (map (\<lambda>(k, j). TStr k # TColon # toks j) ms) @ [TRBrace]"

fun tok_text :: "tok \<Rightarrow> bytes" where
  "tok_text TLBrace = ''{''"
| "tok_text TRBrace = ''}''"
| "tok_text TLBrack = ''[''"
| "tok_text TRBrack = '']''"
| "tok_text TColon = '':''"
| "tok_text TComma = '',''"
| "tok_text (TStr raw) = DQ # raw @ [DQ]"
| "tok_text (TNum s) = s"
| "tok_text TTrue = ''true''"
| "tok_text TFalse = ''false''"
| "tok_text TNull = ''null''"

definition print_json :: "json \<Rightarrow> bytes" where
  "print_json j = concat (map tok_text (toks j))"

section \<open>The scanner\<close>

definition is_ws :: "char \<Rightarrow> bool" where
  "is_ws c \<longleftrightarrow> c = CHR '' '' \<or> c = CHR 0x09 \<or> c = CHR 0x0A \<or> c = CHR 0x0D"

definition punct :: "char \<Rightarrow> tok option" where
  "punct c =
     (if c = CHR ''{'' then Some TLBrace else if c = CHR ''}'' then Some TRBrace
      else if c = CHR ''['' then Some TLBrack else if c = CHR '']'' then Some TRBrack
      else if c = CHR '':'' then Some TColon else if c = CHR '','' then Some TComma else None)"

definition word_at :: "bytes \<Rightarrow> tok option" where
  "word_at s =
     (if take 4 s = ''true'' then Some TTrue
      else if take 5 s = ''false'' then Some TFalse
      else if take 4 s = ''null'' then Some TNull else None)"

text \<open>One token at the head of a text that does not start with white space.\<close>

definition next_tok :: "bytes \<Rightarrow> (tok \<times> bytes) option" where
  "next_tok s =
     (case s of
        [] \<Rightarrow> None
      | c # cs \<Rightarrow>
          (case punct c of
             Some t \<Rightarrow> Some (t, cs)
           | None \<Rightarrow>
               if c = DQ then map_option (\<lambda>(raw, rest). (TStr raw, rest)) (lex_str cs)
               else if num_char c then
                 (if valid_num (takeWhile num_char s)
                  then Some (TNum (takeWhile num_char s), dropWhile num_char s) else None)
               else map_option (\<lambda>t. (t, drop (length (tok_text t)) s)) (word_at s)))"

lemma lex_str_split: "lex_str s = Some (raw, rest) \<Longrightarrow> s = raw @ DQ # rest"
proof (induction s arbitrary: raw rule: lex_str.induct)
  case (2 c cs)
  show ?case
  proof (cases "c = BSL")
    case True
    with "2.prems" obtain e cs' where cs: "cs = e # cs'"
      by (auto simp: lex_str.simps(2) split: list.splits)
    show ?thesis
    proof (cases "e = CHR ''u''")
      case u: True
      with "2.prems" True cs obtain raw' where l: "4 \<le> length cs'" "list_all hex_char (take 4 cs')"
        and r: "lex_str (drop 4 cs') = Some (raw', rest)" "raw = BSL # e # take 4 cs' @ raw'"
        by (auto simp: lex_str.simps(2) cons_raw_Some split: if_splits)
      have "drop 4 cs' = raw' @ DQ # rest"
        using "2.IH"(1) [OF _ True cs u _ r(1)] True l by simp
      then have "cs' = take 4 cs' @ raw' @ DQ # rest" by (metis append_take_drop_id)
      with True cs r(2) show ?thesis by simp
    next
      case False
      with "2.prems" True cs obtain raw' where e: "simple_esc e \<noteq> None"
        and r: "lex_str cs' = Some (raw', rest)" "raw = BSL # e # raw'"
        by (auto simp: lex_str.simps(2) cons_raw_Some split: if_splits)
      have "cs' = raw' @ DQ # rest"
        using "2.IH"(2) [OF _ True cs False _ r(1)] True e by simp
      with True cs r(2) show ?thesis by simp
    qed
  next
    case False
    with "2.prems" "2.IH"(3) show ?thesis
      by (auto simp: lex_str.simps(2) cons_raw_Some split: if_splits)
  qed
qed simp

lemma lex_str_len: "lex_str s = Some (raw, rest) \<Longrightarrow> length rest < length s"
  by (drule lex_str_split) simp

lemma next_tok_len: "next_tok s = Some (t, rest) \<Longrightarrow> length rest < length s"
proof (cases s)
  case (Cons c cs)
  assume t: "next_tok s = Some (t, rest)"
  have "length (dropWhile num_char cs) \<le> length cs" by (rule length_dropWhile_le)
  moreover have "word_at s = Some t \<Longrightarrow> 0 < length (tok_text t)" for t
    by (auto simp: word_at_def split: if_splits)
  ultimately show ?thesis
    using t Cons
    by (auto simp: next_tok_def dest!: lex_str_len split: option.splits if_splits)
qed (simp add: next_tok_def)

function lex :: "bytes \<Rightarrow> tok list option" where
  "lex [] = Some []"
| "lex (c # cs) =
     (if is_ws c then lex cs
      else case next_tok (c # cs) of
             None \<Rightarrow> None
           | Some (t, rest) \<Rightarrow> map_option ((#) t) (lex rest))"
  by pat_completeness auto
termination
proof (relation "measure length", goal_cases)
  case (3 c cs x t rest)
  then show ?case using next_tok_len [of "c # cs" t rest] by simp
qed simp_all

declare lex.simps(2) [simp del]

text \<open>
  The grammar as a stack machine, one token at a time. A frame is an array with the elements read so
  far, or an object with the members read so far; \<open>FKey\<close> is an object waiting for the value of a key.
\<close>

datatype frame = FArr "json list" | FObj "(bytes \<times> json) list" | FKey "(bytes \<times> json) list" bytes

datatype phase = PVal | PArr0 | PObj0 | PKey | PColon bytes | PNext | PDone json

definition MaxDepth :: nat where "MaxDepth = 10000"

fun complete :: "frame list \<Rightarrow> json \<Rightarrow> frame list \<times> phase" where
  "complete [] j = ([], PDone j)"
| "complete (FArr es # fs) j = (FArr (j # es) # fs, PNext)"
| "complete (FKey ms k # fs) j = (FObj ((k, j) # ms) # fs, PNext)"
| "complete (FObj ms # fs) j = (FObj ms # fs, PNext)"

fun start_val :: "frame list \<Rightarrow> tok \<Rightarrow> (frame list \<times> phase) option" where
  "start_val fs TNull = Some (complete fs JNull)"
| "start_val fs TTrue = Some (complete fs (JBool True))"
| "start_val fs TFalse = Some (complete fs (JBool False))"
| "start_val fs (TNum s) = Some (complete fs (JNum s))"
| "start_val fs (TStr raw) = Some (complete fs (JStr raw))"
| "start_val fs TLBrack = (if length fs < MaxDepth then Some (FArr [] # fs, PArr0) else None)"
| "start_val fs TLBrace = (if length fs < MaxDepth then Some (FObj [] # fs, PObj0) else None)"
| "start_val fs _ = None"

definition pstep :: "frame list \<times> phase \<Rightarrow> tok \<Rightarrow> (frame list \<times> phase) option" where
  "pstep st t =
     (case st of (fs, ph) \<Rightarrow>
        (case ph of
           PVal \<Rightarrow> start_val fs t
         | PArr0 \<Rightarrow>
             if t = TRBrack then
               (case fs of FArr es # fs' \<Rightarrow> Some (complete fs' (JArr (rev es))) | _ \<Rightarrow> None)
             else start_val fs t
         | PObj0 \<Rightarrow>
             if t = TRBrace then
               (case fs of FObj ms # fs' \<Rightarrow> Some (complete fs' (JObj (rev ms))) | _ \<Rightarrow> None)
             else (case t of TStr k \<Rightarrow> Some (fs, PColon k) | _ \<Rightarrow> None)
         | PKey \<Rightarrow> (case t of TStr k \<Rightarrow> Some (fs, PColon k) | _ \<Rightarrow> None)
         | PColon k \<Rightarrow>
             if t = TColon then
               (case fs of FObj ms # fs' \<Rightarrow> Some (FKey ms k # fs', PVal) | _ \<Rightarrow> None)
             else None
         | PNext \<Rightarrow>
             (case fs of
                FArr es # fs' \<Rightarrow>
                  if t = TComma then Some (fs, PVal)
                  else if t = TRBrack then Some (complete fs' (JArr (rev es)))
                  else None
              | FObj ms # fs' \<Rightarrow>
                  if t = TComma then Some (fs, PKey)
                  else if t = TRBrace then Some (complete fs' (JObj (rev ms)))
                  else None
              | _ \<Rightarrow> None)
         | PDone j \<Rightarrow> None))"

fun run_toks :: "tok list \<Rightarrow> frame list \<times> phase \<Rightarrow> (frame list \<times> phase) option" where
  "run_toks [] st = Some st"
| "run_toks (t # ts) st = Option.bind (pstep st t) (run_toks ts)"

definition parse_json :: "bytes \<Rightarrow> json option" where
  "parse_json s =
     (case lex s of
        None \<Rightarrow> None
      | Some ts \<Rightarrow> (case run_toks ts ([], PVal) of Some (_, PDone j) \<Rightarrow> Some j | _ \<Rightarrow> None))"

section \<open>Parsing what was printed\<close>

subsection \<open>Tokens\<close>

fun tok_ok :: "tok \<Rightarrow> bool" where
  "tok_ok (TStr raw) \<longleftrightarrow> raw_ok raw"
| "tok_ok (TNum s) \<longleftrightarrow> valid_num s \<and> list_all num_char s"
| "tok_ok _ \<longleftrightarrow> True"

fun is_TNum :: "tok \<Rightarrow> bool" where
  "is_TNum (TNum s) \<longleftrightarrow> True"
| "is_TNum _ \<longleftrightarrow> False"

definition apart :: "tok \<Rightarrow> tok \<Rightarrow> bool" where
  "apart a b \<longleftrightarrow> \<not> (is_TNum a \<and> is_TNum b)"

lemma apart_simps [simp]:
  "apart TComma b" "apart a TComma" "apart TLBrack b" "apart a TLBrack" "apart TLBrace b"
  "apart a TLBrace" "apart TRBrack b" "apart a TRBrack" "apart TRBrace b" "apart a TRBrace"
  "apart TColon b" "apart a TColon" "apart (TStr r) b" "apart a (TStr r)"
  by (simp_all add: apart_def)

lemma valid_num_nonempty [simp]: "valid_num s \<Longrightarrow> s \<noteq> []"
  by (auto simp: valid_num_def)

lemma punct_None: "c \<notin> set ''{}[]:,'' \<Longrightarrow> punct c = None"
  by (simp add: punct_def)

lemma num_char_cases:
  assumes "num_char c"
  shows "\<not> is_ws c \<and> punct c = None \<and> c \<noteq> DQ"
proof -
  have "\<not> num_char x" if "x \<in> set (''{}[]:, '' @ [CHR 0x09, CHR 0x0A, CHR 0x0D, DQ])" for x
    using that by (auto simp: num_char_def is_digit_def)
  with assms have "c \<notin> set (''{}[]:, '' @ [CHR 0x09, CHR 0x0A, CHR 0x0D, DQ])" by blast
  then show ?thesis by (simp add: is_ws_def punct_None)
qed

lemma span_num:
  assumes "list_all P s" and "rest = [] \<or> \<not> P (hd rest)"
  shows "takeWhile P (s @ rest) = s \<and> dropWhile P (s @ rest) = rest"
  using assms by (induction s) (auto simp: takeWhile_eq_Nil_iff dropWhile_eq_self_iff)

lemma tok_text_hd:
  "tok_ok t \<Longrightarrow> \<not> is_TNum t \<Longrightarrow> tok_text t \<noteq> [] \<and> \<not> num_char (hd (tok_text t))"
  by (cases t) (simp_all add: num_char_def is_digit_def)

lemma next_tok_text:
  assumes "tok_ok t" and "is_TNum t \<longrightarrow> rest = [] \<or> \<not> num_char (hd rest)"
  shows "next_tok (tok_text t @ rest) = Some (t, rest) \<and> \<not> is_ws (hd (tok_text t))
    \<and> tok_text t \<noteq> []"
proof (cases t)
  case (TNum s)
  with assms have s: "s \<noteq> []" "\<forall>c \<in> set s. num_char c" "valid_num s"
    by (auto simp: list_all_iff)
  then obtain c cs where c: "s = c # cs" "num_char c" by (cases s) auto
  have "takeWhile num_char (s @ rest) = s" "dropWhile num_char (s @ rest) = rest"
    using assms TNum span_num [of num_char s rest] by simp_all
  with s c TNum show ?thesis
    using num_char_cases [OF c(2)] by (simp add: next_tok_def)
next
  case (TStr raw)
  with assms show ?thesis
    by (simp add: next_tok_def punct_def is_ws_def lex_str_raw)
qed (simp_all add: next_tok_def punct_def is_ws_def word_at_def num_char_def is_digit_def)

lemma lex_toks:
  assumes "\<forall>t \<in> set ts. tok_ok t" and "successively apart ts" and "list_all is_ws ws"
  shows "lex (concat (map tok_text ts) @ ws) = Some ts"
  using assms
proof (induction ts)
  case Nil
  then show ?case by (induction ws) (simp_all add: lex.simps(2))
next
  case (Cons t ts)
  have "is_TNum t \<longrightarrow> concat (map tok_text ts) @ ws = []
      \<or> \<not> num_char (hd (concat (map tok_text ts) @ ws))"
  proof (cases ts)
    case c: (Cons u us)
    with Cons.prems have "tok_ok u" "apart t u" by auto
    then show ?thesis using tok_text_hd [of u] by (auto simp: c apart_def)
  next
    case Nil
    then show ?thesis using Cons.prems(3) num_char_cases by (cases ws) auto
  qed
  from next_tok_text [OF _ this] Cons.prems(1)
  have n: "next_tok (tok_text t @ concat (map tok_text ts) @ ws) = Some (t, concat (map tok_text ts) @ ws)"
    and w: "\<not> is_ws (hd (tok_text t))" and ne: "tok_text t \<noteq> []"
    by auto
  from ne obtain c cs where t: "tok_text t = c # cs" by (cases "tok_text t") auto
  have "lex (concat (map tok_text ts) @ ws) = Some ts"
    using Cons by (cases ts) auto
  with n w t show ?case by (simp add: lex.simps(2))
qed

lemma toks_nonempty [simp]: "toks j \<noteq> []"
  by (cases j) auto

lemma set_join_tok: "set (join_tok xss) \<subseteq> insert TComma (\<Union> (set (map set xss)))"
  by (induction xss rule: join_tok.induct) auto

lemma successively_join:
  assumes "\<forall>x \<in> set xss. successively apart x \<and> x \<noteq> []"
  shows "successively apart (join_tok xss)"
  using assms
proof (induction xss rule: join_tok.induct)
  case (3 x y ys)
  then have "successively apart (TComma # join_tok (y # ys))"
    by (cases "join_tok (y # ys)") auto
  with 3 show ?case by (auto simp: successively_append_iff)
qed simp_all

lemma toks_ok: "json_ok j \<Longrightarrow> \<forall>t \<in> set (toks j). tok_ok t"
proof (induction j)
  case (JArr js)
  then show ?case using set_join_tok [of "map toks js"] by fastforce
next
  case (JObj ms)
  have "tok_ok t" if "t \<in> set (join_tok (map (\<lambda>(k, j). TStr k # TColon # toks j) ms))" for t
  proof -
    from that set_join_tok have "t = TComma \<or>
        (\<exists>p \<in> set ms. t \<in> set ((\<lambda>(k, j). TStr k # TColon # toks j) p))"
      by fastforce
    then show ?thesis using JObj by fastforce
  qed
  then show ?case by auto
qed auto

lemma successively_wrap:
  assumes "successively apart ts" and "\<And>x. apart a x" and "\<And>x. apart x b"
  shows "successively apart (a # ts @ [b])"
proof -
  have "successively apart (a # ts)" using assms(1,2) by (cases ts) auto
  then have "successively apart ((a # ts) @ [b])"
    using assms(3) by (simp only: successively_append_iff) simp
  then show ?thesis by simp
qed

lemma toks_apart: "successively apart (toks j)"
proof (induction j)
  case (JArr js)
  then have "successively apart (join_tok (map toks js))"
    by (intro successively_join) auto
  then show ?case by (simp add: successively_wrap)
next
  case (JObj ms)
  have one: "successively apart (TStr k # TColon # toks j)" if "(k, j) \<in> set ms" for k j
  proof -
    have "successively apart (toks j)" using JObj that by fastforce
    then show ?thesis by (cases "toks j") auto
  qed
  then have "successively apart (join_tok (map (\<lambda>(k, j). TStr k # TColon # toks j) ms))"
    by (intro successively_join) auto
  then show ?case by (simp add: successively_wrap)
qed auto

lemma lex_print: "json_ok j \<Longrightarrow> list_all is_ws ws \<Longrightarrow> lex (print_json j @ ws) = Some (toks j)"
  unfolding print_json_def by (intro lex_toks toks_ok toks_apart)

subsection \<open>The machine\<close>

lemma max_list_mem: "n \<in> set ns \<Longrightarrow> n \<le> max_list ns"
  by (induction ns) auto

text \<open>\<open>reads fs j\<close>: above these frames the machine reads the tokens of \<open>j\<close> as the value \<open>j\<close>.\<close>

definition reads :: "frame list \<Rightarrow> json \<Rightarrow> bool" where
  "reads fs j \<longleftrightarrow> (\<forall>ph rest. ph = PVal \<or> ph = PArr0 \<longrightarrow>
     run_toks (toks j @ rest) (fs, ph) = run_toks rest (complete fs j))"

lemma readsD: "reads fs j \<Longrightarrow> ph = PVal \<or> ph = PArr0 \<Longrightarrow>
    run_toks (toks j @ rest) (fs, ph) = run_toks rest (complete fs j)"
  unfolding reads_def by blast

lemma readsI: "(\<And>ph rest. ph = PVal \<or> ph = PArr0 \<Longrightarrow>
    run_toks (toks j @ rest) (fs, ph) = run_toks rest (complete fs j)) \<Longrightarrow> reads fs j"
  unfolding reads_def by blast

lemma run_elems:
  assumes "js \<noteq> []" and "\<And>j es. j \<in> set js \<Longrightarrow> reads (FArr es # fs) j" and "ph = PVal \<or> ph = PArr0"
  shows "run_toks (join_tok (map toks js) @ TRBrack # rest) (FArr es # fs, ph)
    = run_toks rest (complete fs (JArr (rev es @ js)))"
  using assms
proof (induction js arbitrary: es ph)
  case (Cons j js)
  have r: "reads (FArr es # fs) j" using Cons.prems(2) by simp
  show ?case
  proof (cases js)
    case Nil
    then show ?thesis using readsD [OF r Cons.prems(3)] by (simp add: pstep_def)
  next
    case (Cons j' js')
    then have "run_toks (join_tok (map toks js) @ TRBrack # rest) (FArr (j # es) # fs, PVal)
        = run_toks rest (complete fs (JArr (rev (j # es) @ js)))"
      using Cons.IH [of PVal "j # es"] Cons.prems(2) by simp
    then show ?thesis
      using readsD [OF r Cons.prems(3)] by (simp add: Cons pstep_def)
  qed
qed simp

lemma run_members:
  assumes "ms \<noteq> []" and "\<And>k j ms'. (k, j) \<in> set ms \<Longrightarrow> reads (FKey ms' k # fs) j"
    and "ph = PKey \<or> ph = PObj0"
  shows "run_toks (join_tok (map (\<lambda>(k, j). TStr k # TColon # toks j) ms) @ TRBrace # rest)
      (FObj acc # fs, ph) = run_toks rest (complete fs (JObj (rev acc @ ms)))"
  using assms
proof (induction ms arbitrary: acc ph)
  case (Cons m ms)
  obtain k j where m: "m = (k, j)" by (cases m)
  have r: "reads (FKey acc k # fs) j" using Cons.prems(2) by (simp add: m)
  have step: "run_toks (TStr k # TColon # toks j @ rest') (FObj acc # fs, ph)
      = run_toks rest' (FObj ((k, j) # acc) # fs, PNext)" for rest'
    using Cons.prems(3) readsD [OF r, of PVal rest'] by (auto simp: pstep_def)
  show ?case
  proof (cases ms)
    case Nil
    then show ?thesis using step by (simp add: m pstep_def)
  next
    case (Cons m' ms')
    have "run_toks (join_tok (map (\<lambda>(k, j). TStr k # TColon # toks j) ms) @ TRBrace # rest)
        (FObj ((k, j) # acc) # fs, PKey) = run_toks rest (complete fs (JObj (rev ((k, j) # acc) @ ms)))"
      using Cons.IH [of PKey "(k, j) # acc"] Cons.prems(2) Cons by simp
    then show ?thesis
      using step by (simp add: Cons m pstep_def)
  qed
qed simp

lemma machine_reads: "json_depth j + length fs \<le> MaxDepth \<Longrightarrow> reads fs j"
proof (induction j arbitrary: fs)
  case (JArr js)
  have d: "length fs < MaxDepth" using JArr.prems by simp
  have "reads (FArr es # fs) j" if "j \<in> set js" for j es
    using JArr.IH [OF that] JArr.prems max_list_mem [of "json_depth j" "map json_depth js"] that
    by simp
  then have "run_toks (join_tok (map toks js) @ TRBrack # rest) (FArr [] # fs, PArr0)
      = run_toks rest (complete fs (JArr js))" for rest
    by (cases "js = []") (simp_all add: run_elems, simp add: pstep_def)
  with d show ?case
    by (intro readsI) (auto simp: pstep_def)
next
  case (JObj ms)
  have d: "length fs < MaxDepth" using JObj.prems by simp
  have "reads (FKey ms' k # fs) j" if "(k, j) \<in> set ms" for k j ms'
  proof -
    have "json_depth j \<le> max_list (map (\<lambda>(k, j). json_depth j) ms)"
      using that by (intro max_list_mem) force
    then have "json_depth j + length (FKey ms' k # fs) \<le> MaxDepth" using JObj.prems by simp
    then show ?thesis using JObj.IH [OF that, of j] by (simp add: snds.simps)
  qed
  then have "run_toks (join_tok (map (\<lambda>(k, j). TStr k # TColon # toks j) ms) @ TRBrace # rest)
      (FObj [] # fs, PObj0) = run_toks rest (complete fs (JObj ms))" for rest
    by (cases "ms = []") (simp_all add: run_members, simp add: pstep_def)
  with d show ?case
    by (intro readsI) (auto simp: pstep_def)
qed (auto intro!: readsI simp: pstep_def)

theorem parse_print_ws:
  assumes "json_ok j" and "json_depth j \<le> MaxDepth" and "list_all is_ws ws"
  shows "parse_json (print_json j @ ws) = Some j"
proof -
  have "run_toks (toks j) ([], PVal) = run_toks [] (complete [] j)"
    using readsD [OF machine_reads [of j "[]"], of PVal "[]"] assms(2) by simp
  then show ?thesis by (simp add: parse_json_def lex_print assms)
qed

corollary parse_print: "json_ok j \<Longrightarrow> json_depth j \<le> MaxDepth \<Longrightarrow> parse_json (print_json j) = Some j"
  using parse_print_ws [of j "[]"] by simp

interpretation jdoc: codec print_json parse_json "\<lambda>j. json_ok j \<and> json_depth j \<le> MaxDepth"
  by unfold_locales (simp add: parse_print)

subsection \<open>One document is one line\<close>

lemma lex_str_bytes: "lex_str s = Some (raw, rest) \<Longrightarrow> \<forall>c \<in> set raw. 32 \<le> (byte_of c :: nat)"
proof (induction s arbitrary: raw rule: lex_str.induct)
  case (2 c cs)
  have hex: "32 \<le> (byte_of x :: nat)" if "list_all hex_char xs" "x \<in> set xs" for x xs
    using that by (auto simp: list_all_iff hex_char_def hexval_def Let_def split: if_splits)
  have esc: "32 \<le> (byte_of e :: nat)" if "simple_esc e \<noteq> None" for e
    using that by (auto simp: simple_esc_def split: if_splits)
  show ?case
  proof (cases "c = BSL")
    case True
    with "2.prems" obtain e cs' where cs: "cs = e # cs'"
      by (auto simp: lex_str.simps(2) split: list.splits)
    show ?thesis
    proof (cases "e = CHR ''u''")
      case u: True
      with "2.prems" True cs obtain raw' where l: "4 \<le> length cs'" "list_all hex_char (take 4 cs')"
        and r: "lex_str (drop 4 cs') = Some (raw', rest)" "raw = BSL # e # take 4 cs' @ raw'"
        by (auto simp: lex_str.simps(2) cons_raw_Some split: if_splits)
      have "\<forall>c \<in> set raw'. 32 \<le> (byte_of c :: nat)"
        using "2.IH"(1) [OF _ True cs u _ r(1)] True l by simp
      with True u hex [OF l(2)] r(2) show ?thesis by auto
    next
      case False
      with "2.prems" True cs obtain raw' where e: "simple_esc e \<noteq> None"
        and r: "lex_str cs' = Some (raw', rest)" "raw = BSL # e # raw'"
        by (auto simp: lex_str.simps(2) cons_raw_Some split: if_splits)
      have "\<forall>c \<in> set raw'. 32 \<le> (byte_of c :: nat)"
        using "2.IH"(2) [OF _ True cs False _ r(1)] True e by simp
      with True esc [OF e] r(2) show ?thesis by auto
    qed
  next
    case False
    with "2.prems" "2.IH"(3) show ?thesis
      by (auto simp: lex_str.simps(2) cons_raw_Some split: if_splits)
  qed
qed simp

lemma tok_text_no_LF: "tok_ok t \<Longrightarrow> LF \<notin> set (tok_text t)"
proof (cases t)
  case (TStr raw)
  assume "tok_ok t"
  then have "\<forall>c \<in> set raw. 32 \<le> (byte_of c :: nat)"
    using lex_str_bytes [of "raw @ [DQ]" raw "[]"] by (simp add: TStr raw_ok_def)
  then show ?thesis by (auto simp: TStr)
next
  case (TNum s)
  assume "tok_ok t"
  then show ?thesis by (auto simp: TNum list_all_iff num_char_def is_digit_def)
qed auto

theorem print_json_one_line: "json_ok j \<Longrightarrow> LF \<notin> set (print_json j)"
  using toks_ok [of j] tok_text_no_LF by (auto simp: print_json_def)

end
