(* ===== verification/JsonDecode.thy ===== *)
theory JsonDecode
  imports Json
begin

text \<open>
  encoding/json on Go values: how a document is decoded into strings, integers, byte slices, maps and
  structs, and how they are encoded. A decoder takes the value the target holds already, because
  \<open>null\<close> leaves it alone and an object is merged into it; \<open>None\<close> is a decoding error. A byte slice is
  \<open>bytes option\<close>, with \<open>None\<close> for the nil slice, which is written as \<open>null\<close>.
\<close>

section \<open>Scalars\<close>

definition dec_string :: "bytes \<Rightarrow> json \<Rightarrow> bytes option" where
  "dec_string cur j = (case j of JNull \<Rightarrow> Some cur | JStr raw \<Rightarrow> unquote_lit raw | _ \<Rightarrow> None)"

definition dec_int64 :: "int \<Rightarrow> json \<Rightarrow> int option" where
  "dec_int64 cur j = (case j of JNull \<Rightarrow> Some cur | JNum s \<Rightarrow> parse_int64 s | _ \<Rightarrow> None)"

definition dec_bool :: "bool \<Rightarrow> json \<Rightarrow> bool option" where
  "dec_bool cur j = (case j of JNull \<Rightarrow> Some cur | JBool b \<Rightarrow> Some b | _ \<Rightarrow> None)"

text \<open>One element of a JSON array decoded into a byte slice.\<close>

definition dec_uint8 :: "json \<Rightarrow> char option" where
  "dec_uint8 j =
     (case j of
        JNull \<Rightarrow> Some NUL
      | JNum s \<Rightarrow>
          if s \<noteq> [] \<and> list_all is_digit s \<and> read_nat s < 256 then Some (char_of (read_nat s))
          else None
      | _ \<Rightarrow> None)"

definition dec_bytes :: "bytes option \<Rightarrow> json \<Rightarrow> bytes option option" where
  "dec_bytes cur j =
     (case j of
        JNull \<Rightarrow> Some None
      | JStr raw \<Rightarrow> map_option Some (Option.bind (unquote_lit raw) b64_decode)
      | JArr js \<Rightarrow> map_option Some (those (map dec_uint8 js))
      | _ \<Rightarrow> None)"

section \<open>Maps\<close>

fun dec_members ::
  "(json \<Rightarrow> 'v option) \<Rightarrow> (bytes, 'v) gomap \<Rightarrow> (bytes \<times> json) list \<Rightarrow> (bytes, 'v) gomap option" where
  "dec_members f acc [] = Some acc"
| "dec_members f acc ((k, j) # ms) =
     (case (unquote_lit k, f j) of
        (Some k', Some v) \<Rightarrow> dec_members f (AList.update k' v acc) ms
      | _ \<Rightarrow> None)"

definition dec_map ::
  "(json \<Rightarrow> 'v option) \<Rightarrow> (bytes, 'v) gomap \<Rightarrow> json \<Rightarrow> (bytes, 'v) gomap option" where
  "dec_map f cur j =
     (case j of JNull \<Rightarrow> Some [] | JObj ms \<Rightarrow> dec_members f cur ms | _ \<Rightarrow> None)"

definition dec_strmap :: "(bytes, bytes) gomap \<Rightarrow> json \<Rightarrow> (bytes, bytes) gomap option" where
  "dec_strmap = dec_map (dec_string [])"

section \<open>Structs\<close>

text \<open>
  A struct's fields by their JSON names. A key selects the field of exactly that name, or else one
  whose name is equal up to case; the two non-ASCII runes that fold to ASCII letters are U+017F and
  U+212A. With \<open>strict\<close> (\<open>DisallowUnknownFields\<close>) a key that selects nothing is an error.
\<close>

type_synonym 'a setter = "'a \<Rightarrow> json \<Rightarrow> 'a option"

function fold_name :: "bytes \<Rightarrow> bytes" where
  "fold_name [] = []"
| "fold_name (c # cs) =
     (if take 2 (c # cs) = [CHR 0xC5, CHR 0xBF] then CHR ''S'' # fold_name (drop 2 (c # cs))
      else if take 3 (c # cs) = [CHR 0xE2, CHR 0x84, CHR 0xAA]
        then CHR ''K'' # fold_name (drop 3 (c # cs))
      else if CHR ''a'' \<le> c \<and> c \<le> CHR ''z''
        then char_of (byte_of c - (32::nat)) # fold_name cs
      else c # fold_name cs)"
  by pat_completeness auto
termination by (relation "measure length") auto

definition find_field :: "(bytes \<times> 'a setter) list \<Rightarrow> bytes \<Rightarrow> 'a setter option" where
  "find_field fs key =
     (case map_of fs key of
        Some f \<Rightarrow> Some f
      | None \<Rightarrow> map_option snd (find (\<lambda>(n, f). fold_name n = fold_name key) fs))"

fun dec_fields :: "bool \<Rightarrow> (bytes \<times> 'a setter) list \<Rightarrow> 'a \<Rightarrow> (bytes \<times> json) list \<Rightarrow> 'a option" where
  "dec_fields strict fs cur [] = Some cur"
| "dec_fields strict fs cur ((k, j) # ms) =
     (case unquote_lit k of
        None \<Rightarrow> None
      | Some key \<Rightarrow>
          (case find_field fs key of
             None \<Rightarrow> if strict then None else dec_fields strict fs cur ms
           | Some upd \<Rightarrow>
               (case upd cur j of None \<Rightarrow> None | Some cur' \<Rightarrow> dec_fields strict fs cur' ms)))"

definition dec_struct :: "bool \<Rightarrow> (bytes \<times> 'a setter) list \<Rightarrow> 'a setter" where
  "dec_struct strict fs cur j =
     (case j of JNull \<Rightarrow> Some cur | JObj ms \<Rightarrow> dec_fields strict fs cur ms | _ \<Rightarrow> None)"

section \<open>Encoders\<close>

definition enc_string :: "bytes \<Rightarrow> json" where
  "enc_string s = JStr (quote_lit True s)"

definition enc_int :: "int \<Rightarrow> json" where
  "enc_int i = JNum (print_int i)"

definition enc_bytes :: "bytes option \<Rightarrow> json" where
  "enc_bytes b = (case b of None \<Rightarrow> JNull | Some s \<Rightarrow> JStr (b64_encode s))"

definition enc_map :: "('v \<Rightarrow> json) \<Rightarrow> (bytes, 'v) gomap \<Rightarrow> json" where
  "enc_map f m = JObj (map (\<lambda>(k, v). (quote_lit True k, f v)) (sort_key fst m))"

definition enc_strmap :: "(bytes, bytes) gomap \<Rightarrow> json" where
  "enc_strmap = enc_map enc_string"

text \<open>A struct is an object with its fields in order; \<open>omitempty\<close> drops a field.\<close>

definition fld :: "bytes \<Rightarrow> json \<Rightarrow> (bytes \<times> json) list" where
  "fld name j = [(name, j)]"

definition fld_if :: "bool \<Rightarrow> bytes \<Rightarrow> json \<Rightarrow> (bytes \<times> json) list" where
  "fld_if present name j = (if present then [(name, j)] else [])"

section \<open>Decoding what was encoded\<close>

named_theorems json_rt

lemma unquote_plain:
  "\<forall>c \<in> set s. c \<noteq> DQ \<and> c \<noteq> BSL \<and> 32 \<le> (byte_of c :: nat) \<and> byte_of c < (128::nat)
   \<Longrightarrow> unquote_lit s = Some s"
  by (induction s) (auto simp: unquote_lit.simps(2))

lemma unquote_b64 [simp]: "unquote_lit (b64_encode s) = Some (b64_encode s)"
  by (rule unquote_plain) (use b64_encode_bytes [of s] in \<open>auto simp: b64_byte_def\<close>)

lemma b64_valid: "utf8_valid (b64_encode s)"
  by (rule utf8_valid_ascii) (use b64_encode_bytes [of s] in \<open>fastforce simp: b64_byte_def\<close>)

text \<open>A byte slice travels as base64 inside a string literal.\<close>

interpretation b64_literal: codec_chain b64_encode b64_decode "\<lambda>_. True" "quote_lit h" unquote_lit utf8_valid
  for h
  by unfold_locales (rule b64_valid)

lemma dec_string_enc [json_rt, simp]: "utf8_valid s \<Longrightarrow> dec_string cur (enc_string s) = Some s"
  by (simp add: dec_string_def enc_string_def unquote_quote)

lemma dec_int64_enc [json_rt, simp]: "int64_range i \<Longrightarrow> dec_int64 cur (enc_int i) = Some i"
  by (simp add: dec_int64_def enc_int_def parse_print_int)

lemma dec_bool_enc [json_rt, simp]: "dec_bool cur (JBool b) = Some b"
  by (simp add: dec_bool_def)

lemma dec_bytes_enc [json_rt, simp]: "dec_bytes cur (enc_bytes b) = Some b"
  by (cases b) (simp_all add: dec_bytes_def enc_bytes_def b64_decode_encode)

lemma update_fresh: "k \<notin> fst ` set m \<Longrightarrow> AList.update k v m = m @ [(k, v)]"
  by (induction m) auto

text \<open>Distinct keys are appended in the order they are read.\<close>

lemma dec_members_enc:
  assumes "\<forall>(k, v) \<in> set m. utf8_valid k \<and> f (g v) = Some (h v)"
    and "distinct (map fst acc @ map fst m)"
  shows "dec_members f acc (map (\<lambda>(k, v). (quote_lit True k, g v)) m)
    = Some (acc @ map (\<lambda>(k, v). (k, h v)) m)"
  using assms
proof (induction m arbitrary: acc)
  case (Cons p m)
  obtain k v where p: "p = (k, v)" by (cases p)
  have "AList.update k (h v) acc = acc @ [(k, h v)]"
    using Cons.prems(2) by (intro update_fresh) (auto simp: p)
  moreover have "dec_members f (acc @ [(k, h v)]) (map (\<lambda>(k, v). (quote_lit True k, g v)) m)
      = Some ((acc @ [(k, h v)]) @ map (\<lambda>(k, v). (k, h v)) m)"
    using Cons.prems by (intro Cons.IH) (auto simp: p)
  ultimately show ?case using Cons.prems(1) by (simp add: p unquote_quote)
qed simp

lemma dec_map_enc:
  assumes "gomap_ok m" and "\<forall>(k, v) \<in> set m. utf8_valid k \<and> f (g v) = Some (h v)"
  shows "dec_map f [] (enc_map g m) = Some (map (\<lambda>(k, v). (k, h v)) (sort_key fst m))"
  using dec_members_enc [of "sort_key fst m" f g h "[]"] assms gomap_ok_sort [of m]
  by (simp add: dec_map_def enc_map_def gomap_ok_def)

lemma dec_strmap_enc [json_rt]:
  assumes "gomap_ok m" and "\<forall>(k, v) \<in> set m. utf8_valid k \<and> utf8_valid v"
  shows "dec_strmap [] (enc_strmap m) = Some (sort_key fst m)"
proof -
  have "dec_map (dec_string []) [] (enc_map enc_string m)
      = Some (map (\<lambda>(k, v). (k, v)) (sort_key fst m))"
    using assms by (intro dec_map_enc) auto
  then show ?thesis by (simp add: dec_strmap_def enc_strmap_def)
qed

text \<open>Well-formedness and depth of what the encoders write.\<close>

lemma num_char_digits: "list_all is_digit s \<Longrightarrow> list_all num_char s"
  by (auto simp: list_all_iff num_char_def)

lemma print_int_chars: "list_all num_char (print_int i)"
  using num_char_digits [OF dec_nat_digits] by (simp add: print_int_def num_char_def)

lemma json_ok_enc [simp]:
  "json_ok (enc_string s)" "json_ok (enc_int i)" "json_ok (enc_bytes b)"
  by (simp_all add: enc_string_def enc_int_def enc_bytes_def valid_num_print print_int_chars
      split: option.split)

lemma json_depth_enc [simp]:
  "json_depth (enc_string s) = 0" "json_depth (enc_int i) = 0" "json_depth (enc_bytes b) = 0"
  by (simp_all add: enc_string_def enc_int_def enc_bytes_def split: option.split)

lemma json_ok_enc_map: "\<forall>(k, v) \<in> set m. json_ok (f v) \<Longrightarrow> json_ok (enc_map f m)"
  by (auto simp: enc_map_def)

lemma json_ok_enc_strmap [simp]: "json_ok (enc_strmap m)"
  by (auto simp: enc_strmap_def intro!: json_ok_enc_map)

lemma max_list_le: "\<forall>x \<in> set xs. x \<le> n \<Longrightarrow> max_list xs \<le> n"
  by (induction xs) auto

lemma json_depth_JObj: "\<forall>(k, j) \<in> set ms. json_depth j \<le> n \<Longrightarrow> json_depth (JObj ms) \<le> Suc n"
  by (auto intro!: max_list_le)

lemma json_depth_enc_map:
  "\<forall>(k, v) \<in> set m. json_depth (f v) \<le> n \<Longrightarrow> json_depth (enc_map f m) \<le> Suc n"
  unfolding enc_map_def by (rule json_depth_JObj) auto

lemma json_depth_enc_strmap: "json_depth (enc_strmap m) \<le> Suc 0"
  unfolding enc_strmap_def by (rule json_depth_enc_map) auto

section \<open>Invariants of decoding\<close>

lemma find_field_mem: "find_field fs key = Some f \<Longrightarrow> \<exists>n. (n, f) \<in> set fs"
proof (cases "map_of fs key")
  case None
  moreover assume "find_field fs key = Some f"
  ultimately obtain n where "find (\<lambda>(n, f). fold_name n = fold_name key) fs = Some (n, f)"
    by (auto simp: find_field_def)
  then show ?thesis by (metis find_Some_iff nth_mem)
next
  case (Some g)
  moreover assume "find_field fs key = Some f"
  ultimately show ?thesis by (auto simp: find_field_def dest: map_of_SomeD)
qed

lemma dec_fields_inv:
  assumes "dec_fields strict fs cur ms = Some v" and "P cur"
    and "\<And>n f c j c'. (n, f) \<in> set fs \<Longrightarrow> P c \<Longrightarrow> f c j = Some c' \<Longrightarrow> P c'"
  shows "P v"
  using assms
proof (induction strict fs cur ms rule: dec_fields.induct)
  case (2 strict fs cur k j ms)
  then obtain key where k: "unquote_lit k = Some key" by (auto split: option.splits)
  show ?case
  proof (cases "find_field fs key")
    case None
    with 2 k show ?thesis by (auto split: if_splits)
  next
    case (Some upd)
    with "2.prems" k obtain cur' where c: "upd cur j = Some cur'"
      and d: "dec_fields strict fs cur' ms = Some v"
      by (auto split: option.splits)
    from find_field_mem [OF Some] obtain n where "(n, upd) \<in> set fs" by blast
    then have "P cur'" using "2.prems"(2) c by (rule "2.prems"(3))
    with "2.IH"(2) [OF k Some c] d "2.prems"(3) show ?thesis by metis
  qed
qed simp

lemma dec_struct_inv:
  assumes "dec_struct strict fs cur j = Some v" and "P cur"
    and "\<And>n f c j c'. (n, f) \<in> set fs \<Longrightarrow> P c \<Longrightarrow> f c j = Some c' \<Longrightarrow> P c'"
  shows "P v"
proof (cases j)
  case (JObj ms)
  with assms(1) have "dec_fields strict fs cur ms = Some v" by (simp add: dec_struct_def)
  then show ?thesis using assms(2,3) by (rule dec_fields_inv)
qed (use assms(1,2) in \<open>simp_all add: dec_struct_def\<close>)

lemma dec_string_valid: "dec_string cur j = Some s \<Longrightarrow> utf8_valid cur \<Longrightarrow> utf8_valid s"
  by (auto simp: dec_string_def dest: unquote_valid split: json.splits)

lemma dec_members_inv:
  assumes "dec_members f acc ms = Some m" and "gomap_ok acc"
    and "\<forall>(k, v) \<in> set acc. utf8_valid k \<and> Q v"
    and "\<And>j v. f j = Some v \<Longrightarrow> Q v"
  shows "gomap_ok m \<and> (\<forall>(k, v) \<in> set m. utf8_valid k \<and> Q v)"
  using assms
proof (induction f acc ms rule: dec_members.induct)
  case (2 f acc k j ms)
  from "2.prems"(1) obtain k' v where kv: "unquote_lit k = Some k'" "f j = Some v"
    and d: "dec_members f (AList.update k' v acc) ms = Some m"
    by (simp split: option.splits)
  have "set (AList.update k' v acc) \<subseteq> insert (k', v) (set acc)"
    by (rule set_update_subset)
  moreover have "utf8_valid k' \<and> Q v"
    using unquote_valid [OF kv(1)] "2.prems"(4) [OF kv(2)] by blast
  ultimately have Q: "\<forall>(k, v) \<in> set (AList.update k' v acc). utf8_valid k \<and> Q v"
    using "2.prems"(3) by blast
  show ?case
    by (rule "2.IH" [OF refl kv d gomap_ok_update [OF "2.prems"(2)] Q "2.prems"(4)])
qed simp

lemma dec_map_inv:
  assumes "dec_map f cur j = Some m" and "gomap_ok cur"
    and "\<forall>(k, v) \<in> set cur. utf8_valid k \<and> Q v"
    and "\<And>j v. f j = Some v \<Longrightarrow> Q v"
  shows "gomap_ok m \<and> (\<forall>(k, v) \<in> set m. utf8_valid k \<and> Q v)"
proof (cases j)
  case (JObj ms)
  with assms(1) have "dec_members f cur ms = Some m" by (simp add: dec_map_def)
  then show ?thesis using assms(2-4) by (rule dec_members_inv)
qed (use assms(1) in \<open>simp_all add: dec_map_def\<close>)

lemma dec_strmap_inv:
  assumes "dec_strmap cur j = Some m" and "gomap_ok cur"
    and "\<forall>(k, v) \<in> set cur. utf8_valid k \<and> utf8_valid v"
  shows "gomap_ok m \<and> (\<forall>(k, v) \<in> set m. utf8_valid k \<and> utf8_valid v)"
proof (rule dec_map_inv)
  show "dec_map (dec_string []) cur j = Some m" using assms(1) by (simp add: dec_strmap_def)
  show "utf8_valid v" if "dec_string [] j = Some v" for j v
    using dec_string_valid [OF that] by simp
qed (rule assms)+

end
