(* ===== verification/GoTime.thy ===== *)
theory GoTime
  imports Json "HOL-Library.Monad_Syntax"
begin

text \<open>
  Package time, as far as the module uses it: durations are 64-bit nanoseconds, a point in time is its
  Unix nanoseconds and the offset of its zone in minutes, and on disk and on the wire it is RFC 3339
  text. The reader is the strict one of \<open>Time.UnmarshalJSON\<close>: two-digit hours, a point before the
  fraction.
\<close>

section \<open>Durations\<close>

text \<open>Arithmetic on \<open>int64\<close> wraps around.\<close>

definition wrap64 :: "int \<Rightarrow> int" where
  "wrap64 i = (i + 2 ^ 63) mod 2 ^ 64 - 2 ^ 63"

lemma wrap64_range: "int64_range (wrap64 i)"
proof -
  have "0 \<le> (i + 9223372036854775808) mod 18446744073709551616"
    and "(i + 9223372036854775808) mod 18446744073709551616 < (18446744073709551616::int)"
    by simp_all
  then show ?thesis by (simp add: wrap64_def int64_range_def)
qed

lemma wrap64_id: "int64_range i \<Longrightarrow> wrap64 i = i"
  by (simp add: wrap64_def int64_range_def)

definition Second :: int where "Second = 1000000000"
definition Minute :: int where "Minute = 60 * Second"
definition Hour :: int where "Hour = 60 * Minute"

lemmas duration_defs = Second_def Minute_def Hour_def

section \<open>Points in time\<close>

datatype gotime = Time (unix_ns: int) (zone_min: int)

definition UTC :: "gotime \<Rightarrow> gotime" where
  "UTC t = Time (unix_ns t) 0"

definition time_add :: "gotime \<Rightarrow> int \<Rightarrow> gotime" where
  "time_add t d = Time (unix_ns t + d) (zone_min t)"

subsection \<open>The calendar\<close>

text \<open>Days are counted from 1 January of year 0; 1 January 1970 is day 719528.\<close>

definition leap :: "nat \<Rightarrow> bool" where
  "leap y \<longleftrightarrow> y mod 4 = 0 \<and> (y mod 100 \<noteq> 0 \<or> y mod 400 = 0)"

definition year_len :: "nat \<Rightarrow> nat" where
  "year_len y = (if leap y then 366 else 365)"

definition month_lens :: "nat \<Rightarrow> nat list" where
  "month_lens y = [31, if leap y then 29 else 28, 31, 30, 31, 30, 31, 31, 30, 31, 30, 31]"

definition days_before :: "nat \<Rightarrow> nat" where
  "days_before y = 365 * y + (y + 3) div 4 + (y + 399) div 400 - (y + 99) div 100"

text \<open>The month (from 1) and day of the month (from 1) of a day of the year (from 0), and back.\<close>

fun split_month :: "nat list \<Rightarrow> nat \<Rightarrow> nat \<Rightarrow> nat \<times> nat" where
  "split_month [] m d = (m, Suc d)"
| "split_month (l # ls) m d = (if d < l then (m, Suc d) else split_month ls (Suc m) (d - l))"

definition day_of_year :: "nat \<Rightarrow> nat \<Rightarrow> nat \<Rightarrow> nat" where
  "day_of_year y m d = sum_list (take (m - 1) (month_lens y)) + (d - 1)"

text \<open>The year of a day: years are walked from a year that is not too late.\<close>

function year_from :: "nat \<Rightarrow> nat \<Rightarrow> nat \<times> nat" where
  "year_from y d = (if d < year_len y then (y, d) else year_from (Suc y) (d - year_len y))"
  by pat_completeness auto
termination by (relation "measure snd") (auto simp: year_len_def split: if_splits)

declare year_from.simps [simp del]

definition year_of :: "nat \<Rightarrow> nat \<times> nat" where
  "year_of d = year_from (d div 366) (d - days_before (d div 366))"

lemma ceil_Suc: "(Suc y + n) div Suc n = (y + n) div Suc n + (if y mod Suc n = 0 then 1 else 0)"
proof -
  have "Suc (y + n) mod Suc n = y mod Suc n"
    using mod_add_self2 [of y "Suc n"] by simp
  then show ?thesis using div_Suc [of "y + n" "Suc n"] by simp
qed

lemma days_before_0 [simp]: "days_before 0 = 0"
  by (simp add: days_before_def)

lemma leap_sum:
  fixes a b c k :: nat
  assumes "R \<Longrightarrow> Q" and "Q \<Longrightarrow> P" and "c \<le> k + a + b"
  shows "365 + k + (a + (if P then 1 else 0)) + (b + (if R then 1 else 0))
      - (c + (if Q then 1 else 0))
    = k + a + b - c + (if P \<and> (\<not> Q \<or> R) then 366 else 365)"
  using assms by (cases P; cases Q; cases R) auto

lemma days_before_Suc: "days_before (Suc y) = days_before y + year_len y"
proof -
  have "y mod 100 = y mod 400 mod 100" and "y mod 4 = y mod 100 mod 4"
    by (simp_all add: mod_mod_cancel)
  then have "y mod 400 = 0 \<Longrightarrow> y mod 100 = 0" and "y mod 100 = 0 \<Longrightarrow> y mod 4 = 0" by simp_all
  moreover have "(y + 99) div 100 \<le> 365 * y + (y + 3) div 4 + (y + 399) div 400" by linarith
  moreover have "(Suc y + 3) div 4 = (y + 3) div 4 + (if y mod 4 = 0 then 1 else 0)"
    "(Suc y + 99) div 100 = (y + 99) div 100 + (if y mod 100 = 0 then 1 else 0)"
    "(Suc y + 399) div 400 = (y + 399) div 400 + (if y mod 400 = 0 then 1 else 0)"
    using ceil_Suc [of y 3] ceil_Suc [of y 99] ceil_Suc [of y 399] by simp_all
  ultimately show ?thesis
    unfolding days_before_def year_len_def leap_def mult_Suc_right by (simp only: leap_sum)
qed

lemma days_before_le: "days_before y \<le> 366 * y"
  by (induction y) (auto simp: days_before_Suc year_len_def)

lemma days_before_mono: "y < y' \<Longrightarrow> days_before y + year_len y \<le> days_before y'"
  by (induction y') (auto simp: days_before_Suc less_Suc_eq)

lemma year_from_eq:
  "year_from y d = (y', d') \<Longrightarrow> y \<le> y' \<and> d' < year_len y' \<and> days_before y + d = days_before y' + d'"
proof (induction y d rule: year_from.induct)
  case (1 y d)
  show ?case
  proof (cases "d < year_len y")
    case True
    with "1.prems" show ?thesis by (simp add: year_from.simps)
  next
    case False
    with "1.prems" have "year_from (Suc y) (d - year_len y) = (y', d')"
      by (simp add: year_from.simps [of y d])
    from "1.IH" [OF False this] False show ?thesis by (simp add: days_before_Suc)
  qed
qed

lemma year_of_eq:
  assumes "year_of d = (y, r)"
  shows "r < year_len y \<and> d = days_before y + r"
proof -
  have "days_before (d div 366) \<le> 366 * (d div 366)" by (rule days_before_le)
  also have "\<dots> \<le> d" by simp
  finally show ?thesis
    using year_from_eq [OF assms [unfolded year_of_def]] by simp
qed

lemma year_of_bound:
  assumes "year_of d = (y, r)" and "d < days_before n"
  shows "y < n"
proof (rule ccontr)
  assume "\<not> y < n"
  then have "days_before n \<le> days_before y"
    using days_before_mono [of n y] by (cases "n = y") auto
  with year_of_eq [OF assms(1)] assms(2) show False by simp
qed

lemma split_month_eq:
  assumes "d < sum_list ls" and "split_month ls m d = (m', d')"
  shows "m \<le> m' \<and> m' < m + length ls \<and> 1 \<le> d' \<and> d' \<le> ls ! (m' - m)
    \<and> sum_list (take (m' - m) ls) + (d' - 1) = d"
  using assms
proof (induction ls m d arbitrary: m' d' rule: split_month.induct)
  case (2 l ls m d)
  show ?case
  proof (cases "d < l")
    case True
    with 2 show ?thesis by auto
  next
    case False
    with "2.prems" have e: "split_month ls (Suc m) (d - l) = (m', d')" and "d - l < sum_list ls"
      by auto
    from "2.IH" [OF False this(2) e] False show ?thesis
      by (auto simp: Suc_diff_le nth_Cons' take_Cons' Suc_le_eq)
  qed
qed simp

lemma sum_month_lens: "sum_list (month_lens y) = year_len y"
  by (simp add: month_lens_def year_len_def)

subsection \<open>RFC 3339 text\<close>

definition digit :: "nat \<Rightarrow> char" where
  "digit n = char_of (48 + n mod 10)"

primrec pad :: "nat \<Rightarrow> nat \<Rightarrow> bytes" where
  "pad 0 n = []"
| "pad (Suc k) n = pad k (n div 10) @ [digit n]"

definition rtrim0 :: "bytes \<Rightarrow> bytes" where
  "rtrim0 s = rev (dropWhile (\<lambda>c. c = CHR ''0'') (rev s))"

definition frac_text :: "nat \<Rightarrow> bytes" where
  "frac_text ns = (if ns = 0 then [] else CHR ''.'' # rtrim0 (pad 9 ns))"

definition zone_text :: "int \<Rightarrow> bytes" where
  "zone_text z =
     (if z = 0 then ''Z''
      else (if z < 0 then CHR ''-'' else CHR ''+'')
        # pad 2 (nat \<bar>z\<bar> div 60) @ CHR '':'' # pad 2 (nat \<bar>z\<bar> mod 60))"

text \<open>Nanoseconds of local time since the start of year 0.\<close>

definition local_ns :: "gotime \<Rightarrow> int" where
  "local_ns t = unix_ns t + (zone_min t * 60 + 719528 * 86400) * 1000000000"

definition clock_text :: "nat \<Rightarrow> bytes" where
  "clock_text s =
     pad 2 (s div 3600) @ CHR '':'' # pad 2 (s div 60 mod 60) @ CHR '':'' # pad 2 (s mod 60)"

definition date_text :: "nat \<Rightarrow> bytes" where
  "date_text d =
     (case year_of d of (y, r) \<Rightarrow>
        case split_month (month_lens y) 1 r of (m, dd) \<Rightarrow>
          pad 4 y @ CHR ''-'' # pad 2 m @ CHR ''-'' # pad 2 dd)"

text \<open>\<open>Time.MarshalJSON\<close> refuses years outside 0 to 9999 and offsets of a day or more.\<close>

definition time_ok :: "gotime \<Rightarrow> bool" where
  "time_ok t \<longleftrightarrow> 0 \<le> local_ns t
     \<and> fst (year_of (nat (local_ns t) div 1000000000 div 86400)) < 10000
     \<and> \<bar>zone_min t\<bar> < 1440"

definition time_text :: "gotime \<Rightarrow> bytes" where
  "time_text t =
     (let n = nat (local_ns t); s = n div 1000000000 in
      date_text (s div 86400) @ CHR ''T'' # clock_text (s mod 86400)
        @ frac_text (n mod 1000000000) @ zone_text (zone_min t))"

definition format_time :: "gotime \<Rightarrow> bytes option" where
  "format_time t = (if time_ok t then Some (time_text t) else None)"

definition num_at :: "nat \<Rightarrow> nat \<Rightarrow> nat \<Rightarrow> bytes \<Rightarrow> (nat \<times> bytes) option" where
  "num_at k lo hi s =
     (let ds = take k s; n = read_nat ds in
      if length ds = k \<and> list_all is_digit ds \<and> lo \<le> n \<and> n \<le> hi then Some (n, drop k s)
      else None)"

definition chr_at :: "char \<Rightarrow> bytes \<Rightarrow> bytes option" where
  "chr_at c s = (case s of [] \<Rightarrow> None | x # xs \<Rightarrow> if x = c then Some xs else None)"

definition frac_at :: "bytes \<Rightarrow> (nat \<times> bytes) option" where
  "frac_at s =
     (if s \<noteq> [] \<and> hd s = CHR ''.'' then
        (let ds = takeWhile is_digit (tl s) in
         if ds = [] then None
         else Some (read_nat (take 9 (ds @ replicate 9 (CHR ''0''))), dropWhile is_digit (tl s)))
      else Some (0, s))"

definition zone_at :: "bytes \<Rightarrow> int option" where
  "zone_at s =
     (if s = ''Z'' then Some 0
      else case s of
             [] \<Rightarrow> None
           | c # s1 \<Rightarrow>
               if c = CHR ''+'' \<or> c = CHR ''-'' then do {
                 (h, s2) \<leftarrow> num_at 2 0 23 s1;
                 s3 \<leftarrow> chr_at (CHR '':'') s2;
                 (m, s4) \<leftarrow> num_at 2 0 59 s3;
                 if s4 = [] then Some ((if c = CHR ''-'' then - 1 else 1) * int (h * 60 + m))
                 else None }
               else None)"

definition parse_time :: "bytes \<Rightarrow> gotime option" where
  "parse_time s0 = do {
     (y, s1) \<leftarrow> num_at 4 0 9999 s0;
     s2 \<leftarrow> chr_at (CHR ''-'') s1;
     (mo, s3) \<leftarrow> num_at 2 1 12 s2;
     s4 \<leftarrow> chr_at (CHR ''-'') s3;
     (d, s5) \<leftarrow> num_at 2 1 (month_lens y ! (mo - 1)) s4;
     s6 \<leftarrow> chr_at (CHR ''T'') s5;
     (h, s7) \<leftarrow> num_at 2 0 23 s6;
     s8 \<leftarrow> chr_at (CHR '':'') s7;
     (mi, s9) \<leftarrow> num_at 2 0 59 s8;
     s10 \<leftarrow> chr_at (CHR '':'') s9;
     (sec, s11) \<leftarrow> num_at 2 0 59 s10;
     (ns, s12) \<leftarrow> frac_at s11;
     z \<leftarrow> zone_at s12;
     Some (Time
       (int (((days_before y + day_of_year y mo d) * 86400 + h * 3600 + mi * 60 + sec) * 1000000000
          + ns) - (z * 60 + 719528 * 86400) * 1000000000) z) }"

subsection \<open>Reading back what was written\<close>

lemma is_digit_digit [simp]: "is_digit (digit n)"
  by (simp add: digit_def)

lemma pad_digits [simp]: "list_all is_digit (pad k n)"
  by (induction k arbitrary: n) auto

lemma length_pad [simp]: "length (pad k n) = k"
  by (induction k arbitrary: n) auto

lemma read_nat_snoc: "read_nat (ds @ [c]) = read_nat ds * 10 + (byte_of c - 48)"
  by (simp add: read_nat_def)

lemma byte_digit: "byte_of (digit n) = 48 + n mod (10::nat)"
  by (simp add: digit_def)

lemma read_pad: "n < 10 ^ k \<Longrightarrow> read_nat (pad k n) = n"
proof (induction k arbitrary: n)
  case (Suc k)
  then have "n div 10 < 10 ^ k" by (simp add: less_mult_imp_div_less mult.commute)
  with Suc.IH show ?case by (simp add: read_nat_snoc byte_digit)
qed (simp add: read_nat_def)

lemma num_at_pad: "n < 10 ^ k \<Longrightarrow> lo \<le> n \<Longrightarrow> n \<le> hi \<Longrightarrow> num_at k lo hi (pad k n @ t) = Some (n, t)"
  by (simp add: num_at_def read_pad)

lemma chr_at_Cons [simp]: "chr_at c (c # t) = Some t"
  by (simp add: chr_at_def)

lemma rtrim0_split: "s = rtrim0 s @ replicate (length s - length (rtrim0 s)) (CHR ''0'')"
proof -
  have "rev s = takeWhile (\<lambda>c. c = CHR ''0'') (rev s) @ dropWhile (\<lambda>c. c = CHR ''0'') (rev s)"
    by simp
  then have s: "s = rtrim0 s @ rev (takeWhile (\<lambda>c. c = CHR ''0'') (rev s))"
    unfolding rtrim0_def by (metis rev_append rev_rev_ident)
  have "\<forall>c \<in> set (rev (takeWhile (\<lambda>c. c = CHR ''0'') (rev s))). c = CHR ''0''"
    by (auto dest: set_takeWhileD)
  then have "rev (takeWhile (\<lambda>c. c = CHR ''0'') (rev s))
      = replicate (length (rev (takeWhile (\<lambda>c. c = CHR ''0'') (rev s)))) (CHR ''0'')"
    by (metis replicate_eqI)
  moreover have "length (rev (takeWhile (\<lambda>c. c = CHR ''0'') (rev s))) = length s - length (rtrim0 s)"
    using s by (metis add_diff_cancel_left' length_append)
  ultimately show ?thesis using s by metis
qed

lemma frac_at_text:
  assumes "ns < 1000000000" and "t \<noteq> []" and "\<not> is_digit (hd t)" and "hd t \<noteq> CHR ''.''"
  shows "frac_at (frac_text ns @ t) = Some (ns, t)"
proof (cases "ns = 0")
  case False
  let ?ds = "rtrim0 (pad 9 ns)"
  have split: "pad 9 ns = ?ds @ replicate (9 - length ?ds) (CHR ''0'')"
    using rtrim0_split [of "pad 9 ns"] by simp
  have dig: "list_all is_digit ?ds"
    using split pad_digits [of 9 ns] by (metis list_all_append)
  have val: "read_nat (pad 9 ns) = ns" using assms(1) by (intro read_pad) simp
  have ne: "?ds \<noteq> []"
  proof
    assume "?ds = []"
    with split have "pad 9 ns = replicate 9 (CHR ''0'')" by simp
    with val have "ns = read_nat (replicate 9 (CHR ''0''))" by simp
    then show False using False by (simp add: read_nat_def numeral_eq_Suc)
  qed
  have le: "length ?ds \<le> 9"
    using arg_cong [OF split, of length] by simp
  have "take 9 (?ds @ replicate 9 (CHR ''0'')) = pad 9 ns"
    using le by (subst split) simp
  moreover have "takeWhile is_digit (?ds @ t) = ?ds" "dropWhile is_digit (?ds @ t) = t"
    using span_num [OF dig] assms(3) by simp_all
  ultimately show ?thesis
    using ne False val by (simp add: frac_at_def frac_text_def)
qed (use assms in \<open>simp add: frac_at_def frac_text_def\<close>)

lemma zone_text_hd: "zone_text z \<noteq> [] \<and> \<not> is_digit (hd (zone_text z)) \<and> hd (zone_text z) \<noteq> CHR ''.''"
  by (simp add: zone_text_def is_digit_def)

lemma zone_at_text:
  assumes "\<bar>z\<bar> < 1440"
  shows "zone_at (zone_text z) = Some z"
proof (cases "z = 0")
  case False
  let ?n = "nat \<bar>z\<bar>"
  have n: "?n div 60 \<le> 23" "?n div 60 < 10 ^ 2" "?n mod 60 \<le> 59" "?n mod 60 < 10 ^ 2"
    using assms by auto
  have "int (?n div 60 * 60 + ?n mod 60) = \<bar>z\<bar>" by simp
  moreover have "num_at 2 0 59 (pad 2 (?n mod 60)) = Some (?n mod 60, [])"
    using num_at_pad [OF n(4), of 0 59 "[]"] n(3) by simp
  ultimately show ?thesis
    using False n by (simp add: zone_at_def zone_text_def num_at_pad del: of_nat_add of_nat_mult)
qed (simp add: zone_at_def zone_text_def)

lemma num_at_pad_Cons: "n < 10 ^ k \<Longrightarrow> lo \<le> n \<Longrightarrow> n \<le> hi \<Longrightarrow>
    num_at k lo hi (pad k n @ c # t) = Some (n, c # t)"
  by (rule num_at_pad)

lemma parse_time_text:
  assumes "time_ok t"
  shows "parse_time (time_text t) = Some t"
proof -
  define n where "n = nat (local_ns t)"
  define s where "s = n div 1000000000"
  obtain y r where yr: "year_of (s div 86400) = (y, r)" by force
  obtain m d where md: "split_month (month_lens y) 1 r = (m, d)" by force
  have y: "y < 10 ^ 4" and z: "\<bar>zone_min t\<bar> < 1440" and nn: "0 \<le> local_ns t"
    using assms yr by (simp_all add: time_ok_def n_def s_def)
  have r: "r < year_len y" "s div 86400 = days_before y + r" using year_of_eq [OF yr] by auto
  have "1 \<le> m \<and> m < 1 + length (month_lens y) \<and> 1 \<le> d \<and> d \<le> month_lens y ! (m - 1)
      \<and> sum_list (take (m - 1) (month_lens y)) + (d - 1) = r"
    using split_month_eq [OF _ md] r(1) by (simp add: sum_month_lens)
  then have m: "1 \<le> m" "m \<le> 12" "1 \<le> d" "d \<le> month_lens y ! (m - 1)" "day_of_year y m d = r"
    by (auto simp: month_lens_def day_of_year_def)
  have "list_all (\<lambda>l. l < 100) (month_lens y)" by (simp add: month_lens_def)
  moreover have "m - 1 < length (month_lens y)" using m by (simp add: month_lens_def)
  ultimately have "month_lens y ! (m - 1) < 100" by (simp add: list_all_length)
  with m have d: "d < 10 ^ 2" "m < 10 ^ 2" by auto
  let ?c = "s mod 86400"
  have c: "?c div 3600 \<le> 23" "?c div 3600 < 10 ^ 2" "?c div 60 mod 60 \<le> 59"
    "?c div 60 mod 60 < 10 ^ 2" "?c mod 60 \<le> 59" "?c mod 60 < 10 ^ 2"
    by (auto simp: less_Suc_eq_le [symmetric] div_less_iff_less_mult)
  have clock: "?c div 3600 * 3600 + ?c div 60 mod 60 * 60 + ?c mod 60 = ?c"
  proof -
    have "?c = ?c div 60 * 60 + ?c mod 60" by (rule div_mult_mod_eq [symmetric])
    moreover have "?c div 60 = ?c div 60 div 60 * 60 + ?c div 60 mod 60"
      by (rule div_mult_mod_eq [symmetric])
    moreover have "?c div 3600 = ?c div 60 div 60" by (simp add: div_mult2_eq [symmetric])
    ultimately show ?thesis by linarith
  qed
  have tt: "time_text t = pad 4 y @ CHR ''-'' # pad 2 m @ CHR ''-'' # pad 2 d @ CHR ''T''
      # pad 2 (?c div 3600) @ CHR '':'' # pad 2 (?c div 60 mod 60) @ CHR '':'' # pad 2 (?c mod 60)
      @ frac_text (n mod 1000000000) @ zone_text (zone_min t)"
    using yr md by (simp add: time_text_def date_text_def clock_text_def Let_def n_def s_def)
  have ns: "frac_at (frac_text (n mod 1000000000) @ zone_text (zone_min t))
      = Some (n mod 1000000000, zone_text (zone_min t))"
    using zone_text_hd by (intro frac_at_text) auto
  have "((days_before y + day_of_year y m d) * 86400 + ?c div 3600 * 3600 + ?c div 60 mod 60 * 60
      + ?c mod 60) * 1000000000 + n mod 1000000000 = n"
  proof -
    have "(days_before y + day_of_year y m d) * 86400 + ?c div 3600 * 3600 + ?c div 60 mod 60 * 60
        + ?c mod 60 = s div 86400 * 86400 + ?c"
      using clock by (simp only: r(2) m(5) add.assoc)
    then show ?thesis by (simp only: div_mult_mod_eq s_def)
  qed
  note total = this
  have "Time (int n - (zone_min t * 60 + 719528 * 86400) * 1000000000) (zone_min t) = t"
    using nn by (cases t) (simp add: n_def local_ns_def)
  moreover have "num_at 4 0 9999 (pad 4 y @ u) = Some (y, u)"
    "num_at 2 1 12 (pad 2 m @ u) = Some (m, u)"
    "num_at 2 1 (month_lens y ! (m - 1)) (pad 2 d @ u) = Some (d, u)"
    "num_at 2 0 23 (pad 2 (?c div 3600) @ u) = Some (?c div 3600, u)"
    "num_at 2 0 59 (pad 2 (?c div 60 mod 60) @ u) = Some (?c div 60 mod 60, u)"
    "num_at 2 0 59 (pad 2 (?c mod 60) @ u) = Some (?c mod 60, u)" for u
  proof -
    show "num_at 4 0 9999 (pad 4 y @ u) = Some (y, u)" using y by (intro num_at_pad) simp_all
  qed (rule num_at_pad [OF d(2) m(1,2)] num_at_pad [OF d(1) m(3,4)] num_at_pad [OF c(2) le0 c(1)]
    num_at_pad [OF c(4) le0 c(3)] num_at_pad [OF c(6) le0 c(5)])+
  ultimately show ?thesis
    unfolding parse_time_def tt
    by (simp only: bind.bind_lunit prod.case chr_at_Cons append_Cons append.assoc ns
      zone_at_text [OF z] total)
qed

interpretation jtime: codec time_text parse_time time_ok
  by unfold_locales (rule parse_time_text)

subsection \<open>What the reader accepts can be written\<close>

lemma num_at_Some: "num_at k lo hi s = Some (n, t) \<Longrightarrow> lo \<le> n \<and> n \<le> hi"
  by (auto simp: num_at_def Let_def split: if_splits)

lemma zone_at_Some: "zone_at s = Some z \<Longrightarrow> \<bar>z\<bar> < 1440"
  by (auto simp: zone_at_def split: if_splits list.splits Option.bind_splits
      dest!: num_at_Some)

lemma read_nat_bound: "list_all is_digit ds \<Longrightarrow> read_nat ds < 10 ^ length ds"
proof (induction ds rule: rev_induct)
  case (snoc d ds)
  then have "byte_of d - 48 < (10::nat)" by (auto simp: is_digit_def)
  with snoc show ?case by (simp add: read_nat_snoc)
qed (simp add: read_nat_def)

lemma frac_at_Some:
  assumes "frac_at s = Some (n, t)"
  shows "n < 1000000000"
proof (cases "s \<noteq> [] \<and> hd s = CHR ''.''")
  case True
  let ?ds = "take 9 (takeWhile is_digit (tl s) @ replicate 9 (CHR ''0''))"
  have "list_all is_digit (takeWhile is_digit (tl s) @ replicate 9 (CHR ''0''))"
    by (auto simp: list_all_iff is_digit_def dest: set_takeWhileD)
  then have "list_all is_digit ?ds"
    by (metis append_take_drop_id list_all_append)
  moreover have "length ?ds = 9" by simp
  ultimately have "read_nat ?ds < 10 ^ 9" using read_nat_bound by metis
  moreover have "n = read_nat ?ds"
    using assms True by (auto simp: frac_at_def Let_def split: if_splits)
  ultimately show ?thesis by simp
qed (use assms in \<open>auto simp: frac_at_def\<close>)

lemma day_of_year_less:
  assumes "1 \<le> m" and "m \<le> 12" and "1 \<le> d" and "d \<le> month_lens y ! (m - 1)"
  shows "day_of_year y m d < year_len y"
proof -
  have m: "m - 1 < length (month_lens y)" using assms by (simp add: month_lens_def)
  have "sum_list (take (m - 1) (month_lens y)) + month_lens y ! (m - 1)
      = sum_list (take (Suc (m - 1)) (month_lens y))"
    by (simp only: take_Suc_conv_app_nth [OF m]) simp
  also have "\<dots> \<le> sum_list (month_lens y)"
    by (metis append_take_drop_id le_add1 sum_list_append)
  finally show ?thesis
    using assms by (simp add: day_of_year_def sum_month_lens)
qed

lemma time_ok_parts:
  assumes "y < 10000" and "1 \<le> mo" and "mo \<le> 12" and "1 \<le> d" and "d \<le> month_lens y ! (mo - 1)"
    and "h \<le> 23" and "mi \<le> 59" and "sec \<le> 59" and "ns < 1000000000" and "\<bar>z\<bar> < 1440"
  shows "time_ok (Time
       (int (((days_before y + day_of_year y mo d) * 86400 + h * 3600 + mi * 60 + sec) * 1000000000
          + ns) - (z * 60 + 719528 * 86400) * 1000000000) z)"
proof -
  let ?D = "days_before y + day_of_year y mo d" and ?S = "h * 3600 + mi * 60 + sec"
  let ?N = "(?D * 86400 + h * 3600 + mi * 60 + sec) * 1000000000 + ns"
  have "?S < 86400" using assms by linarith
  then have "(?D * 86400 + ?S) div 86400 = ?D" by simp
  moreover have "?N div 1000000000 = ?D * 86400 + ?S" using assms by (simp add: add.assoc)
  ultimately have D: "?N div 1000000000 div 86400 = ?D" by (simp only:)
  have "?D < days_before (Suc y)"
    using day_of_year_less [of mo d y] assms by (simp add: days_before_Suc)
  also have "\<dots> \<le> days_before 10000"
    using assms(1) days_before_mono [of "Suc y" 10000] by (cases "Suc y = 10000") auto
  finally have "fst (year_of ?D) < 10000"
    using year_of_bound [of ?D] by (metis prod.collapse)
  moreover have "local_ns (Time (int ?N - (z * 60 + 719528 * 86400) * 1000000000) z) = int ?N"
    by (simp only: local_ns_def gotime.sel diff_add_cancel)
  ultimately show ?thesis
    using assms(10) D by (simp only: time_ok_def gotime.sel nat_int of_nat_0_le_iff simp_thms)
qed

lemma parse_time_ok: "parse_time s = Some t \<Longrightarrow> time_ok t"
  unfolding parse_time_def
  apply (clarsimp simp only: bind_eq_Some_conv split_paired_Ex prod.case option.inject)
  apply (rule time_ok_parts)
  apply (auto dest!: num_at_Some zone_at_Some frac_at_Some)
  done

text \<open>The characters of a time.\<close>

lemma digit_byte: "48 \<le> (byte_of (digit n) :: nat) \<and> byte_of (digit n) \<le> (57::nat)"
  by (simp add: byte_digit)

lemma pad_bytes: "c \<in> set (pad k n) \<Longrightarrow> 48 \<le> (byte_of c :: nat) \<and> byte_of c \<le> (57::nat)"
  using pad_digits [of k n] by (auto simp: list_all_iff is_digit_def)

lemma rtrim0_subset: "set (rtrim0 s) \<subseteq> set s"
  by (auto simp: rtrim0_def dest: set_dropWhileD)

definition time_char :: "char \<Rightarrow> bool" where
  "time_char c \<longleftrightarrow> 43 \<le> (byte_of c :: nat) \<and> byte_of c \<le> (90::nat)"

lemma time_chars [simp]:
  "list_all time_char (pad k n)" "list_all time_char (rtrim0 (pad k n))"
  "time_char (CHR ''-'')" "time_char (CHR '':'')" "time_char (CHR ''.'')" "time_char (CHR ''T'')"
  "time_char (CHR ''+'')" "time_char (CHR ''Z'')"
  using pad_bytes [of _ k n] rtrim0_subset [of "pad k n"]
  by (force simp: list_all_iff time_char_def)+

lemma time_text_chars: "list_all time_char (time_text t)"
  by (simp add: time_text_def date_text_def clock_text_def frac_text_def zone_text_def Let_def
      split: prod.split)

lemma time_text_bytes:
  "c \<in> set (time_text t) \<Longrightarrow> 43 \<le> (byte_of c :: nat) \<and> byte_of c \<le> (90::nat)"
  using time_text_chars [of t] by (auto simp: list_all_iff time_char_def)

end
