(* ===== verification/GoErrors.thy ===== *)
theory GoErrors
  imports Prelude
begin

text \<open>
  Go errors. A sentinel is a package variable that the code compares with \<open>errors.Is\<close>; each package's
  sentinels are a datatype. \<open>fmt.Errorf\<close> with \<open>%w\<close> is \<open>Wrap\<close>: the text and the wrapped errors. The
  two error structs of the module, \<open>protocol.Error\<close> and \<open>keycell.Error\<close>, are constructors.

  A text is a list of fragments: a literal byte, the \<open>%q\<close> of a string, a decimal number, or the
  text of an error made outside the module (encoding/json, the operating system, age), whose
  wording is left open. Trimming a literal prefix from such a list trims it from the text.
\<close>

section \<open>Texts\<close>

datatype foreign = JsonText | OsText | AgeText | CliText

datatype frag = C char | Q bytes | D int | F foreign

type_synonym msg = "frag list"

definition lit :: "bytes \<Rightarrow> msg" where
  "lit s = map C s"

lemma lit_append: "lit (a @ b) = lit a @ lit b"
  by (simp add: lit_def)

lemma lit_inj [simp]: "lit a = lit b \<longleftrightarrow> a = b"
proof
  assume "lit a = lit b"
  then show "a = b"
    by (simp add: lit_def inj_map_eq_map inj_def)
qed simp

text \<open>\<open>strings.TrimPrefix\<close>.\<close>

definition trim_prefix :: "'a list \<Rightarrow> 'a list \<Rightarrow> 'a list" where
  "trim_prefix p s = (if take (length p) s = p then drop (length p) s else s)"

lemma trim_prefix_append [simp]: "trim_prefix p (p @ s) = s"
  by (simp add: trim_prefix_def)

section \<open>Sentinels\<close>

datatype vault_err =
    ErrVersion
  | ErrEmptyName | ErrNameTooLong | ErrInvalidUTF8 | ErrControlChar | ErrEdgeWhitespace
  | ErrInvalidKind | ErrInvalidAttrKey | ErrValueTooLarge
  | ErrWrongIdentity

datatype daemon_err = ErrLocked | ErrNotFound | ErrInvalidArgument | ErrAlreadyRunning

datatype identity_err =
    IdErrWrongPassphrase | IdErrNotFound | IdErrAmbiguous | IdErrMalformed
  | IdErrExists | IdErrWrongForm

datatype client_err =
    CErrNotRunning | CErrLocked | CErrNotFound | CErrInvalidArgument | CErrProtocol | CErrInternal

datatype std_err =
    EOF | UnexpectedEOF | ErrNotExist | DeadlineExceeded | Canceled | OsDeadlineExceeded | ErrHelp

datatype git_err = ErrNoHost | ErrNoMatch

datatype docker_err = DkErrNoServerURL | DkErrNoUsername | DkErrNoMatch

datatype tty_err = ErrNoTTY | ErrEmpty | ErrMismatch | ErrInterrupted

datatype sentinel =
    VaultS vault_err
  | DaemonS daemon_err
  | IdentityS identity_err
  | ClientS client_err
  | StdS std_err
  | GitS git_err
  | DockerS docker_err
  | TtyS tty_err
  | NoRuntimeDirS
  | LineTooLongS
  | DebugDumpableS

fun vault_err_text :: "vault_err \<Rightarrow> bytes" where
  "vault_err_text ErrVersion = ''vault: unsupported schema version''"
| "vault_err_text ErrEmptyName = ''name is empty''"
| "vault_err_text ErrNameTooLong = ''name exceeds 256 bytes''"
| "vault_err_text ErrInvalidUTF8 = ''not valid UTF-8''"
| "vault_err_text ErrControlChar = ''contains a control character''"
| "vault_err_text ErrEdgeWhitespace = ''has leading or trailing whitespace''"
| "vault_err_text ErrInvalidKind = ''kind must match [a-z0-9-]{1,64}''"
| "vault_err_text ErrInvalidAttrKey = ''attribute key must match [a-z0-9-]{1,64}''"
| "vault_err_text ErrValueTooLarge = ''value exceeds 1 MiB''"
| "vault_err_text ErrWrongIdentity = ''vault: file does not match identity''"

fun daemon_err_text :: "daemon_err \<Rightarrow> bytes" where
  "daemon_err_text ErrLocked = ''daemon: locked''"
| "daemon_err_text ErrNotFound = ''daemon: secret not found''"
| "daemon_err_text ErrInvalidArgument = ''daemon: invalid argument''"
| "daemon_err_text ErrAlreadyRunning = ''daemon: already running''"

fun identity_err_text :: "identity_err \<Rightarrow> bytes" where
  "identity_err_text IdErrWrongPassphrase = ''identity: wrong passphrase''"
| "identity_err_text IdErrNotFound = ''identity: no identity file''"
| "identity_err_text IdErrAmbiguous = ''identity: both identity.age and identity.txt exist''"
| "identity_err_text IdErrMalformed = ''identity: malformed secret key''"
| "identity_err_text IdErrExists = ''identity: directory already initialized''"
| "identity_err_text IdErrWrongForm = ''identity: wrong identity form''"

fun client_err_text :: "client_err \<Rightarrow> bytes" where
  "client_err_text CErrNotRunning = ''daemon not running''"
| "client_err_text CErrLocked = ''daemon is locked''"
| "client_err_text CErrNotFound = ''secret not found''"
| "client_err_text CErrInvalidArgument = ''invalid argument''"
| "client_err_text CErrProtocol = ''protocol error''"
| "client_err_text CErrInternal = ''internal daemon error''"

fun std_err_text :: "std_err \<Rightarrow> bytes" where
  "std_err_text EOF = ''EOF''"
| "std_err_text UnexpectedEOF = ''unexpected EOF''"
| "std_err_text ErrNotExist = ''file does not exist''"
| "std_err_text DeadlineExceeded = ''context deadline exceeded''"
| "std_err_text Canceled = ''context canceled''"
| "std_err_text OsDeadlineExceeded = ''i/o timeout''"
| "std_err_text ErrHelp = ''flag: help requested''"

fun git_err_text :: "git_err \<Rightarrow> bytes" where
  "git_err_text ErrNoHost = ''host missing''"
| "git_err_text ErrNoMatch = ''no match''"

fun docker_err_text :: "docker_err \<Rightarrow> bytes" where
  "docker_err_text DkErrNoServerURL = ''server URL missing''"
| "docker_err_text DkErrNoUsername = ''username missing''"
| "docker_err_text DkErrNoMatch = ''no match''"

fun tty_err_text :: "tty_err \<Rightarrow> bytes" where
  "tty_err_text ErrNoTTY = ''no TTY for passphrase prompt''"
| "tty_err_text ErrEmpty = ''empty passphrase''"
| "tty_err_text ErrMismatch = ''passphrases do not match''"
| "tty_err_text ErrInterrupted = ''interrupted''"

fun sentinel_text :: "sentinel \<Rightarrow> bytes" where
  "sentinel_text (VaultS e) = vault_err_text e"
| "sentinel_text (DaemonS e) = daemon_err_text e"
| "sentinel_text (IdentityS e) = identity_err_text e"
| "sentinel_text (ClientS e) = client_err_text e"
| "sentinel_text (StdS e) = std_err_text e"
| "sentinel_text (GitS e) = git_err_text e"
| "sentinel_text (DockerS e) = docker_err_text e"
| "sentinel_text (TtyS e) = tty_err_text e"
| "sentinel_text NoRuntimeDirS = ''XDG_RUNTIME_DIR is not set; set it, or set the socket path via KEYCELL_SOCKET, --socket or the config file''"
| "sentinel_text LineTooLongS = ''protocol: line exceeds 1463640 bytes''"
| "sentinel_text DebugDumpableS = ''secmem: hardening skipped, KEYCELL_DEBUG_DUMPABLE=1''"

section \<open>Error values\<close>

datatype goerr =
    Sentinel sentinel
  | New msg
  | Wrap msg "goerr list"
  | ProtoErr bytes msg
  | ClientErr bytes msg
  | Ambiguous "bytes list"

type_synonym 'a res = "(goerr, 'a) outcome"

text \<open>Error codes of the protocol (internal/protocol/protocol.go).\<close>

definition CodeProtocol :: bytes where "CodeProtocol = ''PROTOCOL''"
definition CodeInvalidArgument :: bytes where "CodeInvalidArgument = ''INVALID_ARGUMENT''"
definition CodeNotFound :: bytes where "CodeNotFound = ''NOT_FOUND''"
definition CodeLocked :: bytes where "CodeLocked = ''LOCKED''"
definition CodeInternal :: bytes where "CodeInternal = ''INTERNAL''"

lemmas code_defs = CodeProtocol_def CodeInvalidArgument_def CodeNotFound_def CodeLocked_def
  CodeInternal_def

text \<open>\<open>keycell.Error.Unwrap\<close>: the sentinel a wire code stands for.\<close>

definition unwrap_code :: "bytes \<Rightarrow> client_err" where
  "unwrap_code code =
     (if code = CodeLocked then CErrLocked
      else if code = CodeNotFound then CErrNotFound
      else if code = CodeInvalidArgument then CErrInvalidArgument
      else if code = CodeInternal then CErrInternal
      else CErrProtocol)"

fun join_names :: "bytes list \<Rightarrow> bytes" where
  "join_names [] = []"
| "join_names [n] = n"
| "join_names (n # ns) = n @ '', '' @ join_names ns"

fun err_msg :: "goerr \<Rightarrow> msg" where
  "err_msg (Sentinel s) = lit (sentinel_text s)"
| "err_msg (New m) = m"
| "err_msg (Wrap m es) = m"
| "err_msg (ProtoErr c m) = lit c @ lit '': '' @ m"
| "err_msg (ClientErr c m) = lit c @ lit '': '' @ m"
| "err_msg (Ambiguous ns) = lit (''ambiguous match: '' @ join_names ns)"

text \<open>\<open>errors.Is\<close>: the error itself or, depth first, anything it wraps.\<close>

fun errors_is :: "goerr \<Rightarrow> sentinel \<Rightarrow> bool" where
  "errors_is (Sentinel s) t \<longleftrightarrow> s = t"
| "errors_is (New m) t \<longleftrightarrow> False"
| "errors_is (Wrap m es) t \<longleftrightarrow> (\<exists>e \<in> set es. errors_is e t)"
| "errors_is (ProtoErr c m) t \<longleftrightarrow> False"
| "errors_is (ClientErr c m) t \<longleftrightarrow> ClientS (unwrap_code c) = t"
| "errors_is (Ambiguous ns) t \<longleftrightarrow> False"

text \<open>\<open>errors.As\<close> for the two error structs: the first one found, depth first.\<close>

fun errors_as_proto :: "goerr \<Rightarrow> (bytes \<times> msg) option"
  and errors_as_proto_list :: "goerr list \<Rightarrow> (bytes \<times> msg) option" where
  "errors_as_proto (ProtoErr c m) = Some (c, m)"
| "errors_as_proto (Wrap m es) = errors_as_proto_list es"
| "errors_as_proto _ = None"
| "errors_as_proto_list [] = None"
| "errors_as_proto_list (e # es) =
     (case errors_as_proto e of Some r \<Rightarrow> Some r | None \<Rightarrow> errors_as_proto_list es)"

fun errors_as_client :: "goerr \<Rightarrow> (bytes \<times> msg) option"
  and errors_as_client_list :: "goerr list \<Rightarrow> (bytes \<times> msg) option" where
  "errors_as_client (ClientErr c m) = Some (c, m)"
| "errors_as_client (Wrap m es) = errors_as_client_list es"
| "errors_as_client _ = None"
| "errors_as_client_list [] = None"
| "errors_as_client_list (e # es) =
     (case errors_as_client e of Some r \<Rightarrow> Some r | None \<Rightarrow> errors_as_client_list es)"

text \<open>
  A system call on the file of a connection, through \<open>SyscallConn\<close> and \<open>Control\<close>: each of the two may fail,
  and then the call itself.
\<close>

record 'a raw_call =
  rwConn :: "goerr option"
  rwControl :: "goerr option"
  rwResult :: "(goerr, 'a) outcome"

definition raw_do :: "'a raw_call \<Rightarrow> (goerr, 'a) outcome" where
  "raw_do w =
     (case rwConn w of Some e \<Rightarrow> Er e | None \<Rightarrow>
      case rwControl w of Some e \<Rightarrow> Er e | None \<Rightarrow> rwResult w)"

definition call_ok :: "'a \<Rightarrow> 'a raw_call" where
  "call_ok x = \<lparr> rwConn = None, rwControl = None, rwResult = Ok x \<rparr>"

lemma raw_do_Ok: "raw_do w = Ok x \<longleftrightarrow> w = call_ok x"
  by (cases w) (simp add: raw_do_def call_ok_def split: option.split)

lemma raw_do_ok [simp]: "raw_do (call_ok x) = Ok x"
  by (simp add: raw_do_def call_ok_def)

text \<open>\<open>fmt.Errorf("...: %w", e)\<close> and \<open>fmt.Errorf("%w: %w", a, b)\<close>.\<close>

definition wrapf :: "msg \<Rightarrow> goerr \<Rightarrow> goerr" where
  "wrapf p e = Wrap (p @ lit '': '' @ err_msg e) [e]"

definition wrap2 :: "goerr \<Rightarrow> goerr \<Rightarrow> goerr" where
  "wrap2 a b = Wrap (err_msg a @ lit '': '' @ err_msg b) [a, b]"

lemma wrapf_simps [simp]:
  "errors_is (wrapf p e) t \<longleftrightarrow> errors_is e t"
  "errors_as_proto (wrapf p e) = errors_as_proto e"
  "errors_as_client (wrapf p e) = errors_as_client e"
  "err_msg (wrapf p e) = p @ lit '': '' @ err_msg e"
  by (simp_all add: wrapf_def split: option.split)

lemma wrap2_simps [simp]:
  "errors_is (wrap2 a b) t \<longleftrightarrow> errors_is a t \<or> errors_is b t"
  "err_msg (wrap2 a b) = err_msg a @ lit '': '' @ err_msg b"
  "errors_as_proto (wrap2 a b) =
     (case errors_as_proto a of Some r \<Rightarrow> Some r | None \<Rightarrow> errors_as_proto b)"
  by (simp_all add: wrap2_def split: option.split)

end
