(* ===== verification/Validate.thy ===== *)
theory Validate
  imports GoErrors GoText
begin

text \<open>
  internal/vault/validate.go: the rules for names, kinds, attributes and values. Each check returns
  the first rule that is violated, in the order of the source's \<open>switch\<close>.
\<close>

section \<open>Limits\<close>

definition MaxNameLen :: nat where "MaxNameLen = 256"
definition MaxKindLen :: nat where "MaxKindLen = 64"
definition MaxValueLen :: nat where "MaxValueLen = 1024 * 1024"

lemmas limits = MaxNameLen_def MaxKindLen_def MaxValueLen_def

section \<open>The checks\<close>

definition slug_char :: "char \<Rightarrow> bool" where
  "slug_char c \<longleftrightarrow>
     \<not> ((c < CHR ''a'' \<or> c > CHR ''z'') \<and> (c < CHR ''0'' \<or> c > CHR ''9'') \<and> c \<noteq> CHR ''-'')"

fun isSlug :: "bytes \<Rightarrow> bool" where
  "isSlug s = (if s = [] \<or> length s > MaxKindLen then False else list_all slug_char s)"

definition validateText :: "msg \<Rightarrow> bytes \<Rightarrow> goerr \<Rightarrow> goerr \<Rightarrow> unit res" where
  "validateText field s emptyErr tooLong =
     (if s = [] then Er (wrapf field emptyErr)
      else if length s > MaxNameLen then Er (wrapf field tooLong)
      else if \<not> utf8_valid s then Er (wrapf field (Sentinel (VaultS ErrInvalidUTF8)))
      else if contains_control s then Er (wrapf field (Sentinel (VaultS ErrControlChar)))
      else if trim_space s \<noteq> s then Er (wrapf field (Sentinel (VaultS ErrEdgeWhitespace)))
      else Ok ())"

definition ValidateName :: "bytes \<Rightarrow> unit res" where
  "ValidateName name =
     validateText (lit ''name'') name (Sentinel (VaultS ErrEmptyName))
       (Sentinel (VaultS ErrNameTooLong))"

definition ValidateKind :: "bytes \<Rightarrow> unit res" where
  "ValidateKind kind =
     (if \<not> isSlug kind
      then Er (wrapf (lit ''kind '' @ [Q kind]) (Sentinel (VaultS ErrInvalidKind)))
      else Ok ())"

text \<open>The list is the order in which the \<open>range\<close> loop visits the attributes.\<close>

fun ValidateAttributes :: "(bytes, bytes) gomap \<Rightarrow> unit res" where
  "ValidateAttributes [] = Ok ()"
| "ValidateAttributes ((k, v) # rest) =
     (if \<not> isSlug k
      then Er (wrapf (lit ''attribute '' @ [Q k]) (Sentinel (VaultS ErrInvalidAttrKey)))
      else obind (validateText (lit (''attribute '' @ k)) v (Sentinel (VaultS ErrEmptyName))
                    (Sentinel (VaultS ErrNameTooLong)))
             (\<lambda>_. ValidateAttributes rest))"

definition ValidateValue :: "bytes \<Rightarrow> unit res" where
  "ValidateValue value =
     (if length value > MaxValueLen
      then Er (wrapf (lit ''value is '' @ [D (int (length value))] @ lit '' bytes'')
                 (Sentinel (VaultS ErrValueTooLarge)))
      else Ok ())"

text \<open>\<open>ValidateSecret\<close> takes the fields of the secret it reads.\<close>

definition ValidateSecret ::
  "bytes \<Rightarrow> bytes \<Rightarrow> (bytes, bytes) gomap \<Rightarrow> bytes \<Rightarrow> unit res" where
  "ValidateSecret name kind attrs value =
     obind (ValidateName name) (\<lambda>_.
     obind (ValidateKind kind) (\<lambda>_.
     obind (ValidateAttributes attrs) (\<lambda>_.
     ValidateValue value)))"

section \<open>What passing them means\<close>

definition text_ok :: "bytes \<Rightarrow> bool" where
  "text_ok s \<longleftrightarrow> s \<noteq> [] \<and> length s \<le> 256 \<and> utf8_valid s
     \<and> (\<forall>(i, r) \<in> set (runes s). \<not> is_control r) \<and> trim_space s = s"

definition attrs_ok :: "(bytes, bytes) gomap \<Rightarrow> bool" where
  "attrs_ok m \<longleftrightarrow> (\<forall>(k, v) \<in> set m. isSlug k \<and> text_ok v)"

lemma validateText_Ok [simp]: "validateText f s a b = Ok u \<longleftrightarrow> text_ok s"
  by (auto simp: validateText_def text_ok_def limits contains_control_def)

lemma validateText_no_panic [simp]: "validateText f s a b \<noteq> Panic"
  by (simp add: validateText_def)

lemma ValidateName_Ok [simp]: "ValidateName s = Ok u \<longleftrightarrow> text_ok s"
  by (simp add: ValidateName_def)

lemma ValidateKind_Ok [simp]: "ValidateKind s = Ok u \<longleftrightarrow> isSlug s"
  by (simp add: ValidateKind_def)

lemma ValidateAttributes_Ok [simp]: "ValidateAttributes m = Ok u \<longleftrightarrow> attrs_ok m"
  by (induction m rule: ValidateAttributes.induct)
    (auto simp: attrs_ok_def obind_eq_Ok simp del: isSlug.simps)

lemma ValidateValue_Ok [simp]: "ValidateValue v = Ok u \<longleftrightarrow> length v \<le> 1048576"
  by (auto simp: ValidateValue_def limits)

lemma validate_no_panic [simp]:
  "ValidateName s \<noteq> Panic" "ValidateKind s \<noteq> Panic" "ValidateValue v \<noteq> Panic"
  by (simp_all add: ValidateName_def ValidateKind_def ValidateValue_def)

lemma ValidateAttributes_no_panic [simp]: "ValidateAttributes m \<noteq> Panic"
  by (induction m rule: ValidateAttributes.induct) (auto simp: obind_eq_Panic)

lemma ValidateSecret_no_panic [simp]: "ValidateSecret n k m v \<noteq> Panic"
  by (auto simp: ValidateSecret_def obind_eq_Panic)

definition secret_ok :: "bytes \<Rightarrow> bytes \<Rightarrow> (bytes, bytes) gomap \<Rightarrow> bytes \<Rightarrow> bool" where
  "secret_ok name kind attrs value \<longleftrightarrow>
     text_ok name \<and> isSlug kind \<and> attrs_ok attrs \<and> length value \<le> 1048576"

lemma ValidateSecret_Ok [simp]: "ValidateSecret n k m v = Ok u \<longleftrightarrow> secret_ok n k m v"
  by (auto simp: ValidateSecret_def obind_eq_Ok secret_ok_def simp del: isSlug.simps)

declare isSlug.simps [simp del]

subsection \<open>Bytes of accepted texts\<close>

lemma runes_from_ascii:
  assumes "utf8_valid s" and "c \<in> set s" and "byte_of c < (128::nat)"
  shows "\<exists>j. (j, byte_of c) \<in> set (runes_from i s)"
  using assms
proof (induction i s rule: runes_from.induct)
  case (2 i x xs)
  from "2.prems"(1) obtain r n where h: "utf8_head (x # xs) = Some (r, n)"
    and v: "utf8_valid (drop n (x # xs))"
    by (auto simp: utf8_valid.simps(2) split: option.splits)
  have d: "decode_rune (x # xs) = (r, n)" by (simp add: decode_rune_def h)
  have unf: "runes_from i (x # xs) = (i, r) # runes_from (i + n) (drop n (x # xs))"
    by (simp add: runes_from.simps(2) d)
  have "c \<in> set (take n (x # xs)) \<or> c \<in> set (drop n (x # xs))"
    using "2.prems"(2) by (metis Un_iff append_take_drop_id set_append)
  then show ?case
  proof
    assume c: "c \<in> set (take n (x # xs))"
    show ?thesis
    proof (cases "byte_of x < (128::nat)")
      case True
      then have "r = byte_of x" and "n = 1" using h by (simp_all add: utf8_head_ascii)
      with c show ?thesis by (auto simp: unf)
    next
      case False
      from utf8_head_multi [OF h this] c "2.prems"(3) show ?thesis by fastforce
    qed
  next
    assume c: "c \<in> set (drop n (x # xs))"
    have "\<exists>j. (j, byte_of c) \<in> set (runes_from (i + n) (drop n (x # xs)))"
      by (rule "2.IH" [OF d [symmetric] refl v c "2.prems"(3)])
    then show ?thesis by (auto simp: unf)
  qed
qed simp

lemma text_ok_no_control_byte:
  assumes "text_ok s" and "c \<in> set s"
  shows "32 \<le> (byte_of c :: nat) \<and> byte_of c \<noteq> (127::nat)"
proof (rule ccontr)
  assume n: "\<not> ?thesis"
  then have "byte_of c < (128::nat)" by auto
  then obtain j where "(j, byte_of c) \<in> set (runes s)"
    using runes_from_ascii [of s c 0] assms by (auto simp: text_ok_def runes_def)
  then have "\<not> is_control (byte_of c)" using assms(1) by (auto simp: text_ok_def)
  then show False using n by (auto simp: is_control_def)
qed

lemma text_ok_no_LF: "text_ok s \<Longrightarrow> LF \<notin> set s"
  using text_ok_no_control_byte by fastforce

lemma text_ok_no_NUL: "text_ok s \<Longrightarrow> NUL \<notin> set s"
  using text_ok_no_control_byte by fastforce

lemma slug_char_byte:
  "slug_char c \<longleftrightarrow> (97 \<le> (byte_of c :: nat) \<and> byte_of c \<le> (122::nat))
     \<or> (48 \<le> (byte_of c :: nat) \<and> byte_of c \<le> (57::nat)) \<or> byte_of c = (45::nat)"
proof -
  have "of_char c = (of_char (CHR ''-'') :: nat) \<longleftrightarrow> c = CHR ''-''"
    by (rule of_char_eq_iff)
  then have eq: "c = CHR ''-'' \<longleftrightarrow> byte_of c = (45::nat)"
    by simp
  show ?thesis
    by (auto simp: slug_char_def less_char_def eq)
qed

subsection \<open>Printable ASCII is accepted\<close>

definition graphic :: "char \<Rightarrow> bool" where
  "graphic c \<longleftrightarrow> 32 < (byte_of c :: nat) \<and> byte_of c < (127 :: nat)"

lemma space_encs_eq:
  "space_encs = map encode_rune [9, 10, 11, 12, 13, 32, 133, 160, 5760, 8192, 8193, 8194, 8195,
     8196, 8197, 8198, 8199, 8200, 8201, 8202, 8232, 8233, 8239, 8287, 12288]"
  unfolding space_encs_def by (simp add: upt_rec_numeral)

lemma space_ends: "list_all (\<lambda>e. e \<noteq> [] \<and> \<not> graphic (hd e) \<and> \<not> graphic (last e)) space_encs"
  unfolding space_encs_eq by (simp add: encode_rune_def graphic_def)

lemma strip_graphic:
  assumes "s = [] \<or> graphic (hd s)" and "\<forall>e \<in> set encs. e = [] \<or> \<not> graphic (hd e)"
  shows "strip encs s = s"
proof -
  have "find (\<lambda>e. e \<noteq> [] \<and> take (length e) s = e) encs = None"
    unfolding find_None_iff
  proof (intro notI, elim exE conjE)
    fix e assume e: "e \<in> set encs" "e \<noteq> []" "take (length e) s = e"
    then have "hd e = hd s" by (metis hd_take length_greater_0_conv)
    moreover have "s \<noteq> []" using e(2,3) by auto
    ultimately show False using assms e(1,2) by auto
  qed
  then show ?thesis by (subst strip.simps) simp
qed

lemma trim_graphic: "s \<noteq> [] \<Longrightarrow> graphic (hd s) \<Longrightarrow> graphic (last s) \<Longrightarrow> trim_space s = s"
  using space_ends by (simp add: trim_space_def strip_graphic list_all_iff hd_rev)

lemma runes_ascii:
  assumes "\<forall>c \<in> set s. byte_of c < (128::nat)" and "(j, r) \<in> set (runes_from i s)"
  shows "\<exists>c \<in> set s. r = byte_of c"
  using assms
proof (induction s arbitrary: i)
  case (Cons c cs)
  then have "decode_rune (c # cs) = (byte_of c, 1)" by (simp add: decode_rune_def utf8_head_ascii)
  then have "runes_from i (c # cs) = (i, byte_of c) # runes_from (i + 1) cs"
    by (simp add: runes_from.simps(2))
  with Cons.prems(2) have "r = byte_of c \<or> (j, r) \<in> set (runes_from (i + 1) cs)" by auto
  then show ?case
  proof
    assume "(j, r) \<in> set (runes_from (i + 1) cs)"
    from Cons.IH [OF _ this] Cons.prems(1) show ?thesis by simp
  qed simp
qed simp

lemma text_ok_graphic:
  assumes "s \<noteq> []" and "length s \<le> 256" and "graphic (hd s)" and "graphic (last s)"
    and "\<forall>c \<in> set s. c = CHR '' '' \<or> graphic c"
  shows "text_ok s"
proof -
  have b: "32 \<le> (byte_of c :: nat) \<and> byte_of c < (127 :: nat)" if "c \<in> set s" for c
  proof (cases "c = CHR '' ''")
    case False
    with assms(5) that have "graphic c" by blast
    then show ?thesis unfolding graphic_def by linarith
  qed simp
  have ascii: "\<forall>c \<in> set s. byte_of c < (128 :: nat)"
  proof
    fix c assume "c \<in> set s"
    from b [OF this] show "byte_of c < (128 :: nat)" by simp
  qed
  have "\<not> is_control r" if "(j, r) \<in> set (runes s)" for j r
  proof -
    from that have "(j, r) \<in> set (runes_from 0 s)" by (simp add: runes_def)
    from runes_ascii [OF ascii this] obtain c where "c \<in> set s" "r = byte_of c" ..
    with b [of c] show ?thesis by (simp add: is_control_def)
  qed
  then show ?thesis
    using assms trim_graphic utf8_valid_ascii [OF ascii] by (auto simp: text_ok_def)
qed

end
