(* ===== verification/Vault.thy ===== *)
theory Vault
  imports JsonDecode GoTime Validate
begin

text \<open>
  internal/vault/vault.go: the plaintext schema of the vault and its JSON form.

  A vault maps names to secrets through pointers, and a JSON \<open>null\<close> in the place of a secret is a nil
  pointer, so an entry is a \<open>secret option\<close>. The nil map and the empty map are both \<open>[]\<close>: \<open>Encode\<close>
  and \<open>Decode\<close> turn the nil map into the empty one before anything looks at it.
\<close>

section \<open>Types\<close>

definition Version :: int where "Version = 1"

record vsecret =
  vKind :: bytes
  vValue :: "bytes option"
  vAttributes :: "(bytes, bytes) gomap"
  vCreated :: gotime
  vUpdated :: gotime

record vault =
  vVersion :: int
  vSecrets :: "(bytes, vsecret option) gomap"

text \<open>The zero \<open>time.Time\<close> is 1 January of year 1, UTC.\<close>

definition zero_time :: gotime where
  "zero_time = Time (- 62135596800000000000) 0"

definition zero_secret :: vsecret where
  "zero_secret = \<lparr> vKind = [], vValue = None, vAttributes = [], vCreated = zero_time,
     vUpdated = zero_time \<rparr>"

definition New_vault :: vault where
  "New_vault = \<lparr> vVersion = Version, vSecrets = [] \<rparr>"

text \<open>An error made by encoding/json.\<close>

definition json_err :: goerr where
  "json_err = New [F JsonText]"

section \<open>Encode\<close>

definition enc_time :: "gotime \<Rightarrow> json" where
  "enc_time t = JStr (time_text t)"

definition enc_secret :: "vsecret \<Rightarrow> json" where
  "enc_secret s = JObj
     (fld ''kind'' (enc_string (vKind s))
      @ fld ''value'' (enc_bytes (vValue s))
      @ fld_if (vAttributes s \<noteq> []) ''attributes'' (enc_strmap (vAttributes s))
      @ fld ''created'' (enc_time (vCreated s))
      @ fld ''updated'' (enc_time (vUpdated s)))"

definition enc_secret_ptr :: "vsecret option \<Rightarrow> json" where
  "enc_secret_ptr p = (case p of None \<Rightarrow> JNull | Some s \<Rightarrow> enc_secret s)"

definition enc_vault :: "vault \<Rightarrow> json" where
  "enc_vault v = JObj
     (fld ''version'' (enc_int (vVersion v))
      @ fld ''secrets'' (enc_map enc_secret_ptr (vSecrets v)))"

text \<open>The only value \<open>json.Marshal\<close> refuses here is a time outside the years 0 to 9999.\<close>

definition times_ok :: "vault \<Rightarrow> bool" where
  "times_ok v = list_all (\<lambda>(k, p). case p of None \<Rightarrow> True
     | Some s \<Rightarrow> time_ok (vCreated s) \<and> time_ok (vUpdated s)) (vSecrets v)"

definition Encode :: "vault \<Rightarrow> bytes res" where
  "Encode v =
     (if times_ok v then Ok (print_json (enc_vault v))
      else Er (wrapf (lit ''vault: encode'') json_err))"

section \<open>Decode\<close>

text \<open>\<open>Time.UnmarshalJSON\<close> looks at the literal as it stands, without resolving escapes.\<close>

definition dec_time :: "gotime \<Rightarrow> json \<Rightarrow> gotime option" where
  "dec_time cur j = (case j of JNull \<Rightarrow> Some cur | JStr raw \<Rightarrow> parse_time raw | _ \<Rightarrow> None)"

definition secret_fields :: "(bytes \<times> vsecret setter) list" where
  "secret_fields =
     [(''kind'', \<lambda>s j. map_option (\<lambda>x. s\<lparr>vKind := x\<rparr>) (dec_string (vKind s) j)),
      (''value'', \<lambda>s j. map_option (\<lambda>x. s\<lparr>vValue := x\<rparr>) (dec_bytes (vValue s) j)),
      (''attributes'', \<lambda>s j. map_option (\<lambda>x. s\<lparr>vAttributes := x\<rparr>) (dec_strmap (vAttributes s) j)),
      (''created'', \<lambda>s j. map_option (\<lambda>x. s\<lparr>vCreated := x\<rparr>) (dec_time (vCreated s) j)),
      (''updated'', \<lambda>s j. map_option (\<lambda>x. s\<lparr>vUpdated := x\<rparr>) (dec_time (vUpdated s) j))]"

definition dec_secret_ptr :: "json \<Rightarrow> vsecret option option" where
  "dec_secret_ptr j =
     (case j of JNull \<Rightarrow> Some None
      | _ \<Rightarrow> map_option Some (dec_struct True secret_fields zero_secret j))"

definition vault_fields :: "(bytes \<times> vault setter) list" where
  "vault_fields =
     [(''version'', \<lambda>v j. map_option (\<lambda>x. v\<lparr>vVersion := x\<rparr>) (dec_int64 (vVersion v) j)),
      (''secrets'', \<lambda>v j. map_option (\<lambda>x. v\<lparr>vSecrets := x\<rparr>)
         (dec_map dec_secret_ptr (vSecrets v) j))]"

text \<open>The struct \<open>head\<close> of \<open>Decode\<close>, which is its \<open>version\<close> alone.\<close>

definition head_fields :: "(bytes \<times> int setter) list" where
  "head_fields = [(''version'', \<lambda>v j. dec_int64 v j)]"

text \<open>
  \<open>json.Unmarshal\<close> has checked the whole input before the version is compared, so it is one document
  and nothing else; the check for trailing data after the second decoding cannot fail.
\<close>

definition Decode :: "bytes \<Rightarrow> vault res" where
  "Decode b =
     (case parse_json b of
        None \<Rightarrow> Er (wrapf (lit ''vault: decode'') json_err)
      | Some j \<Rightarrow>
          (case dec_struct False head_fields 0 j of
             None \<Rightarrow> Er (wrapf (lit ''vault: decode'') json_err)
           | Some version \<Rightarrow>
               if version > Version then
                 Er (Wrap (lit (sentinel_text (VaultS ErrVersion)) @ lit '': file has '' @ [D version]
                       @ lit '', this keycell supports up to '' @ [D Version])
                     [Sentinel (VaultS ErrVersion)])
               else
                 (case dec_struct True vault_fields New_vault j of
                    None \<Rightarrow> Er (wrapf (lit ''vault: decode'') json_err)
                  | Some v \<Rightarrow> Ok (v\<lparr>vVersion := Version\<rparr>))))"

section \<open>Wipe\<close>

text \<open>Reading the value of a nil secret panics.\<close>

fun wipe_secrets :: "(bytes, vsecret option) gomap \<Rightarrow> (bytes, vsecret option) gomap res" where
  "wipe_secrets [] = Ok []"
| "wipe_secrets ((k, None) # m) = Panic"
| "wipe_secrets ((k, Some s) # m) =
     obind (wipe_secrets m) (\<lambda>m'. Ok ((k, Some (s\<lparr>vValue := map_option zeroed (vValue s)\<rparr>)) # m'))"

definition Wipe :: "vault option \<Rightarrow> bytes option \<Rightarrow> (vault option \<times> bytes option) res" where
  "Wipe v b =
     obind (case v of
              None \<Rightarrow> Ok None
            | Some v \<Rightarrow> obind (wipe_secrets (vSecrets v)) (\<lambda>m. Ok (Some (v\<lparr>vSecrets := m\<rparr>))))
       (\<lambda>v'. Ok (v', map_option zeroed b))"

section \<open>Round trip\<close>

text \<open>
  What \<open>Encode\<close> is meant for: distinct names, texts that are UTF-8, times that can be written.
  Reading back sorts the names and the attribute keys, which leaves every lookup as it was.
\<close>

definition vsecret_ok :: "vsecret \<Rightarrow> bool" where
  "vsecret_ok s \<longleftrightarrow> utf8_valid (vKind s) \<and> gomap_ok (vAttributes s)
     \<and> (\<forall>(k, v) \<in> set (vAttributes s). utf8_valid k \<and> utf8_valid v)
     \<and> time_ok (vCreated s) \<and> time_ok (vUpdated s)"

definition vault_ok :: "vault \<Rightarrow> bool" where
  "vault_ok v \<longleftrightarrow> int64_range (vVersion v) \<and> gomap_ok (vSecrets v)
     \<and> (\<forall>(k, p) \<in> set (vSecrets v). utf8_valid k \<and> (case p of None \<Rightarrow> True | Some s \<Rightarrow> vsecret_ok s))"

definition norm_secret :: "vsecret \<Rightarrow> vsecret" where
  "norm_secret s = s\<lparr>vAttributes := sort_key fst (vAttributes s)\<rparr>"

definition norm_vault :: "vault \<Rightarrow> vault" where
  "norm_vault v = \<lparr> vVersion = Version,
     vSecrets = map (\<lambda>(k, p). (k, map_option norm_secret p)) (sort_key fst (vSecrets v)) \<rparr>"

lemma unquote_names [simp]:
  "unquote_lit ''version'' = Some ''version''" "unquote_lit ''secrets'' = Some ''secrets''"
  "unquote_lit ''kind'' = Some ''kind''" "unquote_lit ''value'' = Some ''value''"
  "unquote_lit ''attributes'' = Some ''attributes''" "unquote_lit ''created'' = Some ''created''"
  "unquote_lit ''updated'' = Some ''updated''"
  by (rule unquote_plain, simp)+

lemma dec_time_enc [json_rt, simp]: "time_ok t \<Longrightarrow> dec_time cur (enc_time t) = Some t"
  by (simp add: dec_time_def enc_time_def parse_time_text)

lemma dec_secret_enc:
  assumes "vsecret_ok s"
  shows "dec_struct True secret_fields zero_secret (enc_secret s) = Some (norm_secret s)"
  using assms
  by (cases "vAttributes s = []")
    (simp_all add: vsecret_ok_def dec_struct_def enc_secret_def fld_def fld_if_def find_field_def
      secret_fields_def zero_secret_def dec_strmap_enc norm_secret_def)

lemma dec_secret_ptr_enc:
  assumes "case p of None \<Rightarrow> True | Some s \<Rightarrow> vsecret_ok s"
  shows "dec_secret_ptr (enc_secret_ptr p) = Some (map_option norm_secret p)"
proof (cases p)
  case (Some s)
  obtain ms where ms: "enc_secret s = JObj ms" by (simp add: enc_secret_def)
  then show ?thesis
    using assms dec_secret_enc [of s]
    by (simp add: dec_secret_ptr_def enc_secret_ptr_def Some)
qed (simp add: dec_secret_ptr_def enc_secret_ptr_def)

lemma dec_secrets_enc:
  assumes "vault_ok v"
  shows "dec_map dec_secret_ptr [] (enc_map enc_secret_ptr (vSecrets v))
    = Some (vSecrets (norm_vault v))"
  using assms dec_secret_ptr_enc
  by (simp add: norm_vault_def vault_ok_def) (intro dec_map_enc; fastforce)

lemma vault_times_ok: "vault_ok v \<Longrightarrow> times_ok v"
  by (fastforce simp: vault_ok_def times_ok_def list_all_iff vsecret_ok_def split: option.splits)

lemma time_text_raw: "raw_ok (time_text t)"
proof (rule raw_ok_plain, intro ballI)
  fix c
  assume "c \<in> set (time_text t)"
  from time_text_bytes [OF this] show "c \<noteq> DQ \<and> c \<noteq> BSL \<and> 32 \<le> (byte_of c :: nat)" by auto
qed

lemma json_ok_enc_time [simp]: "json_ok (enc_time t)" "json_depth (enc_time t) = 0"
  by (simp_all add: enc_time_def time_text_raw)

lemma raw_ok_names [simp]:
  "raw_ok ''version''" "raw_ok ''secrets''" "raw_ok ''kind''" "raw_ok ''value''"
  "raw_ok ''attributes''" "raw_ok ''created''" "raw_ok ''updated''"
  by (rule raw_ok_plain, simp)+

lemma json_ok_enc_secret [simp]: "json_ok (enc_secret s)"
  by (simp add: enc_secret_def fld_def fld_if_def)

lemma json_depth_enc_secret: "json_depth (enc_secret s) \<le> 2"
  using json_depth_enc_strmap [of "vAttributes s"]
  by (simp add: enc_secret_def fld_def fld_if_def)

lemma enc_vault_ok: "json_ok (enc_vault v) \<and> json_depth (enc_vault v) \<le> MaxDepth"
proof -
  have "json_ok (enc_map enc_secret_ptr (vSecrets v))"
    by (rule json_ok_enc_map) (auto simp: enc_secret_ptr_def split: option.splits)
  moreover have "json_depth (enc_map enc_secret_ptr (vSecrets v)) \<le> Suc 2"
    using json_depth_enc_secret
    by (intro json_depth_enc_map) (auto simp: enc_secret_ptr_def split: option.splits)
  ultimately show ?thesis by (simp add: enc_vault_def fld_def MaxDepth_def)
qed

lemma Encode_Ok: "vault_ok v \<Longrightarrow> Encode v = Ok (print_json (enc_vault v))"
  by (simp add: Encode_def vault_times_ok)

lemma Decode_print:
  assumes "vault_ok v"
  shows "Decode (print_json (enc_vault v)) =
    (if vVersion v > Version then
       Er (Wrap (lit (sentinel_text (VaultS ErrVersion)) @ lit '': file has '' @ [D (vVersion v)]
             @ lit '', this keycell supports up to '' @ [D Version])
           [Sentinel (VaultS ErrVersion)])
     else Ok (norm_vault v))"
proof -
  let ?j = "enc_vault v"
  have "parse_json (print_json ?j) = Some ?j"
    using enc_vault_ok [of v] by (intro parse_print) simp_all
  moreover have "dec_struct False head_fields 0 ?j = Some (vVersion v)"
    using assms
    by (simp add: vault_ok_def dec_struct_def enc_vault_def fld_def head_fields_def find_field_def
        fold_name.simps)
  moreover have "dec_struct True vault_fields New_vault ?j
      = Some (norm_vault v\<lparr>vVersion := vVersion v\<rparr>)"
    using assms dec_secrets_enc [OF assms]
    by (simp add: vault_ok_def dec_struct_def enc_vault_def fld_def vault_fields_def find_field_def
        New_vault_def norm_vault_def)
  ultimately show ?thesis by (simp add: Decode_def norm_vault_def)
qed

text \<open>What is written is read back, for a vault of the current version or an older one.\<close>

theorem Decode_Encode:
  assumes "vault_ok v" and "vVersion v \<le> Version"
  shows "\<exists>b. Encode v = Ok b \<and> Decode b = Ok (norm_vault v)"
  using assms by (simp add: Encode_Ok Decode_print)

lemma norm_vault_lookup:
  assumes "vault_ok v"
  shows "map_of (vSecrets (norm_vault v)) k
    = map_option (map_option norm_secret) (map_of (vSecrets v) k)"
  using assms by (simp add: norm_vault_def map_of_map vault_ok_def)

section \<open>What a decoded vault looks like\<close>

text \<open>
  Every vault that was read can be written again, whatever the document was: the texts are UTF-8
  (the decoder replaces what is not), the times are in range and the keys of the maps are distinct.
\<close>

lemma time_ok_zero: "time_ok zero_time"
  using time_ok_parts [of 1 1 1 0 0 0 0 0]
  by (simp add: zero_time_def month_lens_def days_before_def day_of_year_def)

lemma dec_time_ok: "dec_time cur j = Some t \<Longrightarrow> time_ok cur \<Longrightarrow> time_ok t"
  by (auto simp: dec_time_def dest: parse_time_ok split: json.splits)

lemma dec_secret_ok:
  assumes "dec_struct True secret_fields zero_secret j = Some s"
  shows "vsecret_ok s"
  using assms
proof (rule dec_struct_inv)
  show "vsecret_ok zero_secret"
    by (simp add: vsecret_ok_def zero_secret_def time_ok_zero)
next
  fix n f c j c'
  assume "(n, f) \<in> set secret_fields" and "vsecret_ok c" and "f c j = Some c'"
  then show "vsecret_ok c'"
    by (auto simp: secret_fields_def vsecret_ok_def dest: dec_time_ok dec_string_valid
        dest!: dec_strmap_inv)
qed

definition ptr_ok :: "vsecret option \<Rightarrow> bool" where
  "ptr_ok p \<longleftrightarrow> (case p of None \<Rightarrow> True | Some s \<Rightarrow> vsecret_ok s)"

lemma dec_secret_ptr_ok: "dec_secret_ptr j = Some p \<Longrightarrow> ptr_ok p"
  by (cases j) (auto simp: dec_secret_ptr_def ptr_ok_def dest: dec_secret_ok)

definition secrets_ok :: "(bytes, vsecret option) gomap \<Rightarrow> bool" where
  "secrets_ok m \<longleftrightarrow> gomap_ok m \<and> (\<forall>(k, p) \<in> set m. utf8_valid k \<and> ptr_ok p)"

lemma vault_ok_secrets: "vault_ok v \<longleftrightarrow> int64_range (vVersion v) \<and> secrets_ok (vSecrets v)"
  by (auto simp: vault_ok_def secrets_ok_def ptr_ok_def)

lemma dec_secrets_ok:
  "dec_map dec_secret_ptr cur j = Some m \<Longrightarrow> secrets_ok cur \<Longrightarrow> secrets_ok m"
  unfolding secrets_ok_def
  using dec_map_inv [of dec_secret_ptr cur j m ptr_ok] dec_secret_ptr_ok by blast

lemma Version_range [simp]: "int64_range Version"
  by (simp add: Version_def int64_range_def)

theorem Decode_wf:
  assumes "Decode b = Ok v"
  shows "vVersion v = Version \<and> vault_ok v"
proof -
  from assms obtain j v' where d: "dec_struct True vault_fields New_vault j = Some v'"
    and v: "v = v'\<lparr>vVersion := Version\<rparr>"
    by (auto simp: Decode_def split: option.splits if_splits)
  from d have "secrets_ok (vSecrets v')"
  proof (rule dec_struct_inv)
    show "secrets_ok (vSecrets New_vault)" by (simp add: secrets_ok_def New_vault_def)
  next
    fix n f c j c'
    assume "(n, f) \<in> set vault_fields" and "secrets_ok (vSecrets c)" and "f c j = Some c'"
    then show "secrets_ok (vSecrets c')"
      by (auto simp: vault_fields_def dest: dec_secrets_ok)
  qed
  with v show ?thesis by (simp add: vault_ok_secrets)
qed

lemma Decode_no_panic [simp]: "Decode b \<noteq> Panic" "Encode v \<noteq> Panic"
  by (simp_all add: Decode_def Encode_def split: option.splits)

section \<open>Wiping\<close>

lemma wipe_secrets_eq:
  "wipe_secrets m = (if None \<in> snd ` set m then Panic
     else Ok (map (\<lambda>(k, p). (k, map_option (\<lambda>s. s\<lparr>vValue := map_option zeroed (vValue s)\<rparr>) p)) m))"
  by (induction m rule: wipe_secrets.induct) auto

end
