(* ===== verification/Atomicfile.thy ===== *)
theory Atomicfile
  imports GoErrors
begin

text \<open>
  internal/atomicfile/atomicfile.go on a file system that maps paths to files. A file remembers
  whether its content has reached the disk. A \<open>syscalls\<close> record says which of the calls of one run
  fail, and with which error; the random part of the name of the temporary file and the number of
  bytes a failing write still transfers are in it as well.

  \<open>atomicfile_Write\<close> is the function as a whole. \<open>astep\<close> is the same function cut at its system
  calls: what a reader, or a crash, can see in between.
\<close>

section \<open>The file system\<close>

record file_ent =
  fData :: bytes
  fPerm :: nat
  fSynced :: bool

type_synonym fs = "bytes \<Rightarrow> file_ent option"

datatype syscall = SysCreate | SysChmod | SysWrite | SysSync | SysClose | SysRemove | SysBackup
  | SysRename | SysOpenDir | SysSyncDir

record syscalls =
  sysFault :: "syscall \<Rightarrow> goerr option"
  sysShort :: nat
  sysRandom :: bytes

definition no_such_file :: goerr where
  "no_such_file = Wrap [F OsText] [Sentinel (StdS ErrNotExist)]"

text \<open>\<open>os.Rename\<close>: a name that is not there is \<open>fs.ErrNotExist\<close>.\<close>

definition sys_rename :: "goerr option \<Rightarrow> bytes \<Rightarrow> bytes \<Rightarrow> fs \<Rightarrow> goerr option \<times> fs" where
  "sys_rename fault from to d =
     (case fault of
        Some e \<Rightarrow> (Some e, d)
      | None \<Rightarrow>
          (case d from of
             None \<Rightarrow> (Some no_such_file, d)
           | Some f \<Rightarrow> (None, if from = to then d else d(to \<mapsto> f, from := None))))"

definition sys_remove :: "goerr option \<Rightarrow> bytes \<Rightarrow> fs \<Rightarrow> fs" where
  "sys_remove fault p d = (if fault = None then d(p := None) else d)"

subsection \<open>Names\<close>

text \<open>\<open>filepath.Dir\<close> and \<open>filepath.Base\<close> of a clean path of a file.\<close>

definition path_base :: "bytes \<Rightarrow> bytes" where
  "path_base p = rev (takeWhile (\<lambda>c. c \<noteq> CHR ''/'') (rev p))"

definition path_dir :: "bytes \<Rightarrow> bytes" where
  "path_dir p =
     (let r = dropWhile (\<lambda>c. c \<noteq> CHR ''/'') (rev p)
      in if r = [] then ''.'' else if tl r = [] then ''/'' else rev (tl r))"

definition tmp_name :: "bytes \<Rightarrow> bytes \<Rightarrow> bytes" where
  "tmp_name path rnd =
     (if path_dir path = ''/'' then ''/'' else path_dir path @ ''/'')
       @ ''.'' @ path_base path @ ''.'' @ rnd @ ''.tmp''"

definition bak_name :: "bytes \<Rightarrow> bytes" where
  "bak_name path = path @ ''.bak''"

section \<open>Write\<close>

definition step_err :: "bytes \<Rightarrow> bytes \<Rightarrow> goerr \<Rightarrow> goerr" where
  "step_err step path e = wrapf (lit (''atomicfile: '' @ step @ '' '' @ path)) e"

definition syncDir :: "syscalls \<Rightarrow> bytes \<Rightarrow> unit res" where
  "syncDir W dir =
     (case sysFault W SysOpenDir of
        Some e \<Rightarrow> Er (step_err ''open dir'' dir e)
      | None \<Rightarrow>
          (case sysFault W SysSyncDir of
             Some e \<Rightarrow> Er (step_err ''sync dir'' dir e)
           | None \<Rightarrow> Ok ()))"

definition atomicfile_Write ::
  "syscalls \<Rightarrow> bytes \<Rightarrow> bytes \<Rightarrow> nat \<Rightarrow> bool \<Rightarrow> fs \<Rightarrow> unit res \<times> fs" where
  "atomicfile_Write W path data perm backup d =
     (let tmp = tmp_name path (sysRandom W);
          gone = sys_remove (sysFault W SysRemove) tmp in
      case sysFault W SysCreate of
        Some e \<Rightarrow> (Er (step_err ''create temp in'' (path_dir path) e), d)
      | None \<Rightarrow>
      (let d1 = d(tmp \<mapsto> \<lparr> fData = [], fPerm = 384, fSynced = False \<rparr>) in
      case sysFault W SysChmod of
        Some e \<Rightarrow> (Er (step_err ''chmod'' path e), gone d1)
      | None \<Rightarrow>
      (let d2 = d1(tmp \<mapsto> \<lparr> fData = [], fPerm = perm, fSynced = False \<rparr>) in
      case sysFault W SysWrite of
        Some e \<Rightarrow>
          (Er (step_err ''write'' path e),
           gone (d2(tmp \<mapsto> \<lparr> fData = take (sysShort W) data, fPerm = perm, fSynced = False \<rparr>)))
      | None \<Rightarrow>
      (let d3 = d2(tmp \<mapsto> \<lparr> fData = data, fPerm = perm, fSynced = False \<rparr>) in
      case sysFault W SysSync of
        Some e \<Rightarrow> (Er (step_err ''sync'' path e), gone d3)
      | None \<Rightarrow>
      (let d4 = d3(tmp \<mapsto> \<lparr> fData = data, fPerm = perm, fSynced = True \<rparr>) in
      case sysFault W SysClose of
        Some e \<Rightarrow> (Er (step_err ''close'' path e), gone d4)
      | None \<Rightarrow>
      (let (berr, d5) = (if backup then sys_rename (sysFault W SysBackup) path (bak_name path) d4
                         else (None, d4)) in
      case (case berr of None \<Rightarrow> None | Some e \<Rightarrow>
              if errors_is e (StdS ErrNotExist) then None else Some e) of
        Some e \<Rightarrow> (Er (step_err ''backup'' path e), gone d5)
      | None \<Rightarrow>
      (let (rerr, d6) = sys_rename (sysFault W SysRename) tmp path d5 in
      case rerr of
        Some e \<Rightarrow> (Er (step_err ''rename'' path e), gone d6)
      | None \<Rightarrow> (syncDir W (path_dir path), d6))))))))"

section \<open>Write, one system call at a time\<close>

datatype pc = Start | Created | Chmodded | Written | Synced | Closed | BackedUp
  | Renamed | Finished "unit res"

text \<open>
  A write reaches the file byte by byte: while it runs, the temporary file holds any prefix of the
  data (\<open>progress\<close>).
\<close>

inductive astep ::
  "syscalls \<Rightarrow> bytes \<Rightarrow> bytes \<Rightarrow> nat \<Rightarrow> bool \<Rightarrow> pc \<times> fs \<Rightarrow> pc \<times> fs \<Rightarrow> bool"
  for W path data perm backup where
  create_fails: "sysFault W SysCreate = Some e \<Longrightarrow>
    astep W path data perm backup (Start, d)
      (Finished (Er (step_err ''create temp in'' (path_dir path) e)), d)"
| created: "sysFault W SysCreate = None \<Longrightarrow>
    astep W path data perm backup (Start, d)
      (Created, d(tmp_name path (sysRandom W) \<mapsto> \<lparr> fData = [], fPerm = 384, fSynced = False \<rparr>))"
| chmod_fails: "sysFault W SysChmod = Some e \<Longrightarrow>
    astep W path data perm backup (Created, d)
      (Finished (Er (step_err ''chmod'' path e)),
       sys_remove (sysFault W SysRemove) (tmp_name path (sysRandom W)) d)"
| chmodded: "sysFault W SysChmod = None \<Longrightarrow>
    astep W path data perm backup (Created, d)
      (Chmodded, d(tmp_name path (sysRandom W) \<mapsto> \<lparr> fData = [], fPerm = perm, fSynced = False \<rparr>))"
| progress: "astep W path data perm backup (Chmodded, d)
      (Chmodded, d(tmp_name path (sysRandom W) \<mapsto> \<lparr> fData = take n data, fPerm = perm, fSynced = False \<rparr>))"
| write_fails: "sysFault W SysWrite = Some e \<Longrightarrow>
    astep W path data perm backup (Chmodded, d)
      (Finished (Er (step_err ''write'' path e)),
       sys_remove (sysFault W SysRemove) (tmp_name path (sysRandom W))
         (d(tmp_name path (sysRandom W) \<mapsto>
            \<lparr> fData = take (sysShort W) data, fPerm = perm, fSynced = False \<rparr>)))"
| written: "sysFault W SysWrite = None \<Longrightarrow>
    astep W path data perm backup (Chmodded, d)
      (Written, d(tmp_name path (sysRandom W) \<mapsto> \<lparr> fData = data, fPerm = perm, fSynced = False \<rparr>))"
| sync_fails: "sysFault W SysSync = Some e \<Longrightarrow>
    astep W path data perm backup (Written, d)
      (Finished (Er (step_err ''sync'' path e)),
       sys_remove (sysFault W SysRemove) (tmp_name path (sysRandom W)) d)"
| synced: "sysFault W SysSync = None \<Longrightarrow>
    astep W path data perm backup (Written, d)
      (Synced, d(tmp_name path (sysRandom W) \<mapsto> \<lparr> fData = data, fPerm = perm, fSynced = True \<rparr>))"
| close_fails: "sysFault W SysClose = Some e \<Longrightarrow>
    astep W path data perm backup (Synced, d)
      (Finished (Er (step_err ''close'' path e)),
       sys_remove (sysFault W SysRemove) (tmp_name path (sysRandom W)) d)"
| closed: "sysFault W SysClose = None \<Longrightarrow> astep W path data perm backup (Synced, d) (Closed, d)"
| no_backup: "\<not> backup \<Longrightarrow> astep W path data perm backup (Closed, d) (BackedUp, d)"
| backup_fails: "backup \<Longrightarrow> sys_rename (sysFault W SysBackup) path (bak_name path) d = (Some e, d')
    \<Longrightarrow> \<not> errors_is e (StdS ErrNotExist) \<Longrightarrow>
    astep W path data perm backup (Closed, d)
      (Finished (Er (step_err ''backup'' path e)),
       sys_remove (sysFault W SysRemove) (tmp_name path (sysRandom W)) d')"
| backed_up: "backup \<Longrightarrow> sys_rename (sysFault W SysBackup) path (bak_name path) d = (r, d')
    \<Longrightarrow> (\<And>e. r = Some e \<Longrightarrow> errors_is e (StdS ErrNotExist)) \<Longrightarrow>
    astep W path data perm backup (Closed, d) (BackedUp, d')"
| rename_fails: "sys_rename (sysFault W SysRename) (tmp_name path (sysRandom W)) path d = (Some e, d')
    \<Longrightarrow> astep W path data perm backup (BackedUp, d)
      (Finished (Er (step_err ''rename'' path e)),
       sys_remove (sysFault W SysRemove) (tmp_name path (sysRandom W)) d')"
| renamed: "sys_rename (sysFault W SysRename) (tmp_name path (sysRandom W)) path d = (None, d')
    \<Longrightarrow> astep W path data perm backup (BackedUp, d) (Renamed, d')"
| sync_dir: "astep W path data perm backup (Renamed, d) (Finished (syncDir W (path_dir path)), d)"

inductive_cases astep_cases [elim!]:
  "astep W path data perm backup (Start, d) s"
  "astep W path data perm backup (Created, d) s"
  "astep W path data perm backup (Chmodded, d) s"
  "astep W path data perm backup (Written, d) s"
  "astep W path data perm backup (Synced, d) s"
  "astep W path data perm backup (Closed, d) s"
  "astep W path data perm backup (BackedUp, d) s"
  "astep W path data perm backup (Renamed, d) s"
  "astep W path data perm backup (Finished r, d) s"

inductive_simps astep_finished: "astep W path data perm backup (Finished r, d) s"

section \<open>The names are apart\<close>

lemma path_base_suffix: "\<exists>p. path = p @ path_base path"
proof
  let ?P = "\<lambda>c. c \<noteq> CHR ''/''"
  show "path = rev (dropWhile ?P (rev path)) @ path_base path"
    by (metis path_base_def rev_append rev_rev_ident takeWhile_dropWhile_id)
qed

lemma path_parts_len: "length path \<le> length (path_dir path) + 1 + length (path_base path)"
proof -
  let ?P = "\<lambda>c. c \<noteq> CHR ''/''"
  have "length path = length (takeWhile ?P (rev path)) + length (dropWhile ?P (rev path))"
    by (metis length_append length_rev takeWhile_dropWhile_id)
  moreover have "length (dropWhile ?P (rev path)) \<le> length (path_dir path) + 1"
  proof -
    have "length r \<le> length (if r = [] then ''.'' else if tl r = [] then ''/'' else rev (tl r)) + 1"
      for r :: bytes by (cases r) auto
    then show ?thesis by (simp only: path_dir_def Let_def)
  qed
  ultimately show ?thesis by (simp add: path_base_def)
qed

lemma tmp_name_len: "length path < length (tmp_name path rnd)"
  using path_parts_len [of path] by (auto simp: tmp_name_def)

lemma names_apart [simp]:
  "tmp_name path rnd \<noteq> path" "path \<noteq> tmp_name path rnd"
  "tmp_name path rnd \<noteq> bak_name path" "bak_name path \<noteq> tmp_name path rnd"
  "bak_name path \<noteq> path" "path \<noteq> bak_name path"
proof -
  show 1: "tmp_name path rnd \<noteq> path"
    using tmp_name_len [of path rnd] by auto
  have "last (tmp_name path rnd) = CHR ''p''" and "last (bak_name path) = CHR ''k''"
    by (simp_all add: tmp_name_def bak_name_def)
  then show 2: "tmp_name path rnd \<noteq> bak_name path" by auto
  show 3: "bak_name path \<noteq> path" by (simp add: bak_name_def)
  show "path \<noteq> tmp_name path rnd" "bak_name path \<noteq> tmp_name path rnd" "path \<noteq> bak_name path"
    using 1 2 3 by metis+
qed

section \<open>The steps add up to the function\<close>

fun pc_rank :: "pc \<Rightarrow> nat" where
  "pc_rank Start = 8" | "pc_rank Created = 7" | "pc_rank Chmodded = 6" | "pc_rank Written = 5"
| "pc_rank Synced = 4" | "pc_rank Closed = 3" | "pc_rank BackedUp = 2" | "pc_rank Renamed = 1"
| "pc_rank (Finished r) = 0"

text \<open>What is still to be done, as a function of the program counter.\<close>

function finish :: "syscalls \<Rightarrow> bytes \<Rightarrow> bytes \<Rightarrow> nat \<Rightarrow> bool \<Rightarrow> pc \<times> fs \<Rightarrow> unit res \<times> fs" where
  "finish W path data perm backup (Finished r, d) = (r, d)"
| "finish W path data perm backup (Renamed, d) = (syncDir W (path_dir path), d)"
| "finish W path data perm backup (BackedUp, d) =
     (case sys_rename (sysFault W SysRename) (tmp_name path (sysRandom W)) path d of
        (Some e, d') \<Rightarrow> (Er (step_err ''rename'' path e),
           sys_remove (sysFault W SysRemove) (tmp_name path (sysRandom W)) d')
      | (None, d') \<Rightarrow> finish W path data perm backup (Renamed, d'))"
| "finish W path data perm backup (Closed, d) =
     (if \<not> backup then finish W path data perm backup (BackedUp, d)
      else case sys_rename (sysFault W SysBackup) path (bak_name path) d of
        (Some e, d') \<Rightarrow>
          if errors_is e (StdS ErrNotExist) then finish W path data perm backup (BackedUp, d')
          else (Er (step_err ''backup'' path e),
            sys_remove (sysFault W SysRemove) (tmp_name path (sysRandom W)) d')
      | (None, d') \<Rightarrow> finish W path data perm backup (BackedUp, d'))"
| "finish W path data perm backup (Synced, d) =
     (case sysFault W SysClose of
        Some e \<Rightarrow> (Er (step_err ''close'' path e),
          sys_remove (sysFault W SysRemove) (tmp_name path (sysRandom W)) d)
      | None \<Rightarrow> finish W path data perm backup (Closed, d))"
| "finish W path data perm backup (Written, d) =
     (case sysFault W SysSync of
        Some e \<Rightarrow> (Er (step_err ''sync'' path e),
          sys_remove (sysFault W SysRemove) (tmp_name path (sysRandom W)) d)
      | None \<Rightarrow> finish W path data perm backup (Synced,
          d(tmp_name path (sysRandom W) \<mapsto> \<lparr> fData = data, fPerm = perm, fSynced = True \<rparr>)))"
| "finish W path data perm backup (Chmodded, d) =
     (case sysFault W SysWrite of
        Some e \<Rightarrow> (Er (step_err ''write'' path e),
          sys_remove (sysFault W SysRemove) (tmp_name path (sysRandom W))
            (d(tmp_name path (sysRandom W) \<mapsto>
               \<lparr> fData = take (sysShort W) data, fPerm = perm, fSynced = False \<rparr>)))
      | None \<Rightarrow> finish W path data perm backup (Written,
          d(tmp_name path (sysRandom W) \<mapsto> \<lparr> fData = data, fPerm = perm, fSynced = False \<rparr>)))"
| "finish W path data perm backup (Created, d) =
     (case sysFault W SysChmod of
        Some e \<Rightarrow> (Er (step_err ''chmod'' path e),
          sys_remove (sysFault W SysRemove) (tmp_name path (sysRandom W)) d)
      | None \<Rightarrow> finish W path data perm backup (Chmodded,
          d(tmp_name path (sysRandom W) \<mapsto> \<lparr> fData = [], fPerm = perm, fSynced = False \<rparr>)))"
| "finish W path data perm backup (Start, d) =
     (case sysFault W SysCreate of
        Some e \<Rightarrow> (Er (step_err ''create temp in'' (path_dir path) e), d)
      | None \<Rightarrow> finish W path data perm backup (Created,
          d(tmp_name path (sysRandom W) \<mapsto> \<lparr> fData = [], fPerm = 384, fSynced = False \<rparr>)))"

  by pat_completeness auto
termination by (relation "measure (\<lambda>(W, path, data, perm, backup, pc, d). pc_rank pc)") auto

lemma finish_Start: "finish W path data perm backup (Start, d) = atomicfile_Write W path data perm backup d"
  by (simp add: atomicfile_Write_def Let_def split: option.split prod.split)

lemma astep_finish:
  "astep W path data perm backup s s' \<Longrightarrow>
   finish W path data perm backup s = finish W path data perm backup s'"
  by (induction rule: astep.induct) (auto split: option.split)

lemma asteps_finish:
  "(astep W path data perm backup)\<^sup>*\<^sup>* s s' \<Longrightarrow>
   finish W path data perm backup s = finish W path data perm backup s'"
  by (induction rule: rtranclp_induct) (auto dest: astep_finish)

lemma astep_progress:
  assumes "0 < pc_rank pc"
  shows "\<exists>pc' d'. astep W path data perm backup (pc, d) (pc', d') \<and> pc_rank pc' < pc_rank pc"
proof (cases pc)
  case Start
  then show ?thesis
    by (cases "sysFault W SysCreate") (force intro: astep.intros)+
next
  case Created
  then show ?thesis
    by (cases "sysFault W SysChmod") (force intro: astep.intros)+
next
  case Chmodded
  then show ?thesis
    by (cases "sysFault W SysWrite") (force intro: astep.intros)+
next
  case Written
  then show ?thesis
    by (cases "sysFault W SysSync") (force intro: astep.intros)+
next
  case Synced
  then show ?thesis
    by (cases "sysFault W SysClose") (force intro: astep.intros)+
next
  case Closed
  show ?thesis
  proof (cases backup)
    case True
    obtain r d' where r: "sys_rename (sysFault W SysBackup) path (bak_name path) d = (r, d')"
      by fastforce
    show ?thesis
    proof (cases "\<exists>e. r = Some e \<and> \<not> errors_is e (StdS ErrNotExist)")
      case True
      then show ?thesis using Closed r \<open>backup\<close> by (fastforce intro: backup_fails)
    next
      case False
      then have "astep W path data perm backup (Closed, d) (BackedUp, d')"
        using r \<open>backup\<close> by (intro backed_up) auto
      then show ?thesis by (intro exI [of _ BackedUp] exI [of _ d']) (simp add: Closed)
    qed
  next
    case False
    then show ?thesis using Closed by (fastforce intro: no_backup)
  qed
next
  case BackedUp
  obtain r d' where r: "sys_rename (sysFault W SysRename) (tmp_name path (sysRandom W)) path d = (r, d')"
    by fastforce
  then show ?thesis using BackedUp by (cases r) (force intro: astep.intros)+
next
  case Renamed
  then show ?thesis by (force intro: astep.intros)
qed (use assms in simp)

lemma asteps_total: "\<exists>r d'. (astep W path data perm backup)\<^sup>*\<^sup>* (pc, d) (Finished r, d')"
proof (induction "pc_rank pc" arbitrary: pc d rule: less_induct)
  case less
  show ?case
  proof (cases "pc_rank pc = 0")
    case True
    then obtain r where "pc = Finished r" by (cases pc) auto
    then show ?thesis by blast
  next
    case False
    then obtain pc' d' where "astep W path data perm backup (pc, d) (pc', d')"
      and "pc_rank pc' < pc_rank pc"
      using astep_progress [of pc] by blast
    then show ?thesis using less [of pc' d'] by (meson converse_rtranclp_into_rtranclp)
  qed
qed

text \<open>A run of the steps ends, and with exactly the result of the function.\<close>

theorem asteps_Write:
  "(astep W path data perm backup)\<^sup>*\<^sup>* (Start, d) (Finished r, d')
   \<longleftrightarrow> atomicfile_Write W path data perm backup d = (r, d')"
proof
  assume "(astep W path data perm backup)\<^sup>*\<^sup>* (Start, d) (Finished r, d')"
  from asteps_finish [OF this] show "atomicfile_Write W path data perm backup d = (r, d')"
    by (simp only: finish_Start finish.simps(1))
next
  assume w: "atomicfile_Write W path data perm backup d = (r, d')"
  obtain r' d'' where run: "(astep W path data perm backup)\<^sup>*\<^sup>* (Start, d) (Finished r', d'')"
    using asteps_total by blast
  from asteps_finish [OF run] w run
  show "(astep W path data perm backup)\<^sup>*\<^sup>* (Start, d) (Finished r, d')"
    by (simp only: finish_Start finish.simps(1) prod.inject)
qed

section \<open>What can be seen under the path\<close>

text \<open>The file that a successful run leaves.\<close>

definition new_file :: "bytes \<Rightarrow> nat \<Rightarrow> file_ent" where
  "new_file data perm = \<lparr> fData = data, fPerm = perm, fSynced = True \<rparr>"

text \<open>The old file in place, or moved away to the backup name.\<close>

definition untouched :: "bytes \<Rightarrow> fs \<Rightarrow> fs \<Rightarrow> bool" where
  "untouched path d d' \<longleftrightarrow> d' path = d path \<and> d' (bak_name path) = d (bak_name path)"

definition moved_away :: "bytes \<Rightarrow> fs \<Rightarrow> fs \<Rightarrow> bool" where
  "moved_away path d d' \<longleftrightarrow> d path \<noteq> None \<and> d' path = None \<and> d' (bak_name path) = d path"

definition replaced :: "bytes \<Rightarrow> file_ent \<Rightarrow> bool \<Rightarrow> fs \<Rightarrow> fs \<Rightarrow> bool" where
  "replaced path f backup d d' \<longleftrightarrow> d' path = Some f
     \<and> (d' (bak_name path) = d (bak_name path) \<or> backup \<and> d path \<noteq> None \<and> d' (bak_name path) = d path)"

fun step_inv :: "bytes \<Rightarrow> bytes \<Rightarrow> nat \<Rightarrow> bool \<Rightarrow> bytes \<Rightarrow> fs \<Rightarrow> pc \<times> fs \<Rightarrow> bool" where
  "step_inv path data perm backup tmp d (BackedUp, d') \<longleftrightarrow>
     d' tmp = Some (new_file data perm)
     \<and> (untouched path d d' \<or> backup \<and> moved_away path d d')"
| "step_inv path data perm backup tmp d (Renamed, d') \<longleftrightarrow>
     replaced path (new_file data perm) backup d d' \<and> d' tmp = None"
| "step_inv path data perm backup tmp d (Finished (Ok u), d') \<longleftrightarrow>
     replaced path (new_file data perm) backup d d' \<and> d' tmp = None"
| "step_inv path data perm backup tmp d (Finished r, d') \<longleftrightarrow>
     r \<noteq> Panic \<and> (untouched path d d' \<or> backup \<and> moved_away path d d'
       \<or> replaced path (new_file data perm) backup d d')"
| "step_inv path data perm backup tmp d (pc, d') \<longleftrightarrow> untouched path d d'
     \<and> ((pc = Synced \<or> pc = Closed) \<longrightarrow> d' tmp = Some (new_file data perm))
     \<and> (pc = Written \<longrightarrow> d' tmp = Some \<lparr> fData = data, fPerm = perm, fSynced = False \<rparr>)"

lemma sys_remove_other [simp]: "p \<noteq> q \<Longrightarrow> sys_remove fault p d q = d q"
  by (simp add: sys_remove_def)

lemma untouched_tmp [simp]:
  "untouched path d (d'(tmp_name path rnd := x)) \<longleftrightarrow> untouched path d d'"
  "untouched path d (sys_remove fault (tmp_name path rnd) d') \<longleftrightarrow> untouched path d d'"
  "moved_away path d (sys_remove fault (tmp_name path rnd) d') \<longleftrightarrow> moved_away path d d'"
  by (simp_all add: untouched_def moved_away_def)

lemma syncDir_no_panic [simp]: "syncDir W p \<noteq> Panic"
  by (simp add: syncDir_def split: option.split)

lemma step_inv_rename:
  assumes "sys_rename fault (tmp_name path rnd) path d1 = (r, d')"
    and "step_inv path data perm backup (tmp_name path rnd) d (BackedUp, d1)"
  shows "if r = None then step_inv path data perm backup (tmp_name path rnd) d (Renamed, d')
    else d' = d1"
  using assms
  by (auto simp: sys_rename_def replaced_def untouched_def moved_away_def split: option.splits if_splits)

lemma step_inv_backup:
  assumes "sys_rename fault path (bak_name path) d1 = (r, d')" and backup
    and "step_inv path data perm backup (tmp_name path rnd) d (Closed, d1)"
  shows "step_inv path data perm backup (tmp_name path rnd) d (BackedUp, d')
    \<and> (r \<noteq> None \<longrightarrow> d' = d1)"
  using assms
  by (auto simp: sys_rename_def untouched_def moved_away_def split: option.splits if_splits)

lemma step_inv_astep:
  assumes "astep W path data perm backup s s'"
    and "step_inv path data perm backup (tmp_name path (sysRandom W)) d s"
  shows "step_inv path data perm backup (tmp_name path (sysRandom W)) d s'"
  using assms
proof (induction rule: astep.induct)
  case (backup_fails d1 e d')
  then show ?case using step_inv_backup [OF backup_fails(2,1)] by simp
next
  case (backed_up d1 r d')
  then show ?case using step_inv_backup [OF backed_up(2,1)] by blast
next
  case (rename_fails d1 e d')
  then show ?case using step_inv_rename [OF rename_fails(1)] by auto
next
  case (renamed d1 d')
  then show ?case using step_inv_rename [OF renamed(1)] by auto
next
  case (sync_dir d1)
  then show ?case by (cases "syncDir W (path_dir path)") simp_all
qed (simp_all add: new_file_def)

lemma step_inv_reachable:
  assumes "(astep W path data perm backup)\<^sup>*\<^sup>* (Start, d) s"
  shows "step_inv path data perm backup (tmp_name path (sysRandom W)) d s"
  using assms
proof (induction rule: rtranclp_induct)
  case base
  show ?case by (simp add: untouched_def)
next
  case (step s s')
  then show ?case by (blast intro: step_inv_astep)
qed

lemma step_inv_path:
  assumes "step_inv path data perm backup tmp d (pc, d')"
  shows "d' path = d path \<or> d' path = Some (new_file data perm)
    \<or> backup \<and> d' path = None \<and> d path \<noteq> None \<and> d' (bak_name path) = d path"
proof (cases pc)
  case (Finished r)
  then show ?thesis
    using assms by (cases r) (auto simp: untouched_def moved_away_def replaced_def)
qed (use assms in \<open>auto simp: untouched_def moved_away_def replaced_def\<close>)

lemma Write_inv:
  "atomicfile_Write W path data perm backup d = (r, d') \<Longrightarrow>
   step_inv path data perm backup (tmp_name path (sysRandom W)) d (Finished r, d')"
  by (rule step_inv_reachable) (simp add: asteps_Write)

text \<open>No other name changes, apart from the temporary one.\<close>

lemma sys_rename_frame: "sys_rename fault a b d = (r, d') \<Longrightarrow> p \<noteq> a \<Longrightarrow> p \<noteq> b \<Longrightarrow> d' p = d p"
  by (auto simp: sys_rename_def split: option.splits if_splits)

lemma astep_frame:
  assumes "astep W path data perm backup s s'"
    and "p \<noteq> path" and "p \<noteq> bak_name path" and "p \<noteq> tmp_name path (sysRandom W)"
  shows "snd s' p = snd s p"
  using assms by (induction rule: astep.induct) (auto simp: sys_rename_frame)

lemma asteps_frame:
  assumes "(astep W path data perm backup)\<^sup>*\<^sup>* s s'"
    and "p \<noteq> path" and "p \<noteq> bak_name path" and "p \<noteq> tmp_name path (sysRandom W)"
  shows "snd s' p = snd s p"
  using assms(1) by (induction rule: rtranclp_induct) (simp_all add: astep_frame assms(2-4))

lemma Write_frame:
  assumes "atomicfile_Write W path data perm backup d = (r, d')"
    and "p \<noteq> path" and "p \<noteq> bak_name path" and "p \<noteq> tmp_name path (sysRandom W)"
  shows "d' p = d p"
  using asteps_frame [of W path data perm backup "(Start, d)" "(Finished r, d')" p] assms
  by (simp add: asteps_Write)

section \<open>Results\<close>

lemma Write_Ok_path:
  "atomicfile_Write W path data perm backup d = (Ok u, d') \<Longrightarrow> d' path = Some (new_file data perm)"
  by (drule Write_inv) (simp add: replaced_def)

lemma Write_no_panic: "atomicfile_Write W path data perm backup d \<noteq> (Panic, d')"
  by (auto dest: Write_inv)

lemma Write_Er_path:
  assumes "atomicfile_Write W path data perm backup d = (Er e, d')"
  shows "d' path = d path \<or> backup \<and> d path \<noteq> None \<and> d' path = None \<and> d' (bak_name path) = d path
    \<or> d' path = Some (new_file data perm)"
  using Write_inv [OF assms] by (auto simp: replaced_def untouched_def moved_away_def)

text \<open>The calls that come before the first rename.\<close>

definition early_fault :: "syscalls \<Rightarrow> bool" where
  "early_fault W \<longleftrightarrow>
     (\<exists>c \<in> {SysCreate, SysChmod, SysWrite, SysSync, SysClose}. sysFault W c \<noteq> None)"

lemma Write_early:
  assumes "early_fault W"
  shows "(case atomicfile_Write W path data perm backup d of (r, d') \<Rightarrow>
     (\<exists>e. r = Er e) \<and> (\<forall>p. p \<noteq> tmp_name path (sysRandom W) \<longrightarrow> d' p = d p)
     \<and> (sysFault W SysRemove = None \<and> d (tmp_name path (sysRandom W)) = None \<longrightarrow> d' = d))"
  using assms
  by (auto simp: early_fault_def atomicfile_Write_def sys_remove_def Let_def fun_eq_iff
      split: option.splits)

lemma Write_moved_away:
  assumes "\<not> early_fault W" and "sysFault W SysBackup = None" and "sysFault W SysRename = Some e"
    and "d path = Some f"
  shows "\<exists>d'. atomicfile_Write W path data perm True d = (Er (step_err ''rename'' path e), d')
    \<and> d' path = None \<and> d' (bak_name path) = Some f"
  using assms
  by (simp add: early_fault_def atomicfile_Write_def sys_rename_def Let_def)

lemma Write_keeps_backup:
  assumes "\<forall>c. sysFault W c = None"
  shows "\<exists>d'. atomicfile_Write W path data perm backup d = (Ok (), d')
    \<and> d' path = Some (new_file data perm)
    \<and> d' (tmp_name path (sysRandom W)) = None
    \<and> d' (bak_name path) = (if backup \<and> d path \<noteq> None then d path else d (bak_name path))"
  using assms
  by (auto simp: atomicfile_Write_def sys_rename_def Let_def syncDir_def new_file_def no_such_file_def)

section \<open>The contract of a replaceable file\<close>

text \<open>
  What a client of the file layer relies on: a successful write is what is read next, a failed one
  leaves the old content, the new one, or nothing under the path; other paths, apart from the helper
  names of this write, keep their content.
\<close>

locale file_store =
  fixes put :: "'w \<Rightarrow> 'p \<Rightarrow> 'v \<Rightarrow> 's \<Rightarrow> unit res \<times> 's"
    and look :: "'s \<Rightarrow> 'p \<Rightarrow> 'v option"
    and helper :: "'w \<Rightarrow> 'p \<Rightarrow> 'p \<Rightarrow> bool"
  assumes put_Ok: "put w p v s = (Ok u, s') \<Longrightarrow> look s' p = Some v"
    and put_Er: "put w p v s = (Er e, s') \<Longrightarrow> look s' p \<in> {look s p, Some v, None}"
    and put_total: "put w p v s \<noteq> (Panic, s')"
    and put_frame: "put w p v s = (r, s') \<Longrightarrow> q \<noteq> p \<Longrightarrow> \<not> helper w p q \<Longrightarrow> look s' q = look s q"
begin

text \<open>Whatever happens, the path never holds anything but the old or the new content.\<close>

lemma put_no_mix: "put w p v s = (r, s') \<Longrightarrow> look s' p = Some x \<Longrightarrow> Some x = look s p \<or> x = v"
  by (cases r) (auto dest: put_Ok put_Er simp: put_total)

lemma put_put_Ok:
  "put w p v s = (Ok u, s') \<Longrightarrow> put w' p v' s' = (Er e, s'') \<Longrightarrow> look s'' p \<in> {Some v, Some v', None}"
  using put_Er put_Ok by fastforce

end

definition contents :: "fs \<Rightarrow> bytes \<Rightarrow> bytes option" where
  "contents d p = map_option fData (d p)"

definition helper_name :: "syscalls \<Rightarrow> bytes \<Rightarrow> bytes \<Rightarrow> bool" where
  "helper_name W path q \<longleftrightarrow> q = bak_name path \<or> q = tmp_name path (sysRandom W)"

interpretation replaced_file: file_store
  "\<lambda>W path data d. atomicfile_Write W path data perm backup d" contents helper_name
  for perm backup
proof
  show "atomicfile_Write w p v perm backup s = (Ok u, s') \<Longrightarrow> contents s' p = Some v" for w p v s u s'
    by (simp add: contents_def Write_Ok_path new_file_def)
  show "atomicfile_Write w p v perm backup s = (Er e, s') \<Longrightarrow>
      contents s' p \<in> {contents s p, Some v, None}" for w p v s e s'
    by (auto simp: contents_def new_file_def dest!: Write_Er_path)
  show "atomicfile_Write w p v perm backup s \<noteq> (Panic, s')" for w p v s s'
    by (rule Write_no_panic)
  show "atomicfile_Write w p v perm backup s = (r, s') \<Longrightarrow> q \<noteq> p \<Longrightarrow> \<not> helper_name w p q \<Longrightarrow>
      contents s' q = contents s q" for w p v s r s' q
    by (simp add: contents_def helper_name_def Write_frame)
qed

end
