(* ===== verification/VaultFile.thy ===== *)
theory VaultFile
  imports Vault Atomicfile
begin

text \<open>
  internal/vault/file.go: the encrypted file. The age library is a parameter, a record of the three
  operations the module calls. \<open>age_laws\<close> is what its documentation promises: decrypting with
  the identity it was encrypted to gives the plaintext back, decrypting with another identity is
  \<open>NoIdentityMatchError\<close>, and the encoding of a key parses to that key.
\<close>

section \<open>The age library\<close>

datatype age_result = Plain bytes | NoIdentityMatch | AgeError goerr

record 'i age =
  ageEncrypt :: "'i \<Rightarrow> bytes \<Rightarrow> bytes \<Rightarrow> (goerr, bytes) outcome"
  ageDecrypt :: "'i \<Rightarrow> bytes \<Rightarrow> age_result"
  ageParse :: "bytes \<Rightarrow> 'i option"
  ageString :: "'i \<Rightarrow> bytes"

text \<open>The second argument of \<open>ageEncrypt\<close> is the randomness it draws.\<close>

definition age_laws :: "'i age \<Rightarrow> bool" where
  "age_laws A \<longleftrightarrow>
     (\<forall>i rnd p c. ageEncrypt A i rnd p = Ok c \<longrightarrow> ageDecrypt A i c = Plain p)
     \<and> (\<forall>i j rnd p c. ageEncrypt A i rnd p = Ok c \<longrightarrow> i \<noteq> j \<longrightarrow> ageDecrypt A j c = NoIdentityMatch)
     \<and> (\<forall>i rnd p. ageEncrypt A i rnd p \<noteq> Panic)
     \<and> (\<forall>i. ageParse A (ageString A i) = Some i)"

text \<open>The other side of a call: what the operating system and the library decide during it.\<close>

record io =
  ioSys :: syscalls
  ioOpen :: "goerr option"
  ioRandom :: bytes
  ioNow :: gotime
  ioSecmem :: "goerr option"

section \<open>Read and Write\<close>

definition Read_file ::
  "'i age \<Rightarrow> io \<Rightarrow> bytes \<Rightarrow> 'i \<Rightarrow> fs \<Rightarrow> vault res" where
  "Read_file A w path i d =
     (case (case ioOpen w of Some e \<Rightarrow> Er e
            | None \<Rightarrow> (case d path of None \<Rightarrow> Er no_such_file | Some f \<Rightarrow> Ok f)) of
        Er e \<Rightarrow> Er (wrapf (lit ''vault'') e)
      | Panic \<Rightarrow> Panic
      | Ok f \<Rightarrow>
          (case ageDecrypt A i (fData f) of
             NoIdentityMatch \<Rightarrow> Er (Sentinel (VaultS ErrWrongIdentity))
           | AgeError e \<Rightarrow> Er (wrapf (lit (''vault: decrypt '' @ path)) e)
           | Plain p \<Rightarrow> Decode p))"

definition Write_file ::
  "'i age \<Rightarrow> io \<Rightarrow> bytes \<Rightarrow> 'i \<Rightarrow> vault \<Rightarrow> fs \<Rightarrow> unit res \<times> fs" where
  "Write_file A w path i v d =
     (case Encode v of
        Er e \<Rightarrow> (Er e, d)
      | Panic \<Rightarrow> (Panic, d)
      | Ok p \<Rightarrow>
          (case ageEncrypt A i (ioRandom w) p of
             Er e \<Rightarrow> (Er (wrapf (lit ''vault: encrypt'') e), d)
           | Panic \<Rightarrow> (Panic, d)
           | Ok c \<Rightarrow>
               (case atomicfile_Write (ioSys w) path c 384 True d of
                  (Er e, d') \<Rightarrow> (Er (wrapf (lit ''vault'') e), d')
                | (r, d') \<Rightarrow> (r, d'))))"

section \<open>The vault file as storage\<close>

text \<open>What an encrypted file stands for, to one identity.\<close>

definition opens :: "'i age \<Rightarrow> 'i \<Rightarrow> bytes \<Rightarrow> vault option" where
  "opens A i b =
     (case ageDecrypt A i b of
        Plain p \<Rightarrow> (case Decode p of Ok v \<Rightarrow> Some v | _ \<Rightarrow> None)
      | _ \<Rightarrow> None)"

lemma Read_file_Ok:
  "Read_file A w path i d = Ok v
   \<longleftrightarrow> ioOpen w = None \<and> Option.bind (contents d path) (opens A i) = Some v"
  by (auto simp: Read_file_def opens_def contents_def bind_eq_Some_conv
      split: option.splits outcome.splits age_result.splits)

lemma Read_file_wf: "Read_file A w path i d = Ok v \<Longrightarrow> vVersion v = Version \<and> vault_ok v"
  by (auto simp: Read_file_def dest!: Decode_wf split: option.splits outcome.splits age_result.splits)

lemma Read_file_no_panic [simp]: "Read_file A w path i d \<noteq> Panic"
  by (auto simp: Read_file_def split: option.splits outcome.splits age_result.splits)

lemma Read_file_missing:
  "ioOpen w = None \<Longrightarrow> d path = None \<Longrightarrow> Read_file A w path i d = Er (wrapf (lit ''vault'') no_such_file)"
  by (simp add: Read_file_def)

lemma Write_file_Ok:
  assumes "Write_file A w path i v d = (Ok u, d')"
  obtains p c where "Encode v = Ok p" and "ageEncrypt A i (ioRandom w) p = Ok c"
    and "d' path = Some (new_file c 384)"
  using assms
  by (auto simp: Write_file_def dest: Write_Ok_path split: outcome.splits prod.splits)

lemma Write_file_no_panic: "age_laws A \<Longrightarrow> Write_file A w path i v d \<noteq> (Panic, d')"
  by (auto simp: Write_file_def age_laws_def dest: Write_no_panic [THEN notE]
      split: outcome.splits prod.splits)

lemma Read_after_Write:
  assumes "age_laws A" and "vault_ok v" and "vVersion v \<le> Version" and "ioOpen w' = None"
    and "Write_file A w path i v d = (Ok u, d')"
  shows "Read_file A w' path i d' = Ok (norm_vault v)"
proof -
  from assms(5) obtain p c where p: "Encode v = Ok p" "ageEncrypt A i (ioRandom w) p = Ok c"
    and d: "d' path = Some (new_file c 384)" by (rule Write_file_Ok)
  have "ageDecrypt A i c = Plain p" using assms(1) p(2) by (simp add: age_laws_def)
  moreover have "Decode p = Ok (norm_vault v)" using Decode_Encode [OF assms(2,3)] p(1) by auto
  ultimately show ?thesis using assms(4) d by (simp add: Read_file_def new_file_def)
qed

lemma Read_wrong_identity:
  assumes "age_laws A" and "i \<noteq> j" and "ioOpen w' = None"
    and "Write_file A w path i v d = (Ok u, d')"
  shows "Read_file A w' path j d' = Er (Sentinel (VaultS ErrWrongIdentity))"
proof -
  from assms(4) obtain p c where p: "Encode v = Ok p" "ageEncrypt A i (ioRandom w) p = Ok c"
    and d: "d' path = Some (new_file c 384)" by (rule Write_file_Ok)
  have "ageDecrypt A j c = NoIdentityMatch"
    using assms(1,2) p(2) unfolding age_laws_def by blast
  then show ?thesis using assms(3) d by (simp add: Read_file_def new_file_def)
qed

text \<open>A failed write leaves the old file, the new one, or the old one under the backup name.\<close>

lemma Write_file_Er:
  assumes "Write_file A w path i v d = (Er e, d')"
  shows "d' path = d path
    \<or> d path \<noteq> None \<and> d' path = None \<and> d' (bak_name path) = d path
    \<or> (\<exists>p c. Encode v = Ok p \<and> ageEncrypt A i (ioRandom w) p = Ok c
         \<and> d' path = Some (new_file c 384))"
  using assms
  by (auto simp: Write_file_def dest!: Write_Er_path split: outcome.splits prod.splits)

end
