(* ===== verification/Session.thy ===== *)
theory Session
  imports VaultFile "HOL-Library.Word"
begin

text \<open>
  internal/daemon/session.go: the lock state machine. The record holds the fields of \<open>Session\<close> and,
  below them, the timers of the Go runtime that the session has started: the ones that are pending,
  each with the generation its callback captured, and the callbacks that have fired and wait for the
  lock. \<open>sReaders\<close> counts the requests that hold the read lock.
\<close>

section \<open>State\<close>

record 'i session =
  sBuf :: "bytes option"
  sId :: "'i option"
  sTimer :: "nat option"
  sLocksAt :: gotime
  sGen :: "64 word"
  sPending :: "(nat \<times> 64 word) list"
  sFired :: "64 word list"
  sNext :: nat
  sReaders :: nat

definition NewSession :: "'i session" where
  "NewSession = \<lparr> sBuf = None, sId = None, sTimer = None, sLocksAt = zero_time, sGen = 0,
     sPending = [], sFired = [], sNext = 0, sReaders = 0 \<rparr>"

section \<open>Operations\<close>

text \<open>\<open>identity.Parse\<close>.\<close>

definition Parse :: "'i age \<Rightarrow> bytes \<Rightarrow> 'i res" where
  "Parse A encoded =
     (case ageParse A (trim_space encoded) of
        None \<Rightarrow> Er (wrap2 (Sentinel (IdentityS IdErrMalformed)) (New [F AgeText]))
      | Some i \<Rightarrow> Ok i)"

text \<open>\<open>timer.Stop\<close>: a pending timer will not fire; one that has fired is not called back.\<close>

definition stop_timer :: "nat \<Rightarrow> 'i session \<Rightarrow> 'i session" where
  "stop_timer h s = s\<lparr>sPending := filter (\<lambda>(h', g). h' \<noteq> h) (sPending s)\<rparr>"

definition drop_session :: "'i session \<Rightarrow> 'i session" where
  "drop_session s =
     (let s1 = (case sTimer s of None \<Rightarrow> s | Some h \<Rightarrow> stop_timer h s)
      in s1\<lparr>sTimer := None, sBuf := None, sId := None, sLocksAt := zero_time\<rparr>)"

text \<open>
  \<open>Unlock\<close> also returns the input buffer, which it has zeroed. \<open>defaultFor\<close> is the configured
  auto-lock duration.
\<close>

definition Unlock ::
  "'i age \<Rightarrow> io \<Rightarrow> int \<Rightarrow> bytes \<Rightarrow> int option \<Rightarrow> 'i session \<Rightarrow> unit res \<times> 'i session \<times> bytes" where
  "Unlock A w defaultFor encoded lockAfter s =
     (case Parse A encoded of
        Er e \<Rightarrow> (Er e, s, zeroed encoded)
      | Panic \<Rightarrow> (Panic, s, zeroed encoded)
      | Ok i \<Rightarrow>
          (case ioSecmem w of
             Some e \<Rightarrow> (Er (wrapf (lit ''daemon'') e), s, zeroed encoded)
           | None \<Rightarrow>
               let d = (case lockAfter of None \<Rightarrow> defaultFor | Some d \<Rightarrow> d);
                   s1 = drop_session s;
                   s2 = s1\<lparr>sBuf := Some encoded, sId := Some i, sGen := sGen s1 + 1\<rparr>;
                   s3 = (if d > 0 then
                           s2\<lparr>sLocksAt := time_add (ioNow w) d, sTimer := Some (sNext s2),
                              sPending := (sNext s2, sGen s2) # sPending s2,
                              sNext := Suc (sNext s2)\<rparr>
                         else s2)
               in (Ok (), s3, zeroed encoded)))"

definition Lock :: "'i session \<Rightarrow> 'i session" where
  "Lock s = (if sBuf s = None then s else drop_session s)"

definition autoLock :: "64 word \<Rightarrow> 'i session \<Rightarrow> 'i session" where
  "autoLock g s = (if sBuf s = None \<or> sGen s \<noteq> g then s else drop_session s)"

definition Status :: "'i session \<Rightarrow> bool \<times> gotime" where
  "Status s = (sBuf s = None, sLocksAt s)"

text \<open>
  \<open>With\<close> runs a function with the identity. What the function may change besides its result is the
  file system, which is passed through.
\<close>

definition With :: "'i session \<Rightarrow> ('i \<Rightarrow> fs \<Rightarrow> 'a res \<times> fs) \<Rightarrow> fs \<Rightarrow> 'a res \<times> fs" where
  "With s fn d = (case sId s of None \<Rightarrow> (Er (Sentinel (DaemonS ErrLocked)), d) | Some i \<Rightarrow> fn i d)"

section \<open>Steps\<close>

text \<open>
  Everything that can happen to a session. \<open>Unlock\<close>, \<open>Lock\<close> and a callback take the write lock, so
  they run when no request holds the read lock. The index counts the successful unlocks.
\<close>

inductive sreach :: "'i age \<Rightarrow> int \<Rightarrow> nat \<Rightarrow> 'i session \<Rightarrow> bool" for A defaultFor where
  fresh: "sreach A defaultFor 0 NewSession"
| unlocks: "sreach A defaultFor n s \<Longrightarrow> sReaders s = 0 \<Longrightarrow>
    Unlock A w defaultFor encoded lockAfter s = (Ok (), s', z) \<Longrightarrow> sreach A defaultFor (Suc n) s'"
| unlock_fails: "sreach A defaultFor n s \<Longrightarrow>
    Unlock A w defaultFor encoded lockAfter s = (Er e, s', z) \<Longrightarrow> sreach A defaultFor n s'"
| locks: "sreach A defaultFor n s \<Longrightarrow> sReaders s = 0 \<Longrightarrow> sreach A defaultFor n (Lock s)"
| fires: "sreach A defaultFor n s \<Longrightarrow> (h, g) \<in> set (sPending s) \<Longrightarrow>
    sreach A defaultFor n (stop_timer h s\<lparr>sFired := g # sFired s\<rparr>)"
| callback: "sreach A defaultFor n s \<Longrightarrow> g \<in> set (sFired s) \<Longrightarrow> sReaders s = 0 \<Longrightarrow>
    sreach A defaultFor n (autoLock g (s\<lparr>sFired := remove1 g (sFired s)\<rparr>))"
| begins: "sreach A defaultFor n s \<Longrightarrow> sId s \<noteq> None \<Longrightarrow>
    sreach A defaultFor n (s\<lparr>sReaders := Suc (sReaders s)\<rparr>)"
| ends: "sreach A defaultFor n s \<Longrightarrow> sReaders s = Suc k \<Longrightarrow>
    sreach A defaultFor n (s\<lparr>sReaders := k\<rparr>)"

section \<open>Invariant\<close>

text \<open>
  Identity and buffer come and go together; at most one timer is pending, it is the session's own and
  of the current generation; an armed timer is pending or has fired; requests run only while an
  identity is held.
\<close>

definition session_inv :: "'i session \<Rightarrow> bool" where
  "session_inv s \<longleftrightarrow>
     (sBuf s = None \<longleftrightarrow> sId s = None)
     \<and> (sBuf s = None \<longrightarrow> sTimer s = None \<and> sReaders s = 0)
     \<and> (sTimer s = None \<longrightarrow> sLocksAt s = zero_time \<and> sPending s = [])
     \<and> (\<forall>h. sTimer s = Some h \<longrightarrow> sPending s = [(h, sGen s)] \<or> sPending s = [] \<and> sGen s \<in> set (sFired s))"

lemma drop_session_fields [simp]:
  "sTimer (drop_session s) = None" "sBuf (drop_session s) = None" "sId (drop_session s) = None"
  "sLocksAt (drop_session s) = zero_time" "sGen (drop_session s) = sGen s"
  "sFired (drop_session s) = sFired s" "sNext (drop_session s) = sNext s"
  "sReaders (drop_session s) = sReaders s"
  by (auto simp: drop_session_def stop_timer_def Let_def split: option.split)

lemma drop_session_pending: "session_inv s \<Longrightarrow> sPending (drop_session s) = []"
  by (auto simp: session_inv_def drop_session_def stop_timer_def Let_def split: option.split)

lemma session_inv_New [simp]: "session_inv NewSession"
  by (simp add: session_inv_def NewSession_def)

lemma session_inv_drop: "session_inv s \<Longrightarrow> sReaders s = 0 \<Longrightarrow> session_inv (drop_session s)"
  by (simp add: session_inv_def [of "drop_session s"] drop_session_pending)

lemma session_inv_Lock: "session_inv s \<Longrightarrow> sReaders s = 0 \<Longrightarrow> session_inv (Lock s)"
  by (simp add: Lock_def session_inv_drop)

lemma Unlock_Ok:
  assumes "Unlock A w dflt encoded lockAfter s = (Ok u, s', z)"
  obtains i where "Parse A encoded = Ok i"
    and "sBuf s' = Some encoded" and "sId s' = Some i" and "sGen s' = sGen s + 1"
    and "sReaders s' = sReaders s" and "sFired s' = sFired s"
    and "z = zeroed encoded"
  using assms
  by (auto simp: Unlock_def Let_def split: outcome.splits option.splits if_splits)

lemma Unlock_Er: "Unlock A w dflt encoded lockAfter s = (Er e, s', z) \<Longrightarrow> s' = s \<and> z = zeroed encoded"
  by (auto simp: Unlock_def Let_def split: outcome.splits option.splits)

lemma session_inv_Unlock:
  "session_inv s \<Longrightarrow> Unlock A w dflt encoded lockAfter s = (r, s', z) \<Longrightarrow> session_inv s'"
  using drop_session_pending [of s]
  by (auto simp: Unlock_def Let_def session_inv_def [of s']
      split: outcome.splits option.splits if_splits)

lemma session_inv_autoLock:
  assumes "session_inv s" and "sReaders s = 0"
  shows "session_inv (autoLock g (s\<lparr>sFired := remove1 g (sFired s)\<rparr>))"
proof (cases "sBuf s = None \<or> sGen s \<noteq> g")
  case True
  moreover have "sGen s \<noteq> g \<Longrightarrow> sGen s \<in> set (remove1 g (sFired s)) \<longleftrightarrow> sGen s \<in> set (sFired s)"
    by (simp add: in_set_remove1)
  ultimately show ?thesis using assms by (auto simp: autoLock_def session_inv_def)
next
  case False
  then show ?thesis
    using assms drop_session_pending [of s]
    by (auto simp: autoLock_def session_inv_def drop_session_def stop_timer_def Let_def
        split: option.split)
qed

theorem sreach_inv:
  assumes "sreach A dflt n s"
  shows "session_inv s \<and> sGen s = of_nat n"
  using assms
proof (induction rule: sreach.induct)
  case fresh
  then show ?case by (simp add: NewSession_def session_inv_def)
next
  case (unlocks n s w encoded lockAfter s' z)
  then show ?case
    using session_inv_Unlock [of s A w dflt encoded lockAfter] by (auto elim!: Unlock_Ok)
next
  case (unlock_fails n s w encoded lockAfter e s' z)
  then show ?case using Unlock_Er by blast
next
  case (locks n s)
  then show ?case using session_inv_Lock [of s] by (auto simp: Lock_def)
next
  case (fires n s h g)
  then show ?case
    by (cases "sTimer s") (auto simp: session_inv_def stop_timer_def)
next
  case (callback n s g)
  then show ?case by (simp add: session_inv_autoLock) (simp add: autoLock_def)
next
  case (begins n s)
  then show ?case by (auto simp: session_inv_def)
next
  case (ends n s k)
  then show ?case by (auto simp: session_inv_def)
qed

section \<open>Consequences\<close>

lemma gen_current:
  assumes "sreach A dflt n s" and "n < 2 ^ 64" and "k < n"
  shows "sGen s \<noteq> of_nat k"
proof
  assume "sGen s = of_nat k"
  then have "(of_nat n :: 64 word) = of_nat k" using sreach_inv [OF assms(1)] by simp
  then have "unat (of_nat n :: 64 word) = unat (of_nat k :: 64 word)" by simp
  moreover have "unat (of_nat n :: 64 word) = n" "unat (of_nat k :: 64 word) = k"
    using assms(2,3) by (simp_all add: unat_of_nat take_bit_nat_eq_self)
  ultimately show False using assms(3) by simp
qed

lemma stale_callback:
  "sreach A dflt n s \<Longrightarrow> n < 2 ^ 64 \<Longrightarrow> k < n \<Longrightarrow> autoLock (of_nat k) s = s"
  using gen_current [of A dflt n s k] by (simp add: autoLock_def)

lemma sreach_coupled: "sreach A dflt n s \<Longrightarrow> sBuf s = None \<longleftrightarrow> sId s = None"
  using sreach_inv [of A dflt n s] by (simp add: session_inv_def)

lemma sreach_one_timer: "sreach A dflt n s \<Longrightarrow> length (sPending s) \<le> 1"
  using sreach_inv [of A dflt n s] by (cases "sTimer s") (auto simp: session_inv_def)

lemma sreach_reader: "sreach A dflt n s \<Longrightarrow> 0 < sReaders s \<Longrightarrow> sId s \<noteq> None"
  using sreach_inv [of A dflt n s] by (auto simp: session_inv_def)

lemma autoLock_locks: "autoLock (sGen s) s = (if sBuf s = None then s else drop_session s)"
  by (simp add: autoLock_def)

text \<open>Once auto-lock is armed, the callback that locks this session is still to come.\<close>

lemma armed_timer:
  assumes "sreach A dflt n s" and "sTimer s = Some h"
  shows "sBuf s \<noteq> None \<and> (sPending s = [(h, sGen s)] \<or> sGen s \<in> set (sFired s))"
  using sreach_inv [OF assms(1)] assms(2) by (auto simp: session_inv_def)

text \<open>The state right after an unlock.\<close>

lemma Unlock_timer:
  assumes "session_inv s" and "Unlock A w dflt encoded lockAfter s = (Ok u, s', z)"
    and "d = (case lockAfter of None \<Rightarrow> dflt | Some d \<Rightarrow> d)"
  shows "if 0 < d then sLocksAt s' = time_add (ioNow w) d \<and> (\<exists>h. sTimer s' = Some h \<and> sPending s' = [(h, sGen s')])
    else sLocksAt s' = zero_time \<and> sTimer s' = None \<and> sPending s' = []"
  using assms drop_session_pending [OF assms(1)]
  by (auto simp: Unlock_def Let_def split: outcome.splits option.splits if_splits)

section \<open>The contract of a lock\<close>

text \<open>
  What the vault operations rely on: while locked nothing runs and nothing changes; locking locks;
  unlocked, the function runs with one identity.
\<close>

locale guard =
  fixes holds :: "'s \<Rightarrow> 'i option"
    and use :: "'s \<Rightarrow> ('i \<Rightarrow> 'd \<Rightarrow> 'a res \<times> 'd) \<Rightarrow> 'd \<Rightarrow> 'a res \<times> 'd"
    and lock :: "'s \<Rightarrow> 's"
    and good :: "'s \<Rightarrow> bool"
  assumes use_locked: "holds s = None \<Longrightarrow> use s f d = (Er (Sentinel (DaemonS ErrLocked)), d)"
    and use_open: "holds s = Some i \<Longrightarrow> use s f d = f i d"
    and lock_locks: "good s \<Longrightarrow> holds (lock s) = None"
begin

lemma use_after_lock: "good s \<Longrightarrow> use (lock s) f d = (Er (Sentinel (DaemonS ErrLocked)), d)"
  by (simp add: use_locked lock_locks)

lemma use_Ok: "use s f d = (Ok x, d') \<Longrightarrow> \<exists>i. holds s = Some i \<and> f i d = (Ok x, d')"
  by (cases "holds s") (simp_all add: use_locked use_open)

lemma use_inv:
  assumes "\<And>i r d'. f i d = (r, d') \<Longrightarrow> P d'" and "P d" and "use s f d = (r, d')"
  shows "P d'"
  using assms by (cases "holds s") (auto simp: use_locked use_open)

end

interpretation sess: guard sId With Lock session_inv
  by unfold_locales (auto simp: With_def Lock_def session_inv_def)

end
