(* ===== verification/Store.thy ===== *)
theory Store
  imports Session
begin

text \<open>
  internal/daemon/store.go: the operations on secrets. Each one runs under \<open>With\<close>, reads the vault,
  works on it, and wipes it when it returns; a run returns its result and the file system after it.
  A nil secret, which a document with \<open>null\<close> in the place of a secret has, is dereferenced where the
  source dereferences it: the operation panics.
\<close>

section \<open>Types\<close>

record dsecret =
  dName :: bytes
  dKind :: bytes
  dAttributes :: "(bytes, bytes) gomap"
  dValue :: "bytes option"
  dCreated :: gotime
  dUpdated :: gotime

record sfilter =
  fKind :: bytes
  fPrefix :: bytes
  fAttributes :: "(bytes, bytes) gomap"

definition no_filter :: sfilter where
  "no_filter = \<lparr> fKind = [], fPrefix = [], fAttributes = [] \<rparr>"

section \<open>Helpers\<close>

definition invalid :: "goerr \<Rightarrow> goerr" where
  "invalid e = wrap2 (Sentinel (DaemonS ErrInvalidArgument)) e"

fun or_invalid :: "'a res \<Rightarrow> 'a res" where
  "or_invalid (Er e) = Er (invalid e)"
| "or_invalid r = r"

definition toSecret :: "bytes \<Rightarrow> vsecret option \<Rightarrow> dsecret res" where
  "toSecret name p =
     (case p of
        None \<Rightarrow> Panic
      | Some s \<Rightarrow> Ok \<lparr> dName = name, dKind = vKind s, dAttributes = vAttributes s, dValue = None,
          dCreated = vCreated s, dUpdated = vUpdated s \<rparr>)"

text \<open>The loop over the filter's attributes, in the order the map is visited.\<close>

fun match_attrs :: "(bytes, bytes) gomap \<Rightarrow> vsecret option \<Rightarrow> bool res" where
  "match_attrs [] p = Ok True"
| "match_attrs ((k, want) # m) p =
     (case p of
        None \<Rightarrow> Panic
      | Some s \<Rightarrow> if map_of (vAttributes s) k \<noteq> Some want then Ok False else match_attrs m p)"

definition matches :: "sfilter \<Rightarrow> bytes \<Rightarrow> vsecret option \<Rightarrow> bool res" where
  "matches f name p =
     obind (if fKind f = [] then Ok True
            else case p of None \<Rightarrow> Panic | Some s \<Rightarrow> Ok (vKind s = fKind f))
       (\<lambda>kind. if \<not> kind then Ok False
          else if take (length (fPrefix f)) name \<noteq> fPrefix f then Ok False
          else match_attrs (fAttributes f) p)"

text \<open>\<open>defer wipeVault(v, nil)\<close>: the result stands, unless wiping panics.\<close>

definition deferred_wipe :: "vault \<Rightarrow> 'a res \<Rightarrow> 'a res" where
  "deferred_wipe v r = (case Wipe (Some v) None of Panic \<Rightarrow> Panic | _ \<Rightarrow> r)"

section \<open>Operations\<close>

text \<open>The value is cloned before the vault is wiped.\<close>

definition Get :: "'i age \<Rightarrow> io \<Rightarrow> bytes \<Rightarrow> 'i session \<Rightarrow> bytes \<Rightarrow> fs \<Rightarrow> dsecret res \<times> fs" where
  "Get A w path s name = With s (\<lambda>i d.
     (obind (or_invalid (ValidateName name)) (\<lambda>_.
      obind (Read_file A w path i d) (\<lambda>v.
      deferred_wipe v
        (case map_of (vSecrets v) name of
           None \<Rightarrow> Er (Sentinel (DaemonS ErrNotFound))
         | Some p \<Rightarrow> obind (toSecret name p)
             (\<lambda>out. Ok (out\<lparr>dValue := Option.bind p vValue\<rparr>))))), d))"

text \<open>The loop of \<open>List\<close> over the secrets of the vault, in the order the map is visited.\<close>

fun list_loop :: "sfilter \<Rightarrow> (bytes, vsecret option) gomap \<Rightarrow> dsecret list res" where
  "list_loop f [] = Ok []"
| "list_loop f ((name, p) # m) =
     obind (matches f name p) (\<lambda>b.
       if b then obind (toSecret name p) (\<lambda>x. obind (list_loop f m) (\<lambda>xs. Ok (x # xs)))
       else list_loop f m)"

definition List :: "'i age \<Rightarrow> io \<Rightarrow> bytes \<Rightarrow> 'i session \<Rightarrow> sfilter \<Rightarrow> fs \<Rightarrow> dsecret list res \<times> fs" where
  "List A w path s f = With s (\<lambda>i d.
     (obind (if fKind f \<noteq> [] then or_invalid (ValidateKind (fKind f)) else Ok ()) (\<lambda>_.
      obind (or_invalid (ValidateAttributes (fAttributes f))) (\<lambda>_.
      obind (Read_file A w path i d) (\<lambda>v.
      deferred_wipe v (obind (list_loop f (vSecrets v)) (\<lambda>out. Ok (sort_key dName out)))))), d))"

definition store_write ::
  "'i age \<Rightarrow> io \<Rightarrow> bytes \<Rightarrow> 'i session \<Rightarrow> (vault \<Rightarrow> vault res) \<Rightarrow> fs \<Rightarrow> unit res \<times> fs" where
  "store_write A w path s modify = With s (\<lambda>i d.
     case Read_file A w path i d of
       Er e \<Rightarrow> (Er e, d)
     | Panic \<Rightarrow> (Panic, d)
     | Ok v \<Rightarrow>
         (case modify v of
            Er e \<Rightarrow> (deferred_wipe v (Er e), d)
          | Panic \<Rightarrow> (Panic, d)
          | Ok v' \<Rightarrow>
              (case Write_file A w path i v' d of (r, d') \<Rightarrow> (deferred_wipe v' r, d'))))"

definition store_modify ::
  "io \<Rightarrow> bytes \<Rightarrow> bytes \<Rightarrow> (bytes, bytes) gomap \<Rightarrow> bytes option \<Rightarrow> vault \<Rightarrow> vault res" where
  "store_modify w name kind attrs val v =
     obind (or_invalid (ValidateSecret name kind attrs (case val of None \<Rightarrow> [] | Some b \<Rightarrow> b))) (\<lambda>_.
       let now = UTC (ioNow w);
           put = (\<lambda>created. v\<lparr>vSecrets := AList.update name
             (Some \<lparr> vKind = kind, vValue = val, vAttributes = attrs, vCreated = created,
                     vUpdated = now \<rparr>) (vSecrets v)\<rparr>)
       in case map_of (vSecrets v) name of
            None \<Rightarrow> Ok (put now)
          | Some None \<Rightarrow> Panic
          | Some (Some old) \<Rightarrow> Ok (put (vCreated old)))"

definition Store_secret ::
  "'i age \<Rightarrow> io \<Rightarrow> bytes \<Rightarrow> 'i session \<Rightarrow> bytes \<Rightarrow> bytes \<Rightarrow> (bytes, bytes) gomap \<Rightarrow> bytes option
   \<Rightarrow> fs \<Rightarrow> unit res \<times> fs" where
  "Store_secret A w path s name kind attrs val =
     store_write A w path s (store_modify w name kind attrs val)"

definition delete_modify :: "bytes \<Rightarrow> vault \<Rightarrow> vault res" where
  "delete_modify name v =
     obind (or_invalid (ValidateName name)) (\<lambda>_.
       if \<not> has_key (vSecrets v) name then Er (Sentinel (DaemonS ErrNotFound))
       else Ok (v\<lparr>vSecrets := AList.delete name (vSecrets v)\<rparr>))"

definition Delete :: "'i age \<Rightarrow> io \<Rightarrow> bytes \<Rightarrow> 'i session \<Rightarrow> bytes \<Rightarrow> fs \<Rightarrow> unit res \<times> fs" where
  "Delete A w path s name = store_write A w path s (delete_modify name)"

section \<open>What the file stands for\<close>

text \<open>
  The abstract content of the vault: a finite map from names to what the operations show of a secret.
  It is defined when the file opens with the identity and no secret is nil.
\<close>

type_synonym entry = "bytes \<times> bytes option \<times> (bytes \<Rightarrow> bytes option) \<times> gotime \<times> gotime"

definition view :: "vsecret \<Rightarrow> entry" where
  "view s = (vKind s, vValue s, map_of (vAttributes s), vCreated s, vUpdated s)"

definition no_nil :: "vault \<Rightarrow> bool" where
  "no_nil v \<longleftrightarrow> None \<notin> snd ` set (vSecrets v)"

definition table :: "vault \<Rightarrow> bytes \<Rightarrow> entry option" where
  "table v name = Option.bind (map_of (vSecrets v) name) (map_option view)"

definition secrets_at :: "'i age \<Rightarrow> bytes \<Rightarrow> 'i \<Rightarrow> fs \<Rightarrow> (bytes \<Rightarrow> entry option) option" where
  "secrets_at A path i d =
     (case Option.bind (contents d path) (opens A i) of
        None \<Rightarrow> None
      | Some v \<Rightarrow> if no_nil v then Some (table v) else None)"

definition out_view :: "dsecret \<Rightarrow> entry" where
  "out_view x = (dKind x, dValue x, map_of (dAttributes x), dCreated x, dUpdated x)"

lemma wipe_no_nil [simp]: "no_nil v \<Longrightarrow> deferred_wipe v r = r"
  by (simp add: no_nil_def deferred_wipe_def Wipe_def wipe_secrets_eq)

lemma wipe_nil: "\<not> no_nil v \<Longrightarrow> deferred_wipe v r = Panic"
  by (simp add: no_nil_def deferred_wipe_def Wipe_def wipe_secrets_eq)

lemma secrets_at_Some:
  "secrets_at A path i d = Some T \<longleftrightarrow>
   (\<exists>v. Option.bind (contents d path) (opens A i) = Some v \<and> no_nil v \<and> T = table v)"
  by (auto simp: secrets_at_def split: option.split)

lemma secrets_at_read:
  assumes "secrets_at A path i d = Some T" and "ioOpen w = None"
  obtains v where "Read_file A w path i d = Ok v" and "vault_ok v" and "vVersion v = Version"
    and "no_nil v" and "T = table v"
  using assms Read_file_Ok [of A w path i d] Read_file_wf [of A w path i d]
  by (auto simp: secrets_at_Some)

lemma read_secrets_at:
  "Read_file A w path i d = Ok v \<Longrightarrow> no_nil v \<Longrightarrow> secrets_at A path i d = Some (table v)"
  by (auto simp: secrets_at_Some Read_file_Ok)

lemma table_lookup:
  assumes "no_nil v"
  shows "table v n = None \<longleftrightarrow> map_of (vSecrets v) n = None"
    and "map_of (vSecrets v) n = Some p \<Longrightarrow> \<exists>s. p = Some s \<and> table v n = Some (view s)"
proof -
  have "map_of (vSecrets v) n \<noteq> Some None"
    using assms map_of_SomeD [of "vSecrets v" n None] by (force simp: no_nil_def)
  then show "table v n = None \<longleftrightarrow> map_of (vSecrets v) n = None"
    and "map_of (vSecrets v) n = Some p \<Longrightarrow> \<exists>s. p = Some s \<and> table v n = Some (view s)"
    by (cases "map_of (vSecrets v) n"; auto simp: table_def)+
qed

lemma table_Some:
  "table v n = Some e \<longleftrightarrow> (\<exists>s. map_of (vSecrets v) n = Some (Some s) \<and> e = view s)"
  unfolding table_def by (cases "map_of (vSecrets v) n"; cases "the (map_of (vSecrets v) n)") auto

subsection \<open>Writing and reading the table\<close>

lemma view_norm: "vsecret_ok s \<Longrightarrow> view (norm_secret s) = view s"
  by (simp add: view_def norm_secret_def vsecret_ok_def)

lemma table_norm:
  assumes "vault_ok v"
  shows "table (norm_vault v) = table v"
proof
  fix n
  show "table (norm_vault v) n = table v n"
  proof (cases "map_of (vSecrets v) n")
    case (Some p)
    then have "ptr_ok p"
      using assms map_of_SomeD [OF Some] by (auto simp: vault_ok_secrets secrets_ok_def)
    then show ?thesis
      by (auto simp: table_def norm_vault_lookup [OF assms] Some ptr_ok_def view_norm
          split: option.splits)
  qed (simp add: table_def norm_vault_lookup [OF assms])
qed

lemma no_nil_norm: "no_nil v \<Longrightarrow> no_nil (norm_vault v)"
  by (force simp: no_nil_def norm_vault_def)

lemma Write_secrets_at:
  assumes "age_laws A" and "vault_ok v" and "vVersion v = Version" and "no_nil v"
    and "Write_file A w path i v d = (Ok u, d')"
  shows "secrets_at A path i d' = Some (table v)"
proof -
  have "Read_file A (w\<lparr>ioOpen := None\<rparr>) path i d' = Ok (norm_vault v)"
    using assms by (intro Read_after_Write) simp_all
  from read_secrets_at [OF this no_nil_norm [OF assms(4)]] show ?thesis
    by (simp add: table_norm [OF assms(2)])
qed

section \<open>Accepted secrets are well formed\<close>

lemma slug_valid: "isSlug s \<Longrightarrow> utf8_valid s"
  by (rule utf8_valid_ascii) (auto simp: isSlug.simps list_all_iff slug_char_byte split: if_splits)

lemma secret_ok_vsecret:
  assumes "secret_ok name kind attrs b" and "gomap_ok attrs" and "time_ok c" and "time_ok u"
  shows "vsecret_ok \<lparr> vKind = kind, vValue = val, vAttributes = attrs, vCreated = c, vUpdated = u \<rparr>"
  using assms slug_valid by (fastforce simp: vsecret_ok_def secret_ok_def attrs_ok_def text_ok_def)

lemma vault_ok_update:
  assumes "vault_ok v" and "utf8_valid name" and "vsecret_ok s"
  shows "vault_ok (v\<lparr>vSecrets := AList.update name (Some s) (vSecrets v)\<rparr>)"
  using assms set_update_subset [of name "Some s" "vSecrets v"]
  by (fastforce simp: vault_ok_secrets secrets_ok_def ptr_ok_def)

lemma vault_ok_delete: "vault_ok v \<Longrightarrow> vault_ok (v\<lparr>vSecrets := AList.delete name (vSecrets v)\<rparr>)"
  by (auto simp: vault_ok_secrets secrets_ok_def AList.delete_eq)

section \<open>Get\<close>

lemma or_invalid_simps [simp]:
  "or_invalid r = Ok x \<longleftrightarrow> r = Ok x" "or_invalid r = Panic \<longleftrightarrow> r = Panic"
  by (cases r; simp)+

lemma obind_valid:
  "r = Ok () \<Longrightarrow> obind (or_invalid r) f = f ()"
  by simp

lemma toSecret_view:
  "obind (toSecret name (Some s)) (\<lambda>out. Ok (out\<lparr>dValue := vValue s\<rparr>)) =
   Ok \<lparr> dName = name, dKind = vKind s, dAttributes = vAttributes s, dValue = vValue s,
        dCreated = vCreated s, dUpdated = vUpdated s \<rparr>"
  by (simp add: toSecret_def)

lemma Get_eq:
  assumes "secrets_at A path i d = Some T" and "ioOpen w = None" and "sId s = Some i"
    and "text_ok name"
  shows "case T name of
      None \<Rightarrow> Get A w path s name d = (Er (Sentinel (DaemonS ErrNotFound)), d)
    | Some e \<Rightarrow> \<exists>x. Get A w path s name d = (Ok x, d) \<and> dName x = name \<and> out_view x = e"
proof -
  from secrets_at_read [OF assms(1,2)] obtain v where v: "Read_file A w path i d = Ok v"
    and n: "no_nil v" and T: "T = table v" by metis
  have name: "ValidateName name = Ok ()" using assms(4) by simp
  show ?thesis
  proof (cases "map_of (vSecrets v) name")
    case None
    then have "T name = None" using table_lookup(1) [OF n] T by simp
    then show ?thesis
      by (simp add: Get_def sess.use_open [OF assms(3)] name v n None)
  next
    case (Some p)
    from table_lookup(2) [OF n Some] obtain x where "p = Some x" "T name = Some (view x)"
      using T by blast
    then show ?thesis
      by (simp add: Get_def sess.use_open [OF assms(3)] name v n Some toSecret_view out_view_def view_def)
  qed
qed

definition dsecret_ok :: "dsecret \<Rightarrow> bool" where
  "dsecret_ok x \<longleftrightarrow> vsecret_ok \<lparr> vKind = dKind x, vValue = dValue x, vAttributes = dAttributes x,
     vCreated = dCreated x, vUpdated = dUpdated x \<rparr>"

lemma Get_Ok:
  assumes "secrets_at A path i d = Some T" and "ioOpen w = None" and "sId s = Some i"
    and "Get A w path s name d = (Ok x, d')"
  shows "text_ok name \<and> dName x = name \<and> T name = Some (out_view x) \<and> dsecret_ok x"
proof -
  from secrets_at_read [OF assms(1,2)] obtain v where v: "Read_file A w path i d = Ok v" "vault_ok v"
    and n: "no_nil v" and T: "T = table v" by metis
  from assms(4) have name: "text_ok name"
    by (auto simp: Get_def sess.use_open [OF assms(3)] obind_eq_Ok)
  then have name': "ValidateName name = Ok ()" by simp
  from assms(4) obtain p where p: "map_of (vSecrets v) name = Some p"
    by (cases "map_of (vSecrets v) name") (auto simp: Get_def sess.use_open [OF assms(3)] name' v n)
  from table_lookup(2) [OF n p] obtain y where y: "p = Some y" "T name = Some (view y)"
    using T by blast
  have "vsecret_ok y"
    using v(2) map_of_SomeD [OF p] by (auto simp: vault_ok_secrets secrets_ok_def ptr_ok_def y(1))
  moreover have "x = \<lparr> dName = name, dKind = vKind y, dAttributes = vAttributes y, dValue = vValue y,
        dCreated = vCreated y, dUpdated = vUpdated y \<rparr>"
    using assms(4) by (simp add: Get_def sess.use_open [OF assms(3)] name' v n p y(1) toSecret_view)
  ultimately show ?thesis using name y by (cases y) (simp add: out_view_def view_def dsecret_ok_def)
qed

lemma Get_no_panic:
  assumes "secrets_at A path i d = Some T" and "ioOpen w = None" and "sId s = Some i"
  shows "fst (Get A w path s name d) \<noteq> Panic"
proof (cases "text_ok name")
  case True
  from Get_eq [OF assms True] show ?thesis by (auto split: option.splits)
next
  case False
  then have "ValidateName name \<noteq> Ok ()" by simp
  then obtain e where "ValidateName name = Er e" by (cases "ValidateName name") auto
  then show ?thesis by (auto simp: Get_def sess.use_open [OF assms(3)])
qed

lemma Get_no_effect: "snd (Get A w path s name d) = d" "snd (List A w path s f d) = d"
  by (simp_all add: Get_def List_def With_def split: option.split)

section \<open>Store and Delete\<close>

definition stored :: "io \<Rightarrow> bytes \<Rightarrow> (bytes, bytes) gomap \<Rightarrow> bytes option \<Rightarrow> entry option \<Rightarrow> entry" where
  "stored w kind attrs val old =
     (kind, val, map_of attrs,
      (case old of None \<Rightarrow> UTC (ioNow w) | Some (_, _, _, created, _) \<Rightarrow> created), UTC (ioNow w))"

definition val_bytes :: "bytes option \<Rightarrow> bytes" where
  "val_bytes val = (case val of None \<Rightarrow> [] | Some b \<Rightarrow> b)"

lemma no_nil_update: "no_nil v \<Longrightarrow> no_nil (v\<lparr>vSecrets := AList.update n (Some s) (vSecrets v)\<rparr>)"
  using set_update_subset [of n "Some s" "vSecrets v"] by (force simp: no_nil_def)

lemma no_nil_delete: "no_nil v \<Longrightarrow> no_nil (v\<lparr>vSecrets := AList.delete n (vSecrets v)\<rparr>)"
  using set_delete_subset [of n "vSecrets v"] by (force simp: no_nil_def)

lemma table_update:
  "table (v\<lparr>vSecrets := AList.update n (Some s) (vSecrets v)\<rparr>) = (table v)(n \<mapsto> view s)"
  by (rule ext) (simp add: table_def update_conv')

lemma table_delete:
  "table (v\<lparr>vSecrets := AList.delete n (vSecrets v)\<rparr>) = (table v)(n := None)"
  by (rule ext) (simp add: table_def delete_conv')

lemma store_modify_Ok:
  assumes "store_modify w name kind attrs val v = Ok v'" and "vault_ok v" and "no_nil v"
    and "gomap_ok attrs" and "time_ok (UTC (ioNow w))"
  shows "secret_ok name kind attrs (val_bytes val) \<and> vault_ok v' \<and> vVersion v' = vVersion v \<and> no_nil v'
    \<and> table v' = (table v)(name \<mapsto> stored w kind attrs val (table v name))"
proof -
  from assms(1) have ok: "secret_ok name kind attrs (val_bytes val)"
    by (auto simp: store_modify_def obind_eq_Ok val_bytes_def)
  then have name: "utf8_valid name" by (simp add: secret_ok_def text_ok_def)
  obtain created where c: "v' = v\<lparr>vSecrets := AList.update name
      (Some \<lparr> vKind = kind, vValue = val, vAttributes = attrs, vCreated = created,
        vUpdated = UTC (ioNow w) \<rparr>) (vSecrets v)\<rparr>"
    and t: "time_ok created"
    and e: "stored w kind attrs val (table v name) = (kind, val, map_of attrs, created, UTC (ioNow w))"
  proof (cases "map_of (vSecrets v) name")
    case None
    then have "table v name = None" using table_lookup(1) [OF assms(3)] by simp
    with None that [of "UTC (ioNow w)"] assms(1,5) show thesis
      by (simp add: store_modify_def obind_eq_Ok Let_def stored_def)
  next
    case (Some p)
    from table_lookup(2) [OF assms(3) Some] obtain old where p: "p = Some old"
      "table v name = Some (view old)" by blast
    then have "ptr_ok (Some old)"
      using assms(2) map_of_SomeD [OF Some] by (auto simp: vault_ok_secrets secrets_ok_def)
    with that [of "vCreated old"] assms(1) p Some show thesis
      by (simp add: store_modify_def obind_eq_Ok Let_def stored_def view_def ptr_ok_def vsecret_ok_def)
  qed
  have "vsecret_ok \<lparr> vKind = kind, vValue = val, vAttributes = attrs, vCreated = created,
      vUpdated = UTC (ioNow w) \<rparr>"
    using secret_ok_vsecret [OF ok assms(4) t assms(5)] .
  then show ?thesis
    using ok e assms(2,3) name
    by (simp add: c vault_ok_update no_nil_update table_update view_def)
qed

lemma delete_modify_Ok:
  assumes "delete_modify name v = Ok v'" and "vault_ok v" and "no_nil v"
  shows "text_ok name \<and> table v name \<noteq> None \<and> vault_ok v' \<and> vVersion v' = vVersion v \<and> no_nil v'
    \<and> table v' = (table v)(name := None)"
proof -
  from assms(1) have "text_ok name" and "has_key (vSecrets v) name"
    and v': "v' = v\<lparr>vSecrets := AList.delete name (vSecrets v)\<rparr>"
    by (auto simp: delete_modify_def obind_eq_Ok split: if_splits)
  then show ?thesis
    using assms(2,3)
    by (simp add: has_key_def table_lookup(1) [OF assms(3)] vault_ok_delete no_nil_delete table_delete)
qed

text \<open>A successful read-modify-write cycle.\<close>

lemma store_write_Ok:
  assumes "store_write A w path s modify d = (Ok u, d')" and "secrets_at A path i d = Some T"
    and "sId s = Some i"
  obtains v v' where "vault_ok v" and "vVersion v = Version" and "no_nil v" and "T = table v"
    and "modify v = Ok v'" and "Write_file A w path i v' d = (deferred_wipe v' (Ok u), d')"
proof -
  from assms(1,3) obtain v where r: "Read_file A w path i d = Ok v"
    by (auto simp: store_write_def sess.use_open split: outcome.splits)
  then have o: "ioOpen w = None" by (simp add: Read_file_Ok)
  from secrets_at_read [OF assms(2) o] r have v: "vault_ok v" "vVersion v = Version" "no_nil v" "T = table v"
    by auto
  from assms(1,3) r v obtain v' where m: "modify v = Ok v'"
    by (auto simp: store_write_def sess.use_open split: outcome.splits)
  obtain r' d'' where w: "Write_file A w path i v' d = (r', d'')" by fastforce
  with assms(1,3) r m have "deferred_wipe v' r' = Ok u" "d'' = d'"
    by (simp_all add: store_write_def sess.use_open)
  moreover from this have "r' = Ok u" and "no_nil v'"
    by (cases "no_nil v'"; simp add: wipe_nil)+
  ultimately show thesis using that [OF v m] w by simp
qed

lemma Store_table:
  assumes "age_laws A" and "sId s = Some i" and "secrets_at A path i d = Some T"
    and "gomap_ok attrs" and "time_ok (UTC (ioNow w))"
    and "Store_secret A w path s name kind attrs val d = (Ok u, d')"
  shows "secret_ok name kind attrs (val_bytes val)
    \<and> secrets_at A path i d' = Some (T(name \<mapsto> stored w kind attrs val (T name)))"
proof -
  from store_write_Ok [OF assms(6) [unfolded Store_secret_def] assms(3,2)]
  obtain v v' where v: "vault_ok v" "vVersion v = Version" "no_nil v" "T = table v"
    and m: "store_modify w name kind attrs val v = Ok v'"
    and wr: "Write_file A w path i v' d = (deferred_wipe v' (Ok u), d')" by metis
  from store_modify_Ok [OF m v(1,3) assms(4,5)] v
  have v': "vault_ok v'" "vVersion v' = Version" "no_nil v'"
    "table v' = T(name \<mapsto> stored w kind attrs val (T name))"
    "secret_ok name kind attrs (val_bytes val)" by simp_all
  from wr v'(3) have "Write_file A w path i v' d = (Ok u, d')" by simp
  from Write_secrets_at [OF assms(1) v'(1-3) this] v'(4,5) show ?thesis by simp
qed

lemma Delete_table:
  assumes "age_laws A" and "sId s = Some i" and "secrets_at A path i d = Some T"
    and "Delete A w path s name d = (Ok u, d')"
  shows "text_ok name \<and> T name \<noteq> None \<and> secrets_at A path i d' = Some (T(name := None))"
proof -
  from store_write_Ok [OF assms(4) [unfolded Delete_def] assms(3,2)]
  obtain v v' where v: "vault_ok v" "vVersion v = Version" "no_nil v" "T = table v"
    and m: "delete_modify name v = Ok v'"
    and wr: "Write_file A w path i v' d = (deferred_wipe v' (Ok u), d')" by metis
  from delete_modify_Ok [OF m v(1,3)] v
  have v': "vault_ok v'" "vVersion v' = Version" "no_nil v'" "table v' = T(name := None)"
    "text_ok name" "T name \<noteq> None" by simp_all
  from wr v'(3) have "Write_file A w path i v' d = (Ok u, d')" by simp
  from Write_secrets_at [OF assms(1) v'(1-3) this] v'(4-6) show ?thesis by simp
qed

section \<open>List\<close>

definition selects :: "sfilter \<Rightarrow> bytes \<Rightarrow> entry \<Rightarrow> bool" where
  "selects f name e =
     (case e of (kind, _, attrs, _, _) \<Rightarrow>
        (fKind f = [] \<or> kind = fKind f) \<and> take (length (fPrefix f)) name = fPrefix f
        \<and> (\<forall>(k, want) \<in> set (fAttributes f). attrs k = Some want))"

definition info_of :: "bytes \<Rightarrow> vsecret \<Rightarrow> dsecret" where
  "info_of name s = \<lparr> dName = name, dKind = vKind s, dAttributes = vAttributes s, dValue = None,
     dCreated = vCreated s, dUpdated = vUpdated s \<rparr>"

lemma match_attrs_eq:
  "match_attrs m (Some s) = Ok (\<forall>(k, want) \<in> set m. map_of (vAttributes s) k = Some want)"
  by (induction m) auto

lemma matches_eq: "matches f name (Some s) = Ok (selects f name (view s))"
  by (auto simp: matches_def match_attrs_eq selects_def view_def)

lemma list_loop_eq:
  "None \<notin> snd ` set m \<Longrightarrow>
   list_loop f m = Ok (map (\<lambda>(n, p). info_of n (the p)) (filter (\<lambda>(n, p). selects f n (view (the p))) m))"
proof (induction m)
  case (Cons q m)
  obtain n p where q: "q = (n, p)" by (cases q)
  with Cons.prems obtain s where "p = Some s" by (cases p) auto
  with Cons q show ?case by (simp add: matches_eq toSecret_def info_of_def)
qed simp

lemma strict_sorted_names: "distinct (map f xs) \<Longrightarrow> sorted_wrt (<) (map f (sort_key f xs))"
  by (simp add: strict_sorted_iff distinct_map)

lemma List_eq:
  assumes "secrets_at A path i d = Some T" and "ioOpen w = None" and "sId s = Some i"
    and "fKind f = [] \<or> isSlug (fKind f)" and "attrs_ok (fAttributes f)"
  shows "\<exists>xs. List A w path s f d = (Ok xs, d) \<and> sorted_wrt (<) (map dName xs)
    \<and> (\<forall>n. n \<in> dName ` set xs \<longleftrightarrow> (\<exists>e. T n = Some e \<and> selects f n e))
    \<and> (\<forall>x \<in> set xs. dValue x = None \<and> gomap_ok (dAttributes x) \<and> (\<exists>val. T (dName x) =
         Some (dKind x, val, map_of (dAttributes x), dCreated x, dUpdated x)))"
proof -
  from secrets_at_read [OF assms(1,2)] obtain v where v: "Read_file A w path i d = Ok v" "vault_ok v"
    and n: "no_nil v" and T: "T = table v" by metis
  define m where "m = filter (\<lambda>(n, p). selects f n (view (the p))) (vSecrets v)"
  define xs where "xs = map (\<lambda>(n, p). info_of n (the p)) m"
  have mem: "(k, p) \<in> set (vSecrets v) \<longleftrightarrow> (\<exists>s. p = Some s \<and> map_of (vSecrets v) k = Some (Some s))" for k p
    using v(2) n gomap_mem [of "vSecrets v" k p]
    by (cases p) (auto simp: vault_ok_secrets secrets_ok_def no_nil_def image_iff)
  have tab: "T k = Some (view s)" if "map_of (vSecrets v) k = Some (Some s)" for k s
    using that by (simp add: T table_def)
  have names: "map dName xs = map fst m"
    by (simp add: xs_def comp_def case_prod_beta info_of_def)
  have "gomap_ok m" using v(2) by (simp add: m_def vault_ok_secrets secrets_ok_def)
  then have dist: "distinct (map dName xs)" by (simp add: names gomap_ok_def)
  have "list_loop f (vSecrets v) = Ok xs"
    using n by (simp add: xs_def m_def list_loop_eq no_nil_def)
  then have "List A w path s f d = (Ok (sort_key dName xs), d)"
    using assms(4,5) v(1) n
    by (auto simp: List_def sess.use_open [OF assms(3)] obind_valid)
  moreover have "k \<in> dName ` set xs \<longleftrightarrow> (\<exists>e. T k = Some e \<and> selects f k e)" for k
  proof -
    have "k \<in> dName ` set xs \<longleftrightarrow> (\<exists>p. (k, p) \<in> set (vSecrets v) \<and> selects f k (view (the p)))"
      by (force simp: xs_def m_def info_of_def)
    also have "\<dots> \<longleftrightarrow> (\<exists>s. map_of (vSecrets v) k = Some (Some s) \<and> selects f k (view s))"
      by (auto simp: mem)
    also have "\<dots> \<longleftrightarrow> (\<exists>e. T k = Some e \<and> selects f k e)"
      unfolding T table_Some by metis
    finally show ?thesis .
  qed
  moreover have "dValue x = None \<and> gomap_ok (dAttributes x) \<and> (\<exists>val. T (dName x) =
      Some (dKind x, val, map_of (dAttributes x), dCreated x, dUpdated x))" if "x \<in> set xs" for x
  proof -
    from that obtain k p where "(k, p) \<in> set (vSecrets v)" and x: "x = info_of k (the p)"
      by (auto simp: xs_def m_def)
    then obtain s where s: "p = Some s" "map_of (vSecrets v) k = Some (Some s)" using mem by blast
    then have "vsecret_ok s"
      using v(2) map_of_SomeD [OF s(2)] by (auto simp: vault_ok_secrets secrets_ok_def ptr_ok_def)
    with s tab x show ?thesis by (simp add: info_of_def view_def vsecret_ok_def)
  qed
  ultimately show ?thesis
    using strict_sorted_names [OF dist] by (intro exI [of _ "sort_key dName xs"]) simp
qed

section \<open>Success, failure, lock, panic\<close>

definition no_faults :: "'i age \<Rightarrow> io \<Rightarrow> bool" where
  "no_faults A w \<longleftrightarrow> ioOpen w = None \<and> (\<forall>c. sysFault (ioSys w) c = None)
     \<and> (\<forall>i p. \<exists>c. ageEncrypt A i (ioRandom w) p = Ok c)"

lemma Write_file_succeeds:
  assumes "no_faults A w" and "vault_ok v"
  shows "\<exists>d'. Write_file A w path i v d = (Ok (), d')"
proof -
  from assms(1) obtain c where c: "ageEncrypt A i (ioRandom w) (print_json (enc_vault v)) = Ok c"
    unfolding no_faults_def by blast
  from assms(1) have "\<forall>c. sysFault (ioSys w) c = None" by (simp add: no_faults_def)
  from Write_keeps_backup [OF this, of path c 384 True d] show ?thesis
    by (auto simp: Write_file_def Encode_Ok [OF assms(2)] c)
qed

lemma Store_succeeds:
  assumes "no_faults A w" and "sId s = Some i" and "secrets_at A path i d = Some T"
    and "secret_ok name kind attrs (val_bytes val)" and "gomap_ok attrs"
    and "time_ok (UTC (ioNow w))"
  shows "\<exists>d'. Store_secret A w path s name kind attrs val d = (Ok (), d')"
proof -
  have "ioOpen w = None" using assms(1) by (simp add: no_faults_def)
  from secrets_at_read [OF assms(3) this] obtain v where r: "Read_file A w path i d = Ok v"
    and v: "vault_ok v" "no_nil v" by metis
  have "store_modify w name kind attrs val v \<noteq> Panic"
    using table_lookup(2) [OF v(2), of name]
    by (auto simp: store_modify_def obind_eq_Panic Let_def split: option.splits)
  moreover have "store_modify w name kind attrs val v \<noteq> Er e" for e
    using assms(4)
    by (auto simp: store_modify_def val_bytes_def obind_valid Let_def split: option.splits)
  ultimately obtain v' where m: "store_modify w name kind attrs val v = Ok v'"
    by (cases "store_modify w name kind attrs val v") auto
  from store_modify_Ok [OF m v assms(5,6)] have v': "vault_ok v'" "no_nil v'" by simp_all
  from Write_file_succeeds [OF assms(1) v'(1)] show ?thesis
    using v'(2)
    by (fastforce simp: Store_secret_def store_write_def sess.use_open [OF assms(2)] r m)
qed

lemma Delete_eq:
  assumes "no_faults A w" and "sId s = Some i" and "secrets_at A path i d = Some T"
    and "text_ok name"
  shows "if T name = None then Delete A w path s name d = (Er (Sentinel (DaemonS ErrNotFound)), d)
    else \<exists>d'. Delete A w path s name d = (Ok (), d')"
proof -
  have o: "ioOpen w = None" using assms(1) by (simp add: no_faults_def)
  from secrets_at_read [OF assms(3) o] obtain v where r: "Read_file A w path i d = Ok v"
    and v: "vault_ok v" "no_nil v" and T: "T = table v" by metis
  have name: "ValidateName name = Ok ()" using assms(4) by simp
  show ?thesis
  proof (cases "T name = None")
    case True
    then have "\<not> has_key (vSecrets v) name" using table_lookup(1) [OF v(2)] T by (simp add: has_key_def)
    then show ?thesis
      using True v by (simp add: Delete_def store_write_def sess.use_open [OF assms(2)] r delete_modify_def name)
  next
    case False
    then have "has_key (vSecrets v) name" using table_lookup(1) [OF v(2)] T by (simp add: has_key_def)
    then have "delete_modify name v = Ok (v\<lparr>vSecrets := AList.delete name (vSecrets v)\<rparr>)"
      by (simp add: delete_modify_def name)
    with Write_file_succeeds [OF assms(1) vault_ok_delete [OF v(1)], of path i name d] False
      no_nil_delete [OF v(2), of name]
    show ?thesis
      by (fastforce simp: Delete_def store_write_def sess.use_open [OF assms(2)] r)
  qed
qed

text \<open>
  A write operation that fails leaves the table as it was, or installs the new one (the directory
  could not be synced), or leaves the old file under the backup name only. A rejected argument or a
  missing name touches nothing.
\<close>

lemma store_write_Er:
  assumes "store_write A w path s modify d = (Er e, d')"
  shows "d' path = d path \<or> d' path = None \<and> d' (bak_name path) = d path
    \<or> (\<exists>i v v' p c. sId s = Some i \<and> Read_file A w path i d = Ok v \<and> modify v = Ok v'
        \<and> Encode v' = Ok p \<and> ageEncrypt A i (ioRandom w) p = Ok c \<and> d' path = Some (new_file c 384))"
proof (cases "sId s")
  case (Some i)
  note use = sess.use_open [OF Some]
  show ?thesis
  proof (cases "\<exists>v v'. Read_file A w path i d = Ok v \<and> modify v = Ok v'")
    case True
    then obtain v v' where r: "Read_file A w path i d = Ok v" and m: "modify v = Ok v'" by blast
    obtain r' where w: "Write_file A w path i v' d = (r', d')" and "deferred_wipe v' r' = Er e"
      using assms by (auto simp: store_write_def use r m split: prod.splits)
    then have "r' = Er e" by (cases "no_nil v'") (simp_all add: wipe_nil)
    with Write_file_Er [of A w path i v' d e d'] w r m Some show ?thesis by blast
  next
    case False
    then have "d' = d"
      using assms by (auto simp: store_write_def use split: outcome.splits prod.splits)
    then show ?thesis by simp
  qed
qed (use assms in \<open>simp add: store_write_def sess.use_locked\<close>)

lemma store_rejects:
  assumes "sId s = Some i" and "Read_file A w path i d = Ok v" and "no_nil v" and "modify v = Er e"
  shows "store_write A w path s modify d = (Er e, d)"
  using assms by (simp add: store_write_def sess.use_open)

lemma locked_operations:
  assumes "sId s = None"
  shows "Get A w path s name d = (Er (Sentinel (DaemonS ErrLocked)), d)"
    and "List A w path s f d = (Er (Sentinel (DaemonS ErrLocked)), d)"
    and "Store_secret A w path s name kind attrs val d = (Er (Sentinel (DaemonS ErrLocked)), d)"
    and "Delete A w path s name d = (Er (Sentinel (DaemonS ErrLocked)), d)"
  using assms
  by (simp_all add: Get_def List_def Store_secret_def Delete_def store_write_def sess.use_locked)

text \<open>A nil secret in the file makes every operation that gets to read it panic.\<close>

lemma nil_panics:
  assumes "sId s = Some i" and "Read_file A w path i d = Ok v" and "\<not> no_nil v"
  shows "text_ok name \<Longrightarrow> fst (Get A w path s name d) = Panic"
    and "fst (List A w path s no_filter d) = Panic"
    and "fst (store_write A w path s modify d) = Panic \<or> modify v \<noteq> Er e"
proof -
  show "text_ok name \<Longrightarrow> fst (Get A w path s name d) = Panic"
    using assms by (simp add: Get_def sess.use_open obind_valid wipe_nil)
  show "fst (List A w path s no_filter d) = Panic"
    using assms by (simp add: List_def sess.use_open no_filter_def wipe_nil)
  show "fst (store_write A w path s modify d) = Panic \<or> modify v \<noteq> Er e"
    using assms by (auto simp: store_write_def sess.use_open wipe_nil)
qed

lemma invalid_is [simp]: "errors_is (invalid e) (DaemonS ErrInvalidArgument)"
  by (simp add: invalid_def wrap2_def)

lemma store_modify_invalid:
  assumes "\<not> secret_ok name kind attrs (val_bytes val)"
  shows "\<exists>e. store_modify w name kind attrs val v = Er e \<and> errors_is e (DaemonS ErrInvalidArgument)"
proof -
  have "ValidateSecret name kind attrs (val_bytes val) \<noteq> Ok ()" using assms by simp
  moreover have "ValidateSecret name kind attrs (val_bytes val) \<noteq> Panic" by simp
  ultimately obtain e where "ValidateSecret name kind attrs (val_bytes val) = Er e"
    by (cases "ValidateSecret name kind attrs (val_bytes val)") auto
  then show ?thesis by (simp add: store_modify_def val_bytes_def)
qed

lemma Store_invalid:
  assumes "sId s = Some i" and "secrets_at A path i d = Some T" and "ioOpen w = None"
    and "\<not> secret_ok name kind attrs (val_bytes val)"
  shows "\<exists>e. Store_secret A w path s name kind attrs val d = (Er e, d) \<and> errors_is e (DaemonS ErrInvalidArgument)"
proof -
  from secrets_at_read [OF assms(2,3)] obtain v where "Read_file A w path i d = Ok v" "no_nil v" by metis
  with store_modify_invalid [OF assms(4), of w v] store_rejects [OF assms(1)] show ?thesis
    unfolding Store_secret_def by metis
qed

lemma new_file_table:
  assumes "age_laws A" and "vault_ok v" and "vVersion v = Version" and "no_nil v" and "Encode v = Ok p"
    and "ageEncrypt A i rnd p = Ok c" and "d path = Some (new_file c perm)"
  shows "secrets_at A path i d = Some (table v)"
proof -
  have "ageDecrypt A i c = Plain p" using assms(1,6) by (simp add: age_laws_def)
  moreover have "Decode p = Ok (norm_vault v)" using Decode_Encode [OF assms(2)] assms(3,5) by simp
  ultimately have "opens A i c = Some (norm_vault v)" by (simp add: opens_def)
  then show ?thesis
    using assms(7) no_nil_norm [OF assms(4)]
    by (simp add: secrets_at_def contents_def new_file_def table_norm [OF assms(2)])
qed

text \<open>A failed write, in terms of the table.\<close>

lemma store_write_Er_table:
  assumes "age_laws A" and "sId s = Some i" and "secrets_at A path i d = Some T"
    and "store_write A w path s modify d = (Er e, d')"
    and "\<And>v v'. modify v = Ok v' \<Longrightarrow> vault_ok v \<Longrightarrow> vVersion v = Version \<Longrightarrow> no_nil v \<Longrightarrow> table v = T \<Longrightarrow>
      vault_ok v' \<and> vVersion v' = Version \<and> no_nil v' \<and> table v' = T'"
  shows "secrets_at A path i d' \<in> {Some T, Some T'} \<or> d' path = None \<and> d' (bak_name path) = d path"
proof -
  consider "d' path = d path" | "d' path = None \<and> d' (bak_name path) = d path"
    | v v' p c where "Read_file A w path i d = Ok v" "modify v = Ok v'" "Encode v' = Ok p"
        "ageEncrypt A i (ioRandom w) p = Ok c" "d' path = Some (new_file c 384)"
    using store_write_Er [OF assms(4)] assms(2) by auto
  then show ?thesis
  proof cases
    case 1
    then show ?thesis using assms(3) by (simp add: secrets_at_def contents_def)
  next
    case (3 v v' p c)
    from 3(1) have "ioOpen w = None" by (simp add: Read_file_Ok)
    from secrets_at_read [OF assms(3) this] 3(1) have "no_nil v" "table v = T" by (metis outcome.inject(1))+
    with Read_file_wf [OF 3(1)] assms(5) [OF 3(2)]
    have v': "vault_ok v'" "vVersion v' = Version" "no_nil v'" "table v' = T'" by simp_all
    from new_file_table [where d = d' and path = path, OF assms(1) v'(1-3) 3(3-5)] v'(4) show ?thesis by simp
  qed simp
qed

lemma Store_Er_table:
  assumes "age_laws A" and "sId s = Some i" and "secrets_at A path i d = Some T" and "gomap_ok attrs"
    and "time_ok (UTC (ioNow w))" and "Store_secret A w path s name kind attrs val d = (Er e, d')"
  shows "secrets_at A path i d' \<in> {Some T, Some (T(name \<mapsto> stored w kind attrs val (T name)))}
    \<or> d' path = None \<and> d' (bak_name path) = d path"
  using assms store_modify_Ok [OF _ _ _ assms(4,5)]
  by (intro store_write_Er_table [OF assms(1-3) assms(6) [unfolded Store_secret_def]]) metis

section \<open>The contract of the secret table\<close>

text \<open>
  What the server and, through it, the clients rely on: the operations act on the abstract table the
  way the finite-map operations do. \<open>env\<close> is what an operation runs in; \<open>lawful\<close> says that it is
  unlocked and that the age library keeps its word.
\<close>

locale secret_table =
  fixes lawful :: "'e \<Rightarrow> bool"
    and abs :: "'e \<Rightarrow> 's \<Rightarrow> ('n \<Rightarrow> 'v option) option"
    and calm :: "'w \<Rightarrow> bool"
    and named :: "'n \<Rightarrow> bool"
    and get :: "'e \<Rightarrow> 'w \<Rightarrow> 'n \<Rightarrow> 's \<Rightarrow> 'v res"
    and put :: "'e \<Rightarrow> 'w \<Rightarrow> 'n \<Rightarrow> 'a \<Rightarrow> 's \<Rightarrow> unit res \<times> 's"
    and del :: "'e \<Rightarrow> 'w \<Rightarrow> 'n \<Rightarrow> 's \<Rightarrow> unit res \<times> 's"
    and good_arg :: "'a \<Rightarrow> bool"
    and upd :: "'w \<Rightarrow> 'a \<Rightarrow> 'v option \<Rightarrow> 'v"
  assumes get_abs: "abs e s = Some T \<Longrightarrow> lawful e \<Longrightarrow> calm w \<Longrightarrow> named n \<Longrightarrow>
      get e w n s = (case T n of None \<Rightarrow> Er (Sentinel (DaemonS ErrNotFound)) | Some v \<Rightarrow> Ok v)"
    and put_abs: "abs e s = Some T \<Longrightarrow> lawful e \<Longrightarrow> calm w \<Longrightarrow> good_arg a \<Longrightarrow>
      put e w n a s = (Ok u, s') \<Longrightarrow> named n \<and> abs e s' = Some (T(n \<mapsto> upd w a (T n)))"
    and del_abs: "abs e s = Some T \<Longrightarrow> lawful e \<Longrightarrow> calm w \<Longrightarrow>
      del e w n s = (Ok u, s') \<Longrightarrow> named n \<and> T n \<noteq> None \<and> abs e s' = Some (T(n := None))"
begin

lemma get_put:
  assumes "abs e s = Some T" and "lawful e" and "calm w" and "calm w'" and "good_arg a"
    and "put e w n a s = (Ok u, s')"
  shows "get e w' n s' = Ok (upd w a (T n))"
  using put_abs [OF assms(1,2,3,5,6)] get_abs [of e s' _ w' n] assms(2,4) by simp

lemma get_put_other:
  assumes "abs e s = Some T" and "lawful e" and "calm w" and "calm w'" and "good_arg a"
    and "put e w n a s = (Ok u, s')" and "m \<noteq> n" and "named m"
  shows "get e w' m s' = get e w' m s"
  using put_abs [OF assms(1,2,3,5,6)] get_abs [of e s' _ w' m] get_abs [OF assms(1,2,4,8)]
    assms(2,4,7,8) by simp

lemma get_del:
  assumes "abs e s = Some T" and "lawful e" and "calm w" and "calm w'"
    and "del e w n s = (Ok u, s')"
  shows "get e w' n s' = Er (Sentinel (DaemonS ErrNotFound))"
  using del_abs [OF assms(1,2,3,5)] get_abs [of e s' _ w' n] assms(2,4) by simp

lemma del_put:
  assumes "abs e s = Some T" and "lawful e" and "calm w" and "calm w'" and "good_arg a" and "T n = None"
    and "put e w n a s = (Ok u, s')" and "del e w' n s' = (Ok u', s'')"
  shows "abs e s'' = Some T"
proof -
  have "abs e s' = Some (T(n \<mapsto> upd w a (T n)))" using put_abs [OF assms(1,2,3,5,7)] by simp
  from del_abs [OF this assms(2,4,8)] assms(6) show ?thesis by (simp add: fun_upd_idem)
qed

end

fun omap :: "('a \<Rightarrow> 'b) \<Rightarrow> 'a res \<Rightarrow> 'b res" where
  "omap f (Ok x) = Ok (f x)"
| "omap f (Er e) = Er e"
| "omap f Panic = Panic"

type_synonym 'i store_env = "'i age \<times> bytes \<times> 'i session"

fun env_lawful :: "'i store_env \<Rightarrow> bool" where
  "env_lawful (A, path, s) \<longleftrightarrow> age_laws A \<and> sId s \<noteq> None"

fun env_table :: "'i store_env \<Rightarrow> fs \<Rightarrow> (bytes \<Rightarrow> entry option) option" where
  "env_table (A, path, s) d = (case sId s of None \<Rightarrow> None | Some i \<Rightarrow> secrets_at A path i d)"

definition io_calm :: "io \<Rightarrow> bool" where
  "io_calm w \<longleftrightarrow> ioOpen w = None \<and> time_ok (UTC (ioNow w))"

fun env_get :: "'i store_env \<Rightarrow> io \<Rightarrow> bytes \<Rightarrow> fs \<Rightarrow> entry res" where
  "env_get (A, path, s) w name d = omap out_view (fst (Get A w path s name d))"

fun env_put :: "'i store_env \<Rightarrow> io \<Rightarrow> bytes \<Rightarrow> bytes \<times> (bytes, bytes) gomap \<times> bytes option \<Rightarrow> fs
    \<Rightarrow> unit res \<times> fs" where
  "env_put (A, path, s) w name (kind, attrs, val) d = Store_secret A w path s name kind attrs val d"

fun env_del :: "'i store_env \<Rightarrow> io \<Rightarrow> bytes \<Rightarrow> fs \<Rightarrow> unit res \<times> fs" where
  "env_del (A, path, s) w name d = Delete A w path s name d"

fun arg_entry :: "io \<Rightarrow> bytes \<times> (bytes, bytes) gomap \<times> bytes option \<Rightarrow> entry option \<Rightarrow> entry" where
  "arg_entry w (kind, attrs, val) old = stored w kind attrs val old"

interpretation vault_table: secret_table env_lawful env_table io_calm text_ok env_get env_put env_del
  "\<lambda>(kind, attrs, val). gomap_ok attrs" arg_entry
proof
  fix e :: "'i store_env" and s T w n a u s'
  obtain A path z where e: "e = (A, path, z)" by (cases e)
  assume "env_table e s = Some T" and l: "env_lawful e" and c: "io_calm w"
  then obtain i where i: "sId z = Some i" and t: "secrets_at A path i s = Some T" and A: "age_laws A"
    by (auto simp: e split: option.splits)
  note c' = c [unfolded io_calm_def]
  show "env_get e w n s = (case T n of None \<Rightarrow> Er (Sentinel (DaemonS ErrNotFound)) | Some v \<Rightarrow> Ok v)"
    if "text_ok n"
    using Get_eq [OF t conjunct1 [OF c'] i that] by (cases "T n") (clarsimp simp: e)+
  show "text_ok n \<and> env_table e s' = Some (T(n \<mapsto> arg_entry w a (T n)))"
    if "case a of (kind, attrs, val) \<Rightarrow> gomap_ok attrs" and "env_put e w n a s = (Ok u, s')"
    using that Store_table [OF A i t] c' by (cases a) (auto simp: e i secret_ok_def)
  show "text_ok n \<and> T n \<noteq> None \<and> env_table e s' = Some (T(n := None))"
    if "env_del e w n s = (Ok u, s')"
    using that Delete_table [OF A i t] by (simp add: e i)
qed

end
