(* ===== verification/Framing.thy ===== *)
theory Framing
  imports Validate
begin

text \<open>
  The framing half of internal/protocol/codec.go: \<open>readLine\<close>, \<open>consume\<close> and the buffer they share. A
  connection is what its \<open>Read\<close> calls will deliver: pieces of data, the last of which may come with
  an error, then the end. The specification \<open>spec_line\<close> reads a line off the whole byte stream.
\<close>

section \<open>The connection\<close>

datatype rd_event = Data bytes | DataErr bytes goerr

type_synonym conn = "rd_event list"

definition eof :: goerr where
  "eof = Sentinel (StdS EOF)"

text \<open>\<open>Read(p)\<close> with \<open>k\<close> bytes of room: what it stores, its error, and what is left.\<close>

fun conn_read :: "nat \<Rightarrow> conn \<Rightarrow> bytes \<times> goerr option \<times> conn" where
  "conn_read k [] = ([], Some eof, [])"
| "conn_read k (Data c # cs) =
     (take k c, None, if length c \<le> k then cs else Data (drop k c) # cs)"
| "conn_read k (DataErr c e # cs) =
     (if length c \<le> k then (c, Some e, cs) else (take k c, None, DataErr (drop k c) e # cs))"

fun event_data :: "rd_event \<Rightarrow> bytes" where
  "event_data (Data c) = c"
| "event_data (DataErr c e) = c"

definition conn_size :: "conn \<Rightarrow> nat" where
  "conn_size cs = sum_list (map (\<lambda>ev. Suc (length (event_data ev))) cs)"

lemma conn_size_simps [simp]:
  "conn_size [] = 0" "conn_size (ev # cs) = Suc (length (event_data ev)) + conn_size cs"
  by (simp_all add: conn_size_def)

lemma conn_read_size:
  assumes "conn_read k cs = (b, e, cs')"
  shows "length b + conn_size cs' \<le> conn_size cs"
    and "e = None \<Longrightarrow> 0 < k \<Longrightarrow> conn_size cs' < conn_size cs"
    and "e = Some err \<Longrightarrow> err = eof \<or> length b + conn_size cs' < conn_size cs"
  using assms by (cases "(k, cs)" rule: conn_read.cases; auto split: if_splits)+

section \<open>The reader\<close>

definition MaxLineLen :: nat where
  "MaxLineLen = 4 * ((MaxValueLen + 2) div 3) + 64 * 1024"

definition ErrLineTooLong :: goerr where
  "ErrLineTooLong = Sentinel LineTooLongS"

record reader =
  rBuf :: bytes
  rN :: nat

definition NewReader :: reader where
  "NewReader = \<lparr> rBuf = replicate 4096 NUL, rN = 0 \<rparr>"

definition grow_buf :: "bytes \<Rightarrow> bytes" where
  "grow_buf buf =
     (let k = min (2 * length buf) (MaxLineLen + 1)
      in take k buf @ replicate (k - length buf) NUL)"

text \<open>\<open>Read\<close> into \<open>buf[n:]\<close>.\<close>

definition store_at :: "nat \<Rightarrow> bytes \<Rightarrow> bytes \<Rightarrow> bytes" where
  "store_at n b buf = take n buf @ b @ drop (n + length b) buf"

text \<open>
  The loop of \<open>readLine\<close>. A reader with no room left, which the code never has when it reads, would
  read nothing; the function stops there so that it is total.
\<close>

function readLine :: "reader \<Rightarrow> conn \<Rightarrow> bytes res \<times> reader \<times> conn" where
  "readLine r cs =
     (case cut_at LF (take (rN r) (rBuf r)) of
        Some (l, _) \<Rightarrow> (Ok l, r, cs)
      | None \<Rightarrow>
          if rN r > MaxLineLen then (Er ErrLineTooLong, r, cs)
          else
            (let r1 = (if rN r = length (rBuf r) then r\<lparr>rBuf := grow_buf (rBuf r)\<rparr> else r);
                 (b, e, cs') = conn_read (length (rBuf r1) - rN r1) cs;
                 r2 = r1\<lparr>rBuf := store_at (rN r1) b (rBuf r1), rN := rN r1 + length b\<rparr>
             in case e of
                  Some err \<Rightarrow>
                    if errors_is err (StdS EOF) then
                      (if rN r2 = 0 then (Er eof, r2, cs')
                       else (Er (Sentinel (StdS UnexpectedEOF)), r2, cs'))
                    else (Er (wrapf (lit ''protocol: read'') err), r2, cs')
                | None \<Rightarrow>
                    if length (rBuf r1) \<le> rN r1 then (Panic, r2, cs')
                    else readLine r2 cs'))"
  by pat_completeness auto
termination
proof (relation "measure (\<lambda>(r, cs). conn_size cs)", goal_cases)
  case (2 r cs r1 x b y e cs' r2)
  then show ?case using conn_read_size(2) [of "length (rBuf r1) - rN r1" cs b None cs'] by simp
qed simp

declare readLine.simps [simp del]

definition consume :: "nat \<Rightarrow> reader \<Rightarrow> reader" where
  "consume lineLen r =
     (let e = lineLen + 1;
          b1 = replicate e NUL @ drop e (rBuf r);
          moved = drop e (take (rN r) b1);
          rest = length moved;
          b2 = moved @ drop rest b1;
          b3 = take rest b2 @ replicate (rN r - rest) NUL @ drop (rN r) b2
      in r\<lparr>rBuf := b3, rN := rest\<rparr>)"

section \<open>The invariant of the buffer\<close>

text \<open>
  The buffer never exceeds one maximal line with its newline, and nothing but zeros is left behind
  the bytes that are in use.
\<close>

definition reader_inv :: "reader \<Rightarrow> bool" where
  "reader_inv r \<longleftrightarrow> rN r \<le> length (rBuf r) \<and> 4096 \<le> length (rBuf r)
     \<and> length (rBuf r) \<le> MaxLineLen + 1 \<and> (\<forall>c \<in> set (drop (rN r) (rBuf r)). c = NUL)"

definition held :: "reader \<Rightarrow> bytes" where
  "held r = take (rN r) (rBuf r)"

lemma MaxLineLen_eq: "MaxLineLen = 1463640"
  by (simp add: MaxLineLen_def limits)

lemma reader_inv_New: "reader_inv NewReader"
  by (simp add: reader_inv_def NewReader_def MaxLineLen_eq)

lemma length_held [simp]: "reader_inv r \<Longrightarrow> length (held r) = rN r"
  by (simp add: held_def reader_inv_def)

lemma grow_inv:
  assumes "reader_inv r" and "rN r = length (rBuf r)" and "rN r \<le> MaxLineLen"
  defines "r1 \<equiv> r\<lparr>rBuf := grow_buf (rBuf r)\<rparr>"
  shows "reader_inv r1" and "held r1 = held r" and "rN r1 < length (rBuf r1)"
proof -
  have k: "length (rBuf r) < min (2 * length (rBuf r)) (MaxLineLen + 1)"
    using assms by (auto simp: reader_inv_def)
  then show "reader_inv r1" "held r1 = held r" "rN r1 < length (rBuf r1)"
    using assms(1,2) by (auto simp: r1_def reader_inv_def held_def grow_buf_def Let_def)
qed

lemma store_inv:
  assumes "reader_inv r" and "length b \<le> length (rBuf r) - rN r"
  defines "r2 \<equiv> r\<lparr>rBuf := store_at (rN r) b (rBuf r), rN := rN r + length b\<rparr>"
  shows "reader_inv r2" and "held r2 = held r @ b"
proof -
  have le: "rN r \<le> length (rBuf r)" using assms(1) by (simp add: reader_inv_def)
  then have n: "rN r + length b \<le> length (rBuf r)" "rN r \<le> length (rBuf r)"
    using assms(2) by linarith+
  have z: "c = NUL" if "c \<in> set (drop (rN r + length b) (rBuf r))" for c
    using that assms(1) set_drop_subset_set_drop [of "rN r" "rN r + length b" "rBuf r"]
    by (auto simp: reader_inv_def)
  have len: "length (store_at (rN r) b (rBuf r)) = length (rBuf r)"
    using n by (simp add: store_at_def)
  have "drop (rN r + length b) (store_at (rN r) b (rBuf r)) = drop (rN r + length b) (rBuf r)"
    using n(2) by (simp add: store_at_def)
  then show "reader_inv r2"
    using assms(1) n z by (simp add: r2_def reader_inv_def len)
  show "held r2 = held r @ b"
    using n(2) by (simp add: r2_def held_def store_at_def)
qed

lemma consume_inv:
  assumes "reader_inv r" and "held r = l @ LF # rest"
  shows "reader_inv (consume (length l) r)" and "held (consume (length l) r) = rest"
proof -
  let ?e = "length l + 1" and ?n = "rN r"
  have n: "?n = length l + 1 + length rest" using length_held [OF assms(1)] assms(2) by simp
  have "drop ?e (take ?n (rBuf r)) = rest" using assms(2) by (simp add: held_def)
  moreover have "drop ?e (take ?n (replicate ?e NUL @ drop ?e (rBuf r))) = drop ?e (take ?n (rBuf r))"
    by (simp add: n drop_take)
  ultimately have m: "drop ?e (take ?n (replicate ?e NUL @ drop ?e (rBuf r))) = rest" by simp
  have "drop ?n (rest @ drop (length rest) (replicate ?e NUL @ drop ?e (rBuf r))) = drop ?n (rBuf r)"
    by (simp add: n add.commute)
  then have c: "consume (length l) r
      = r\<lparr>rBuf := rest @ replicate ?e NUL @ drop ?n (rBuf r), rN := length rest\<rparr>"
    unfolding consume_def Let_def m by (simp add: n)
  show "held (consume (length l) r) = rest" by (simp add: c held_def)
  have "length (rBuf (consume (length l) r)) = length (rBuf r)"
  proof -
    have "?n \<le> length (rBuf r)" using assms(1) by (simp add: reader_inv_def)
    then show ?thesis using n by (simp add: c)
  qed
  moreover have "\<forall>x \<in> set (drop ?n (rBuf r)). x = NUL" using assms(1) by (simp add: reader_inv_def)
  then have "\<forall>x \<in> set (replicate ?e NUL @ drop ?n (rBuf r)). x = NUL"
    unfolding set_append by (meson UnE in_set_replicate)
  ultimately show "reader_inv (consume (length l) r)"
    using assms(1) n unfolding reader_inv_def by (simp add: c)
qed

section \<open>Reading a line off a stream\<close>

text \<open>
  The specification: the first line of the byte stream, if it is not too long. Whether the stream
  comes in one piece or byte by byte makes no difference.
\<close>

definition spec_line :: "bytes \<Rightarrow> bytes res" where
  "spec_line S =
     (case cut_at LF S of
        Some (l, rest) \<Rightarrow> if length l \<le> MaxLineLen then Ok l else Er ErrLineTooLong
      | None \<Rightarrow>
          if MaxLineLen < length S then Er ErrLineTooLong
          else if S = [] then Er eof
          else Er (Sentinel (StdS UnexpectedEOF)))"

definition plain_conn :: "conn \<Rightarrow> bool" where
  "plain_conn cs \<longleftrightarrow> (\<forall>ev \<in> set cs. \<exists>c. ev = Data c)"

definition stream :: "conn \<Rightarrow> bytes" where
  "stream cs = concat (map event_data cs)"

lemma stream_simps [simp]: "stream [] = []" "stream (ev # cs) = event_data ev @ stream cs"
  by (simp_all add: stream_def)

lemma plain_conn_simps [simp]:
  "plain_conn []" "plain_conn (Data c # cs) = plain_conn cs" "\<not> plain_conn (DataErr c e # cs)"
  by (auto simp: plain_conn_def)

lemma conn_read_plain:
  assumes "plain_conn cs" and "conn_read k cs = (b, e, cs')"
  shows "plain_conn cs' \<and> length b \<le> k \<and> b @ stream cs' = stream cs
    \<and> (e = None \<or> e = Some eof \<and> cs = [] \<and> cs' = [] \<and> b = [])"
  using assms by (cases "(k, cs)" rule: conn_read.cases) (auto split: if_splits)

lemma spec_line_short:
  assumes "cut_at LF a = None" and "length a > MaxLineLen"
  shows "spec_line (a @ b) = Er ErrLineTooLong"
proof -
  have a: "LF \<notin> set a" using assms(1) by (simp add: cut_at_None_iff)
  show ?thesis
  proof (cases "cut_at LF (a @ b)")
    case (Some p)
    obtain l rest where p: "p = (l, rest)" by (cases p)
    with Some have "a @ b = l @ LF # rest" by (simp add: cut_at_Some_iff)
    then have "length a \<le> length l"
      using a by (auto simp: append_eq_append_conv2 append_eq_Cons_conv)
    then show ?thesis using Some p assms(2) by (simp add: spec_line_def)
  qed (use assms(2) in \<open>simp add: spec_line_def\<close>)
qed

text \<open>
  What \<open>readLine\<close> returns is what the specification reads off the bytes it holds and those still to
  come; a line it returns stays in the buffer, and nothing is lost.
\<close>

lemma readLine_spec:
  assumes "reader_inv r" and "plain_conn cs" and "readLine r cs = (res, r', cs')"
  shows "res = spec_line (held r @ stream cs) \<and> reader_inv r' \<and> plain_conn cs'
    \<and> held r' @ stream cs' = held r @ stream cs
    \<and> (\<forall>l. res = Ok l \<longrightarrow> (\<exists>rest. held r' = l @ LF # rest))"
  using assms
proof (induction r cs arbitrary: res r' cs' rule: readLine.induct)
  case (1 r cs)
  note inv = "1.prems"(1) and plain = "1.prems"(2) and run = "1.prems"(3)
  have hd: "take (rN r) (rBuf r) = held r" by (simp add: held_def)
  show ?case
  proof (cases "cut_at LF (held r)")
    case (Some p)
    obtain l rest where p: "p = (l, rest)" by (cases p)
    with Some have h: "held r = l @ LF # rest" "LF \<notin> set l" by (simp_all add: cut_at_Some_iff)
    from run have out: "res = Ok l" "r' = r" "cs' = cs"
      by (simp_all add: readLine.simps [of r cs] hd Some p)
    have "cut_at LF (held r @ stream cs) = Some (l, rest @ stream cs)"
      using Some p by (simp add: cut_at_append_left)
    moreover have "length l \<le> MaxLineLen"
      using arg_cong [OF h(1), of length] inv by (simp add: reader_inv_def)
    ultimately show ?thesis using out h inv plain by (simp add: spec_line_def)
  next
    case None
    show ?thesis
    proof (cases "rN r > MaxLineLen")
      case True
      then have "length (held r) > MaxLineLen" using inv by simp
      from run True have out: "res = Er ErrLineTooLong" "r' = r" "cs' = cs"
        by (simp_all add: readLine.simps [of r cs] hd None)
      show ?thesis
        using spec_line_short [OF None \<open>length (held r) > MaxLineLen\<close>] inv plain by (simp add: out)
    next
      case False
      define r1 where "r1 = (if rN r = length (rBuf r) then r\<lparr>rBuf := grow_buf (rBuf r)\<rparr> else r)"
      have r1: "reader_inv r1" "held r1 = held r" "rN r1 < length (rBuf r1)"
        using grow_inv [OF inv] False inv by (auto simp: r1_def reader_inv_def)
      obtain b e cs2 where rd: "conn_read (length (rBuf r1) - rN r1) cs = (b, e, cs2)"
        by (metis prod_cases3)
      from conn_read_plain [OF plain rd] have rd': "plain_conn cs2"
        "length b \<le> length (rBuf r1) - rN r1" "b @ stream cs2 = stream cs"
        "e = None \<or> e = Some eof \<and> cs = [] \<and> cs2 = [] \<and> b = []" by auto
      define r2 where "r2 = r1\<lparr>rBuf := store_at (rN r1) b (rBuf r1), rN := rN r1 + length b\<rparr>"
      from store_inv [OF r1(1) rd'(2)] have r2: "reader_inv r2" "held r2 = held r @ b"
        by (simp_all add: r2_def r1(2))
      show ?thesis
      proof (cases e)
        case None': None
        have room: "\<not> length (rBuf r1) \<le> rN r1" using r1(3) by simp
        have step: "readLine r cs = readLine r2 cs2"
          using False None None' room
          by (simp add: readLine.simps [of r cs] hd r1_def [symmetric] rd r2_def [symmetric] Let_def)
        have "res = spec_line (held r2 @ stream cs2) \<and> reader_inv r' \<and> plain_conn cs'
            \<and> held r' @ stream cs' = held r2 @ stream cs2
            \<and> (\<forall>l. res = Ok l \<longrightarrow> (\<exists>rest. held r' = l @ LF # rest))"
          using None [folded hd] False r1_def rd None' r2_def room r2(1) rd'(1) run [unfolded step]
          by (intro "1.IH") (simp_all add: hd)
        then show ?thesis using r2(2) rd'(3) by simp
      next
        case (Some err)
        with rd'(4) have e: "err = eof" "cs = []" "cs2 = []" "b = []" by auto
        have out: "readLine r cs
            = (if rN r2 = 0 then (Er eof, r2, []) else (Er (Sentinel (StdS UnexpectedEOF)), r2, []))"
          using False None rd Some e
          by (simp add: readLine.simps [of r "[]"] hd r1_def [symmetric] r2_def Let_def eof_def)
        have "rN r2 = 0 \<longleftrightarrow> held r = []"
          using length_held [OF r2(1)] r2(2) e by auto
        moreover have "length (held r) \<le> MaxLineLen" using False inv by simp
        ultimately show ?thesis
          using out run None r2 e by (auto simp: spec_line_def)
      qed
    qed
  qed
qed

section \<open>Every answered line is a step forward\<close>

lemma readLine_size:
  assumes "readLine r cs = (res, r', cs')"
  shows "rN r' + conn_size cs' \<le> rN r + conn_size cs \<and> (\<forall>l. res = Ok l \<longrightarrow> length l < rN r')
    \<and> (\<forall>e. res = Er e \<longrightarrow> errors_as_proto e \<noteq> None \<longrightarrow>
         rN r' + conn_size cs' < rN r + conn_size cs)"
  using assms
proof (induction r cs arbitrary: res r' cs' rule: readLine.induct)
  case (1 r cs)
  show ?case
  proof (cases "cut_at LF (take (rN r) (rBuf r))")
    case (Some p)
    obtain l rest where p: "p = (l, rest)" by (cases p)
    with Some have "take (rN r) (rBuf r) = l @ LF # rest" by (simp add: cut_at_Some_iff)
    then have "length l < length (take (rN r) (rBuf r))" by simp
    with "1.prems" show ?thesis by (auto simp: readLine.simps [of r cs] Some p)
  next
    case None
    show ?thesis
    proof (cases "rN r > MaxLineLen")
      case False
      define r1 where "r1 = (if rN r = length (rBuf r) then r\<lparr>rBuf := grow_buf (rBuf r)\<rparr> else r)"
      have n: "rN r1 = rN r" by (simp add: r1_def)
      obtain b e cs2 where rd: "conn_read (length (rBuf r1) - rN r1) cs = (b, e, cs2)"
        by (metis prod_cases3)
      from conn_read_size(1) [OF rd] have le: "length b + conn_size cs2 \<le> conn_size cs" .
      define r2 where "r2 = r1\<lparr>rBuf := store_at (rN r1) b (rBuf r1), rN := rN r1 + length b\<rparr>"
      show ?thesis
      proof (cases "e = None \<and> \<not> length (rBuf r1) \<le> rN r1")
        case True
        then have "readLine r cs = readLine r2 cs2"
          using False None
          by (simp add: readLine.simps [of r cs] r1_def [symmetric] rd r2_def [symmetric] Let_def)
        with "1.prems" have run: "readLine r2 cs2 = (res, r', cs')" by simp
        have None': "e = None" and room: "\<not> length (rBuf r1) \<le> rN r1" using True by simp_all
        have "rN r' + conn_size cs' \<le> rN r2 + conn_size cs2 \<and> (\<forall>l. res = Ok l \<longrightarrow> length l < rN r')
            \<and> (\<forall>e. res = Er e \<longrightarrow> errors_as_proto e \<noteq> None \<longrightarrow>
               rN r' + conn_size cs' < rN r2 + conn_size cs2)"
          using None False r1_def rd None' r2_def room run by (intro "1.IH") simp_all
        then show ?thesis using le n by (auto simp: r2_def)
      next
        case False': False
        have out: "readLine r cs = (case e of
            Some err \<Rightarrow>
              (if errors_is err (StdS EOF) then
                 (if rN r2 = 0 then (Er eof, r2, cs2) else (Er (Sentinel (StdS UnexpectedEOF)), r2, cs2))
               else (Er (wrapf (lit ''protocol: read'') err), r2, cs2))
          | None \<Rightarrow> (Panic, r2, cs2))"
          unfolding readLine.simps [of r cs] Let_def r1_def [symmetric] rd prod.case r2_def [symmetric]
          using False' False None by (cases e) simp_all
        have "rN r2 = rN r + length b" by (simp add: r2_def n)
        then show ?thesis
          using "1.prems" [unfolded out] le conn_read_size(3) [OF rd]
          by (auto simp: eof_def split: option.splits if_splits)
      qed
    qed (use "1.prems" None in \<open>auto simp: readLine.simps [of r cs] ErrLineTooLong_def\<close>)
  qed
qed

lemma consume_size:
  assumes "l < rN r"
  shows "rN (consume l r) < rN r"
  using assms by (auto simp: consume_def Let_def)

end
