(* ===== verification/Protocol.thy ===== *)
theory Protocol
  imports Store Framing
begin

text \<open>
  internal/protocol/protocol.go and the message half of codec.go: requests, responses, parameters and
  results as JSON lines. A \<open>json.RawMessage\<close> is a document, \<open>None\<close> when it is absent; its whitespace,
  which the encoder drops when it writes the message, is not kept.
\<close>

section \<open>Messages\<close>

definition ProtoVersion :: int where "ProtoVersion = 1"

definition MethodGet :: bytes where "MethodGet = ''get''"
definition MethodStore :: bytes where "MethodStore = ''store''"
definition MethodDelete :: bytes where "MethodDelete = ''delete''"
definition MethodList :: bytes where "MethodList = ''list''"
definition MethodUnlock :: bytes where "MethodUnlock = ''unlock''"
definition MethodLock :: bytes where "MethodLock = ''lock''"
definition MethodStatus :: bytes where "MethodStatus = ''status''"

lemmas method_defs = MethodGet_def MethodStore_def MethodDelete_def MethodList_def MethodUnlock_def
  MethodLock_def MethodStatus_def

definition methods :: "bytes list" where
  "methods = [MethodGet, MethodStore, MethodDelete, MethodList, MethodUnlock, MethodLock, MethodStatus]"

record request =
  rqId :: "json option"
  rqMethod :: bytes
  rqParams :: "json option"

record response =
  rsId :: "json option"
  rsResult :: "json option"
  rsError :: "(bytes \<times> bytes) option"

text \<open>
  The text of an error ends up in a message. How encoding/json, the operating system and age word
  theirs, and how \<open>%q\<close> spells a string, is a parameter.
\<close>

record texts =
  txForeign :: "foreign \<Rightarrow> bytes"
  txQuote :: "bytes \<Rightarrow> bytes"

fun render_frag :: "texts \<Rightarrow> frag \<Rightarrow> bytes" where
  "render_frag X (C c) = [c]"
| "render_frag X (Q s) = txQuote X s"
| "render_frag X (D i) = print_int i"
| "render_frag X (F f) = txForeign X f"

definition render :: "texts \<Rightarrow> msg \<Rightarrow> bytes" where
  "render X m = concat (map (render_frag X) m)"

lemma render_lit [simp]: "render X (lit s) = s"
  by (simp add: render_def lit_def comp_def)

section \<open>Parameters\<close>

record get_params = gpName :: bytes
record list_params =
  lpKind :: bytes
  lpPrefix :: bytes
  lpAttributes :: "(bytes, bytes) gomap"
record store_params =
  spName :: bytes
  spKind :: bytes
  spAttributes :: "(bytes, bytes) gomap"
  spValue :: "bytes option"
record delete_params = dpName :: bytes
record unlock_params =
  upIdentity :: "bytes option"
  upFor :: "int option"

definition get_fields :: "(bytes \<times> get_params setter) list" where
  "get_fields = [(''name'', \<lambda>p j. map_option (\<lambda>x. p\<lparr>gpName := x\<rparr>) (dec_string (gpName p) j))]"

definition list_fields :: "(bytes \<times> list_params setter) list" where
  "list_fields =
     [(''kind'', \<lambda>p j. map_option (\<lambda>x. p\<lparr>lpKind := x\<rparr>) (dec_string (lpKind p) j)),
      (''prefix'', \<lambda>p j. map_option (\<lambda>x. p\<lparr>lpPrefix := x\<rparr>) (dec_string (lpPrefix p) j)),
      (''attributes'', \<lambda>p j. map_option (\<lambda>x. p\<lparr>lpAttributes := x\<rparr>) (dec_strmap (lpAttributes p) j))]"

definition store_fields :: "(bytes \<times> store_params setter) list" where
  "store_fields =
     [(''name'', \<lambda>p j. map_option (\<lambda>x. p\<lparr>spName := x\<rparr>) (dec_string (spName p) j)),
      (''kind'', \<lambda>p j. map_option (\<lambda>x. p\<lparr>spKind := x\<rparr>) (dec_string (spKind p) j)),
      (''attributes'', \<lambda>p j. map_option (\<lambda>x. p\<lparr>spAttributes := x\<rparr>) (dec_strmap (spAttributes p) j)),
      (''value'', \<lambda>p j. map_option (\<lambda>x. p\<lparr>spValue := x\<rparr>) (dec_bytes (spValue p) j))]"

definition delete_fields :: "(bytes \<times> delete_params setter) list" where
  "delete_fields = [(''name'', \<lambda>p j. map_option (\<lambda>x. p\<lparr>dpName := x\<rparr>) (dec_string (dpName p) j))]"

text \<open>A pointer field: \<open>null\<close> sets it to nil.\<close>

definition dec_int_ptr :: "json \<Rightarrow> int option option" where
  "dec_int_ptr j = (case j of JNull \<Rightarrow> Some None | _ \<Rightarrow> map_option Some (dec_int64 0 j))"

definition unlock_fields :: "(bytes \<times> unlock_params setter) list" where
  "unlock_fields =
     [(''identity'', \<lambda>p j. map_option (\<lambda>x. p\<lparr>upIdentity := x\<rparr>) (dec_bytes (upIdentity p) j)),
      (''for'', \<lambda>p j. map_option (\<lambda>x. p\<lparr>upFor := x\<rparr>) (dec_int_ptr j))]"

definition zero_get :: get_params where "zero_get = \<lparr> gpName = [] \<rparr>"
definition zero_list :: list_params where
  "zero_list = \<lparr> lpKind = [], lpPrefix = [], lpAttributes = [] \<rparr>"
definition zero_store :: store_params where
  "zero_store = \<lparr> spName = [], spKind = [], spAttributes = [], spValue = None \<rparr>"
definition zero_delete :: delete_params where "zero_delete = \<lparr> dpName = [] \<rparr>"
definition zero_unlock :: unlock_params where
  "zero_unlock = \<lparr> upIdentity = None, upFor = None \<rparr>"

lemmas params_defs = get_fields_def list_fields_def store_fields_def delete_fields_def
  unlock_fields_def zero_get_def zero_list_def zero_store_def zero_delete_def zero_unlock_def

definition Bind :: "request \<Rightarrow> (bytes \<times> 'a setter) list \<Rightarrow> 'a \<Rightarrow> 'a res" where
  "Bind rq flds zero =
     (if rqParams rq = None \<or> rqParams rq = Some JNull then Ok zero
      else case dec_struct True flds zero (the (rqParams rq)) of
             None \<Rightarrow> Er (ProtoErr CodeInvalidArgument (lit ''params: '' @ [F JsonText]))
           | Some p \<Rightarrow> Ok p)"

text \<open>What the client marshals.\<close>

definition enc_get_params :: "get_params \<Rightarrow> json" where
  "enc_get_params p = JObj (fld ''name'' (enc_string (gpName p)))"

definition enc_list_params :: "list_params \<Rightarrow> json" where
  "enc_list_params p = JObj
     (fld_if (lpKind p \<noteq> []) ''kind'' (enc_string (lpKind p))
      @ fld_if (lpPrefix p \<noteq> []) ''prefix'' (enc_string (lpPrefix p))
      @ fld_if (lpAttributes p \<noteq> []) ''attributes'' (enc_strmap (lpAttributes p)))"

definition enc_store_params :: "store_params \<Rightarrow> json" where
  "enc_store_params p = JObj
     (fld ''name'' (enc_string (spName p)) @ fld ''kind'' (enc_string (spKind p))
      @ fld_if (spAttributes p \<noteq> []) ''attributes'' (enc_strmap (spAttributes p))
      @ fld ''value'' (enc_bytes (spValue p)))"

definition enc_delete_params :: "delete_params \<Rightarrow> json" where
  "enc_delete_params p = JObj (fld ''name'' (enc_string (dpName p)))"

definition enc_unlock_params :: "unlock_params \<Rightarrow> json" where
  "enc_unlock_params p = JObj
     (fld ''identity'' (enc_bytes (upIdentity p))
      @ (case upFor p of None \<Rightarrow> [] | Some n \<Rightarrow> fld ''for'' (enc_int n)))"

definition enc_empty :: json where "enc_empty = JObj []"

lemmas enc_params_defs = enc_get_params_def enc_list_params_def enc_store_params_def
  enc_delete_params_def enc_unlock_params_def

section \<open>Results\<close>

datatype presult = RStatus int bool "gotime option" | REmpty | RGet dsecret | RList "dsecret list"

definition info_fields :: "dsecret \<Rightarrow> (bytes \<times> json) list" where
  "info_fields x =
     fld ''name'' (enc_string (dName x)) @ fld ''kind'' (enc_string (dKind x))
     @ fld_if (dAttributes x \<noteq> []) ''attributes'' (enc_strmap (dAttributes x))
     @ fld ''created'' (enc_time (dCreated x)) @ fld ''updated'' (enc_time (dUpdated x))"

definition info_times_ok :: "dsecret \<Rightarrow> bool" where
  "info_times_ok x \<longleftrightarrow> time_ok (dCreated x) \<and> time_ok (dUpdated x)"

text \<open>\<open>json.Marshal\<close> of a result; a time it cannot write is an error.\<close>

fun enc_result :: "presult \<Rightarrow> json option" where
  "enc_result (RStatus v locked at) =
     (if at = None \<or> time_ok (the at) then
        Some (JObj (fld ''protocol'' (enc_int v) @ fld ''locked'' (JBool locked)
          @ (case at of None \<Rightarrow> [] | Some t \<Rightarrow> fld ''locks_at'' (enc_time t))))
      else None)"
| "enc_result REmpty = Some enc_empty"
| "enc_result (RGet x) =
     (if info_times_ok x then Some (JObj (info_fields x @ fld ''value'' (enc_bytes (dValue x)))) else None)"
| "enc_result (RList xs) =
     (if list_all info_times_ok xs then Some (JArr (map (\<lambda>x. JObj (info_fields x)) xs)) else None)"

section \<open>Building messages\<close>

text \<open>\<open>None\<close> as parameters stands for a value \<open>json.Marshal\<close> refuses.\<close>

definition NewRequest :: "json option \<Rightarrow> bytes \<Rightarrow> json option \<Rightarrow> request res" where
  "NewRequest rid meth params =
     (case params of
        None \<Rightarrow> Er (wrapf (lit (''protocol: marshal '' @ meth @ '' params'')) json_err)
      | Some raw \<Rightarrow> Ok \<lparr> rqId = rid, rqMethod = meth, rqParams = Some raw \<rparr>)"

definition NewResult :: "json option \<Rightarrow> presult \<Rightarrow> response res" where
  "NewResult rid result =
     (case enc_result result of
        None \<Rightarrow> Er (wrapf (lit ''protocol: marshal result'') json_err)
      | Some raw \<Rightarrow> Ok \<lparr> rsId = rid, rsResult = Some raw, rsError = None \<rparr>)"

definition NewError :: "texts \<Rightarrow> json option \<Rightarrow> bytes \<times> msg \<Rightarrow> response" where
  "NewError X rid e =
     \<lparr> rsId = (if rid = None then Some JNull else rid), rsResult = None,
       rsError = Some (fst e, render X (snd e)) \<rparr>"

section \<open>Lines\<close>

text \<open>An absent \<open>RawMessage\<close> without \<open>omitempty\<close> is written as \<open>null\<close>.\<close>

definition raw_or_null :: "json option \<Rightarrow> json" where
  "raw_or_null r = (case r of None \<Rightarrow> JNull | Some j \<Rightarrow> j)"

definition enc_plain :: "bytes \<Rightarrow> json" where
  "enc_plain s = JStr (quote_lit False s)"

definition enc_request :: "request \<Rightarrow> json" where
  "enc_request q = JObj
     (fld ''id'' (raw_or_null (rqId q)) @ fld ''method'' (enc_plain (rqMethod q))
      @ (case rqParams q of None \<Rightarrow> [] | Some p \<Rightarrow> fld ''params'' p))"

definition enc_response :: "response \<Rightarrow> json" where
  "enc_response p = JObj
     (fld ''id'' (raw_or_null (rsId p))
      @ (case rsResult p of None \<Rightarrow> [] | Some r \<Rightarrow> fld ''result'' r)
      @ (case rsError p of None \<Rightarrow> []
         | Some (code, text) \<Rightarrow>
             fld ''error'' (JObj (fld ''code'' (enc_plain code) @ fld ''message'' (enc_plain text)))))"

definition write_line :: "json \<Rightarrow> bytes" where
  "write_line j = print_json j @ [LF]"

definition request_fields :: "(bytes \<times> request setter) list" where
  "request_fields =
     [(''id'', \<lambda>q j. Some (q\<lparr>rqId := Some j\<rparr>)),
      (''method'', \<lambda>q j. map_option (\<lambda>x. q\<lparr>rqMethod := x\<rparr>) (dec_string (rqMethod q) j)),
      (''params'', \<lambda>q j. Some (q\<lparr>rqParams := Some j\<rparr>))]"

definition zero_request :: request where
  "zero_request = \<lparr> rqId = None, rqMethod = [], rqParams = None \<rparr>"

definition error_fields :: "(bytes \<times> (bytes \<times> bytes) setter) list" where
  "error_fields =
     [(''code'', \<lambda>e j. map_option (\<lambda>x. (x, snd e)) (dec_string (fst e) j)),
      (''message'', \<lambda>e j. map_option (\<lambda>x. (fst e, x)) (dec_string (snd e) j))]"

definition dec_error_ptr :: "(bytes \<times> bytes) option \<Rightarrow> json \<Rightarrow> (bytes \<times> bytes) option option" where
  "dec_error_ptr cur j =
     (case j of JNull \<Rightarrow> Some None
      | _ \<Rightarrow> map_option Some
          (dec_struct False error_fields (case cur of None \<Rightarrow> ([], []) | Some e \<Rightarrow> e) j))"

definition response_fields :: "(bytes \<times> response setter) list" where
  "response_fields =
     [(''id'', \<lambda>p j. Some (p\<lparr>rsId := Some j\<rparr>)),
      (''result'', \<lambda>p j. Some (p\<lparr>rsResult := Some j\<rparr>)),
      (''error'', \<lambda>p j. map_option (\<lambda>x. p\<lparr>rsError := x\<rparr>) (dec_error_ptr (rsError p) j))]"

definition zero_response :: response where
  "zero_response = \<lparr> rsId = None, rsResult = None, rsError = None \<rparr>"

text \<open>
  What \<open>ReadRequest\<close> and \<open>ReadResponse\<close> make of a line: the request, if there is one to return, and
  the error.
\<close>

definition parse_request :: "bytes \<Rightarrow> request option \<times> goerr option" where
  "parse_request line =
     (case Option.bind (parse_json line) (dec_struct False request_fields zero_request) of
        None \<Rightarrow> (None, Some (ProtoErr CodeProtocol (lit ''invalid JSON: '' @ [F JsonText])))
      | Some q \<Rightarrow>
          if rqId q = None \<or> rqId q = Some JNull then
            (None, Some (ProtoErr CodeProtocol (lit ''missing id'')))
          else if rqMethod q \<notin> set methods then
            (Some (zero_request\<lparr>rqId := rqId q\<rparr>),
             Some (ProtoErr CodeProtocol (lit ''unknown method '' @ [Q (rqMethod q)])))
          else (Some q, None))"

definition parse_response :: "bytes \<Rightarrow> response res" where
  "parse_response line =
     (case Option.bind (parse_json line) (dec_struct False response_fields zero_response) of
        None \<Rightarrow> Er (ProtoErr CodeProtocol (lit ''invalid JSON: '' @ [F JsonText]))
      | Some p \<Rightarrow> Ok p)"

text \<open>The methods themselves: a line is read, and consumed when the call returns.\<close>

definition ReadRequest ::
  "reader \<Rightarrow> conn \<Rightarrow> (request option \<times> goerr option) res \<times> reader \<times> conn" where
  "ReadRequest r cs =
     (case readLine r cs of
        (Ok line, r', cs') \<Rightarrow> (Ok (parse_request line), consume (length line) r', cs')
      | (Er e, r', cs') \<Rightarrow> (Ok (None, Some e), r', cs')
      | (Panic, r', cs') \<Rightarrow> (Panic, r', cs'))"

definition ReadResponse :: "reader \<Rightarrow> conn \<Rightarrow> response res \<times> reader \<times> conn" where
  "ReadResponse r cs =
     (case readLine r cs of
        (Ok line, r', cs') \<Rightarrow> (parse_response line, consume (length line) r', cs')
      | (Er e, r', cs') \<Rightarrow> (Er e, r', cs')
      | (Panic, r', cs') \<Rightarrow> (Panic, r', cs'))"

section \<open>Reading back what was written\<close>

lemma field_names [simp]:
  "unquote_lit ''name'' = Some ''name''" "unquote_lit ''prefix'' = Some ''prefix''"
  "unquote_lit ''identity'' = Some ''identity''" "unquote_lit ''for'' = Some ''for''"
  "unquote_lit ''id'' = Some ''id''" "unquote_lit ''method'' = Some ''method''"
  "unquote_lit ''params'' = Some ''params''" "unquote_lit ''result'' = Some ''result''"
  "unquote_lit ''error'' = Some ''error''" "unquote_lit ''code'' = Some ''code''"
  "unquote_lit ''message'' = Some ''message''"
  by (rule unquote_plain, simp)+

lemma field_names_ok [simp]:
  "raw_ok ''name''" "raw_ok ''prefix''" "raw_ok ''identity''" "raw_ok ''for''" "raw_ok ''id''"
  "raw_ok ''method''" "raw_ok ''params''" "raw_ok ''result''" "raw_ok ''error''" "raw_ok ''code''"
  "raw_ok ''message''" "raw_ok ''protocol''" "raw_ok ''locked''" "raw_ok ''locks_at''"
  by (rule raw_ok_plain, simp)+

lemma enc_plain_simps [simp]:
  "json_ok (enc_plain s)" "json_depth (enc_plain s) = 0"
  "utf8_valid s \<Longrightarrow> dec_string cur (enc_plain s) = Some s"
  by (simp_all add: enc_plain_def dec_string_def unquote_quote)

text \<open>A document that fits into a message, whose object is one level deeper.\<close>

definition doc_ok :: "json \<Rightarrow> bool" where
  "doc_ok j \<longleftrightarrow> json_ok j \<and> json_depth j < MaxDepth"

definition request_ok :: "request \<Rightarrow> bool" where
  "request_ok q \<longleftrightarrow> (\<exists>j. rqId q = Some j \<and> j \<noteq> JNull \<and> doc_ok j) \<and> rqMethod q \<in> set methods
     \<and> (\<forall>p. rqParams q = Some p \<longrightarrow> doc_ok p)"

definition response_ok :: "response \<Rightarrow> bool" where
  "response_ok p \<longleftrightarrow> (\<exists>j. rsId p = Some j \<and> doc_ok j)
     \<and> (\<forall>r. rsResult p = Some r \<longrightarrow> doc_ok r)
     \<and> (\<forall>c m. rsError p = Some (c, m) \<longrightarrow> utf8_valid c \<and> utf8_valid m)"

lemma methods_valid: "m \<in> set methods \<Longrightarrow> utf8_valid m"
  by (auto simp: methods_def method_defs)

lemma MaxDepth_pos: "2 < MaxDepth" "Suc 0 < MaxDepth" "0 < MaxDepth"
  by (simp_all add: MaxDepth_def)

lemma enc_request_ok: "request_ok q \<Longrightarrow> json_ok (enc_request q) \<and> json_depth (enc_request q) \<le> MaxDepth"
  using MaxDepth_pos
  by (auto simp: request_ok_def enc_request_def fld_def raw_or_null_def doc_ok_def split: option.splits)

lemma enc_response_ok: "response_ok p \<Longrightarrow> json_ok (enc_response p) \<and> json_depth (enc_response p) \<le> MaxDepth"
  using MaxDepth_pos
  by (auto simp: response_ok_def enc_response_def fld_def raw_or_null_def doc_ok_def
      split: option.splits)

lemma parse_request_print:
  assumes "request_ok q"
  shows "parse_request (print_json (enc_request q)) = (Some q, None)"
proof -
  have "parse_json (print_json (enc_request q)) = Some (enc_request q)"
    using enc_request_ok [OF assms] by (intro parse_print) simp_all
  moreover have "dec_struct False request_fields zero_request (enc_request q) = Some q"
    using assms methods_valid
    by (cases "rqParams q")
      (auto simp: request_ok_def enc_request_def fld_def raw_or_null_def dec_struct_def request_fields_def
        find_field_def zero_request_def)
  ultimately show ?thesis
    using assms by (auto simp: parse_request_def request_ok_def)
qed

lemma parse_response_print:
  assumes "response_ok p"
  shows "parse_response (print_json (enc_response p)) = Ok p"
proof -
  have "parse_json (print_json (enc_response p)) = Some (enc_response p)"
    using enc_response_ok [OF assms] by (intro parse_print) simp_all
  moreover have "dec_struct False response_fields zero_response (enc_response p) = Some p"
    using assms
    by (cases "rsResult p"; cases "rsError p")
      (auto simp: response_ok_def enc_response_def fld_def raw_or_null_def dec_struct_def response_fields_def
        find_field_def zero_response_def dec_error_ptr_def error_fields_def)
  ultimately show ?thesis by (simp add: parse_response_def)
qed

interpretation request_line: codec "\<lambda>q. print_json (enc_request q)"
  "\<lambda>l. case parse_request l of (Some q, None) \<Rightarrow> Some q | _ \<Rightarrow> None" request_ok
  by unfold_locales (simp add: parse_request_print)

interpretation response_line: codec "\<lambda>p. print_json (enc_response p)"
  "\<lambda>l. case parse_response l of Ok p \<Rightarrow> Some p | _ \<Rightarrow> None" response_ok
  by unfold_locales (simp add: parse_response_print)

text \<open>A message is one line: its only line feed is the one that ends it.\<close>

lemma spec_line_message:
  assumes "json_ok j" and "length (print_json j) \<le> MaxLineLen"
  shows "spec_line (write_line j @ rest) = Ok (print_json j)"
proof -
  have "cut_at LF (print_json j @ LF # rest) = Some (print_json j, rest)"
    by (rule cut_at_append) (rule print_json_one_line [OF assms(1)])
  then show ?thesis using assms(2) by (simp add: spec_line_def write_line_def)
qed

subsection \<open>Parameters\<close>

lemma Bind_params:
  assumes "rqParams rq = Some (JObj ms)"
  shows "Bind rq flds zero = (case dec_fields True flds zero ms of
      None \<Rightarrow> Er (ProtoErr CodeInvalidArgument (lit ''params: '' @ [F JsonText])) | Some p \<Rightarrow> Ok p)"
  using assms by (simp add: Bind_def dec_struct_def)

lemma Bind_get:
  "utf8_valid (gpName p) \<Longrightarrow> rqParams rq = Some (enc_get_params p) \<Longrightarrow> Bind rq get_fields zero_get = Ok p"
  by (simp add: enc_get_params_def Bind_params fld_def find_field_def params_defs)

lemma Bind_delete:
  "utf8_valid (dpName p) \<Longrightarrow> rqParams rq = Some (enc_delete_params p) \<Longrightarrow>
   Bind rq delete_fields zero_delete = Ok p"
  by (simp add: enc_delete_params_def Bind_params fld_def find_field_def params_defs)

lemma Bind_list:
  assumes "utf8_valid (lpKind p)" and "utf8_valid (lpPrefix p)" and "gomap_ok (lpAttributes p)"
    and "\<forall>(k, v) \<in> set (lpAttributes p). utf8_valid k \<and> utf8_valid v"
    and "rqParams rq = Some (enc_list_params p)"
  shows "Bind rq list_fields zero_list = Ok (p\<lparr>lpAttributes := sort_key fst (lpAttributes p)\<rparr>)"
  using assms
  by (cases "lpKind p = []"; cases "lpPrefix p = []"; cases "lpAttributes p = []")
    (simp_all add: enc_list_params_def Bind_params fld_if_def find_field_def params_defs
      dec_strmap_enc)

lemma Bind_store:
  assumes "utf8_valid (spName p)" and "utf8_valid (spKind p)" and "gomap_ok (spAttributes p)"
    and "\<forall>(k, v) \<in> set (spAttributes p). utf8_valid k \<and> utf8_valid v"
    and "rqParams rq = Some (enc_store_params p)"
  shows "Bind rq store_fields zero_store = Ok (p\<lparr>spAttributes := sort_key fst (spAttributes p)\<rparr>)"
  using assms
  by (cases "spAttributes p = []")
    (simp_all add: enc_store_params_def Bind_params fld_def fld_if_def find_field_def params_defs
      dec_strmap_enc)

lemma Bind_unlock:
  assumes "\<forall>n. upFor p = Some n \<longrightarrow> int64_range n" and "rqParams rq = Some (enc_unlock_params p)"
  shows "Bind rq unlock_fields zero_unlock = Ok p"
  using assms
  by (cases "upFor p")
    (simp_all add: enc_unlock_params_def Bind_params fld_def find_field_def params_defs dec_int_ptr_def
      enc_int_def dec_int64_def parse_print_int)

text \<open>
  A field the daemon does not know is refused, whatever else the parameters are.
\<close>

lemma Bind_unknown:
  assumes "rqParams rq = Some (JObj ms)" and "(k, j) \<in> set ms" and "unquote_lit k = Some key"
    and "find_field flds key = None"
  shows "Bind rq flds zero = Er (ProtoErr CodeInvalidArgument (lit ''params: '' @ [F JsonText]))"
proof -
  have "dec_fields True flds cur ms = None" for cur
    using assms(2-4)
    by (induction True flds cur ms rule: dec_fields.induct) (auto split: option.splits)
  then show ?thesis by (simp add: Bind_params [OF assms(1)])
qed

end
