(* ===== verification/Server.thy ===== *)
theory Server
  imports Protocol
begin

text \<open>
  internal/daemon/server.go: a request is dispatched to the session and the store, errors become wire
  codes, and \<open>handle\<close> serves one connection. The state a request works on is the session and the file
  system; the configuration is the vault's path and the default auto-lock duration. A \<open>Panic\<close> ends the
  daemon.
\<close>

section \<open>Errors\<close>

definition toError :: "goerr \<Rightarrow> bytes \<times> msg" where
  "toError e =
     (case errors_as_proto e of
        Some pe \<Rightarrow> pe
      | None \<Rightarrow>
          if errors_is e (DaemonS ErrLocked) then (CodeLocked, lit ''daemon is locked'')
          else if errors_is e (DaemonS ErrNotFound) then (CodeNotFound, lit ''secret not found'')
          else if errors_is e (DaemonS ErrInvalidArgument) then
            (CodeInvalidArgument,
             trim_prefix (lit (daemon_err_text ErrInvalidArgument @ '': '')) (err_msg e))
          else if errors_is e (IdentityS IdErrMalformed) then
            (CodeInvalidArgument, lit ''identity is not an age X25519 secret key'')
          else if errors_is e (VaultS ErrWrongIdentity) then
            (CodeInvalidArgument, lit ''identity does not open the vault'')
          else if errors_is e (StdS ErrNotExist) then
            (CodeInternal, lit ''vault not found; run `keycell init`'')
          else (CodeInternal, lit ''internal error''))"

section \<open>Calls\<close>

record config =
  cfPath :: bytes
  cfDefaultFor :: int

definition toInfo :: "dsecret \<Rightarrow> dsecret" where
  "toInfo x = x\<lparr>dValue := None\<rparr>"

definition verifyIdentity :: "'i age \<Rightarrow> io \<Rightarrow> config \<Rightarrow> 'i session \<Rightarrow> fs \<Rightarrow> unit res" where
  "verifyIdentity A w cf s d = obind (fst (List A w (cfPath cf) s no_filter d)) (\<lambda>_. Ok ())"

text \<open>\<open>time.Duration(*p.For) * time.Second\<close> is an \<open>int64\<close> product.\<close>

definition lock_after :: "unlock_params \<Rightarrow> int option" where
  "lock_after p = map_option (\<lambda>n. wrap64 (n * Second)) (upFor p)"

definition call_status :: "'i session \<Rightarrow> presult res" where
  "call_status s =
     (case Status s of (locked, locksAt) \<Rightarrow>
        Ok (RStatus ProtoVersion locked
          (if unix_ns locksAt = unix_ns zero_time then None else Some locksAt)))"

definition call_unlock ::
  "'i age \<Rightarrow> io \<Rightarrow> config \<Rightarrow> request \<Rightarrow> 'i session \<Rightarrow> fs \<Rightarrow> presult res \<times> 'i session" where
  "call_unlock A w cf rq s d =
     (case Bind rq unlock_fields zero_unlock of
        Er e \<Rightarrow> (Er e, s)
      | Panic \<Rightarrow> (Panic, s)
      | Ok p \<Rightarrow>
          (case Unlock A w (cfDefaultFor cf) (val_bytes (upIdentity p)) (lock_after p) s of
             (Er e, s1, _) \<Rightarrow> (Er e, s1)
           | (Panic, s1, _) \<Rightarrow> (Panic, s1)
           | (Ok _, s1, _) \<Rightarrow>
               (case verifyIdentity A w cf s1 d of
                  Er e \<Rightarrow> (Er e, Lock s1)
                | Panic \<Rightarrow> (Panic, s1)
                | Ok _ \<Rightarrow> (Ok REmpty, s1))))"

definition call_get :: "'i age \<Rightarrow> io \<Rightarrow> config \<Rightarrow> request \<Rightarrow> 'i session \<Rightarrow> fs \<Rightarrow> presult res" where
  "call_get A w cf rq s d =
     obind (Bind rq get_fields zero_get) (\<lambda>p.
     obind (fst (Get A w (cfPath cf) s (gpName p) d)) (\<lambda>sec.
     Ok (RGet ((toInfo sec)\<lparr>dValue := dValue sec\<rparr>))))"

definition call_list :: "'i age \<Rightarrow> io \<Rightarrow> config \<Rightarrow> request \<Rightarrow> 'i session \<Rightarrow> fs \<Rightarrow> presult res" where
  "call_list A w cf rq s d =
     obind (Bind rq list_fields zero_list) (\<lambda>p.
     obind (fst (List A w (cfPath cf) s
             \<lparr> fKind = lpKind p, fPrefix = lpPrefix p, fAttributes = lpAttributes p \<rparr> d)) (\<lambda>secs.
     Ok (RList (map toInfo secs))))"

definition empty_result :: "unit res \<times> fs \<Rightarrow> presult res \<times> fs" where
  "empty_result x = (obind (fst x) (\<lambda>_. Ok REmpty), snd x)"

definition call_store :: "'i age \<Rightarrow> io \<Rightarrow> config \<Rightarrow> request \<Rightarrow> 'i session \<Rightarrow> fs \<Rightarrow> presult res \<times> fs" where
  "call_store A w cf rq s d =
     (case Bind rq store_fields zero_store of
        Er e \<Rightarrow> (Er e, d)
      | Panic \<Rightarrow> (Panic, d)
      | Ok p \<Rightarrow> empty_result
          (Store_secret A w (cfPath cf) s (spName p) (spKind p) (spAttributes p) (spValue p) d))"

definition call_delete :: "'i age \<Rightarrow> io \<Rightarrow> config \<Rightarrow> request \<Rightarrow> 'i session \<Rightarrow> fs \<Rightarrow> presult res \<times> fs" where
  "call_delete A w cf rq s d =
     (case Bind rq delete_fields zero_delete of
        Er e \<Rightarrow> (Er e, d)
      | Panic \<Rightarrow> (Panic, d)
      | Ok p \<Rightarrow> empty_result (Delete A w (cfPath cf) s (dpName p) d))"

definition server_call ::
  "'i age \<Rightarrow> io \<Rightarrow> config \<Rightarrow> request \<Rightarrow> 'i session \<times> fs \<Rightarrow> presult res \<times> 'i session \<times> fs" where
  "server_call A w cf rq = (\<lambda>(s, d).
     if rqMethod rq = MethodStatus then (call_status s, s, d)
     else if rqMethod rq = MethodUnlock then
       (case call_unlock A w cf rq s d of (r, s') \<Rightarrow> (r, s', d))
     else if rqMethod rq = MethodLock then (Ok REmpty, Lock s, d)
     else if rqMethod rq = MethodGet then (call_get A w cf rq s d, s, d)
     else if rqMethod rq = MethodList then (call_list A w cf rq s d, s, d)
     else if rqMethod rq = MethodStore then
       (case call_store A w cf rq s d of (r, d') \<Rightarrow> (r, s, d'))
     else if rqMethod rq = MethodDelete then
       (case call_delete A w cf rq s d of (r, d') \<Rightarrow> (r, s, d'))
     else (Er (ProtoErr CodeProtocol (lit ''unknown method '' @ [Q (rqMethod rq)])), s, d))"

text \<open>\<open>dispatch\<close>; \<open>None\<close> is a panic.\<close>

definition dispatch ::
  "'i age \<Rightarrow> texts \<Rightarrow> io \<Rightarrow> config \<Rightarrow> request \<Rightarrow> 'i session \<times> fs
   \<Rightarrow> response option \<times> 'i session \<times> fs" where
  "dispatch A X w cf rq sd =
     (case server_call A w cf rq sd of
        (Panic, sd') \<Rightarrow> (None, sd')
      | (Er e, sd') \<Rightarrow> (Some (NewError X (rqId rq) (toError e)), sd')
      | (Ok result, sd') \<Rightarrow>
          (case NewResult (rqId rq) result of
             Ok resp \<Rightarrow> (Some resp, sd')
           | _ \<Rightarrow> (Some (NewError X (rqId rq) (CodeInternal, lit ''internal error'')), sd')))"

section \<open>One connection\<close>

text \<open>
  The requests of a connection are answered in order, one line each. \<open>ws\<close> gives, for the number of
  messages answered so far, the outside world of the next request and whether its answer can be
  written.
\<close>

record wire =
  wrIo :: "nat \<Rightarrow> io"
  wrWrites :: "nat \<Rightarrow> bool"

lemma ReadRequest_size:
  assumes "ReadRequest r cs = (Ok (q, e), r', cs')"
    and "e = None \<or> errors_as_proto (the e) \<noteq> None"
  shows "rN r' + conn_size cs' < rN r + conn_size cs"
proof (cases "readLine r cs")
  case (fields res r1 cs1)
  note size = readLine_size [OF fields]
  show ?thesis
  proof (cases res)
    case (Ok l)
    then have "rN (consume (length l) r1) < rN r1" using size by (intro consume_size) simp
    with assms(1) fields Ok size show ?thesis by (simp add: ReadRequest_def)
  next
    case (Er e')
    with assms fields size show ?thesis by (auto simp: ReadRequest_def)
  qed (use assms fields in \<open>simp add: ReadRequest_def\<close>)
qed

function handle ::
  "'i age \<Rightarrow> texts \<Rightarrow> config \<Rightarrow> wire \<Rightarrow> nat \<Rightarrow> reader \<Rightarrow> conn \<Rightarrow> 'i session \<times> fs
   \<Rightarrow> response list \<times> bool \<times> 'i session \<times> fs" where
  "handle A X cf z k r cs sd =
     (case ReadRequest r cs of
        (Panic, r', cs') \<Rightarrow> ([], True, sd)
      | (Er e, r', cs') \<Rightarrow> ([], False, sd)
      | (Ok (q, Some e), r', cs') \<Rightarrow>
          (case errors_as_proto e of
             Some pe \<Rightarrow>
               (let resp = NewError X (case q of None \<Rightarrow> None | Some q' \<Rightarrow> rqId q') pe
                in if wrWrites z k then
                     (case handle A X cf z (Suc k) r' cs' sd of (out, end') \<Rightarrow> (resp # out, end'))
                   else ([], False, sd))
           | None \<Rightarrow>
               if errors_is e LineTooLongS then
                 (if wrWrites z k then [NewError X None (CodeProtocol, err_msg e)] else [], False, sd)
               else ([], False, sd))
      | (Ok (None, None), r', cs') \<Rightarrow> ([], True, sd)
      | (Ok (Some q, None), r', cs') \<Rightarrow>
          (case dispatch A X (wrIo z k) cf q sd of
             (None, sd') \<Rightarrow> ([], True, sd')
           | (Some resp, sd') \<Rightarrow>
               if wrWrites z k then
                 (case handle A X cf z (Suc k) r' cs' sd' of (out, end') \<Rightarrow> (resp # out, end'))
               else ([], False, sd')))"
  by pat_completeness auto
termination
  by (relation "measure (\<lambda>(A, X, cf, z, k, r, cs, sd). rN r + conn_size cs)")
    (auto intro!: ReadRequest_size dest!: sym [of "(_, _)" "ReadRequest _ _"])

declare handle.simps [simp del]

section \<open>Error codes\<close>

definition wire_codes :: "bytes set" where
  "wire_codes = {CodeProtocol, CodeInvalidArgument, CodeNotFound, CodeLocked, CodeInternal}"

lemma toError_sentinels [simp]:
  "toError (Sentinel (DaemonS ErrLocked)) = (CodeLocked, lit ''daemon is locked'')"
  "toError (Sentinel (DaemonS ErrNotFound)) = (CodeNotFound, lit ''secret not found'')"
  "toError (Sentinel (VaultS ErrWrongIdentity)) =
     (CodeInvalidArgument, lit ''identity does not open the vault'')"
  "toError (wrapf m no_such_file) = (CodeInternal, lit ''vault not found; run `keycell init`'')"
  "toError (ProtoErr c m) = (c, m)"
  by (simp_all add: toError_def no_such_file_def)

lemma toError_code: "errors_as_proto e = None \<Longrightarrow> fst (toError e) \<in> wire_codes"
  by (simp add: toError_def wire_codes_def)

text \<open>
  An argument the vault's rules reject is reported with the rule's text, without the daemon's own
  prefix.
\<close>

lemma toError_invalid:
  assumes "errors_as_proto e = None" and "\<not> errors_is e (DaemonS ErrLocked)"
    and "\<not> errors_is e (DaemonS ErrNotFound)"
  shows "toError (invalid e) = (CodeInvalidArgument, err_msg e)"
  using assms
  by (simp add: toError_def invalid_def lit_append [symmetric] append_assoc [symmetric]
      del: append_assoc)

section \<open>Dispatch\<close>

lemma Bind_no_panic [simp]: "Bind rq flds zero \<noteq> Panic"
  by (simp add: Bind_def split: option.split)

lemma dispatch_one_of:
  assumes "dispatch A X w cf rq sd = (Some resp, sd')" and "rqId rq \<noteq> None"
  shows "rsId resp = rqId rq \<and> (rsResult resp = None) \<noteq> (rsError resp = None)"
  using assms
  by (auto simp: dispatch_def NewResult_def NewError_def split: outcome.splits option.splits prod.splits)

text \<open>While locked, the methods on secrets answer \<open>LOCKED\<close>, whatever their parameters select.\<close>

lemma locked_call:
  assumes "sId s = None"
  shows "rqMethod rq = MethodGet \<Longrightarrow> Bind rq get_fields zero_get = Ok p1 \<Longrightarrow>
      server_call A w cf rq (s, d) = (Er (Sentinel (DaemonS ErrLocked)), s, d)"
    and "rqMethod rq = MethodList \<Longrightarrow> Bind rq list_fields zero_list = Ok p2 \<Longrightarrow>
      server_call A w cf rq (s, d) = (Er (Sentinel (DaemonS ErrLocked)), s, d)"
    and "rqMethod rq = MethodStore \<Longrightarrow> Bind rq store_fields zero_store = Ok p3 \<Longrightarrow>
      server_call A w cf rq (s, d) = (Er (Sentinel (DaemonS ErrLocked)), s, d)"
    and "rqMethod rq = MethodDelete \<Longrightarrow> Bind rq delete_fields zero_delete = Ok p4 \<Longrightarrow>
      server_call A w cf rq (s, d) = (Er (Sentinel (DaemonS ErrLocked)), s, d)"
  by (simp_all add: server_call_def method_defs call_get_def call_list_def call_store_def
      call_delete_def empty_result_def locked_operations [OF assms])

text \<open>No request but \<open>unlock\<close> and \<open>lock\<close> changes the session; only \<open>store\<close> and \<open>delete\<close> write.\<close>

lemma call_frame:
  assumes "server_call A w cf rq (s, d) = (r, s', d')"
  shows "rqMethod rq \<notin> {MethodUnlock, MethodLock} \<Longrightarrow> s' = s"
    and "rqMethod rq \<notin> {MethodStore, MethodDelete} \<Longrightarrow> d' = d"
  using assms by (auto simp: server_call_def split: if_splits prod.splits)

lemma call_unlock_inv:
  assumes "session_inv s" and "sReaders s = 0" and "call_unlock A w cf rq s d = (r, s')"
  shows "session_inv s'"
proof (cases "Bind rq unlock_fields zero_unlock")
  case (Ok p)
  obtain r1 s1 z where u: "Unlock A w (cfDefaultFor cf) (val_bytes (upIdentity p)) (lock_after p) s
      = (r1, s1, z)" by (metis prod_cases3)
  have inv: "session_inv s1" by (rule session_inv_Unlock [OF assms(1) u])
  moreover have "sReaders s1 = 0"
    using u assms(2)
    by (auto simp: Unlock_def Let_def split: outcome.splits option.splits if_splits)
  ultimately have "session_inv (Lock s1)" by (rule session_inv_Lock)
  with inv show ?thesis
    using assms(3) Ok u by (auto simp: call_unlock_def split: outcome.splits)
qed (use assms in \<open>simp_all add: call_unlock_def\<close>)

lemma call_inv:
  assumes "session_inv s" and "sReaders s = 0" and "server_call A w cf rq (s, d) = (r, s', d')"
  shows "session_inv s'"
  using assms session_inv_Lock [OF assms(1,2)] call_unlock_inv [OF assms(1,2)]
  by (auto simp: server_call_def split: if_splits prod.splits)

section \<open>Unlocking\<close>

lemma no_filter_valid [simp]:
  "fKind no_filter = []" "fAttributes no_filter = []" "fPrefix no_filter = []"
  by (simp_all add: no_filter_def)

lemma verify_eq:
  assumes "sId s = Some i"
  shows "verifyIdentity A w cf s d =
    (case Read_file A w (cfPath cf) i d of
       Er e \<Rightarrow> Er e | Panic \<Rightarrow> Panic | Ok v \<Rightarrow> if no_nil v then Ok () else Panic)"
proof (cases "Read_file A w (cfPath cf) i d")
  case (Ok v)
  then show ?thesis
    by (simp add: verifyIdentity_def List_def sess.use_open [OF assms] wipe_nil no_nil_def list_loop_eq)
qed (simp_all add: verifyIdentity_def List_def sess.use_open [OF assms])

lemma lock_clears: "sBuf s \<noteq> None \<Longrightarrow> sId (Lock s) = None \<and> sBuf (Lock s) = None"
  by (auto simp: Lock_def)

lemma unlock_outcomes:
  assumes "Bind rq unlock_fields zero_unlock = Ok p"
    and "call_unlock A w cf rq s d = (r, s')"
  shows "(case Parse A (val_bytes (upIdentity p)) of
      Er e \<Rightarrow> r = Er e \<and> s' = s
    | Ok i \<Rightarrow>
        (case ioSecmem w of
           Some e \<Rightarrow> s' = s
         | None \<Rightarrow>
             (case Read_file A w (cfPath cf) i d of
                Er e \<Rightarrow> r = Er e \<and> sId s' = None \<and> sBuf s' = None
              | Ok v \<Rightarrow> if no_nil v then r = Ok REmpty \<and> sId s' = Some i else r = Panic
              | Panic \<Rightarrow> False))
    | Panic \<Rightarrow> False)"
proof (cases "Parse A (val_bytes (upIdentity p))")
  case (Ok i)
  show ?thesis
  proof (cases "ioSecmem w")
    case None
    obtain s1 z where u: "Unlock A w (cfDefaultFor cf) (val_bytes (upIdentity p)) (lock_after p) s
        = (Ok (), s1, z)"
      by (simp add: Unlock_def Ok None Let_def)
    then have s1: "sId s1 = Some i" "sBuf s1 \<noteq> None"
      using Ok by (auto elim!: Unlock_Ok)
    show ?thesis
      using assms Ok None lock_clears [OF s1(2)] s1 Read_file_no_panic [of A w "cfPath cf" i d]
      by (auto simp: call_unlock_def u verify_eq [OF s1(1)] split: outcome.splits if_splits)
  qed (use assms Ok in \<open>auto simp: call_unlock_def Unlock_def\<close>)
qed (use assms in \<open>auto simp: call_unlock_def Unlock_def Parse_def split: option.splits\<close>)

section \<open>The responses depend on the byte stream only\<close>

definition same_stream :: "reader \<times> conn \<Rightarrow> reader \<times> conn \<Rightarrow> bool" where
  "same_stream x y \<longleftrightarrow>
     reader_inv (fst x) \<and> plain_conn (snd x) \<and> reader_inv (fst y) \<and> plain_conn (snd y)
     \<and> held (fst x) @ stream (snd x) = held (fst y) @ stream (snd y)"

lemma readLine_consume:
  assumes "reader_inv r" and "plain_conn cs" and "readLine r cs = (Ok l, r1, cs1)"
  shows "reader_inv (consume (length l) r1) \<and> plain_conn cs1
    \<and> l @ LF # held (consume (length l) r1) @ stream cs1 = held r @ stream cs"
proof -
  from readLine_spec [OF assms] obtain rest where h: "held r1 = l @ LF # rest" and "reader_inv r1"
    and "plain_conn cs1" and "held r1 @ stream cs1 = held r @ stream cs" by blast
  moreover from consume_inv [OF \<open>reader_inv r1\<close> h]
  have "reader_inv (consume (length l) r1)" "held (consume (length l) r1) = rest" by simp_all
  ultimately show ?thesis by simp
qed

lemma spec_line_no_proto: "spec_line S = Er e \<Longrightarrow> errors_as_proto e = None"
  by (auto simp: spec_line_def ErrLineTooLong_def eof_def split: option.splits if_splits)

lemma ReadRequest_agree:
  assumes "same_stream (r, cs) (r', cs')"
    and "ReadRequest r cs = (x, r1, cs1)" and "ReadRequest r' cs' = (x', r1', cs1')"
  shows "x' = x \<and> (same_stream (r1, cs1) (r1', cs1')
    \<or> (\<exists>e. x = Ok (None, Some e) \<and> errors_as_proto e = None))"
proof -
  obtain res r2 cs2 where l: "readLine r cs = (res, r2, cs2)" by (metis prod_cases3)
  obtain res' r2' cs2' where l': "readLine r' cs' = (res', r2', cs2')" by (metis prod_cases3)
  have inv: "reader_inv r" "plain_conn cs" "reader_inv r'" "plain_conn cs'"
    and S: "held r @ stream cs = held r' @ stream cs'"
    using assms(1) by (simp_all add: same_stream_def)
  have "res = spec_line (held r @ stream cs)" and "res' = spec_line (held r' @ stream cs')"
    using readLine_spec [OF inv(1,2) l] readLine_spec [OF inv(3,4) l'] by simp_all
  then have eq: "res' = res" and spec: "res = spec_line (held r @ stream cs)" by (simp_all add: S)
  show ?thesis
  proof (cases res)
    case (Ok line)
    with readLine_consume [OF inv(1,2)] readLine_consume [OF inv(3,4)] l l' eq S
    have "same_stream (consume (length line) r2, cs2) (consume (length line) r2', cs2')"
      by (simp add: same_stream_def) (metis append_same_eq list.inject same_append_eq)
    then show ?thesis using assms(2,3) l l' eq Ok by (simp add: ReadRequest_def)
  next
    case (Er e)
    then have "errors_as_proto e = None" using spec spec_line_no_proto by metis
    moreover have "x = Ok (None, Some e)" and "x' = Ok (None, Some e)"
      using assms(2,3) l l' eq Er by (simp_all add: ReadRequest_def)
    ultimately show ?thesis by blast
  next
    case Panic
    then show ?thesis using spec by (simp add: spec_line_def split: option.splits prod.splits if_splits)
  qed
qed

lemma handle_agree:
  "same_stream (r, cs) (r', cs') \<Longrightarrow> handle A X cf z k r cs sd = handle A X cf z k r' cs' sd"
proof (induction "rN r + conn_size cs" arbitrary: r cs r' cs' k sd rule: less_induct)
  case less
  obtain x r1 cs1 where rr: "ReadRequest r cs = (x, r1, cs1)" by (metis prod_cases3)
  obtain x' r1' cs1' where rr': "ReadRequest r' cs' = (x', r1', cs1')" by (metis prod_cases3)
  from ReadRequest_agree [OF less.prems rr rr'] have x: "x' = x"
    and next_or_end: "same_stream (r1, cs1) (r1', cs1')
      \<or> (\<exists>e. x = Ok (None, Some e) \<and> errors_as_proto e = None)" by blast+
  show ?case
  proof (cases "\<exists>q e. x = Ok (q, e) \<and> (e = None \<or> errors_as_proto (the e) \<noteq> None)")
    case True
    then obtain q e where qe: "x = Ok (q, e)" "e = None \<or> errors_as_proto (the e) \<noteq> None" by blast
    with next_or_end have "same_stream (r1, cs1) (r1', cs1')" by auto
    moreover have "rN r1 + conn_size cs1 < rN r + conn_size cs"
      using ReadRequest_size rr qe by blast
    ultimately have IH: "handle A X cf z k2 r1 cs1 sd2 = handle A X cf z k2 r1' cs1' sd2" for k2 sd2
      using less.hyps by blast
    show ?thesis
      unfolding handle.simps [of A X cf z k r cs sd] handle.simps [of A X cf z k r' cs' sd] rr rr' x qe(1)
      using IH by (simp split: option.split prod.split)
  next
    case False
    then show ?thesis
      unfolding handle.simps [of A X cf z k r cs sd] handle.simps [of A X cf z k r' cs' sd] rr rr' x
      by (cases x) (auto split: option.split prod.split)
  qed
qed

section \<open>Answers on the wire\<close>

text \<open>
  Whatever is dispatched, the answer to a well-formed request can be read back by the client, as long
  as the foreign texts in its error message are UTF-8.
\<close>

definition texts_ok :: "texts \<Rightarrow> bool" where
  "texts_ok X \<longleftrightarrow> (\<forall>f. utf8_valid (txForeign X f)) \<and> (\<forall>s. utf8_valid (txQuote X s))"

lemma doc_ok_info:
  "info_times_ok x \<Longrightarrow> json_ok (JObj (info_fields x)) \<and> json_depth (JObj (info_fields x)) \<le> 2"
  using json_depth_enc_strmap [of "dAttributes x"]
  by (simp add: info_fields_def fld_def fld_if_def)

lemma doc_ok_result:
  assumes "enc_result res = Some j"
  shows "doc_ok j"
proof -
  have M: "3 < MaxDepth" by (simp add: MaxDepth_def)
  show ?thesis
  proof (cases res)
    case (RStatus v locked t)
    then show ?thesis
      using assms M by (auto simp: doc_ok_def fld_def split: option.splits if_splits)
  next
    case REmpty
    then show ?thesis using assms M by (auto simp: doc_ok_def enc_empty_def)
  next
    case (RGet x)
    then have "info_times_ok x" and j: "j = JObj (info_fields x @ fld ''value'' (enc_bytes (dValue x)))"
      using assms by (auto split: if_splits)
    then show ?thesis
      using json_depth_enc_strmap [of "dAttributes x"] M
      by (simp add: doc_ok_def info_fields_def fld_def fld_if_def)
  next
    case (RList xs)
    then have ok: "\<forall>x \<in> set xs. info_times_ok x" and j: "j = JArr (map (\<lambda>x. JObj (info_fields x)) xs)"
      using assms by (auto simp: list_all_iff split: if_splits)
    have "max_list (map (json_depth \<circ> (\<lambda>x. JObj (info_fields x))) xs) \<le> 2"
      using ok doc_ok_info by (intro max_list_le) fastforce
    moreover have "json_ok j"
    proof -
      have "\<forall>y \<in> set (map (\<lambda>x. JObj (info_fields x)) xs). json_ok y"
        using ok doc_ok_info by (simp del: json_ok.simps json_depth.simps)
      then show ?thesis unfolding j by (subst json_ok.simps(3))
    qed
    ultimately show ?thesis using M by (simp add: doc_ok_def j del: json_depth.simps(2))
  qed
qed

lemma result_response_ok:
  assumes "rqId rq = Some i" and "doc_ok i" and "NewResult (rqId rq) res = Ok resp"
  shows "response_ok resp"
  using assms doc_ok_result [of res]
  by (auto simp: NewResult_def response_ok_def split: option.splits)

text \<open>A secret stored through the daemon is the secret a later \<open>get\<close> answers with.\<close>

lemma store_then_get:
  assumes "age_laws A" and "sId s = Some i" and "secrets_at A (cfPath cf) i d = Some T"
    and "gomap_ok (spAttributes p)" and "io_calm w" and "io_calm w'"
    and "rqMethod q = MethodStore" and "rqParams q = Some (enc_store_params p)"
    and "rqMethod q' = MethodGet" and "rqParams q' = Some (enc_get_params \<lparr> gpName = spName p \<rparr>)"
    and "utf8_valid (spName p)" and "utf8_valid (spKind p)"
    and "\<forall>(k, v) \<in> set (spAttributes p). utf8_valid k \<and> utf8_valid v"
    and "server_call A w cf q (s, d) = (Ok res, s1, d1)"
  shows "\<exists>x. server_call A w' cf q' (s1, d1) = (Ok (RGet x), s1, d1) \<and> dName x = spName p
    \<and> dKind x = spKind p \<and> dValue x = spValue p \<and> map_of (dAttributes x) = map_of (spAttributes p)
    \<and> dUpdated x = UTC (ioNow w)"
proof -
  let ?attrs = "sort_key fst (spAttributes p)"
  have bind: "Bind q store_fields zero_store = Ok (p\<lparr>spAttributes := ?attrs\<rparr>)"
    using assms by (intro Bind_store) simp_all
  have s1: "s1 = s" and st: "Store_secret A w (cfPath cf) s (spName p) (spKind p) ?attrs (spValue p) d
      = (Ok (), d1)"
    using assms(7,14) bind
    by (auto simp: server_call_def method_defs call_store_def empty_result_def obind_eq_Ok
        prod_eq_iff)
  have attrs: "gomap_ok ?attrs" "map_of ?attrs = map_of (spAttributes p)" using assms(4) by simp_all
  from assms(5) have t: "time_ok (UTC (ioNow w))" by (simp add: io_calm_def)
  from Store_table [OF assms(1-3) attrs(1) t st]
  have ok: "secret_ok (spName p) (spKind p) ?attrs (val_bytes (spValue p))"
    and T: "secrets_at A (cfPath cf) i d1
      = Some (T(spName p \<mapsto> stored w (spKind p) ?attrs (spValue p) (T (spName p))))" by simp_all
  from assms(6) have o: "ioOpen w' = None" by (simp add: io_calm_def)
  from ok have "text_ok (spName p)" by (simp add: secret_ok_def)
  from Get_eq [OF T o assms(2) this] obtain x
    where x: "Get A w' (cfPath cf) s (spName p) d1 = (Ok x, d1)" "dName x = spName p"
      "out_view x = stored w (spKind p) ?attrs (spValue p) (T (spName p))" by auto
  have bind': "Bind q' get_fields zero_get = Ok \<lparr> gpName = spName p \<rparr>"
    using assms(10,11) by (intro Bind_get) simp_all
  have "server_call A w' cf q' (s1, d1) = (Ok (RGet (toInfo x\<lparr>dValue := dValue x\<rparr>)), s1, d1)"
    using assms(9) by (simp add: server_call_def method_defs call_get_def bind' x(1) s1)
  then show ?thesis
    using x(2,3) attrs(2) by (simp add: toInfo_def out_view_def stored_def)
qed

text \<open>
  \<open>for\<close> counts seconds; from 9223372037 on the product with a second leaves the range of \<open>int64\<close>.
\<close>

lemma lock_after_small: "0 \<le> n \<Longrightarrow> n \<le> 9223372036 \<Longrightarrow> upFor p = Some n \<Longrightarrow> lock_after p = Some (n * Second)"
  by (simp add: lock_after_def Second_def wrap64_id int64_range_def)

lemma lock_after_overflow: "upFor p = Some 9223372037 \<Longrightarrow> lock_after p = Some (- 9223372036709551616)"
  by (simp add: lock_after_def Second_def wrap64_def)

lemma unlock_timer:
  assumes "session_inv s" and "Bind rq unlock_fields zero_unlock = Ok p" and "upFor p = Some n"
    and "call_unlock A w cf rq s d = (Ok res, s')"
  shows "(sTimer s' = None) = (wrap64 (n * Second) \<le> 0)"
proof -
  from assms(2,4) obtain u z
    where u: "Unlock A w (cfDefaultFor cf) (val_bytes (upIdentity p)) (lock_after p) s = (Ok u, s', z)"
    by (auto simp: call_unlock_def split: outcome.splits prod.splits)
  from Unlock_timer [OF assms(1) u refl] show ?thesis
    by (auto simp: lock_after_def assms(3) split: if_splits)
qed

text \<open>
  \<open>unlock\<close> is not one step: between \<open>Session.Unlock\<close> and the check of the identity another connection
  can run. Its pieces, for one connection:
\<close>

definition unlock_tail :: "'i age \<Rightarrow> io \<Rightarrow> config \<Rightarrow> 'i session \<Rightarrow> fs \<Rightarrow> presult res \<times> 'i session" where
  "unlock_tail A w cf s d =
     (case verifyIdentity A w cf s d of
        Er e \<Rightarrow> (Er e, Lock s)
      | Panic \<Rightarrow> (Panic, s)
      | Ok _ \<Rightarrow> (Ok REmpty, s))"

lemma call_unlock_split:
  "Bind rq unlock_fields zero_unlock = Ok p \<Longrightarrow>
   Unlock A w (cfDefaultFor cf) (val_bytes (upIdentity p)) (lock_after p) s = (Ok u, s1, z) \<Longrightarrow>
   call_unlock A w cf rq s d = unlock_tail A w cf s1 d"
  by (simp add: call_unlock_def unlock_tail_def)

end
