(* ===== verification/Client.thy ===== *)
theory Client
  imports Server
begin

text \<open>
  pkg/keycell: the client library (keycell.go, transport.go, value.go). A call opens a connection,
  sends one request and reads one response. What the network does is a record: how dialling and writing
  end, what the context says, and the connection on which the answer to a line arrives.
\<close>

section \<open>Values\<close>

text \<open>A \<open>*Value\<close> is its buffer; \<open>None\<close> is the nil pointer or a destroyed value, which behave alike.\<close>

type_synonym pvalue = "bytes option"

definition NewValue :: "bytes option \<Rightarrow> pvalue" where "NewValue b = b"
definition Expose :: "pvalue \<Rightarrow> bytes option" where "Expose v = v"

text \<open>\<open>Destroy\<close>: the buffer's bytes, and the value afterwards.\<close>

definition Destroy :: "pvalue \<Rightarrow> bytes option \<times> pvalue" where
  "Destroy v = (case v of None \<Rightarrow> (None, None) | Some b \<Rightarrow> (Some (zeroed b), None))"

definition value_String :: "pvalue \<Rightarrow> bytes" where
  "value_String v = ''[redacted]''"

definition value_MarshalJSON :: "pvalue \<Rightarrow> bytes res" where
  "value_MarshalJSON v = Er (New (lit ''keycell: Value is not serialisable''))"

section \<open>Transport\<close>

datatype dial = Connected | NoDaemon | DialFailed goerr

record network =
  nwDial :: dial
  nwCtx :: "goerr option"
  nwWrite :: "goerr option"
  nwReply :: "bytes \<Rightarrow> conn"

definition closed_early :: goerr where
  "closed_early =
     Wrap (lit (client_err_text CErrProtocol @ '': connection closed without response''))
       [Sentinel (ClientS CErrProtocol)]"

definition ioError :: "goerr option \<Rightarrow> goerr \<Rightarrow> goerr" where
  "ioError ctx e =
     (case ctx of
        Some c \<Rightarrow> c
      | None \<Rightarrow>
          if errors_is e (StdS OsDeadlineExceeded) then Sentinel (StdS DeadlineExceeded)
          else if errors_is e (StdS EOF) \<or> errors_is e (StdS UnexpectedEOF) then closed_early
          else wrap2 (Sentinel (ClientS CErrProtocol)) e)"

definition exchange :: "bytes \<Rightarrow> network \<Rightarrow> request \<Rightarrow> response res" where
  "exchange socket nw req =
     (case nwDial nw of
        NoDaemon \<Rightarrow> Er (Wrap (lit (client_err_text CErrNotRunning @ '': '' @ socket))
          [Sentinel (ClientS CErrNotRunning)])
      | DialFailed e \<Rightarrow> Er (wrapf (lit ''dial'') e)
      | Connected \<Rightarrow>
          (case nwWrite nw of
             Some e \<Rightarrow> Er (ioError (nwCtx nw) (wrapf (lit ''protocol: write'') e))
           | None \<Rightarrow>
               (case ReadResponse NewReader (nwReply nw (write_line (enc_request req))) of
                  (Er e, _, _) \<Rightarrow> Er (ioError (nwCtx nw) e)
                | (Panic, _, _) \<Rightarrow> Panic
                | (Ok resp, _, _) \<Rightarrow> Ok resp)))"

text \<open>
  \<open>roundTrip\<close>: \<open>n\<close> is the next request number. The result is decoded by \<open>dec\<close>; a call without a result
  passes \<open>None\<close>.
\<close>

definition call_prefix :: "bytes \<Rightarrow> msg" where
  "call_prefix meth = lit (''keycell: '' @ meth)"

definition roundTrip ::
  "bytes \<Rightarrow> network \<Rightarrow> nat \<Rightarrow> bytes \<Rightarrow> json option \<Rightarrow> (json \<Rightarrow> 'a option) option \<Rightarrow> 'a \<Rightarrow> 'a res" where
  "roundTrip socket nw n meth params dec zero =
     (case NewRequest (Some (JNum (print_int (int n)))) meth params of
        Er e \<Rightarrow> Er (wrapf (call_prefix meth) (wrap2 (Sentinel (ClientS CErrInvalidArgument)) e))
      | Panic \<Rightarrow> Panic
      | Ok req \<Rightarrow>
          (case exchange socket nw req of
             Er e \<Rightarrow> Er (wrapf (call_prefix meth) e)
           | Panic \<Rightarrow> Panic
           | Ok resp \<Rightarrow>
               (case rsError resp of
                  Some (code, text) \<Rightarrow> Er (wrapf (call_prefix meth) (ClientErr code (lit text)))
                | None \<Rightarrow>
                    if rsId resp \<noteq> rqId req then
                      Er (wrapf (call_prefix meth)
                        (Wrap (lit (client_err_text CErrProtocol @ '': response id '') @
                               (case rsId resp of None \<Rightarrow> [] | Some i \<Rightarrow> lit (print_json i)) @
                               lit '' does not match request'')
                          [Sentinel (ClientS CErrProtocol)]))
                    else
                      (case dec of
                         None \<Rightarrow> Ok zero
                       | Some f \<Rightarrow>
                           (case Option.bind (rsResult resp) f of
                              None \<Rightarrow> Er (wrapf (call_prefix meth)
                                (wrap2 (Sentinel (ClientS CErrProtocol)) (wrapf (lit ''result'') json_err)))
                            | Some x \<Rightarrow> Ok x)))))"

section \<open>Results\<close>

definition zero_info :: dsecret where
  "zero_info = \<lparr> dName = [], dKind = [], dAttributes = [], dValue = None, dCreated = zero_time,
     dUpdated = zero_time \<rparr>"

definition info_setters :: "(bytes \<times> dsecret setter) list" where
  "info_setters =
     [(''name'', \<lambda>x j. map_option (\<lambda>y. x\<lparr>dName := y\<rparr>) (dec_string (dName x) j)),
      (''kind'', \<lambda>x j. map_option (\<lambda>y. x\<lparr>dKind := y\<rparr>) (dec_string (dKind x) j)),
      (''attributes'', \<lambda>x j. map_option (\<lambda>y. x\<lparr>dAttributes := y\<rparr>) (dec_strmap (dAttributes x) j)),
      (''created'', \<lambda>x j. map_option (\<lambda>y. x\<lparr>dCreated := y\<rparr>) (dec_time (dCreated x) j)),
      (''updated'', \<lambda>x j. map_option (\<lambda>y. x\<lparr>dUpdated := y\<rparr>) (dec_time (dUpdated x) j))]"

definition get_setters :: "(bytes \<times> dsecret setter) list" where
  "get_setters = info_setters @
     [(''value'', \<lambda>x j. map_option (\<lambda>y. x\<lparr>dValue := y\<rparr>) (dec_bytes (dValue x) j))]"

definition dec_info :: "json \<Rightarrow> dsecret option" where
  "dec_info = dec_struct False info_setters zero_info"

definition dec_get :: "json \<Rightarrow> dsecret option" where
  "dec_get = dec_struct False get_setters zero_info"

definition dec_list :: "json \<Rightarrow> dsecret list option" where
  "dec_list j = (case j of JNull \<Rightarrow> Some [] | JArr js \<Rightarrow> those (map dec_info js) | _ \<Rightarrow> None)"

record cstatus =
  csProtocol :: int
  csLocked :: bool
  csLocksAt :: "gotime option"

definition zero_status :: cstatus where
  "zero_status = \<lparr> csProtocol = 0, csLocked = False, csLocksAt = None \<rparr>"

definition status_setters :: "(bytes \<times> cstatus setter) list" where
  "status_setters =
     [(''protocol'', \<lambda>x j. map_option (\<lambda>y. x\<lparr>csProtocol := y\<rparr>) (dec_int64 (csProtocol x) j)),
      (''locked'', \<lambda>x j. map_option (\<lambda>y. x\<lparr>csLocked := y\<rparr>) (dec_bool (csLocked x) j)),
      (''locks_at'', \<lambda>x j. if j = JNull then Some (x\<lparr>csLocksAt := None\<rparr>)
         else map_option (\<lambda>y. x\<lparr>csLocksAt := Some y\<rparr>)
           (dec_time (case csLocksAt x of None \<Rightarrow> zero_time | Some t \<Rightarrow> t) j))]"

section \<open>Calls\<close>

definition client_Get :: "bytes \<Rightarrow> network \<Rightarrow> nat \<Rightarrow> bytes \<Rightarrow> dsecret res" where
  "client_Get socket nw n name =
     roundTrip socket nw n MethodGet (Some (enc_get_params \<lparr> gpName = name \<rparr>)) (Some dec_get) zero_info"

definition client_Store :: "bytes \<Rightarrow> network \<Rightarrow> nat \<Rightarrow> dsecret \<Rightarrow> unit res" where
  "client_Store socket nw n sec =
     (if Expose (dValue sec) = None then
        Er (Wrap (lit (''keycell: store: '' @ client_err_text CErrInvalidArgument @ '': value is nil''))
          [Sentinel (ClientS CErrInvalidArgument)])
      else roundTrip socket nw n MethodStore
        (Some (enc_store_params \<lparr> spName = dName sec, spKind = dKind sec,
           spAttributes = dAttributes sec, spValue = Expose (dValue sec) \<rparr>)) None ())"

definition client_Delete :: "bytes \<Rightarrow> network \<Rightarrow> nat \<Rightarrow> bytes \<Rightarrow> unit res" where
  "client_Delete socket nw n name =
     roundTrip socket nw n MethodDelete (Some (enc_delete_params \<lparr> dpName = name \<rparr>)) None ()"

definition client_List :: "bytes \<Rightarrow> network \<Rightarrow> nat \<Rightarrow> sfilter \<Rightarrow> dsecret list res" where
  "client_List socket nw n f =
     roundTrip socket nw n MethodList
       (Some (enc_list_params \<lparr> lpKind = fKind f, lpPrefix = fPrefix f, lpAttributes = fAttributes f \<rparr>))
       (Some dec_list) []"

text \<open>\<open>unlock\<close> also returns the identity buffer, zeroed.\<close>

definition client_unlock ::
  "bytes \<Rightarrow> network \<Rightarrow> nat \<Rightarrow> bytes \<Rightarrow> int option \<Rightarrow> unit res \<times> bytes" where
  "client_unlock socket nw n identity secs =
     (roundTrip socket nw n MethodUnlock
        (Some (enc_unlock_params \<lparr> upIdentity = Some identity, upFor = secs \<rparr>)) None (),
      zeroed identity)"

definition client_Unlock :: "bytes \<Rightarrow> network \<Rightarrow> nat \<Rightarrow> bytes \<Rightarrow> unit res \<times> bytes" where
  "client_Unlock socket nw n identity = client_unlock socket nw n identity None"

text \<open>Integer division of durations truncates towards zero.\<close>

definition whole_seconds :: "int \<Rightarrow> int" where
  "whole_seconds d = (if 0 \<le> d then d div Second else - ((- d) div Second))"

definition client_UnlockFor :: "bytes \<Rightarrow> network \<Rightarrow> nat \<Rightarrow> bytes \<Rightarrow> int \<Rightarrow> unit res \<times> bytes" where
  "client_UnlockFor socket nw n identity d = client_unlock socket nw n identity (Some (whole_seconds d))"

definition client_Lock :: "bytes \<Rightarrow> network \<Rightarrow> nat \<Rightarrow> unit res" where
  "client_Lock socket nw n = roundTrip socket nw n MethodLock (Some enc_empty) None ()"

definition client_Status :: "bytes \<Rightarrow> network \<Rightarrow> nat \<Rightarrow> cstatus res" where
  "client_Status socket nw n =
     roundTrip socket nw n MethodStatus (Some enc_empty)
       (Some (dec_struct False status_setters zero_status)) zero_status"

definition ConnectSocket :: "bytes \<Rightarrow> network \<Rightarrow> nat \<Rightarrow> bytes res" where
  "ConnectSocket socket nw n = obind (client_Status socket nw n) (\<lambda>_. Ok socket)"

section \<open>The length of a message\<close>

definition toks_len :: "tok list \<Rightarrow> nat" where
  "toks_len ts = length (concat (map tok_text ts))"

lemma toks_len_simps [simp]:
  "toks_len [] = 0" "toks_len (t # ts) = length (tok_text t) + toks_len ts"
  "toks_len (a @ b) = toks_len a + toks_len b"
  by (simp_all add: toks_len_def)

lemma print_json_len: "length (print_json j) = toks_len (toks j)"
  by (simp add: print_json_def toks_len_def)

lemma join_tok_len:
  "toks_len (join_tok xss) \<le> sum_list (map (\<lambda>xs. Suc (toks_len xs)) xss)"
  "sum_list (map toks_len xss) \<le> toks_len (join_tok xss)"
  by (induction xss rule: join_tok.induct) auto

lemma obj_len:
  "length (print_json (JObj ms)) \<le> 2 + sum_list (map (\<lambda>(k, j). length k + 4 + length (print_json j)) ms)"
proof -
  have "map (\<lambda>xs. Suc (toks_len xs)) (map (\<lambda>(k, j). TStr k # TColon # toks j) ms)
      = map (\<lambda>(k, j). length k + 4 + length (print_json j)) ms"
    by (auto simp: print_json_len)
  then show ?thesis
    using join_tok_len(1) [of "map (\<lambda>(k, j). TStr k # TColon # toks j) ms"]
    by (simp only: print_json_len toks.simps toks_len_simps tok_text.simps list.size)
qed

lemma arr_len: "sum_list (map (\<lambda>j. length (print_json j)) js) \<le> length (print_json (JArr js))"
  using join_tok_len(2) [of "map toks js"] by (simp add: print_json_len comp_def)

lemma esc_ascii_len: "length (esc_ascii h c) \<le> 6"
  by (simp add: esc_ascii_def u_esc_def hex4_def)

lemma quote_lit_len: "length (quote_lit h s) \<le> 6 * length s"
proof (induction h s rule: quote_lit.induct)
  case (2 h c cs)
  show ?case
  proof (cases "byte_of c < (128::nat)")
    case True
    then show ?thesis
      using "2.IH"(1) [OF True] esc_ascii_len [of h c] by (simp add: quote_lit.simps(2))
  next
    case False
    show ?thesis
    proof (cases "utf8_head (c # cs)")
      case None
      then show ?thesis
        using False "2.IH"(2) [OF False None] by (simp add: quote_lit.simps(2) u_esc_def hex4_def)
    next
      case (Some q)
      obtain r n where q: "q = (r, n)" by (cases q)
      with Some have n: "1 \<le> n" "n \<le> length (c # cs)" using utf8_head_len by blast+
      have "length (if r = 8232 \<or> r = 8233 then u_esc r else take n (c # cs)) \<le> 6 * n"
        using n by (auto simp: u_esc_def hex4_def)
      moreover have "length (quote_lit h (drop n (c # cs))) \<le> 6 * (length (c # cs) - n)"
        using "2.IH"(3) [OF False Some q [symmetric]] by simp
      ultimately show ?thesis
        using False Some q n by (simp add: quote_lit.simps(2) del: drop_Suc_Cons take_Suc_Cons)
    qed
  qed
qed simp

lemma scalar_len:
  "length (print_json (enc_string t)) \<le> 6 * length t + 2"
  "length (print_json (enc_plain t)) \<le> 6 * length t + 2"
  "length (print_json (enc_bytes b)) \<le> 4 * ((length (val_bytes b) + 2) div 3) + 6"
  "length (print_json (JNum x)) = length x"
  using quote_lit_len [of True t] quote_lit_len [of False t]
  by (simp_all add: print_json_len enc_string_def enc_plain_def enc_bytes_def val_bytes_def
      length_b64_encode split: option.split)

lemma rtrim0_len: "length (rtrim0 s) \<le> length s"
  using length_dropWhile_le [of _ "rev s"] by (simp add: rtrim0_def)

lemma time_len: "length (print_json (enc_time t)) \<le> 37"
  using rtrim0_len [of "pad 9 (nat (local_ns t) mod 1000000000)"]
  by (auto simp: print_json_len enc_time_def time_text_def date_text_def clock_text_def frac_text_def
      zone_text_def Let_def split: prod.split)

text \<open>
  The bound of the protocol: a secret of maximal size without attributes, whatever its name and kind,
  fits into a request and into the response to \<open>get\<close>.
\<close>

lemma text_ok_len: "text_ok t \<Longrightarrow> length t \<le> 256"
  by (simp add: text_ok_def)

lemma slug_len: "isSlug t \<Longrightarrow> length t \<le> 64"
  by (simp add: isSlug.simps limits split: if_splits)

lemma request_fits:
  assumes "secret_ok name kind [] (val_bytes val)" and "length (print_json rid) \<le> 64"
  shows "length (print_json (enc_request \<lparr> rqId = Some rid, rqMethod = MethodStore,
      rqParams = Some (enc_store_params \<lparr> spName = name, spKind = kind, spAttributes = [], spValue = val \<rparr>) \<rparr>))
    \<le> MaxLineLen"
proof -
  let ?p = "enc_store_params \<lparr> spName = name, spKind = kind, spAttributes = [], spValue = val \<rparr>"
  have n: "length name \<le> 256" "length kind \<le> 64" "length (val_bytes val) \<le> 1048576"
    using assms(1) text_ok_len slug_len by (auto simp: secret_ok_def)
  have "(length (val_bytes val) + 2) div 3 \<le> 349526" using n(3) by simp
  then have "length (print_json ?p) \<le> 1400500"
    using obj_len [of "fld ''name'' (enc_string name) @ fld ''kind'' (enc_string kind)
        @ fld ''value'' (enc_bytes val)"]
      scalar_len(1) [of name] scalar_len(1) [of kind] scalar_len(3) [of val] n
    by (simp add: enc_store_params_def fld_def fld_if_def)
  then show ?thesis
    using obj_len [of "fld ''id'' rid @ fld ''method'' (enc_plain MethodStore) @ fld ''params'' ?p"]
      scalar_len(2) [of MethodStore] assms(2)
    by (simp add: enc_request_def fld_def raw_or_null_def MaxLineLen_eq method_defs)
qed

lemma response_fits:
  assumes "secret_ok (dName x) (dKind x) [] (val_bytes (dValue x))" and "dAttributes x = []"
    and "length (print_json rid) \<le> 64" and "enc_result (RGet x) = Some j"
  shows "length (print_json (enc_response \<lparr> rsId = Some rid, rsResult = Some j, rsError = None \<rparr>))
    \<le> MaxLineLen"
proof -
  have n: "length (dName x) \<le> 256" "length (dKind x) \<le> 64" "length (val_bytes (dValue x)) \<le> 1048576"
    using assms(1) text_ok_len slug_len by (auto simp: secret_ok_def)
  have "(length (val_bytes (dValue x)) + 2) div 3 \<le> 349526" using n(3) by simp
  moreover have j: "j = JObj (info_fields x @ fld ''value'' (enc_bytes (dValue x)))"
    using assms(4) by (simp split: if_splits)
  ultimately have "length (print_json j) \<le> 1400700"
    using obj_len [of "info_fields x @ fld ''value'' (enc_bytes (dValue x))"]
      scalar_len(1) [of "dName x"] scalar_len(1) [of "dKind x"] scalar_len(3) [of "dValue x"] n
      time_len [of "dCreated x"] time_len [of "dUpdated x"]
    by (simp add: info_fields_def fld_def fld_if_def assms(2))
  then show ?thesis
    using obj_len [of "fld ''id'' rid @ fld ''result'' j"] assms(3)
    by (simp add: enc_response_def fld_def raw_or_null_def MaxLineLen_eq)
qed

text \<open>A list has no bound: from some number of secrets on its response is longer than a line may be.\<close>

lemma list_too_long:
  assumes "list_all info_times_ok xs" and "MaxLineLen \<le> length xs"
    and "enc_result (RList xs) = Some j"
  shows "MaxLineLen < length (print_json (enc_response \<lparr> rsId = rid, rsResult = Some j, rsError = None \<rparr>))"
proof -
  have j: "j = JArr (map (\<lambda>x. JObj (info_fields x)) xs)" using assms(1,3) by simp
  have "length ys \<le> sum_list (map (\<lambda>x. length (print_json (JObj (info_fields x)))) ys)" for ys
    by (induction ys) (simp_all add: print_json_len)
  from this [of xs] have "length xs \<le> length (print_json j)"
    using arr_len [of "map (\<lambda>x. JObj (info_fields x)) xs"] by (simp add: j comp_def)
  moreover have "length (print_json j) < length (print_json (enc_response
      \<lparr> rsId = rid, rsResult = Some j, rsError = None \<rparr>))"
    by (simp add: print_json_len enc_response_def fld_def)
  ultimately show ?thesis using assms(2) by simp
qed

section \<open>A client and a daemon\<close>

text \<open>The connection a daemon gives a client: its answer to the line the client sends.\<close>

definition daemon_reply ::
  "'i age \<Rightarrow> texts \<Rightarrow> config \<Rightarrow> wire \<Rightarrow> 'i session \<times> fs \<Rightarrow> bytes \<Rightarrow> conn" where
  "daemon_reply A X cf z sd line =
     map (\<lambda>p. Data (write_line (enc_response p))) (fst (handle A X cf z 0 NewReader [Data line] sd))"

definition linked :: "'i age \<Rightarrow> texts \<Rightarrow> config \<Rightarrow> wire \<Rightarrow> 'i session \<times> fs \<Rightarrow> network" where
  "linked A X cf z sd = \<lparr> nwDial = Connected, nwCtx = None, nwWrite = None,
     nwReply = daemon_reply A X cf z sd \<rparr>"

lemma held_New [simp]: "held NewReader = []"
  by (simp add: held_def NewReader_def)

lemma readLine_message:
  assumes "json_ok j" and "length (print_json j) \<le> MaxLineLen"
  obtains r' cs' where "readLine NewReader [Data (write_line j)] = (Ok (print_json j), r', cs')"
    and "reader_inv (consume (length (print_json j)) r')" and "plain_conn cs'"
    and "held (consume (length (print_json j)) r') = []" and "stream cs' = []"
proof -
  obtain res r' cs' where l: "readLine NewReader [Data (write_line j)] = (res, r', cs')"
    by (metis prod_cases3)
  have plain: "plain_conn [Data (write_line j)]" by simp
  have "res = spec_line (write_line j @ [])"
    using readLine_spec [OF reader_inv_New plain l] by simp
  then have res: "res = Ok (print_json j)" by (simp only: spec_line_message [OF assms])
  from readLine_consume [OF reader_inv_New plain] l res
  have c: "reader_inv (consume (length (print_json j)) r')" "plain_conn cs'"
    "print_json j @ LF # held (consume (length (print_json j)) r') @ stream cs' = write_line j @ []"
    by auto
  then show thesis using that l res by (simp add: write_line_def)
qed

lemma ReadRequest_end:
  assumes "reader_inv r" and "plain_conn cs" and "held r = []" and "stream cs = []"
  shows "\<exists>r' cs'. ReadRequest r cs = (Ok (None, Some eof), r', cs')"
proof -
  obtain res r' cs' where l: "readLine r cs = (res, r', cs')" by (metis prod_cases3)
  from readLine_spec [OF assms(1,2) l] assms(3,4) have "res = Er eof"
    by (simp add: spec_line_def)
  with l show ?thesis by (simp add: ReadRequest_def)
qed

lemma eof_simps [simp]: "errors_as_proto eof = None" "errors_is eof LineTooLongS = False"
  by (simp_all add: eof_def)

lemma handle_one:
  assumes "request_ok q" and "length (print_json (enc_request q)) \<le> MaxLineLen"
    and "dispatch A X (wrIo z 0) cf q sd = (Some resp, sd')" and "wrWrites z 0"
  shows "handle A X cf z 0 NewReader [Data (write_line (enc_request q))] sd = ([resp], False, sd')"
proof -
  have "json_ok (enc_request q)" using enc_request_ok [OF assms(1)] by simp
  from readLine_message [OF this assms(2)] obtain r' cs'
    where l: "readLine NewReader [Data (write_line (enc_request q))]
        = (Ok (print_json (enc_request q)), r', cs')"
      and c: "reader_inv (consume (length (print_json (enc_request q))) r')" "plain_conn cs'"
        "held (consume (length (print_json (enc_request q))) r') = []" "stream cs' = []" .
  from ReadRequest_end [OF c] obtain r2 cs2
    where e: "ReadRequest (consume (length (print_json (enc_request q))) r') cs'
      = (Ok (None, Some eof), r2, cs2)" by blast
  have "handle A X cf z (Suc 0) (consume (length (print_json (enc_request q))) r') cs' sd'
      = ([], False, sd')"
    by (subst handle.simps) (simp add: e)
  then show ?thesis
    by (subst handle.simps) (simp add: ReadRequest_def l parse_request_print [OF assms(1)] assms(3,4))
qed

lemma ReadResponse_one:
  assumes "response_ok p" and "length (print_json (enc_response p)) \<le> MaxLineLen"
  shows "\<exists>r' cs'. ReadResponse NewReader [Data (write_line (enc_response p))] = (Ok p, r', cs')"
proof -
  have "json_ok (enc_response p)" using enc_response_ok [OF assms(1)] by simp
  from readLine_message [OF this assms(2)] obtain r' cs'
    where "readLine NewReader [Data (write_line (enc_response p))]
        = (Ok (print_json (enc_response p)), r', cs')" .
  then show ?thesis by (simp add: ReadResponse_def parse_response_print [OF assms(1)])
qed

lemma exchange_linked:
  assumes "request_ok q" and "length (print_json (enc_request q)) \<le> MaxLineLen"
    and "dispatch A X (wrIo z 0) cf q sd = (Some resp, sd')" and "wrWrites z 0"
    and "response_ok resp" and "length (print_json (enc_response resp)) \<le> MaxLineLen"
  shows "exchange socket (linked A X cf z sd) q = Ok resp"
  using ReadResponse_one [OF assms(5,6)]
  by (auto simp: exchange_def linked_def daemon_reply_def handle_one [OF assms(1-4)])

definition request_no :: "nat \<Rightarrow> json" where
  "request_no n = JNum (print_int (int n))"

lemma request_no_ok [simp]: "doc_ok (request_no n)" "request_no n \<noteq> JNull"
  by (simp_all add: request_no_def doc_ok_def valid_num_print print_int_chars MaxDepth_def)

lemma roundTrip_linked:
  fixes sd :: "'i session \<times> fs"
  defines "q \<equiv> \<lambda>n meth params. \<lparr> rqId = Some (request_no n), rqMethod = meth, rqParams = Some params \<rparr>"
  assumes "meth \<in> set methods" and "doc_ok params"
    and "length (print_json (enc_request (q n meth params))) \<le> MaxLineLen"
    and "dispatch A X (wrIo z 0) cf (q n meth params) sd = (Some resp, sd')" and "wrWrites z 0"
    and "response_ok resp" and "length (print_json (enc_response resp)) \<le> MaxLineLen"
    and "rsId resp = Some (request_no n)" and "rsError resp = None"
  shows "roundTrip socket (linked A X cf z sd) n meth (Some params) dec zero =
    (case dec of
       None \<Rightarrow> Ok zero
     | Some f \<Rightarrow>
         (case Option.bind (rsResult resp) f of
            None \<Rightarrow> Er (wrapf (call_prefix meth)
              (wrap2 (Sentinel (ClientS CErrProtocol)) (wrapf (lit ''result'') json_err)))
          | Some x \<Rightarrow> Ok x))"
proof -
  have "request_ok (q n meth params)" using assms(2,3) by (simp add: request_ok_def q_def)
  from exchange_linked [OF this assms(4-8)] show ?thesis
    using assms(9,10) by (simp add: roundTrip_def NewRequest_def request_no_def q_def)
qed

subsection \<open>Reading results\<close>

lemma result_names [simp]:
  "unquote_lit ''protocol'' = Some ''protocol''" "unquote_lit ''locked'' = Some ''locked''"
  "unquote_lit ''locks_at'' = Some ''locks_at''"
  by (rule unquote_plain, simp)+

definition info_ok :: "dsecret \<Rightarrow> bool" where
  "info_ok x \<longleftrightarrow> utf8_valid (dName x) \<and> utf8_valid (dKind x) \<and> gomap_ok (dAttributes x)
     \<and> (\<forall>(k, v) \<in> set (dAttributes x). utf8_valid k \<and> utf8_valid v)
     \<and> time_ok (dCreated x) \<and> time_ok (dUpdated x)"

definition norm_info :: "dsecret \<Rightarrow> dsecret" where
  "norm_info x = x\<lparr>dAttributes := sort_key fst (dAttributes x)\<rparr>"

lemma dec_get_enc:
  assumes "info_ok x"
  shows "enc_result (RGet x) = Some (JObj (info_fields x @ fld ''value'' (enc_bytes (dValue x))))"
    and "dec_get (JObj (info_fields x @ fld ''value'' (enc_bytes (dValue x)))) = Some (norm_info x)"
proof -
  show "enc_result (RGet x) = Some (JObj (info_fields x @ fld ''value'' (enc_bytes (dValue x))))"
    using assms by (simp add: info_ok_def info_times_ok_def)
  show "dec_get (JObj (info_fields x @ fld ''value'' (enc_bytes (dValue x)))) = Some (norm_info x)"
    using assms
    by (cases "dAttributes x = []")
      (simp_all add: info_ok_def dec_get_def dec_struct_def get_setters_def info_setters_def
        info_fields_def fld_def fld_if_def find_field_def zero_info_def dec_strmap_enc norm_info_def)
qed

lemma dec_info_enc:
  assumes "info_ok x" and "dValue x = None"
  shows "dec_info (JObj (info_fields x)) = Some (norm_info x)"
  using assms
  by (cases "dAttributes x = []")
    (simp_all add: info_ok_def dec_info_def dec_struct_def info_setters_def
      info_fields_def fld_def fld_if_def find_field_def zero_info_def dec_strmap_enc norm_info_def)

lemma dec_list_enc:
  assumes "\<forall>x \<in> set xs. info_ok x \<and> dValue x = None"
  shows "enc_result (RList xs) = Some (JArr (map (\<lambda>x. JObj (info_fields x)) xs))"
    and "dec_list (JArr (map (\<lambda>x. JObj (info_fields x)) xs)) = Some (map norm_info xs)"
proof -
  show "enc_result (RList xs) = Some (JArr (map (\<lambda>x. JObj (info_fields x)) xs))"
    using assms by (auto simp: list_all_iff info_ok_def info_times_ok_def)
  have "those (map dec_info (map (\<lambda>x. JObj (info_fields x)) xs)) = Some (map norm_info xs)"
    using assms by (induction xs) (simp_all add: dec_info_enc)
  then show "dec_list (JArr (map (\<lambda>x. JObj (info_fields x)) xs)) = Some (map norm_info xs)"
    by (simp add: dec_list_def)
qed

lemma dec_status_enc:
  assumes "enc_result (RStatus v locked t) = Some j" and "int64_range v"
  shows "dec_struct False status_setters zero_status j
    = Some \<lparr> csProtocol = v, csLocked = locked, csLocksAt = t \<rparr>"
proof (cases t)
  case None
  with assms have j: "j = JObj (fld ''protocol'' (enc_int v) @ fld ''locked'' (JBool locked))" by simp
  show ?thesis
    using assms(2) None
    by (simp add: j fld_def dec_struct_def status_setters_def find_field_def zero_status_def)
next
  case (Some t')
  with assms have "time_ok t'" and j: "j = JObj (fld ''protocol'' (enc_int v)
      @ fld ''locked'' (JBool locked) @ fld ''locks_at'' (enc_time t'))"
    by (auto split: if_splits)
  then show ?thesis
    using assms(2) Some
    by (simp add: j fld_def dec_struct_def status_setters_def find_field_def zero_status_def enc_time_def
        dec_time_def parse_time_text)
qed

subsection \<open>A secret through the wire and back\<close>

text \<open>The state of the daemon after it has served one line.\<close>

definition daemon_after ::
  "'i age \<Rightarrow> texts \<Rightarrow> config \<Rightarrow> wire \<Rightarrow> 'i session \<times> fs \<Rightarrow> bytes \<Rightarrow> 'i session \<times> fs" where
  "daemon_after A X cf z sd line = snd (snd (handle A X cf z 0 NewReader [Data line] sd))"

definition message_line :: "nat \<Rightarrow> bytes \<Rightarrow> json \<Rightarrow> bytes" where
  "message_line n meth params = write_line (enc_request
     \<lparr> rqId = Some (request_no n), rqMethod = meth, rqParams = Some params \<rparr>)"

lemma dec_nat_len: "n < 10 ^ Suc k \<Longrightarrow> length (dec_nat n) \<le> Suc k"
proof (induction k arbitrary: n)
  case (Suc k)
  show ?case
  proof (cases "n < 10")
    case False
    from Suc.prems have "n div 10 < 10 ^ Suc k" by (simp add: less_mult_imp_div_less mult.commute)
    with Suc.IH False show ?thesis by (subst dec_nat.simps) simp
  qed (subst dec_nat.simps, simp)
qed (subst dec_nat.simps, simp)

lemma request_no_len: "n < 2 ^ 64 \<Longrightarrow> length (print_json (request_no n)) \<le> 64"
  using dec_nat_len [of n 19] by (simp add: request_no_def print_json_len print_int_def)

lemma Get_Ok_name:
  assumes "Get A w path s name d = (Ok x, d')"
  shows "info_ok x"
proof -
  obtain i where i: "sId s = Some i"
    using assms by (cases "sId s") (simp_all add: Get_def sess.use_locked)
  have r: "obind (or_invalid (ValidateName name)) (\<lambda>_. obind (Read_file A w path i d) (\<lambda>v.
      deferred_wipe v (case map_of (vSecrets v) name of
           None \<Rightarrow> Er (Sentinel (DaemonS ErrNotFound))
         | Some p \<Rightarrow> obind (toSecret name p) (\<lambda>out. Ok (out\<lparr>dValue := Option.bind p vValue\<rparr>))))) = Ok x"
    using assms unfolding Get_def sess.use_open [OF i] prod.inject by (rule conjunct1)
  then have val: "ValidateName name = Ok ()" by (cases "ValidateName name") simp_all
  then have n: "text_ok name" by simp
  obtain v where v: "Read_file A w path i d = Ok v"
    using r val by (cases "Read_file A w path i d") simp_all
  have w: "deferred_wipe v (case map_of (vSecrets v) name of
           None \<Rightarrow> Er (Sentinel (DaemonS ErrNotFound))
         | Some p \<Rightarrow> obind (toSecret name p) (\<lambda>out. Ok (out\<lparr>dValue := Option.bind p vValue\<rparr>))) = Ok x"
    using r by (simp only: val v or_invalid.simps obind.simps)
  have "no_nil v" using w by (cases "no_nil v") (simp_all add: wipe_nil)
  with w obtain p where p: "map_of (vSecrets v) name = Some p"
    and x: "obind (toSecret name p) (\<lambda>out. Ok (out\<lparr>dValue := Option.bind p vValue\<rparr>)) = Ok x"
    by (auto split: option.splits)
  have "ptr_ok p"
    using Read_file_wf [OF v] map_of_SomeD [OF p] by (auto simp: vault_ok_secrets secrets_ok_def)
  with x n show ?thesis
    by (auto simp: toSecret_def ptr_ok_def info_ok_def vsecret_ok_def text_ok_def split: option.splits)
qed

lemma enc_params_doc_ok:
  "doc_ok (enc_get_params g)" "doc_ok (enc_store_params p)"
  using json_depth_enc_strmap [of "spAttributes p"]
  by (auto simp: doc_ok_def enc_get_params_def enc_store_params_def fld_def fld_if_def MaxDepth_def)

lemma method_members [simp]:
  "MethodGet \<in> set methods" "MethodStore \<in> set methods" "MethodDelete \<in> set methods"
  "MethodList \<in> set methods" "MethodUnlock \<in> set methods" "MethodLock \<in> set methods"
  "MethodStatus \<in> set methods"
  by (simp_all add: methods_def)

lemma client_get_daemon:
  assumes "sId s = Some i" and "secrets_at A (cfPath cf) i d = Some T" and "T name = Some (k, v, a, c, u)"
    and "secret_ok name k [] (val_bytes v)" and "a = Map.empty"
    and "ioOpen (wrIo z 0) = None" and "wrWrites z 0" and "n < 2 ^ 64"
  shows "client_Get socket (linked A X cf z (s, d)) n name
    = Ok \<lparr> dName = name, dKind = k, dAttributes = [], dValue = v, dCreated = c, dUpdated = u \<rparr>"
proof -
  have name: "text_ok name" using assms(4) by (simp add: secret_ok_def)
  from Get_eq [OF assms(2,6,1) name] assms(3) obtain x
    where g: "Get A (wrIo z 0) (cfPath cf) s name d = (Ok x, d)" and x: "dName x = name"
      "out_view x = (k, v, a, c, u)" by auto
  then have eq: "x = \<lparr> dName = name, dKind = k, dAttributes = [], dValue = v, dCreated = c, dUpdated = u \<rparr>"
    using assms(5) by (cases x) (auto simp: out_view_def)
  have ok: "info_ok x" by (rule Get_Ok_name [OF g])
  let ?q = "\<lparr> rqId = Some (request_no n), rqMethod = MethodGet,
    rqParams = Some (enc_get_params \<lparr> gpName = name \<rparr>) \<rparr>"
  let ?j = "JObj (info_fields x @ fld ''value'' (enc_bytes (dValue x)))"
  let ?resp = "\<lparr> rsId = Some (request_no n), rsResult = Some ?j, rsError = None \<rparr>"
  have "Bind ?q get_fields zero_get = Ok \<lparr> gpName = name \<rparr>"
    using name by (intro Bind_get) (simp_all add: text_ok_def)
  then have "server_call A (wrIo z 0) cf ?q (s, d) = (Ok (RGet x), s, d)"
    by (simp add: server_call_def method_defs call_get_def g toInfo_def)
  then have dis: "dispatch A X (wrIo z 0) cf ?q (s, d) = (Some ?resp, s, d)"
    by (simp add: dispatch_def NewResult_def dec_get_enc(1) [OF ok] del: enc_result.simps)
  have len: "length (print_json (enc_request ?q)) \<le> MaxLineLen"
    using obj_len [of "fld ''id'' (request_no n) @ fld ''method'' (enc_plain MethodGet)
        @ fld ''params'' (enc_get_params \<lparr> gpName = name \<rparr>)"]
      obj_len [of "fld ''name'' (enc_string name)"] scalar_len(1) [of name] scalar_len(2) [of MethodGet]
      request_no_len [OF assms(8)] text_ok_len [OF name]
    by (simp add: enc_request_def raw_or_null_def enc_get_params_def fld_def MaxLineLen_eq method_defs)
  have len': "length (print_json (enc_response ?resp)) \<le> MaxLineLen"
    using assms(4) request_no_len [OF assms(8)] dec_get_enc(1) [OF ok] eq
    by (intro response_fits) simp_all
  have "response_ok ?resp"
    using doc_ok_result [OF dec_get_enc(1) [OF ok]] by (simp add: response_ok_def)
  from roundTrip_linked [OF _ enc_params_doc_ok(1) len dis assms(7) this len',
      where socket = socket and dec = "Some dec_get" and zero = zero_info]
  have "client_Get socket (linked A X cf z (s, d)) n name = Ok (norm_info x)"
    by (simp add: client_Get_def dec_get_enc(2) [OF ok])
  then show ?thesis by (simp add: eq norm_info_def)
qed

lemma client_store_daemon:
  fixes sec :: dsecret
  defines "p \<equiv> \<lparr> spName = dName sec, spKind = dKind sec, spAttributes = [], spValue = dValue sec \<rparr>"
  assumes "sId s = Some i" and "secrets_at A (cfPath cf) i d = Some T" and "dAttributes sec = []"
    and "dValue sec = Some b" and "secret_ok (dName sec) (dKind sec) [] b"
    and "no_faults A (wrIo z 0)" and "time_ok (UTC (ioNow (wrIo z 0)))" and "wrWrites z 0"
    and "n < 2 ^ 64"
  shows "client_Store socket (linked A X cf z (s, d)) n sec = Ok ()"
    and "\<exists>d'. daemon_after A X cf z (s, d) (message_line n MethodStore (enc_store_params p)) = (s, d')
      \<and> Store_secret A (wrIo z 0) (cfPath cf) s (dName sec) (dKind sec) [] (dValue sec) d = (Ok (), d')"
proof -
  have ok: "secret_ok (dName sec) (dKind sec) [] (val_bytes (dValue sec))"
    using assms(5,6) by (simp add: val_bytes_def)
  from Store_succeeds [OF assms(7,2,3) ok gomap_ok_Nil assms(8)] obtain d'
    where st: "Store_secret A (wrIo z 0) (cfPath cf) s (dName sec) (dKind sec) [] (dValue sec) d = (Ok (), d')"
    by blast
  let ?q = "\<lparr> rqId = Some (request_no n), rqMethod = MethodStore, rqParams = Some (enc_store_params p) \<rparr>"
  let ?resp = "\<lparr> rsId = Some (request_no n), rsResult = Some enc_empty, rsError = None \<rparr>"
  have "Bind ?q store_fields zero_store = Ok (p\<lparr>spAttributes := sort_key fst (spAttributes p)\<rparr>)"
    using ok slug_valid by (intro Bind_store) (simp_all add: p_def secret_ok_def text_ok_def)
  then have "server_call A (wrIo z 0) cf ?q (s, d) = (Ok REmpty, s, d')"
    using st by (simp add: server_call_def method_defs call_store_def p_def empty_result_def)
  then have dis: "dispatch A X (wrIo z 0) cf ?q (s, d) = (Some ?resp, s, d')"
    by (simp add: dispatch_def NewResult_def)
  have len: "length (print_json (enc_request ?q)) \<le> MaxLineLen"
    using request_fits [OF ok request_no_len [OF assms(10)]] by (simp add: p_def)
  have rok: "response_ok ?resp"
    using request_no_ok(1) [of n] by (simp add: response_ok_def) (simp add: doc_ok_def enc_empty_def MaxDepth_def)
  have len': "length (print_json (enc_response ?resp)) \<le> MaxLineLen"
    using obj_len [of "fld ''id'' (request_no n) @ fld ''result'' enc_empty"] request_no_len [OF assms(10)]
    by (simp add: enc_response_def raw_or_null_def fld_def MaxLineLen_eq enc_empty_def print_json_len)
  show "client_Store socket (linked A X cf z (s, d)) n sec = Ok ()"
    using roundTrip_linked [OF _ enc_params_doc_ok(2) len dis assms(9) rok len', where dec = None and zero = "()"]
    by (simp add: client_Store_def Expose_def assms(4,5) p_def)
  have "request_ok ?q" using enc_params_doc_ok(2) by (simp add: request_ok_def)
  from handle_one [OF this len dis assms(9)] st
  show "\<exists>d'. daemon_after A X cf z (s, d) (message_line n MethodStore (enc_store_params p)) = (s, d')
      \<and> Store_secret A (wrIo z 0) (cfPath cf) s (dName sec) (dKind sec) [] (dValue sec) d = (Ok (), d')"
    by (simp add: daemon_after_def message_line_def)
qed

end
