(* ===== verification/Credentials.thy ===== *)
theory Credentials
  imports Client
begin

text \<open>
  What the command-line front ends share: the client they talk to, as a record of operations on a
  state, their outputs, and the mapping of client errors to messages and exit codes
  (cmd/keycell/main.go and cmd/docker-credential-keycell/main.go).
\<close>

section \<open>The client a command uses\<close>

record 'st client =
  clConnect :: "'st \<Rightarrow> unit res"
  clList :: "sfilter \<Rightarrow> 'st \<Rightarrow> dsecret list res"
  clGet :: "bytes \<Rightarrow> 'st \<Rightarrow> dsecret res"
  clStore :: "dsecret \<Rightarrow> 'st \<Rightarrow> unit res \<times> 'st"
  clDelete :: "bytes \<Rightarrow> 'st \<Rightarrow> unit res \<times> 'st"

text \<open>What a command leaves: standard output, a message on standard error, an exit code.\<close>

record cmd_out =
  outText :: bytes
  outErr :: msg
  outCode :: nat

definition success :: "bytes \<Rightarrow> cmd_out" where
  "success t = \<lparr> outText = t, outErr = [], outCode = 0 \<rparr>"

definition exit_with :: "msg \<Rightarrow> nat \<Rightarrow> cmd_out" where
  "exit_with m code = \<lparr> outText = [], outErr = m, outCode = code \<rparr>"

definition quoted :: "bytes \<Rightarrow> bytes" where
  "quoted t = CHR 0x27 # t @ [CHR 0x27]"

definition exitError :: "goerr \<Rightarrow> cmd_out" where
  "exitError e =
     (if errors_is e (ClientS CErrLocked) then
        exit_with (lit (''keycell: daemon is locked, run '' @ quoted ''keycell unlock'')) 1
      else if errors_is e (ClientS CErrNotRunning) then
        exit_with (lit (''keycell: daemon is not running, run ''
          @ quoted ''systemctl --user start keycell'')) 1
      else case errors_as_client e of
             Some (code, m) \<Rightarrow> exit_with (lit ''keycell: '' @ m) 1
           | None \<Rightarrow> exit_with (lit ''keycell: '' @ err_msg e) 1)"

lemma exitError_code: "outCode (exitError e) = 1"
  by (simp add: exitError_def exit_with_def split: option.split)

lemma success_inject [simp]: "success a = success b \<longleftrightarrow> a = b"
  by (simp add: success_def)

text \<open>\<open>errorMessage\<close> (cmd/keycell/transfer.go): the daemon's message, or the text of the error.\<close>

definition errorMessage :: "goerr \<Rightarrow> msg" where
  "errorMessage e = (case errors_as_client e of Some (code, m) \<Rightarrow> m | None \<Rightarrow> err_msg e)"

definition noArgs :: "bytes \<Rightarrow> bytes list \<Rightarrow> cmd_out option" where
  "noArgs name args =
     (if args = [] then None
      else Some (exit_with (lit (''keycell: '' @ name @ '' takes no arguments'')) 2))"

text \<open>Indexing a map with an absent key gives the empty string.\<close>

definition attr_or_empty :: "(bytes, bytes) gomap \<Rightarrow> bytes \<Rightarrow> bytes" where
  "attr_or_empty m k = (case map_of m k of None \<Rightarrow> [] | Some v \<Rightarrow> v)"

definition is_ambiguous :: "goerr \<Rightarrow> bool" where
  "is_ambiguous e = (case e of Ambiguous _ \<Rightarrow> True | _ \<Rightarrow> False)"

section \<open>The contract of the client\<close>

text \<open>
  \<open>tab\<close> is the table of secrets behind the client, \<open>live\<close> says that the daemon answers and is
  unlocked. The commands' lemmas use nothing else.
\<close>

definition plain_filter :: "sfilter \<Rightarrow> bool" where
  "plain_filter f \<longleftrightarrow> (fKind f = [] \<or> isSlug (fKind f)) \<and> attrs_ok (fAttributes f)"

definition lists :: "(bytes \<Rightarrow> entry option) \<Rightarrow> sfilter \<Rightarrow> dsecret list \<Rightarrow> bool" where
  "lists T f xs \<longleftrightarrow> sorted_wrt (<) (map dName xs)
     \<and> (\<forall>n. n \<in> dName ` set xs \<longleftrightarrow> (\<exists>e. T n = Some e \<and> selects f n e))
     \<and> (\<forall>x \<in> set xs. dValue x = None \<and> gomap_ok (dAttributes x) \<and> (\<exists>val. T (dName x) =
          Some (dKind x, val, map_of (dAttributes x), dCreated x, dUpdated x)))"

lemma listsD:
  assumes "lists T f xs"
  shows "T n = Some e \<Longrightarrow> selects f n e \<Longrightarrow> n \<in> dName ` set xs"
    and "n \<in> dName ` set xs \<Longrightarrow> \<exists>e. T n = Some e \<and> selects f n e"
    and "x \<in> set xs \<Longrightarrow> \<exists>val. T (dName x)
      = Some (dKind x, val, map_of (dAttributes x), dCreated x, dUpdated x)"
    and "x \<in> set xs \<Longrightarrow> gomap_ok (dAttributes x)"
    and "distinct (map dName xs)"
  using assms unfolding lists_def by (blast, blast, blast, blast, simp add: strict_sorted_iff)

locale secret_client =
  fixes c :: "'st client"
    and live :: "'st \<Rightarrow> bool"
    and tab :: "'st \<Rightarrow> bytes \<Rightarrow> entry option"
  assumes list_live: "live st \<Longrightarrow> plain_filter f \<Longrightarrow> \<exists>xs. clList c f st = Ok xs \<and> lists (tab st) f xs"
    and list_valid: "live st \<Longrightarrow> clList c f st = Ok xs \<Longrightarrow> plain_filter f"
    and get_live: "live st \<Longrightarrow> text_ok n \<Longrightarrow> tab st n = Some e \<Longrightarrow>
      \<exists>x. clGet c n st = Ok x \<and> dName x = n \<and> out_view x = e"
    and get_valid: "live st \<Longrightarrow> clGet c n st = Ok x \<Longrightarrow>
      text_ok n \<and> dName x = n \<and> tab st n = Some (out_view x) \<and> dsecret_ok x"
    and store_live: "live st \<Longrightarrow> gomap_ok (dAttributes x) \<Longrightarrow> clStore c x st = (Ok u, st') \<Longrightarrow>
      live st' \<and> (\<exists>created now. tab st' = (tab st)(dName x \<mapsto>
        (dKind x, dValue x, map_of (dAttributes x), created, now)))"
    and delete_live: "live st \<Longrightarrow> clDelete c n st = (Ok u, st') \<Longrightarrow> live st' \<and> tab st' = (tab st)(n := None)"
    and store_valid: "live st \<Longrightarrow> clStore c x st = (Ok u, st') \<Longrightarrow>
      secret_ok (dName x) (dKind x) (dAttributes x) (val_bytes (dValue x))"
begin

lemma list_names:
  assumes "live st" and "plain_filter f" and "clList c f st = Ok xs"
  shows "lists (tab st) f xs"
  using list_live [OF assms(1,2)] assms(3) by auto

text \<open>A listing with one hit is that secret; an empty one means that nothing is selected.\<close>

lemma list_one:
  assumes "live st" and "plain_filter f" and "clList c f st = Ok [x]"
  shows "\<exists>val. tab st (dName x) = Some (dKind x, val, map_of (dAttributes x), dCreated x, dUpdated x)"
    and "tab st n = Some e \<Longrightarrow> selects f n e \<Longrightarrow> n = dName x"
  using listsD(1,3) [OF list_names [OF assms]] by simp_all

lemma list_none:
  assumes "live st" and "plain_filter f" and "clList c f st = Ok []" and "tab st n = Some e"
  shows "\<not> selects f n e"
  using listsD(1) [OF list_names [OF assms(1-3)] assms(4)] by auto

lemma get_stored:
  assumes "live st" and "gomap_ok (dAttributes x)" and "clStore c x st = (Ok u, st')"
  shows "\<exists>y. clGet c (dName x) st' = Ok y \<and> dValue y = dValue x \<and> dKind y = dKind x
    \<and> map_of (dAttributes y) = map_of (dAttributes x)"
proof -
  from store_live [OF assms] obtain created now where l: "live st'"
    and t: "tab st' = (tab st)(dName x \<mapsto> (dKind x, dValue x, map_of (dAttributes x), created, now))"
    by blast
  have "text_ok (dName x)" using store_valid [OF assms(1,3)] by (simp add: secret_ok_def)
  from get_live [OF l this] t show ?thesis by (auto simp: out_view_def)
qed

end

section \<open>The daemon as a client's other end\<close>

text \<open>
  The client library on a daemon: an operation that fails there is the client error its code stands
  for; when the daemon crashes the connection ends without an answer. \<open>WireClient\<close> has the same over the
  wire.
\<close>

definition client_error :: "bytes \<Rightarrow> goerr \<Rightarrow> goerr" where
  "client_error meth e =
     (case toError e of (code, m) \<Rightarrow> wrapf (call_prefix meth) (ClientErr code m))"

fun client_res :: "bytes \<Rightarrow> 'a res \<Rightarrow> 'a res" where
  "client_res meth (Ok x) = Ok x"
| "client_res meth (Er e) = Er (client_error meth e)"
| "client_res meth Panic = Er (wrapf (call_prefix meth) closed_early)"

text \<open>
  A daemon that crashes takes its session along; the next one starts locked. The two reading operations
  return no state, so a crash of theirs shows in the error only.
\<close>

definition survives :: "'a res \<Rightarrow> 'i session \<times> fs \<Rightarrow> 'i session \<times> fs" where
  "survives r st = (if r = Panic then (NewSession, snd st) else st)"

lemma survives_simps [simp]: "survives (Ok x) st = st" "survives (Er e) st = st" "survives Panic st = (NewSession, snd st)"
  by (simp_all add: survives_def)

definition nil_value :: goerr where
  "nil_value = Wrap (lit (''keycell: store: '' @ client_err_text CErrInvalidArgument @ '': value is nil''))
     [Sentinel (ClientS CErrInvalidArgument)]"

definition daemon_client :: "'i age \<Rightarrow> io \<Rightarrow> bytes \<Rightarrow> ('i session \<times> fs) client" where
  "daemon_client A w path =
     \<lparr> clConnect = (\<lambda>st. Ok ()),
       clList = (\<lambda>f st. client_res MethodList (fst (List A w path (fst st) f (snd st)))),
       clGet = (\<lambda>n st. client_res MethodGet (fst (Get A w path (fst st) n (snd st)))),
       clStore = (\<lambda>x st.
         if dValue x = None then (Er nil_value, st)
         else case Store_secret A w path (fst st) (dName x) (dKind x) (dAttributes x) (dValue x) (snd st) of
                (r, d) \<Rightarrow> (client_res MethodStore r, survives r (fst st, d))),
       clDelete = (\<lambda>n st.
         case Delete A w path (fst st) n (snd st) of
           (r, d) \<Rightarrow> (client_res MethodDelete r, survives r (fst st, d))) \<rparr>"

definition daemon_live :: "'i age \<Rightarrow> io \<Rightarrow> bytes \<Rightarrow> 'i session \<times> fs \<Rightarrow> bool" where
  "daemon_live A w path st \<longleftrightarrow> age_laws A \<and> io_calm w \<and> env_table (A, path, fst st) (snd st) \<noteq> None"

definition daemon_table :: "'i age \<Rightarrow> bytes \<Rightarrow> 'i session \<times> fs \<Rightarrow> bytes \<Rightarrow> entry option" where
  "daemon_table A path st =
     (case env_table (A, path, fst st) (snd st) of None \<Rightarrow> Map.empty | Some T \<Rightarrow> T)"

lemma client_res_Ok [simp]: "client_res meth r = Ok x \<longleftrightarrow> r = Ok x"
  by (cases r) auto

lemma daemon_liveE:
  assumes "daemon_live A w path (s, d)"
  obtains i T where "sId s = Some i" and "secrets_at A path i d = Some T" and "age_laws A"
    and "ioOpen w = None" and "time_ok (UTC (ioNow w))" and "daemon_table A path (s, d) = T"
  using assms by (auto simp: daemon_live_def daemon_table_def io_calm_def split: option.splits)

lemma daemon_liveI:
  assumes "daemon_live A w path (s, d)" and "sId s = Some i" and "secrets_at A path i d' = Some T'"
  shows "daemon_live A w path (s, d') \<and> daemon_table A path (s, d') = T'"
  using assms by (auto simp: daemon_live_def daemon_table_def)

interpretation daemon: secret_client "daemon_client A w path" "daemon_live A w path" "daemon_table A path"
  for A w path
proof
  fix st :: "'a session \<times> fs"
  obtain s d where st: "st = (s, d)" by (cases st)
  assume "daemon_live A w path st"
  then have live: "daemon_live A w path (s, d)" by (simp add: st)
  from daemon_liveE [OF this] obtain i T where i: "sId s = Some i" and T: "secrets_at A path i d = Some T"
    and A: "age_laws A" and w: "ioOpen w = None" "time_ok (UTC (ioNow w))"
    and tab: "daemon_table A path (s, d) = T" .
  show "\<exists>xs. clList (daemon_client A w path) f st = Ok xs \<and> lists (daemon_table A path st) f xs"
    if "plain_filter f" for f
    using List_eq [OF T w(1) i, of f] that
    by (auto simp: daemon_client_def st tab plain_filter_def lists_def)
  show "plain_filter f" if "clList (daemon_client A w path) f st = Ok xs" for f xs
    using that unfolding plain_filter_def
    by (auto simp: daemon_client_def st List_def sess.use_open [OF i] obind_eq_Ok split: if_splits)
  show "\<exists>x. clGet (daemon_client A w path) n st = Ok x \<and> dName x = n \<and> out_view x = e"
    if "text_ok n" and "daemon_table A path st n = Some e" for n e
    using Get_eq [OF T w(1) i that(1)] that(2) by (auto simp: daemon_client_def st tab)
  show "text_ok n \<and> dName x = n \<and> daemon_table A path st n = Some (out_view x) \<and> dsecret_ok x"
    if "clGet (daemon_client A w path) n st = Ok x" for n x
  proof -
    from that have "Get A w path s n d = (Ok x, snd (Get A w path s n d))"
      by (simp add: daemon_client_def st prod_eq_iff)
    from Get_Ok [OF T w(1) i this] show ?thesis by (simp add: st tab)
  qed
  show "daemon_live A w path st' \<and> (\<exists>created now. daemon_table A path st' = (daemon_table A path st)(dName x \<mapsto>
        (dKind x, dValue x, map_of (dAttributes x), created, now)))"
    if "gomap_ok (dAttributes x)" and "clStore (daemon_client A w path) x st = (Ok u, st')" for x u st'
  proof -
    from that(2) obtain d' where d': "st' = (s, d')"
      and sto: "Store_secret A w path s (dName x) (dKind x) (dAttributes x) (dValue x) d = (Ok u, d')"
      by (auto simp: daemon_client_def st split: prod.splits if_splits)
    from Store_table [OF A i T that(1) w(2) sto] daemon_liveI [OF live i] show ?thesis
      by (fastforce simp: d' st tab stored_def)
  qed
  show "daemon_live A w path st' \<and> daemon_table A path st' = (daemon_table A path st)(n := None)"
    if "clDelete (daemon_client A w path) n st = (Ok u, st')" for n u st'
  proof -
    from that obtain d' where d': "st' = (s, d')" and del: "Delete A w path s n d = (Ok u, d')"
      by (auto simp: daemon_client_def st split: prod.splits)
    from Delete_table [OF A i T del] daemon_liveI [OF live i] show ?thesis by (simp add: d' st tab)
  qed
  show "secret_ok (dName x) (dKind x) (dAttributes x) (val_bytes (dValue x))"
    if "clStore (daemon_client A w path) x st = (Ok u, st')" for x u st'
  proof -
    from that obtain d' where
      sto: "Store_secret A w path s (dName x) (dKind x) (dAttributes x) (dValue x) d = (Ok u, d')"
      by (auto simp: daemon_client_def st split: prod.splits if_splits)
    from store_write_Ok [OF sto [unfolded Store_secret_def] T i] obtain v v'
      where "store_modify w (dName x) (dKind x) (dAttributes x) (dValue x) v = Ok v'" by metis
    then show ?thesis by (auto simp: store_modify_def obind_eq_Ok val_bytes_def)
  qed
qed

end
