(* ===== verification/GitCredential.thy ===== *)
theory GitCredential
  imports Credentials
begin

text \<open>
  cmd/keycell/gitcredential.go: the git credential helper. Git's request is read as bytes; the secrets
  come from a \<open>client\<close>.
\<close>

section \<open>Requests\<close>

record git_request =
  gqProtocol :: bytes
  gqHost :: bytes
  gqUsername :: bytes
  gqPath :: bytes
  gqPassword :: "bytes option"

definition empty_git :: git_request where
  "empty_git = \<lparr> gqProtocol = [], gqHost = [], gqUsername = [], gqPath = [], gqPassword = None \<rparr>"

definition git_field :: "bytes \<Rightarrow> bytes \<Rightarrow> git_request \<Rightarrow> git_request" where
  "git_field key val req =
     (if key = ''protocol'' then req\<lparr>gqProtocol := val\<rparr>
      else if key = ''host'' then req\<lparr>gqHost := val\<rparr>
      else if key = ''username'' then req\<lparr>gqUsername := val\<rparr>
      else if key = ''path'' then req\<lparr>gqPath := val\<rparr>
      else if key = ''password'' then req\<lparr>gqPassword := Some val\<rparr>
      else req)"

text \<open>The loop over the lines; \<open>n\<close> numbers them from 1.\<close>

fun git_lines :: "nat \<Rightarrow> bytes list \<Rightarrow> bool \<Rightarrow> git_request \<Rightarrow> git_request res" where
  "git_lines n [] tooLong req = (if tooLong then Er (New (lit ''bufio.Scanner: token too long'')) else Ok req)"
| "git_lines n (l # ls) tooLong req =
     (if l = [] then Ok req
      else case cut_at (CHR ''='') l of
             None \<Rightarrow> Er (New (lit ''line '' @ [D (int n)] @ lit ('': no '' @ quoted ''='' @ '' in '') @ [Q l]))
           | Some (key, val) \<Rightarrow> git_lines (Suc n) ls tooLong (git_field key val req))"

definition parseGitRequest :: "bytes \<Rightarrow> git_request res" where
  "parseGitRequest input =
     (case scan_lines (1024 * 1024) input of (ls, tooLong) \<Rightarrow>
        obind (git_lines 1 ls tooLong empty_git)
          (\<lambda>req. if gqHost req = [] then Er (Sentinel (GitS ErrNoHost)) else Ok req))"

section \<open>Matching\<close>

definition gitKind :: bytes where "gitKind = ''git-credential''"

text \<open>The loop over the optional attributes; \<open>None\<close> is a mismatch.\<close>

fun git_score_loop :: "(bytes \<times> bytes) list \<Rightarrow> (bytes \<Rightarrow> bytes option) \<Rightarrow> nat \<Rightarrow> nat option" where
  "git_score_loop [] attrs score = Some score"
| "git_score_loop ((attr, want) # fs) attrs score =
     (case attrs attr of
        None \<Rightarrow> git_score_loop fs attrs score
      | Some v \<Rightarrow>
          if want \<noteq> [] \<and> v \<noteq> want then None else git_score_loop fs attrs (Suc score))"

definition git_wants :: "git_request \<Rightarrow> (bytes \<times> bytes) list" where
  "git_wants req = [(''protocol'', gqProtocol req), (''username'', gqUsername req), (''path'', gqPath req)]"

definition gitScore :: "dsecret \<Rightarrow> git_request \<Rightarrow> nat option" where
  "gitScore s req =
     (if dKind s \<noteq> gitKind \<or> attr_or_empty (dAttributes s) ''host'' \<noteq> gqHost req then None
      else git_score_loop (git_wants req) (map_of (dAttributes s)) 0)"

text \<open>The best candidates and their score; \<open>None\<close> is the initial score of -1.\<close>

fun git_best :: "dsecret list \<Rightarrow> git_request \<Rightarrow> dsecret list \<times> nat option \<Rightarrow> dsecret list \<times> nat option" where
  "git_best [] req acc = acc"
| "git_best (s # ss) req (best, bestScore) =
     (case gitScore s req of
        None \<Rightarrow> git_best ss req (best, bestScore)
      | Some score \<Rightarrow>
          if bestScore = None \<or> score > the bestScore then git_best ss req ([s], Some score)
          else if Some score = bestScore then git_best ss req (best @ [s], bestScore)
          else git_best ss req (best, bestScore))"

definition matchGitCredential :: "dsecret list \<Rightarrow> git_request \<Rightarrow> dsecret res" where
  "matchGitCredential cands req =
     (case fst (git_best cands req ([], None)) of
        [] \<Rightarrow> Er (Sentinel (GitS ErrNoMatch))
      | [s] \<Rightarrow> Ok s
      | best \<Rightarrow> Er (Ambiguous (sort (map dName best))))"

definition gitName :: "git_request \<Rightarrow> bytes" where
  "gitName req =
     (if gqUsername req \<noteq> [] then ''git/'' @ gqHost req @ ''/'' @ gqUsername req
      else ''git/'' @ gqHost req)"

definition gitAttrs :: "git_request \<Rightarrow> (bytes, bytes) gomap" where
  "gitAttrs req = (''host'', gqHost req) # filter (\<lambda>(k, v). v \<noteq> []) (git_wants req)"

definition git_filter :: "git_request \<Rightarrow> sfilter" where
  "git_filter req = \<lparr> fKind = gitKind, fPrefix = [], fAttributes = [(''host'', gqHost req)] \<rparr>"

definition gitMatch :: "'st client \<Rightarrow> 'st \<Rightarrow> git_request \<Rightarrow> dsecret res" where
  "gitMatch c st req = obind (clList c (git_filter req) st) (\<lambda>secs. matchGitCredential secs req)"

section \<open>Commands\<close>

definition gitExitf :: "msg \<Rightarrow> cmd_out" where
  "gitExitf m = exit_with (lit ''keycell: git-credential: '' @ m) 1"

definition gitError :: "goerr \<Rightarrow> cmd_out" where
  "gitError e = (if is_ambiguous e then gitExitf (err_msg e) else exitError e)"

text \<open>An ambiguous match is a message on standard error with exit code 0.\<close>

definition gitAmbiguous :: "goerr \<Rightarrow> bytes \<Rightarrow> cmd_out" where
  "gitAmbiguous e what =
     (if is_ambiguous e then
        exit_with (lit ''keycell: git-credential: '' @ err_msg e @ lit ('', '' @ what)) 0
      else exitError e)"

text \<open>
  \<open>gitRequest\<close>: the request, or how the command ends. A request without host ends it with success and
  no output.
\<close>

definition git_request_or_end :: "bytes \<Rightarrow> git_request + cmd_out" where
  "git_request_or_end input =
     (case parseGitRequest input of
        Ok req \<Rightarrow> Inl req
      | Er e \<Rightarrow> if errors_is e (GitS ErrNoHost) then Inr (success []) else Inr (gitExitf (err_msg e))
      | Panic \<Rightarrow> Inr (exit_with [] 2))"

definition git_answer :: "dsecret \<Rightarrow> bytes \<Rightarrow> bytes" where
  "git_answer s b =
     (case map_of (dAttributes s) ''username'' of
        None \<Rightarrow> []
      | Some u \<Rightarrow> ''username='' @ u @ [LF]) @ ''password='' @ b @ [LF]"

definition gitCredentialGet :: "'st client \<Rightarrow> bytes list \<Rightarrow> bytes \<Rightarrow> 'st \<Rightarrow> cmd_out" where
  "gitCredentialGet c args input st =
     (case noArgs ''get'' args of Some out \<Rightarrow> out | None \<Rightarrow>
      case git_request_or_end input of Inr out \<Rightarrow> out | Inl req \<Rightarrow>
      case clConnect c st of Er e \<Rightarrow> exitError e | Panic \<Rightarrow> exit_with [] 2 | Ok _ \<Rightarrow>
      case gitMatch c st req of
        Panic \<Rightarrow> exit_with [] 2
      | Er e \<Rightarrow> if errors_is e (GitS ErrNoMatch) then success [] else gitError e
      | Ok s \<Rightarrow>
          (case clGet c (dName s) st of
             Er e \<Rightarrow> exitError e
           | Panic \<Rightarrow> exit_with [] 2
           | Ok full \<Rightarrow>
               (let b = val_bytes (dValue full) in
                if LF \<in> set b then gitExitf (lit (''value of '' @ dName s @ '' contains a newline''))
                else success (git_answer s b))))"

definition git_secret :: "git_request \<Rightarrow> dsecret" where
  "git_secret req = \<lparr> dName = gitName req, dKind = gitKind, dAttributes = gitAttrs req, dValue = None,
     dCreated = zero_time, dUpdated = zero_time \<rparr>"

definition gitCredentialStore :: "'st client \<Rightarrow> bytes list \<Rightarrow> bytes \<Rightarrow> 'st \<Rightarrow> cmd_out \<times> 'st" where
  "gitCredentialStore c args input st =
     (case noArgs ''store'' args of Some out \<Rightarrow> (out, st) | None \<Rightarrow>
      case git_request_or_end input of Inr out \<Rightarrow> (out, st) | Inl req \<Rightarrow>
      if val_bytes (gqPassword req) = [] then (success [], st)
      else case clConnect c st of Er e \<Rightarrow> (exitError e, st) | Panic \<Rightarrow> (exit_with [] 2, st) | Ok _ \<Rightarrow>
      (let put = (\<lambda>s. case clStore c (s\<lparr>dValue := gqPassword req\<rparr>) st of
             (Ok _, st') \<Rightarrow> (success [], st')
           | (Er e, st') \<Rightarrow> (exitError e, st')
           | (Panic, st') \<Rightarrow> (exit_with [] 2, st'))
       in case gitMatch c st req of
            Ok s \<Rightarrow> put s
          | Er e \<Rightarrow>
              if errors_is e (GitS ErrNoMatch) then put (git_secret req)
              else (gitAmbiguous e ''nothing stored'', st)
          | Panic \<Rightarrow> (exit_with [] 2, st)))"

definition gitCredentialErase :: "'st client \<Rightarrow> bytes list \<Rightarrow> bytes \<Rightarrow> 'st \<Rightarrow> cmd_out \<times> 'st" where
  "gitCredentialErase c args input st =
     (case noArgs ''erase'' args of Some out \<Rightarrow> (out, st) | None \<Rightarrow>
      case git_request_or_end input of Inr out \<Rightarrow> (out, st) | Inl req \<Rightarrow>
      case clConnect c st of Er e \<Rightarrow> (exitError e, st) | Panic \<Rightarrow> (exit_with [] 2, st) | Ok _ \<Rightarrow>
      case gitMatch c st req of
        Panic \<Rightarrow> (exit_with [] 2, st)
      | Er e \<Rightarrow>
          if errors_is e (GitS ErrNoMatch) then (success [], st)
          else (gitAmbiguous e ''nothing erased'', st)
      | Ok s \<Rightarrow>
          (case clDelete c (dName s) st of
             (Ok _, st') \<Rightarrow> (success [], st')
           | (Er e, st') \<Rightarrow>
               if errors_is e (ClientS CErrNotFound) then (success [], st') else (exitError e, st')
           | (Panic, st') \<Rightarrow> (exit_with [] 2, st')))"

section \<open>What a match is\<close>

text \<open>
  The documented rule: kind, host and, wherever both the secret and the request set them, protocol,
  username and path are equal; the more of the three a secret sets, the more specific it is.
\<close>

definition git_fits :: "dsecret \<Rightarrow> git_request \<Rightarrow> bool" where
  "git_fits s req \<longleftrightarrow> dKind s = gitKind \<and> attr_or_empty (dAttributes s) ''host'' = gqHost req
     \<and> (\<forall>(attr, want) \<in> set (git_wants req). \<forall>v. map_of (dAttributes s) attr = Some v
          \<longrightarrow> want = [] \<or> v = want)"

definition specificity :: "dsecret \<Rightarrow> nat" where
  "specificity s = length (filter (\<lambda>a. map_of (dAttributes s) a \<noteq> None) [''protocol'', ''username'', ''path''])"

lemma git_score_loop_eq:
  "git_score_loop fs attrs k =
    (if \<forall>(attr, want) \<in> set fs. \<forall>v. attrs attr = Some v \<longrightarrow> want = [] \<or> v = want
     then Some (k + length (filter (\<lambda>(attr, want). attrs attr \<noteq> None) fs)) else None)"
proof (induction fs arbitrary: k)
  case (Cons f fs)
  obtain attr want where f: "f = (attr, want)" by (cases f)
  show ?case by (cases "attrs attr") (simp_all add: f Cons.IH)
qed simp

lemma specificity_wants:
  "length (filter (\<lambda>(attr, want). map_of (dAttributes s) attr \<noteq> None) (git_wants req)) = specificity s"
  by (simp add: git_wants_def specificity_def)

lemma gitScore_eq: "gitScore s req = (if git_fits s req then Some (specificity s) else None)"
  by (simp add: gitScore_def git_fits_def git_score_loop_eq specificity_wants del: not_None_eq)

text \<open>The most specific of the candidates that fit, in their order.\<close>

definition best_of :: "dsecret list \<Rightarrow> git_request \<Rightarrow> dsecret list" where
  "best_of cands req = filter (\<lambda>s. git_fits s req
     \<and> (\<forall>t \<in> set cands. git_fits t req \<longrightarrow> specificity t \<le> specificity s)) cands"

definition best_inv :: "git_request \<Rightarrow> dsecret list \<Rightarrow> dsecret list \<times> nat option \<Rightarrow> bool" where
  "best_inv req seen acc \<longleftrightarrow>
     (case snd acc of
        None \<Rightarrow> fst acc = [] \<and> (\<forall>s \<in> set seen. \<not> git_fits s req)
      | Some m \<Rightarrow> fst acc = filter (\<lambda>s. git_fits s req \<and> specificity s = m) seen \<and> fst acc \<noteq> []
          \<and> (\<forall>s \<in> set seen. git_fits s req \<longrightarrow> specificity s \<le> m))"

lemma git_best_inv: "best_inv req seen acc \<Longrightarrow> best_inv req (seen @ ss) (git_best ss req acc)"
proof (induction ss arbitrary: seen acc)
  case (Cons s ss)
  obtain best sc where acc: "acc = (best, sc)" by (cases acc)
  obtain acc' where next_acc: "git_best (s # ss) req acc = git_best ss req acc'"
    and inv: "best_inv req (seen @ [s]) acc'"
  proof (cases "git_fits s req")
    case False
    with that [of acc] Cons.prems show thesis
      by (auto simp: acc gitScore_eq best_inv_def split: option.splits)
  next
    case True
    consider "sc = None \<or> specificity s > the sc" | "sc = Some (specificity s)"
      | m where "sc = Some m" "specificity s < m"
      by (cases sc) (auto intro: linorder_neqE_nat)
    then show thesis
    proof cases
      case 1
      then have "\<forall>t \<in> set seen. git_fits t req \<longrightarrow> specificity t < specificity s"
        using Cons.prems by (fastforce simp: acc best_inv_def split: option.splits)
      then have "filter (\<lambda>t. git_fits t req \<and> specificity t = specificity s) seen = []"
        by (auto simp: filter_empty_conv)
      with 1 True that [of "([s], Some (specificity s))"]
        \<open>\<forall>t \<in> set seen. git_fits t req \<longrightarrow> specificity t < specificity s\<close>
      show thesis by (auto simp: acc gitScore_eq best_inv_def less_imp_le)
    next
      case 2
      with True that [of "(best @ [s], sc)"] Cons.prems show thesis
        by (auto simp: acc gitScore_eq best_inv_def)
    next
      case (3 m)
      with True that [of acc] Cons.prems show thesis
        by (auto simp: acc gitScore_eq best_inv_def)
    qed
  qed
  from Cons.IH [OF inv] next_acc show ?case by simp
qed simp

lemma git_best_eq: "fst (git_best cands req ([], None)) = best_of cands req"
proof -
  have inv: "best_inv req cands (git_best cands req ([], None))"
    using git_best_inv [of req "[]" "([], None)" cands] by (simp add: best_inv_def)
  show ?thesis
  proof (cases "snd (git_best cands req ([], None))")
    case None
    with inv show ?thesis by (auto simp: best_inv_def best_of_def filter_empty_conv)
  next
    case (Some m)
    note all = inv [unfolded best_inv_def Some option.case]
    note f = conjunct1 [OF all] and le = conjunct2 [OF conjunct2 [OF all]]
    from all have "filter (\<lambda>s. git_fits s req \<and> specificity s = m) cands \<noteq> []" by metis
    then obtain t where "t \<in> set cands" "git_fits t req" "specificity t = m"
      by (auto simp: filter_empty_conv)
    with le have "specificity s = m \<longleftrightarrow>
        (\<forall>t \<in> set cands. git_fits t req \<longrightarrow> specificity t \<le> specificity s)"
      if "s \<in> set cands" "git_fits s req" for s
      using that le_antisym by blast
    then show ?thesis unfolding f best_of_def by (intro filter_cong) auto
  qed
qed

lemma best_of_nonempty:
  assumes "s \<in> set cands" and "git_fits s req"
  shows "best_of cands req \<noteq> []"
proof -
  let ?F = "{t \<in> set cands. git_fits t req}"
  have "finite (specificity ` ?F)" "specificity ` ?F \<noteq> {}" using assms by auto
  then have "Max (specificity ` ?F) \<in> specificity ` ?F"
    and "\<And>t. t \<in> ?F \<Longrightarrow> specificity t \<le> Max (specificity ` ?F)"
    by (auto intro: Max_in)
  then obtain m where "m \<in> ?F" and "\<And>t. t \<in> ?F \<Longrightarrow> specificity t \<le> specificity m"
    by (metis (no_types, lifting) imageE)
  then have "m \<in> set (best_of cands req)" by (simp add: best_of_def)
  then show ?thesis by auto
qed

lemma match_eq:
  "matchGitCredential cands req =
    (case best_of cands req of
       [] \<Rightarrow> Er (Sentinel (GitS ErrNoMatch)) | [s] \<Rightarrow> Ok s | best \<Rightarrow> Er (Ambiguous (sort (map dName best))))"
  by (simp add: matchGitCredential_def git_best_eq)

section \<open>The rule over the table\<close>

text \<open>Fitting and specificity depend on the kind and the attributes only.\<close>

fun e_fits :: "entry \<Rightarrow> git_request \<Rightarrow> bool" where
  "e_fits (kind, val, attrs, created, updated) req \<longleftrightarrow> kind = gitKind
     \<and> attrs ''host'' = Some (gqHost req)
     \<and> (\<forall>(attr, want) \<in> set (git_wants req). \<forall>v. attrs attr = Some v \<longrightarrow> want = [] \<or> v = want)"

fun e_spec :: "entry \<Rightarrow> nat" where
  "e_spec (kind, val, attrs, created, updated)
     = length (filter (\<lambda>a. attrs a \<noteq> None) [''protocol'', ''username'', ''path''])"

definition best_name :: "(bytes \<Rightarrow> entry option) \<Rightarrow> git_request \<Rightarrow> bytes \<Rightarrow> bool" where
  "best_name T req n \<longleftrightarrow> (\<exists>e. T n = Some e \<and> e_fits e req
     \<and> (\<forall>m e'. T m = Some e' \<longrightarrow> e_fits e' req \<longrightarrow> m \<noteq> n \<longrightarrow> e_spec e' < e_spec e))"

lemma fits_entry:
  "gqHost req \<noteq> [] \<Longrightarrow>
   e_fits (dKind s, val, map_of (dAttributes s), created, updated) req = git_fits s req"
  by (auto simp: git_fits_def attr_or_empty_def split: option.splits)

lemma spec_entry: "e_spec (dKind s, val, map_of (dAttributes s), created, updated) = specificity s"
  by (simp add: specificity_def)

lemma fits_selected: "e_fits e req \<Longrightarrow> selects (git_filter req) n e"
  by (cases e) (auto simp: selects_def git_filter_def gitKind_def)

declare e_fits.simps [simp del] e_spec.simps [simp del]

text \<open>Every fitting entry of the table is a fitting candidate of the listing, and the other way round.\<close>

lemma candidate:
  assumes "lists T (git_filter req) xs" and "gqHost req \<noteq> []"
  shows "T n = Some e \<Longrightarrow> e_fits e req \<Longrightarrow>
      \<exists>s \<in> set xs. dName s = n \<and> git_fits s req \<and> specificity s = e_spec e"
    and "s \<in> set xs \<Longrightarrow> git_fits s req \<Longrightarrow>
      \<exists>e. T (dName s) = Some e \<and> e_fits e req \<and> e_spec e = specificity s"
proof -
  show "\<exists>s \<in> set xs. dName s = n \<and> git_fits s req \<and> specificity s = e_spec e"
    if "T n = Some e" and "e_fits e req"
  proof -
    from listsD(1) [OF assms(1) that(1) fits_selected [OF that(2)]] obtain s
      where s: "s \<in> set xs" "dName s = n" by auto
    from listsD(3) [OF assms(1) s(1)] obtain val
      where "T (dName s) = Some (dKind s, val, map_of (dAttributes s), dCreated s, dUpdated s)" ..
    with that(1) s(2) have e: "e = (dKind s, val, map_of (dAttributes s), dCreated s, dUpdated s)"
      by simp
    have "git_fits s req" using that(2) unfolding e fits_entry [OF assms(2)] .
    moreover have "specificity s = e_spec e" unfolding e spec_entry ..
    ultimately show ?thesis using s by blast
  qed
  show "\<exists>e. T (dName s) = Some e \<and> e_fits e req \<and> e_spec e = specificity s"
    if "s \<in> set xs" and "git_fits s req"
  proof -
    from listsD(3) [OF assms(1) that(1)] obtain val
      where e: "T (dName s) = Some (dKind s, val, map_of (dAttributes s), dCreated s, dUpdated s)" ..
    have "e_fits (dKind s, val, map_of (dAttributes s), dCreated s, dUpdated s) req"
      using that(2) unfolding fits_entry [OF assms(2)] .
    with e spec_entry show ?thesis by blast
  qed
qed

lemma match_Ok:
  assumes "lists T (git_filter req) xs" and "gqHost req \<noteq> []"
  shows "matchGitCredential xs req = Ok s \<longleftrightarrow> s \<in> set xs \<and> best_name T req (dName s)"
proof
  assume "matchGitCredential xs req = Ok s"
  then have b: "best_of xs req = [s]"
    by (simp add: match_eq split: list.splits)
  then have "s \<in> set (best_of xs req)" by simp
  then have s: "s \<in> set xs" "git_fits s req"
    and max: "\<forall>t \<in> set xs. git_fits t req \<longrightarrow> specificity t \<le> specificity s"
    by (simp_all add: best_of_def)
  have uniq: "t = s" if "t \<in> set xs" "git_fits t req" "specificity t = specificity s" for t
  proof -
    have "t \<in> set (best_of xs req)" using that max by (simp add: best_of_def)
    then show ?thesis by (simp add: b)
  qed
  from candidate(2) [OF assms s] obtain e where e: "T (dName s) = Some e" "e_fits e req"
    "e_spec e = specificity s" by blast
  have "e_spec e' < e_spec e" if m: "T m = Some e'" "e_fits e' req" "m \<noteq> dName s" for m e'
  proof -
    from candidate(1) [OF assms m(1,2)] obtain t where t: "t \<in> set xs" "dName t = m" "git_fits t req"
      "specificity t = e_spec e'" by blast
    with m(3) uniq [of t] max e(3) show ?thesis by fastforce
  qed
  with s(1) e show "s \<in> set xs \<and> best_name T req (dName s)" unfolding best_name_def by blast
next
  assume "s \<in> set xs \<and> best_name T req (dName s)"
  then have s: "s \<in> set xs" and "best_name T req (dName s)" by auto
  then obtain e where e: "T (dName s) = Some e" "e_fits e req"
    and max: "\<And>m e'. T m = Some e' \<Longrightarrow> e_fits e' req \<Longrightarrow> m \<noteq> dName s \<Longrightarrow> e_spec e' < e_spec e"
    unfolding best_name_def by blast
  have dist: "distinct (map dName xs)" by (rule listsD(5) [OF assms(1)])
  from candidate(1) [OF assms e] obtain s' where "s' \<in> set xs" "dName s' = dName s" "git_fits s' req"
    "specificity s' = e_spec e" by blast
  with dist s have fit: "git_fits s req" "specificity s = e_spec e"
    by (auto simp: distinct_map inj_on_def)
  have less: "specificity t < specificity s" if t: "t \<in> set xs" "git_fits t req" "t \<noteq> s" for t
  proof -
    have "dName t \<noteq> dName s" using dist s t by (auto simp: distinct_map inj_on_def)
    with candidate(2) [OF assms t(1,2)] max fit(2) show ?thesis by fastforce
  qed
  have "distinct xs" using dist by (simp add: distinct_map)
  have "best_of xs req = filter (\<lambda>t. t = s) xs"
  proof (unfold best_of_def, rule filter_cong [OF refl])
    fix t assume t: "t \<in> set xs"
    have "specificity u \<le> specificity s" if "u \<in> set xs" "git_fits u req" for u
      using less [OF that] by (cases "u = s") simp_all
    with t fit(1) s less [OF t] show "(git_fits t req \<and> (\<forall>u \<in> set xs. git_fits u req
        \<longrightarrow> specificity u \<le> specificity t)) = (t = s)"
      by (meson not_le)
  qed
  also have "\<dots> = [s]"
    using s \<open>distinct xs\<close> by (induction xs) (auto simp: filter_empty_conv)
  finally show "matchGitCredential xs req = Ok s" by (simp add: match_eq)
qed

lemma match_None:
  assumes "lists T (git_filter req) xs" and "gqHost req \<noteq> []"
    and "matchGitCredential xs req = Er e" and "errors_is e (GitS ErrNoMatch)"
    and "T n = Some e'"
  shows "\<not> e_fits e' req"
proof
  assume "e_fits e' req"
  from candidate(1) [OF assms(1,2,5) this] obtain s where s: "s \<in> set xs" "git_fits s req" by blast
  have "best_of xs req = []"
    using assms(3,4) by (auto simp: match_eq split: list.splits)
  moreover have "best_of xs req \<noteq> []" by (rule best_of_nonempty [OF s])
  ultimately show False by simp
qed

lemma match_fits: "matchGitCredential cands req = Ok s \<Longrightarrow> s \<in> set cands \<and> git_fits s req"
proof -
  assume "matchGitCredential cands req = Ok s"
  then have "best_of cands req = [s]" by (simp add: match_eq split: list.splits)
  then have "s \<in> set (best_of cands req)" by simp
  then show ?thesis by (simp add: best_of_def)
qed

section \<open>What a request can hold\<close>

definition req_no_LF :: "git_request \<Rightarrow> bool" where
  "req_no_LF req \<longleftrightarrow> LF \<notin> set (gqProtocol req) \<and> LF \<notin> set (gqHost req)
     \<and> LF \<notin> set (gqUsername req) \<and> LF \<notin> set (gqPath req) \<and> LF \<notin> set (val_bytes (gqPassword req))"

lemma git_lines_no_LF:
  "git_lines n ls long req = Ok req' \<Longrightarrow> req_no_LF req \<Longrightarrow> \<forall>l \<in> set ls. LF \<notin> set l \<Longrightarrow> req_no_LF req'"
proof (induction n ls long req rule: git_lines.induct)
  case (2 n l ls long req)
  show ?case
  proof (cases "cut_at (CHR ''='') l")
    case None
    with 2 show ?thesis by (simp split: if_splits)
  next
    case (Some p)
    obtain key val where p: "p = (key, val)" by (cases p)
    with Some have "LF \<notin> set val" using 2(4) by (auto simp: cut_at_Some_iff)
    with 2(3) have "req_no_LF (git_field key val req)"
      by (simp add: req_no_LF_def git_field_def val_bytes_def)
    with 2 Some p show ?thesis by (simp split: if_splits)
  qed
qed (simp split: if_splits)

lemma parseGitRequest_Ok:
  assumes "parseGitRequest input = Ok req"
  shows "gqHost req \<noteq> []" and "req_no_LF req"
proof -
  obtain ls long where sc: "scan_lines (1024 * 1024) input = (ls, long)"
    by (cases "scan_lines (1024 * 1024) input")
  with assms have g: "git_lines 1 ls long empty_git = Ok req" and "gqHost req \<noteq> []"
    by (auto simp: parseGitRequest_def obind_eq_Ok split: if_splits)
  then show "gqHost req \<noteq> []" by simp
  have "\<forall>l \<in> set ls. LF \<notin> set l" using scan_lines_no_LF [of _ "1024 * 1024" input, unfolded sc] by simp
  with git_lines_no_LF [OF g] show "req_no_LF req"
    by (simp add: req_no_LF_def empty_git_def val_bytes_def)
qed

section \<open>Outcomes\<close>

lemma not_success [simp]:
  "exitError e \<noteq> success t" "exit_with m 2 \<noteq> success t" "gitAmbiguous e w \<noteq> success t" "gitExitf m \<noteq> success t"
  "gitError e \<noteq> success t"
proof -
  show "exitError e \<noteq> success t" using exitError_code [of e] by (auto simp: success_def)
  then show "gitAmbiguous e w \<noteq> success t"
    by (simp add: gitAmbiguous_def exit_with_def success_def lit_def)
  show "exit_with m 2 \<noteq> success t" by (simp add: exit_with_def success_def)
  show "gitExitf m \<noteq> success t" by (simp add: gitExitf_def exit_with_def success_def)
  with \<open>exitError e \<noteq> success t\<close> show "gitError e \<noteq> success t"
    by (simp add: gitError_def gitExitf_def exit_with_def success_def)
qed

lemma gomap_ok_gitAttrs: "gomap_ok (gitAttrs req)"
  by (simp add: gomap_ok_def gitAttrs_def git_wants_def)

lemma gitAttrs_lookup:
  "map_of (gitAttrs req) a =
     (if a = ''host'' then Some (gqHost req)
      else if a = ''protocol'' \<and> gqProtocol req \<noteq> [] then Some (gqProtocol req)
      else if a = ''username'' \<and> gqUsername req \<noteq> [] then Some (gqUsername req)
      else if a = ''path'' \<and> gqPath req \<noteq> [] then Some (gqPath req) else None)"
  by (simp add: gitAttrs_def git_wants_def)

lemma git_secret_fits: "git_fits (git_secret req) req"
  by (simp add: git_fits_def git_secret_def attr_or_empty_def gitAttrs_lookup git_wants_def)

lemma fits_host: "git_fits s req \<Longrightarrow> gqHost req \<noteq> [] \<Longrightarrow> (''host'', gqHost req) \<in> set (dAttributes s)"
  by (auto simp: git_fits_def attr_or_empty_def map_of_SomeD split: option.splits)

text \<open>The secret \<open>gitCredentialStore\<close> writes when it ends with success.\<close>

lemma git_store_success:
  assumes "gitCredentialStore c args input st = (success [], st')" and "parseGitRequest input = Ok req"
    and "val_bytes (gqPassword req) \<noteq> []"
  obtains s where "clStore c (s\<lparr>dValue := gqPassword req\<rparr>) st = (Ok (), st')"
    and "gitMatch c st req = Ok s \<or> s = git_secret req
      \<and> (\<exists>e. gitMatch c st req = Er e \<and> errors_is e (GitS ErrNoMatch))"
proof -
  have args: "noArgs ''store'' args = None"
    using assms(1) by (cases "noArgs ''store'' args")
      (auto simp: gitCredentialStore_def noArgs_def split: if_splits)
  have conn: "clConnect c st = Ok ()"
    using assms by (cases "clConnect c st") (simp_all add: gitCredentialStore_def args git_request_or_end_def)
  note st = assms(1) [unfolded gitCredentialStore_def args git_request_or_end_def assms(2) conn,
    simplified, simplified assms(3), simplified Let_def]
  show thesis
  proof (cases "gitMatch c st req")
    case (Ok s)
    with st that [of s] show ?thesis
      by (auto split: prod.splits outcome.splits)
  next
    case (Er e)
    with st that [of "git_secret req"] show ?thesis
      by (auto split: prod.splits outcome.splits if_splits)
  next
    case Panic
    with st show ?thesis by simp
  qed
qed

section \<open>The helper on a live daemon\<close>

context secret_client
begin

text \<open>A secret that the daemon accepted under a fitting request makes the listing filter valid.\<close>

lemma plain_git_filter:
  assumes "git_fits s req" and "gqHost req \<noteq> []" and "attrs_ok (dAttributes s)"
  shows "plain_filter (git_filter req)"
proof -
  have "isSlug gitKind" by code_simp
  moreover from fits_host [OF assms(1,2)] assms(3) have "attrs_ok [(''host'', gqHost req)]"
    by (auto simp: attrs_ok_def)
  ultimately show ?thesis by (simp add: plain_filter_def git_filter_def)
qed

text \<open>After the entry of \<open>s\<close> was set, \<open>s\<close> is the one most specific fit.\<close>

lemma best_after_store:
  assumes "live st" and "gqHost req \<noteq> []" and "git_fits s req" and "gomap_ok (dAttributes s)"
    and "clStore c (s\<lparr>dValue := v\<rparr>) st = (Ok u, st')"
    and "gitMatch c st req = Ok s \<or> (\<exists>e. gitMatch c st req = Er e \<and> errors_is e (GitS ErrNoMatch))"
  shows "best_name (tab st') req (dName s)"
proof -
  have "attrs_ok (dAttributes s)" using store_valid [OF assms(1,5)] by (simp add: secret_ok_def)
  then have plain: "plain_filter (git_filter req)" by (rule plain_git_filter [OF assms(3,2)])
  with list_live [OF assms(1)] obtain xs where xs: "clList c (git_filter req) st = Ok xs"
    and l: "lists (tab st) (git_filter req) xs" by blast
  have old: "e_spec e' < specificity s"
    if "tab st m = Some e'" "e_fits e' req" "m \<noteq> dName s" for m e'
  proof (cases "gitMatch c st req = Ok s")
    case True
    then have "matchGitCredential xs req = Ok s" by (simp add: gitMatch_def xs)
    then have "s \<in> set xs" and best: "best_name (tab st) req (dName s)"
      by (simp_all add: match_Ok [OF l assms(2)])
    with candidate(2) [OF l assms(2) _ assms(3)] obtain e
      where e: "tab st (dName s) = Some e" "e_spec e = specificity s" by blast
    from best obtain e2 where "tab st (dName s) = Some e2"
      and "\<forall>m e'. tab st m = Some e' \<longrightarrow> e_fits e' req \<longrightarrow> m \<noteq> dName s \<longrightarrow> e_spec e' < e_spec e2"
      unfolding best_name_def by blast
    with e that show ?thesis by (metis option.inject)
  next
    case False
    with assms(6) obtain e where "matchGitCredential xs req = Er e" "errors_is e (GitS ErrNoMatch)"
      by (auto simp: gitMatch_def xs)
    from match_None [OF l assms(2) this that(1)] that(2) show ?thesis by blast
  qed
  from store_live [OF assms(1) _ assms(5)] assms(4) obtain created now
    where t: "tab st' = (tab st)(dName s \<mapsto> (dKind s, v, map_of (dAttributes s), created, now))"
    by auto
  have "e_fits (dKind s, v, map_of (dAttributes s), created, now) req"
    using fits_entry [OF assms(2), of s] assms(3) by simp
  then show ?thesis unfolding best_name_def
    using old by (intro exI [of _ "(dKind s, v, map_of (dAttributes s), created, now)"])
      (simp add: t spec_entry)
qed

lemma git_store_then_get:
  assumes "live st" and "parseGitRequest input = Ok req" and "val_bytes (gqPassword req) \<noteq> []"
    and "gitCredentialStore c [] input st = (success [], st')" and "clConnect c st' = Ok ()"
  shows "\<exists>user. gitCredentialGet c [] input st'
           = success (user @ ''password='' @ val_bytes (gqPassword req) @ [LF])
         \<and> (user = [] \<or> (\<exists>u. user = ''username='' @ u @ [LF] \<and> LF \<notin> set u
               \<and> (gqUsername req = [] \<or> u = gqUsername req)))"
proof -
  note host = parseGitRequest_Ok [OF assms(2)]
  from git_store_success [OF assms(4,2,3)] obtain s
    where sto: "clStore c (s\<lparr>dValue := gqPassword req\<rparr>) st = (Ok (), st')"
      and s: "gitMatch c st req = Ok s \<or> s = git_secret req
        \<and> (\<exists>e. gitMatch c st req = Er e \<and> errors_is e (GitS ErrNoMatch))" by metis
  have ok: "secret_ok (dName s) (dKind s) (dAttributes s) (val_bytes (gqPassword req))"
    using store_valid [OF assms(1) sto] by simp
  have fits: "git_fits s req"
    using s match_fits git_secret_fits by (auto simp: gitMatch_def obind_eq_Ok)
  have plain: "plain_filter (git_filter req)"
    using ok by (intro plain_git_filter [OF fits host(1)]) (simp add: secret_ok_def)
  have gm: "gomap_ok (dAttributes s)"
    using s
  proof
    assume "gitMatch c st req = Ok s"
    moreover from list_live [OF assms(1) plain] obtain xs where "clList c (git_filter req) st = Ok xs"
      and l: "lists (tab st) (git_filter req) xs" by blast
    ultimately have "matchGitCredential xs req = Ok s" by (simp add: gitMatch_def)
    with match_Ok [OF l host(1)] listsD(4) [OF l] show ?thesis by blast
  qed (simp add: git_secret_def gomap_ok_gitAttrs)
  from s have s': "gitMatch c st req = Ok s \<or> (\<exists>e. gitMatch c st req = Er e \<and> errors_is e (GitS ErrNoMatch))"
    by blast
  have best: "best_name (tab st') req (dName s)"
    by (rule best_after_store [OF assms(1) host(1) fits gm sto s'])
  from store_live [OF assms(1) _ sto] gm obtain created now where live': "live st'"
    and t: "tab st' (dName s) = Some (dKind s, gqPassword req, map_of (dAttributes s), created, now)"
    by auto
  from list_live [OF live' plain] obtain ys where ys: "clList c (git_filter req) st' = Ok ys"
    and l': "lists (tab st') (git_filter req) ys" by blast
  have "e_fits (dKind s, gqPassword req, map_of (dAttributes s), created, now) req"
    using fits_entry [OF host(1), of s] fits by simp
  from candidate(1) [OF l' host(1) t this] obtain y where y: "y \<in> set ys" "dName y = dName s" by blast
  with best have m: "gitMatch c st' req = Ok y" by (simp add: gitMatch_def ys match_Ok [OF l' host(1)])
  from listsD(3) [OF l' y(1)] t y(2) have at: "map_of (dAttributes y) = map_of (dAttributes s)" by simp
  from get_live [OF live' _ t] ok obtain z where z: "clGet c (dName s) st' = Ok z"
    and v: "dValue z = gqPassword req" by (auto simp: secret_ok_def out_view_def)
  have "gitCredentialGet c [] input st' = success (git_answer y (val_bytes (gqPassword req)))"
    using host(2) by (simp add: gitCredentialGet_def noArgs_def git_request_or_end_def assms(2,5) m z y(2) v
        req_no_LF_def)
  moreover have "LF \<notin> set u \<and> (gqUsername req = [] \<or> u = gqUsername req)"
    if u: "map_of (dAttributes s) ''username'' = Some u" for u
  proof -
    from u ok have "text_ok u" by (fastforce simp: secret_ok_def attrs_ok_def dest: map_of_SomeD)
    with u fits show ?thesis by (auto simp: text_ok_no_LF git_fits_def git_wants_def)
  qed
  ultimately show ?thesis
    by (auto simp: git_answer_def at split: option.splits)
qed

lemma git_erase:
  assumes "live st" and "parseGitRequest input = Ok req" and "plain_filter (git_filter req)"
    and "clConnect c st = Ok ()" and "gitMatch c st req = Ok s" and "clDelete c (dName s) st = (Ok u, st')"
  shows "gitCredentialErase c [] input st = (success [], st') \<and> best_name (tab st) req (dName s)
    \<and> tab st' = (tab st)(dName s := None)"
proof -
  from list_live [OF assms(1,3)] obtain xs where xs: "clList c (git_filter req) st = Ok xs"
    and l: "lists (tab st) (git_filter req) xs" by blast
  from assms(5) have "matchGitCredential xs req = Ok s" by (simp add: gitMatch_def xs)
  then show ?thesis using delete_live [OF assms(1,6)]
    by (simp add: match_Ok [OF l parseGitRequest_Ok(1) [OF assms(2)]] gitCredentialErase_def noArgs_def
        git_request_or_end_def assms)
qed

end

text \<open>Without one best match, \<open>store\<close> and \<open>erase\<close> leave every secret alone.\<close>

lemma git_ambiguous:
  assumes "gitMatch c st req = Er e" and "\<not> errors_is e (GitS ErrNoMatch)"
    and "parseGitRequest input = Ok req"
  shows "snd (gitCredentialStore c args input st) = st" and "snd (gitCredentialErase c args input st) = st"
  using assms by (simp_all add: gitCredentialStore_def gitCredentialErase_def git_request_or_end_def Let_def
      split: option.split outcome.split)

text \<open>\<open>get\<close> writes the username line and one password line without line feed, or nothing.\<close>

lemma git_get_output:
  "outText (gitCredentialGet c args input st) = [] \<or>
     (\<exists>s b. outText (gitCredentialGet c args input st) = git_answer s b \<and> LF \<notin> set b)"
  by (auto simp: gitCredentialGet_def Let_def success_def exit_with_def noArgs_def gitExitf_def exitError_def
      gitError_def git_request_or_end_def split: option.splits sum.splits outcome.splits)

end
