(* ===== verification/JsonStream.thy ===== *)
theory JsonStream
  imports JsonDecode
begin

text \<open>
  \<open>json.Decoder\<close>: the first document of a text. The decoder stops as soon as the document is
  complete, so what follows is not looked at. A number as the whole document, which no caller
  accepts, ends where the characters of numbers end.
\<close>

function first_doc :: "frame list \<times> phase \<Rightarrow> bytes \<Rightarrow> (json \<times> bytes) option" where
  "first_doc st [] = None"
| "first_doc st (c # cs) =
     (if is_ws c then first_doc st cs
      else case next_tok (c # cs) of
             None \<Rightarrow> None
           | Some (t, rest) \<Rightarrow>
               (case pstep st t of
                  None \<Rightarrow> None
                | Some st' \<Rightarrow>
                    (case snd st' of PDone j \<Rightarrow> Some (j, rest) | _ \<Rightarrow> first_doc st' rest)))"
  by pat_completeness auto
termination
  by (relation "measure (\<lambda>(st, s). length s)") (auto dest!: next_tok_len)

declare first_doc.simps(2) [simp del]

definition json_decoder :: "bytes \<Rightarrow> (json \<times> bytes) option" where
  "json_decoder s = first_doc ([], PVal) s"

text \<open>\<open>dec.Token\<close> after the document: nothing but white space is left.\<close>

definition at_eof :: "bytes \<Rightarrow> bool" where
  "at_eof s \<longleftrightarrow> list_all is_ws s"

lemma run_toks_done: "ts \<noteq> [] \<Longrightarrow> run_toks ts (fs, PDone j) = None"
  by (cases ts) (simp_all add: pstep_def)

lemma first_doc_toks:
  assumes "\<forall>t \<in> set ts. tok_ok t" and "successively apart ts" and "ts \<noteq> []"
    and "\<not> is_TNum (last ts)" and "run_toks ts st = Some (fs, PDone j)" and "\<nexists>j. snd st = PDone j"
  shows "first_doc st (concat (map tok_text ts) @ rest) = Some (j, rest)"
  using assms
proof (induction ts arbitrary: st)
  case (Cons t ts)
  have sep: "is_TNum t \<longrightarrow> concat (map tok_text ts) @ rest = []
      \<or> \<not> num_char (hd (concat (map tok_text ts) @ rest))"
  proof (cases ts)
    case c: (Cons u us)
    with Cons.prems have "tok_ok u" "apart t u" by auto
    then show ?thesis using tok_text_hd [of u] by (auto simp: c apart_def)
  qed (use Cons.prems(4) in simp)
  from next_tok_text [OF _ sep] Cons.prems(1)
  have n: "next_tok (tok_text t @ concat (map tok_text ts) @ rest) = Some (t, concat (map tok_text ts) @ rest)"
    and w: "\<not> is_ws (hd (tok_text t))" and ne: "tok_text t \<noteq> []"
    by auto
  from ne obtain c cs where t: "tok_text t = c # cs" by (cases "tok_text t") auto
  from Cons.prems(5) obtain st' where p: "pstep st t = Some st'"
    and r: "run_toks ts st' = Some (fs, PDone j)" by (auto simp: bind_eq_Some_conv)
  show ?case
  proof (cases "\<exists>j. snd st' = PDone j")
    case True
    then obtain fs' j' where st': "st' = (fs', PDone j')" by (cases st') auto
    with r run_toks_done [of ts fs' j'] have "ts = []" by (cases "ts = []") auto
    with r st' n w t p show ?thesis by (simp add: first_doc.simps(2))
  next
    case False
    with r have "ts \<noteq> []" by (cases "ts = []") auto
    moreover from this have "\<not> is_TNum (last ts)" using Cons.prems(4) by simp
    ultimately have "first_doc st' (concat (map tok_text ts) @ rest) = Some (j, rest)"
      using Cons.IH [of st'] Cons.prems(1,2) r False by (cases ts) auto
    with n w t p False show ?thesis
      by (auto simp: first_doc.simps(2) split: phase.split)
  qed
qed simp

lemma json_decoder_print:
  assumes "json_ok (JObj ms)" and "json_depth (JObj ms) \<le> MaxDepth"
  shows "json_decoder (print_json (JObj ms) @ rest) = Some (JObj ms, rest)"
proof -
  have "run_toks (toks (JObj ms)) ([], PVal) = run_toks [] (complete [] (JObj ms))"
    using readsD [OF machine_reads [of "JObj ms" "[]"], of PVal "[]"] assms(2) by simp
  then have "run_toks (toks (JObj ms)) ([], PVal) = Some ([], PDone (JObj ms))" by simp
  then show ?thesis unfolding json_decoder_def print_json_def
    by (intro first_doc_toks [where fs = "[]"] toks_ok toks_apart assms) (simp_all del: run_toks.simps)
qed

end
