(* ===== verification/DockerHelper.thy ===== *)
theory DockerHelper
  imports Credentials JsonStream
begin

text \<open>
  cmd/docker-credential-keycell: the docker credential helper. \<open>request.go\<close> reads docker's requests,
  \<open>commands.go\<close> has the four commands, \<open>main.go\<close> the mapping of errors. Standard input is the bytes
  it delivers; the secrets come from a \<open>client\<close>.
\<close>

section \<open>Requests\<close>

definition maxRequest :: nat where "maxRequest = 64 * 1024"

definition readServerURL :: "bytes \<Rightarrow> bytes res" where
  "readServerURL input =
     (let s = trim_space (take maxRequest input) in
      if s = [] then Er (Sentinel (DockerS DkErrNoServerURL))
      else if list_ex (\<lambda>c. c \<in> {CHR '' '', CHR 0x09, CHR 0x0D, LF}) s
        then Er (New (lit ''server URL '' @ [Q s] @ lit '': whitespace''))
      else Ok s)"

record store_request =
  srServerURL :: bytes
  srUsername :: bytes
  srSecret :: "json option"

definition zero_store_request :: store_request where
  "zero_store_request = \<lparr> srServerURL = [], srUsername = [], srSecret = None \<rparr>"

definition store_request_fields :: "(bytes \<times> store_request setter) list" where
  "store_request_fields =
     [(''ServerURL'', \<lambda>r j. map_option (\<lambda>s. r\<lparr>srServerURL := s\<rparr>) (dec_string (srServerURL r) j)),
      (''Username'', \<lambda>r j. map_option (\<lambda>s. r\<lparr>srUsername := s\<rparr>) (dec_string (srUsername r) j)),
      (''Secret'', \<lambda>r j. Some (r\<lparr>srSecret := Some j\<rparr>))]"

definition readStoreRequest :: "bytes \<Rightarrow> store_request res" where
  "readStoreRequest input =
     (case Option.bind (json_decoder (take maxRequest input))
             (\<lambda>(j, rest). dec_struct True store_request_fields zero_store_request j) of
        None \<Rightarrow> Er (wrapf (lit ''store request'') (New [F JsonText]))
      | Some req \<Rightarrow>
          if srServerURL req = [] then Er (Sentinel (DockerS DkErrNoServerURL))
          else if srUsername req = [] then Er (Sentinel (DockerS DkErrNoUsername))
          else if srSecret req = None then Er (New (lit ''secret missing''))
          else Ok req)"

section \<open>Unquoting\<close>

text \<open>\<open>hex4\<close> and \<open>unquoteRune\<close>: the rune of a \<open>\uXXXX\<close> escape, or of a surrogate pair of them, and the
  bytes consumed.\<close>

definition unq_hex4 :: "bytes \<Rightarrow> nat option" where
  "unq_hex4 b =
     (if length b < 6 \<or> b ! 0 \<noteq> BSL \<or> b ! 1 \<noteq> CHR ''u'' then None else getu4 (drop 2 b))"

definition unquoteRune :: "bytes \<Rightarrow> (nat \<times> nat) res" where
  "unquoteRune s =
     (case unq_hex4 s of
        None \<Rightarrow> Er (New (lit (''secret: bad '' @ [BSL] @ ''u escape'')))
      | Some r \<Rightarrow>
          if \<not> is_surrogate r then Ok (r, 6)
          else case unq_hex4 (drop 6 s) of
                 None \<Rightarrow> Er (New (lit ''secret: lone surrogate''))
               | Some r2 \<Rightarrow>
                   (case utf16_pair r r2 of
                      None \<Rightarrow> Er (New (lit ''secret: bad surrogate pair''))
                    | Some rr \<Rightarrow> Ok (rr, 12)))"

lemma unquoteRune_pos: "unquoteRune s = Ok (r, n) \<Longrightarrow> 0 < n"
  by (auto simp: unquoteRune_def split: option.splits if_splits)

text \<open>The loop over the content of the literal; \<open>out\<close> is what has been decoded.\<close>

function unquote_loop :: "bytes \<Rightarrow> bytes \<Rightarrow> bytes res" where
  "unquote_loop [] out = Ok out"
| "unquote_loop (c # cs) out =
     (if c \<noteq> BSL then unquote_loop cs (out @ [c])
      else case cs of
             [] \<Rightarrow> Er (New (lit ''secret: dangling escape''))
           | e # rest \<Rightarrow>
               (case simple_esc e of
                  Some x \<Rightarrow> unquote_loop rest (out @ [x])
                | None \<Rightarrow>
                    if e = CHR ''u'' then
                      (case unquoteRune (c # cs) of
                         Ok (r, n) \<Rightarrow> unquote_loop (drop n (c # cs)) (out @ encode_rune r)
                       | Er err \<Rightarrow> Er err
                       | Panic \<Rightarrow> Panic)
                    else Er (New (lit (''secret: bad escape '' @ [BSL] @ encode_rune (byte_of e))))))"
  by pat_completeness auto
termination
  by (relation "measure (\<lambda>(s, out). length s)") (auto dest!: unquoteRune_pos)

declare unquote_loop.simps(2) [simp del]

definition unquote :: "bytes \<Rightarrow> bytes res" where
  "unquote raw =
     (if length raw < 2 \<or> hd raw \<noteq> DQ \<or> last raw \<noteq> DQ
      then Er (New (lit ''secret is not a JSON string''))
      else unquote_loop (butlast (tl raw)) [])"

section \<open>Quoting\<close>

definition quote_byte :: "char \<Rightarrow> bytes" where
  "quote_byte c =
     (if c = DQ \<or> c = BSL then [BSL, c]
      else if c = LF then [BSL, CHR ''n'']
      else if c = CHR 0x0D then [BSL, CHR ''r'']
      else if c = CHR 0x09 then [BSL, CHR ''t'']
      else if byte_of c < (32::nat) then
        [BSL, CHR ''u'', CHR ''0'', CHR ''0'', hexdig (byte_of c div 16), hexdig (byte_of c mod 16)]
      else [c])"

function quote_loop :: "bytes \<Rightarrow> bytes" where
  "quote_loop [] = []"
| "quote_loop (c # cs) =
     (if byte_of c < (128::nat) then quote_byte c @ quote_loop cs
      else case utf8_head (c # cs) of
             None \<Rightarrow> encode_rune RuneError @ quote_loop cs
           | Some (r, n) \<Rightarrow> take n (c # cs) @ quote_loop (drop n (c # cs)))"
  by pat_completeness auto
termination
  by (relation "measure length") (auto dest!: utf8_head_len)

declare quote_loop.simps(2) [simp del]

definition quote :: "bytes \<Rightarrow> bytes" where
  "quote b = DQ # quote_loop b @ [DQ]"

section \<open>Names and matches\<close>

definition docker_kind :: bytes where "docker_kind = ''docker-registry''"

text \<open>\<open>strings.Cut\<close> at a separator of several bytes.\<close>

fun cut_str :: "bytes \<Rightarrow> bytes \<Rightarrow> (bytes \<times> bytes) option" where
  "cut_str sep [] = (if sep = [] then Some ([], []) else None)"
| "cut_str sep (c # cs) =
     (if take (length sep) (c # cs) = sep then Some ([], drop (length sep) (c # cs))
      else map_option (\<lambda>(a, b). (c # a, b)) (cut_str sep cs))"

definition secretName :: "bytes \<Rightarrow> bytes" where
  "secretName server =
     (let rest = (case cut_str ''://'' server of Some (_, rest) \<Rightarrow> rest | None \<Rightarrow> server);
          host = (case cut_at (CHR ''/'') rest of Some (host, _) \<Rightarrow> host | None \<Rightarrow> rest)
      in ''docker/'' @ (if host = [] then server else host))"

definition docker_filter :: "bytes \<Rightarrow> sfilter" where
  "docker_filter server =
     \<lparr> fKind = docker_kind, fPrefix = [], fAttributes = [(''server'', server)] \<rparr>"

definition docker_match :: "'st client \<Rightarrow> 'st \<Rightarrow> bytes \<Rightarrow> dsecret res" where
  "docker_match c st server =
     obind (clList c (docker_filter server) st)
       (\<lambda>secs. case secs of
          [] \<Rightarrow> Er (Sentinel (DockerS DkErrNoMatch))
        | [s] \<Rightarrow> Ok s
        | _ \<Rightarrow> Er (Ambiguous (sort (map dName secs))))"

section \<open>Errors\<close>

definition docker_prog :: bytes where "docker_prog = ''docker-credential-keycell''"

definition docker_exitf :: "msg \<Rightarrow> cmd_out" where
  "docker_exitf m = exit_with (lit (docker_prog @ '': '') @ m) 1"

definition locked_hint :: bytes where
  "locked_hint = ''daemon is locked, run '' @ quoted ''keycell unlock''"

definition daemonError :: "goerr \<Rightarrow> cmd_out" where
  "daemonError e =
     (if errors_is e (ClientS CErrLocked) then docker_exitf (lit locked_hint)
      else if errors_is e (ClientS CErrNotRunning) then
        docker_exitf (lit (''daemon is not running, run '' @ quoted ''systemctl --user start keycell''))
      else if is_ambiguous e then docker_exitf (err_msg e)
      else case errors_as_client e of
             Some (code, m) \<Rightarrow> docker_exitf m
           | None \<Rightarrow> docker_exitf (err_msg e))"

section \<open>Commands\<close>

definition notFound :: bytes where "notFound = ''credentials not found in native keychain''"

definition panic_out :: cmd_out where "panic_out = exit_with [] 2"

definition marshal_string :: "bytes \<Rightarrow> bytes" where
  "marshal_string s = print_json (enc_string s)"

definition writeCredential :: "bytes \<Rightarrow> bytes \<Rightarrow> bytes \<Rightarrow> bytes" where
  \<open>writeCredential server username secret =
     ''{"ServerURL":'' @ marshal_string server @ '',"Username":'' @ marshal_string username
       @ '',"Secret":'' @ quote secret @ ''}'' @ [LF]\<close>

definition docker_get :: "'st client \<Rightarrow> bytes \<Rightarrow> 'st \<Rightarrow> cmd_out" where
  "docker_get c input st =
     (case readServerURL input of Er e \<Rightarrow> docker_exitf (err_msg e) | Panic \<Rightarrow> panic_out | Ok server \<Rightarrow>
      case clConnect c st of Er e \<Rightarrow> daemonError e | Panic \<Rightarrow> panic_out | Ok _ \<Rightarrow>
      case docker_match c st server of
        Panic \<Rightarrow> panic_out
      | Er e \<Rightarrow>
          if errors_is e (DockerS DkErrNoMatch)
          then \<lparr> outText = notFound @ [LF], outErr = [], outCode = 1 \<rparr>
          else daemonError e
      | Ok s \<Rightarrow>
          (case clGet c (dName s) st of
             Er e \<Rightarrow> daemonError e
           | Panic \<Rightarrow> panic_out
           | Ok full \<Rightarrow> success (writeCredential server
               (attr_or_empty (dAttributes s) ''username'') (val_bytes (dValue full)))))"

text \<open>The map from servers to usernames that \<open>list\<close> prints.\<close>

fun docker_logins :: "dsecret list \<Rightarrow> (bytes, bytes) gomap \<Rightarrow> (bytes, bytes) gomap" where
  "docker_logins [] out = out"
| "docker_logins (s # ss) out =
     (let server = attr_or_empty (dAttributes s) ''server'' in
      docker_logins ss (if server \<noteq> []
        then AList.update server (attr_or_empty (dAttributes s) ''username'') out else out))"

definition docker_list :: "'st client \<Rightarrow> 'st \<Rightarrow> cmd_out" where
  "docker_list c st =
     (case clConnect c st of Er e \<Rightarrow> daemonError e | Panic \<Rightarrow> panic_out | Ok _ \<Rightarrow>
      case clList c \<lparr> fKind = docker_kind, fPrefix = [], fAttributes = [] \<rparr> st of
        Panic \<Rightarrow> panic_out
      | Er e \<Rightarrow>
          if errors_is e (ClientS CErrLocked)
          then \<lparr> outText = ''{}'' @ [LF], outErr = lit (docker_prog @ '': '' @ locked_hint), outCode = 0 \<rparr>
          else daemonError e
      | Ok secs \<Rightarrow> success (print_json (enc_strmap (docker_logins secs [])) @ [LF]))"

definition docker_secret :: "bytes \<Rightarrow> dsecret" where
  "docker_secret server = \<lparr> dName = secretName server, dKind = docker_kind,
     dAttributes = [(''server'', server)], dValue = None, dCreated = zero_time, dUpdated = zero_time \<rparr>"

text \<open>
  The last part of \<open>store\<close>: the username and the value are set and the secret is sent. A secret listed
  without attributes has the nil map, in which nothing can be set.
\<close>

definition docker_send ::
  "'st client \<Rightarrow> bytes \<Rightarrow> bytes \<Rightarrow> dsecret \<Rightarrow> 'st \<Rightarrow> cmd_out \<times> 'st" where
  "docker_send c user secret s st =
     (if dAttributes s = [] then (panic_out, st)
      else case clStore c (s\<lparr>dAttributes := AList.update ''username'' user (dAttributes s),
                             dValue := Some secret\<rparr>) st of
             (Ok _, st') \<Rightarrow> (success [], st')
           | (Er e, st') \<Rightarrow> (daemonError e, st')
           | (Panic, st') \<Rightarrow> (panic_out, st'))"

definition docker_store :: "'st client \<Rightarrow> bytes \<Rightarrow> 'st \<Rightarrow> cmd_out \<times> 'st" where
  "docker_store c input st =
     (case readStoreRequest input of Er e \<Rightarrow> (docker_exitf (err_msg e), st) | Panic \<Rightarrow> (panic_out, st)
      | Ok req \<Rightarrow>
      case unquote (print_json (the (srSecret req))) of
        Er e \<Rightarrow> (docker_exitf (err_msg e), st) | Panic \<Rightarrow> (panic_out, st) | Ok secret \<Rightarrow>
      case clConnect c st of Er e \<Rightarrow> (daemonError e, st) | Panic \<Rightarrow> (panic_out, st) | Ok _ \<Rightarrow>
      case docker_match c st (srServerURL req) of
        Ok s \<Rightarrow> docker_send c (srUsername req) secret s st
      | Panic \<Rightarrow> (panic_out, st)
      | Er e \<Rightarrow>
          if errors_is e (DockerS DkErrNoMatch)
          then docker_send c (srUsername req) secret (docker_secret (srServerURL req)) st
          else (daemonError e, st))"

definition docker_erase :: "'st client \<Rightarrow> bytes \<Rightarrow> 'st \<Rightarrow> cmd_out \<times> 'st" where
  "docker_erase c input st =
     (case readServerURL input of
        Er e \<Rightarrow> (docker_exitf (err_msg e), st) | Panic \<Rightarrow> (panic_out, st) | Ok server \<Rightarrow>
      case clConnect c st of Er e \<Rightarrow> (daemonError e, st) | Panic \<Rightarrow> (panic_out, st) | Ok _ \<Rightarrow>
      case docker_match c st server of
        Panic \<Rightarrow> (panic_out, st)
      | Er e \<Rightarrow> if errors_is e (DockerS DkErrNoMatch) then (success [], st) else (daemonError e, st)
      | Ok s \<Rightarrow>
          (case clDelete c (dName s) st of
             (Ok _, st') \<Rightarrow> (success [], st')
           | (Er e, st') \<Rightarrow>
               if errors_is e (ClientS CErrNotFound) then (success [], st') else (daemonError e, st')
           | (Panic, st') \<Rightarrow> (panic_out, st')))"

text \<open>
  \<open>run\<close>: process hardening has succeeded, was skipped on request, or has failed. \<open>args\<close> includes the
  program name.
\<close>

datatype hardening = Hardened | HardenSkipped msg | HardenFailed msg

definition docker_usage :: cmd_out where
  "docker_usage = exit_with (lit (''usage: '' @ docker_prog @ '' <get|store|erase|list>'')) 1"

definition docker_command :: "'st client \<Rightarrow> bytes list \<Rightarrow> bytes \<Rightarrow> 'st \<Rightarrow> cmd_out \<times> 'st" where
  "docker_command c args input st =
     (if length args \<noteq> 2 then (docker_usage, st)
      else if args ! 1 = ''get'' then (docker_get c input st, st)
      else if args ! 1 = ''store'' then docker_store c input st
      else if args ! 1 = ''erase'' then docker_erase c input st
      else if args ! 1 = ''list'' then (docker_list c st, st)
      else (docker_usage, st))"

definition docker_run :: "'st client \<Rightarrow> hardening \<Rightarrow> bytes list \<Rightarrow> bytes \<Rightarrow> 'st \<Rightarrow> cmd_out \<times> 'st" where
  "docker_run c h args input st =
     (case h of
        HardenFailed m \<Rightarrow> (docker_exitf (lit ''hardening failed: '' @ m), st)
      | Hardened \<Rightarrow> docker_command c args input st
      | HardenSkipped m \<Rightarrow>
          apfst (\<lambda>out. out\<lparr>outErr := lit (docker_prog @ '': warning: '') @ m @ lit [LF] @ outErr out\<rparr>)
            (docker_command c args input st))"

section \<open>Quoting and unquoting\<close>

lemma unquote_loop_plain: "BSL \<notin> set p \<Longrightarrow> unquote_loop (p @ t) out = unquote_loop t (out @ p)"
  by (induction p arbitrary: out) (auto simp: unquote_loop.simps(2))

lemma unquote_loop_short:
  "simple_esc e = Some x \<Longrightarrow> unquote_loop (BSL # e # t) out = unquote_loop t (out @ [x])"
  by (simp add: unquote_loop.simps(2))

lemma hexval_0: "hexval (CHR ''0'') = Some 0"
  by (simp add: hexval_def)

lemma byte_esc:
  assumes "byte_of c < (32::nat)"
  shows "unquote_loop ([BSL, CHR ''u'', CHR ''0'', CHR ''0'', hexdig (byte_of c div 16),
      hexdig (byte_of c mod 16)] @ t) out = unquote_loop t (out @ [c])"
proof -
  have v: "hexval (hexdig (byte_of c div 16)) = Some (byte_of c div 16)"
    "hexval (hexdig (byte_of c mod 16)) = Some (byte_of c mod 16)"
    using assms by auto
  have e: "encode_rune (byte_of c) = [c]" using assms by (simp add: encode_rune_ascii)
  have "\<not> is_surrogate (byte_of c)" using assms by (simp add: is_surrogate_def)
  then show ?thesis
    by (simp add: unquote_loop.simps(2) simple_esc_def unquoteRune_def unq_hex4_def v hexval_0 e)
qed

lemma quote_byte_cases:
  obtains (self) "quote_byte c = [c]" "c \<noteq> BSL" "c \<noteq> DQ" "\<not> byte_of c < (32::nat)"
    | (short) e where "quote_byte c = [BSL, e]" "simple_esc e = Some c"
    | (hex) "byte_of c < (32::nat)" "quote_byte c = [BSL, CHR ''u'', CHR ''0'', CHR ''0'',
        hexdig (byte_of c div 16), hexdig (byte_of c mod 16)]"
proof -
  consider "c = DQ" | "c = BSL" | "c = LF" | "c = CHR 0x0D" | "c = CHR 0x09"
    | "c \<notin> {DQ, BSL, LF, CHR 0x0D, CHR 0x09}"
    by blast
  then show thesis
  proof cases
    case 1
    show thesis by (rule short [of DQ]) (simp_all add: 1 quote_byte_def simple_esc_def)
  next
    case 2
    show thesis by (rule short [of BSL]) (simp_all add: 2 quote_byte_def simple_esc_def)
  next
    case 3
    show thesis by (rule short [of "CHR ''n''"]) (simp_all add: 3 quote_byte_def simple_esc_def)
  next
    case 4
    show thesis by (rule short [of "CHR ''r''"]) (simp_all add: 4 quote_byte_def simple_esc_def)
  next
    case 5
    show thesis by (rule short [of "CHR ''t''"]) (simp_all add: 5 quote_byte_def simple_esc_def)
  next
    case 6
    then show thesis
      using hex self by (cases "byte_of c < (32::nat)") (simp_all add: quote_byte_def)
  qed
qed

lemma multi_plain:
  assumes "utf8_head (c # cs) = Some (r, n)" and "\<not> byte_of c < (128::nat)"
  shows "BSL \<notin> set (take n (c # cs))"
  using utf8_head_multi [OF assms] by force

lemma unquote_loop_quote: "utf8_valid b \<Longrightarrow> unquote_loop (quote_loop b) out = Ok (out @ b)"
proof (induction b arbitrary: out rule: quote_loop.induct)
  case (2 c cs)
  show ?case
  proof (cases "byte_of c < (128::nat)")
    case True
    with "2.prems" have v: "utf8_valid cs" by simp
    have "unquote_loop (quote_byte c @ quote_loop cs) out = unquote_loop (quote_loop cs) (out @ [c])"
    proof (cases c rule: quote_byte_cases)
      case self
      then show ?thesis using unquote_loop_plain [of "[c]"] by simp
    next
      case (short e)
      then show ?thesis by (simp add: unquote_loop_short)
    next
      case hex
      then show ?thesis by (simp only: byte_esc)
    qed
    with True v "2.IH"(1) show ?thesis by (simp add: quote_loop.simps(2))
  next
    case False
    from "2.prems" obtain r n where h: "utf8_head (c # cs) = Some (r, n)"
      and v: "utf8_valid (drop n (c # cs))"
      by (auto simp: utf8_valid.simps(2) split: option.splits)
    from "2.IH"(3) [OF False h refl v] unquote_loop_plain [OF multi_plain [OF h False]]
    show ?thesis using False h by (simp add: quote_loop.simps(2) append_take_drop_id)
  qed
qed simp

lemma unquote_content: "unquote (DQ # s @ [DQ]) = unquote_loop s []"
  by (simp add: unquote_def)

lemma unquote_quote_ok: "utf8_valid b \<Longrightarrow> unquote (quote b) = Ok b"
  by (simp add: quote_def unquote_content unquote_loop_quote)

section \<open>What docker's decoder reads\<close>

lemma hex_byte:
  assumes "byte_of c < (32::nat)"
  shows "[BSL, CHR ''u'', CHR ''0'', CHR ''0'', hexdig (byte_of c div 16), hexdig (byte_of c mod 16)]
    = u_esc (byte_of c)"
proof -
  have "hexdig 0 = CHR ''0''" by code_simp
  moreover have "byte_of c div 16 mod 16 = (byte_of c div 16 :: nat)"
    "byte_of c div 4096 mod 16 = (0::nat)" "byte_of c div 256 mod 16 = (0::nat)"
    using assms by simp_all
  ultimately show ?thesis by (simp add: u_esc_def hex4_def)
qed

lemma unquote_lit_quote: "utf8_valid b \<Longrightarrow> unquote_lit (quote_loop b) = Some b"
proof (induction b rule: quote_loop.induct)
  case (2 c cs)
  show ?case
  proof (cases "byte_of c < (128::nat)")
    case True
    with "2.prems" have v: "utf8_valid cs" by simp
    have "unquote_lit (quote_byte c @ quote_loop cs) = map_option ((#) c) (unquote_lit (quote_loop cs))"
    proof (cases c rule: quote_byte_cases)
      case self
      with True show ?thesis by (simp add: unquote_lit.simps(2))
    next
      case (short e)
      then have "e \<noteq> CHR ''u''" by (auto simp: simple_esc_def)
      moreover have "(@) [c] = (#) c" by auto
      ultimately show ?thesis using short by (simp add: unquote_lit.simps(2))
    next
      case hex
      then have "\<not> is_surrogate (byte_of c)" "byte_of c < (65536::nat)" "encode_rune (byte_of c) = [c]"
        by (auto simp: is_surrogate_def encode_rune_ascii)
      moreover have "(@) [c] = (#) c" by auto
      ultimately show ?thesis using hex by (simp add: hex_byte unquote_u_esc)
    qed
    with True v "2.IH"(1) show ?thesis by (simp add: quote_loop.simps(2))
  next
    case False
    from "2.prems" obtain r n where h: "utf8_head (c # cs) = Some (r, n)"
      and v: "utf8_valid (drop n (c # cs))"
      by (auto simp: utf8_valid.simps(2) split: option.splits)
    from "2.IH"(3) [OF False h refl v] unquote_multi [OF h False]
    show ?thesis using False h by (simp add: quote_loop.simps(2) append_take_drop_id)
  qed
qed simp

lemma lex_str_quote_byte: "lex_str (quote_byte c @ t) = cons_raw (quote_byte c) (lex_str t)"
proof (cases c rule: quote_byte_cases)
  case self
  then show ?thesis using lex_str_plain [of "[c]" t] by auto
next
  case (short e)
  then have "e \<noteq> CHR ''u''" by (auto simp: simple_esc_def)
  with short show ?thesis by (simp add: lex_str.simps(2))
next
  case hex
  then show ?thesis by (simp add: hex_byte lex_str_u_esc)
qed

lemma lex_str_quote_loop: "lex_str (quote_loop b @ t) = cons_raw (quote_loop b) (lex_str t)"
proof (induction b rule: quote_loop.induct)
  case (2 c cs)
  show ?case
  proof (cases "byte_of c < (128::nat)")
    case True
    with "2.IH"(1) show ?thesis by (simp add: quote_loop.simps(2) lex_str_quote_byte)
  next
    case False
    show ?thesis
    proof (cases "utf8_head (c # cs)")
      case None
      have "\<forall>c \<in> set (encode_rune RuneError). 128 \<le> (byte_of c :: nat)"
        by (simp add: encode_rune_def RuneError_def)
      then have "lex_str (encode_rune RuneError @ u) = cons_raw (encode_rune RuneError) (lex_str u)" for u
        by (intro lex_str_plain) fastforce
      with None False "2.IH"(2) show ?thesis by (simp add: quote_loop.simps(2))
    next
      case (Some p)
      then obtain r n where "utf8_head (c # cs) = Some (r, n)" by (cases p) auto
      with False "2.IH"(3) [of "(r, n)" r n] show ?thesis
        by (simp add: quote_loop.simps(2) lex_str_multi)
    qed
  qed
qed simp

lemma raw_ok_quote_loop [simp]: "raw_ok (quote_loop b)"
  by (simp add: raw_ok_def lex_str_quote_loop) (simp add: lex_str.simps(2))

definition credential_json :: "bytes \<Rightarrow> bytes \<Rightarrow> bytes \<Rightarrow> json" where
  "credential_json server username secret =
     JObj [(''ServerURL'', enc_string server), (''Username'', enc_string username),
           (''Secret'', JStr (quote_loop secret))]"

lemma writeCredential_eq:
  "writeCredential server username secret = print_json (credential_json server username secret) @ [LF]"
  by (simp add: writeCredential_def credential_json_def print_json_def marshal_string_def quote_def
      enc_string_def)

lemma docker_names [simp]:
  "unquote_lit ''ServerURL'' = Some ''ServerURL''" "unquote_lit ''Username'' = Some ''Username''"
  "unquote_lit ''Secret'' = Some ''Secret''"
  "raw_ok ''ServerURL''" "raw_ok ''Username''" "raw_ok ''Secret''"
  by (rule unquote_plain raw_ok_plain, simp)+

lemma credential_json_ok: "json_ok (credential_json s u b)" "json_depth (credential_json s u b) \<le> MaxDepth"
  using MaxDepth_pos by (simp_all add: credential_json_def)

text \<open>What \<open>get\<close> writes is a request that \<open>store\<close> reads back to the same three values.\<close>

lemma readStoreRequest_print:
  assumes "utf8_valid s" and "utf8_valid u" and "s \<noteq> []" and "u \<noteq> []"
    and "length (print_json (credential_json s u b) @ t) \<le> maxRequest"
  shows "readStoreRequest (print_json (credential_json s u b) @ t)
    = Ok \<lparr> srServerURL = s, srUsername = u, srSecret = Some (JStr (quote_loop b)) \<rparr>"
proof -
  have "json_decoder (print_json (credential_json s u b) @ t) = Some (credential_json s u b, t)"
    using credential_json_ok [of s u b] unfolding credential_json_def by (intro json_decoder_print)
  moreover have "dec_struct True store_request_fields zero_store_request (credential_json s u b)
      = Some \<lparr> srServerURL = s, srUsername = u, srSecret = Some (JStr (quote_loop b)) \<rparr>"
    using assms(1,2) by (simp add: credential_json_def dec_struct_def store_request_fields_def find_field_def
        zero_store_request_def)
  ultimately show ?thesis using assms(3-5) by (simp add: readStoreRequest_def)
qed

lemma print_quoted: "print_json (JStr raw) = DQ # raw @ [DQ]"
  by (simp add: print_json_def)

lemma stored_secret_unquoted:
  "utf8_valid b \<Longrightarrow> unquote (print_json (JStr (quote_loop b))) = Ok b"
  by (simp add: print_quoted unquote_content unquote_loop_quote)

section \<open>Unquoting agrees with encoding/json\<close>

text \<open>
  Where both accept a literal of valid UTF-8 they give the same bytes. The helper rejects the lone
  surrogates that encoding/json replaces.
\<close>

lemma unq_hex4_eq: "unq_hex4 (BSL # CHR ''u'' # s) = getu4 s"
proof -
  have "length s < 4 \<Longrightarrow> getu4 s = None" by (cases s rule: getu4.cases) auto
  then show ?thesis by (auto simp: unq_hex4_def)
qed

lemma unq_hex4_Some: "unq_hex4 s = Some r \<Longrightarrow> \<exists>t. s = BSL # CHR ''u'' # t \<and> getu4 t = Some r \<and> 4 \<le> length t"
  by (cases s rule: list.exhaust [case_names Nil C1]; cases "tl s")
    (auto simp: unq_hex4_def split: if_splits)

lemma unquoteRune_unesc:
  assumes "unquoteRune (BSL # CHR ''u'' # s) = Ok (r, n)"
  shows "unesc (CHR ''u'' # s) = Some (encode_rune r, drop n (BSL # CHR ''u'' # s))"
proof -
  from assms obtain r1 where r1: "getu4 s = Some r1"
    by (auto simp: unquoteRune_def unq_hex4_eq split: option.splits)
  show ?thesis
  proof (cases "is_surrogate r1")
    case False
    with assms r1 show ?thesis by (simp add: unquoteRune_def unq_hex4_eq)
  next
    case True
    with assms r1 obtain r2 where r2: "unq_hex4 (drop 4 s) = Some r2" "utf16_pair r1 r2 = Some r" "n = 12"
      by (auto simp: unquoteRune_def unq_hex4_eq split: option.splits)
    from unq_hex4_Some [OF r2(1)] obtain t where "drop 4 s = BSL # CHR ''u'' # t" "getu4 t = Some r2"
      by blast
    moreover from this have "drop 10 s = drop 4 t"
      using drop_drop [of 6 4 s] by simp
    ultimately show ?thesis using True r1 r2 by simp
  qed
qed

lemma utf8_valid_ascii_append:
  "\<forall>c \<in> set a. byte_of c < (128::nat) \<Longrightarrow> utf8_valid (a @ b) = utf8_valid b"
  by (rule utf8_valid_append) (rule utf8_valid_ascii)

lemma getu4_ascii: "getu4 s = Some r \<Longrightarrow> \<forall>c \<in> set (take 4 s). byte_of c < (128::nat)"
proof -
  have "hexval c = Some k \<Longrightarrow> byte_of c < (128::nat)" for c k
    by (auto simp: hexval_def Let_def split: if_splits)
  then show "getu4 s = Some r \<Longrightarrow> ?thesis"
    by (cases s rule: getu4.cases) (auto split: option.splits)
qed

lemma unesc_ascii:
  assumes "unesc s = Some (o', rest)"
  obtains p where "s = p @ rest" and "\<forall>c \<in> set p. byte_of c < (128::nat)"
proof -
  from assms obtain e cs where s: "s = e # cs" by (cases s) auto
  show thesis
  proof (cases "e = CHR ''u''")
    case False
    with assms s obtain x where "simple_esc e = Some x" "rest = cs" by (auto split: option.splits)
    then have "s = [e] @ rest" "byte_of e < (128::nat)" by (auto simp: s simple_esc_def split: if_splits)
    with that show thesis by simp
  next
    case True
    from assms s True obtain r where r: "getu4 cs = Some r" by (auto split: option.splits)
    have u: "byte_of (CHR ''u'') < (128::nat)" by simp
    note a = getu4_ascii [OF r]
    from assms s True r consider "rest = drop 4 cs"
      | r2 where "take 2 (drop 4 cs) = [BSL, CHR ''u'']" "getu4 (drop 6 cs) = Some r2" "rest = drop 10 cs"
      by (auto simp: Let_def split: if_splits option.splits)
    then show thesis
    proof cases
      case 1
      with that [of "e # take 4 cs"] a u True s show thesis by simp
    next
      case 2
      have "take 10 cs = take 4 cs @ take 2 (drop 4 cs) @ take 4 (drop 6 cs)"
        using take_add [of 4 6 cs] take_add [of 2 4 "drop 4 cs"] by simp
      with 2 a getu4_ascii [OF 2(2)] have "\<forall>c \<in> set (take 10 cs). byte_of c < (128::nat)" by auto
      with that [of "e # take 10 cs"] u True s 2 show thesis by simp
    qed
  qed
qed

lemma unquote_loop_agrees:
  "unquote_lit s = Some u \<Longrightarrow> utf8_valid s \<Longrightarrow> unquote_loop s out = Ok v \<Longrightarrow> v = out @ u"
proof (induction s arbitrary: u out rule: unquote_lit.induct)
  case (2 c cs)
  note IH = "2.IH" and lit = "2.prems"(1) and valid = "2.prems"(2) and loop = "2.prems"(3)
  show ?case
  proof (cases "c = BSL")
    case True
    from lit True obtain o' rest u' where un: "unesc cs = Some (o', rest)"
      and u': "unquote_lit rest = Some u'" "u = o' @ u'"
      by (auto simp: unquote_lit.simps(2) split: option.splits)
    from unesc_ascii [OF un] obtain p where "cs = p @ rest" "\<forall>c \<in> set p. byte_of c < (128::nat)" .
    with valid True have v: "utf8_valid rest" by (simp add: utf8_valid_ascii_append)
    from un obtain e cs' where cs: "cs = e # cs'" by (cases cs) auto
    have "unquote_loop rest (out @ o') = Ok v"
    proof (cases "e = CHR ''u''")
      case False
      with un cs obtain x where "simple_esc e = Some x" "o' = [x]" "rest = cs'" by (auto split: option.splits)
      with loop True cs show ?thesis by (simp add: unquote_loop_short)
    next
      case u: True
      then have "simple_esc e = None" by (simp add: simple_esc_def)
      with loop True cs u obtain r n where q: "unquoteRune (BSL # CHR ''u'' # cs') = Ok (r, n)"
        and l: "unquote_loop (drop n (c # cs)) (out @ encode_rune r) = Ok v"
        by (auto simp: unquote_loop.simps(2) split: outcome.splits)
      from unquoteRune_unesc [OF q] un cs u have "o' = encode_rune r" "rest = drop n (c # cs)"
        using True by simp_all
      with l show ?thesis by simp
    qed
    from IH(1) [OF True un refl u'(1) v this] u'(2) show ?thesis by simp
  next
    case False
    show ?thesis
    proof (cases "byte_of c < (128::nat)")
      case True
      with lit False obtain u' where c: "\<not> (c = DQ \<or> byte_of c < (32::nat))"
        and u': "unquote_lit cs = Some u'" "u = c # u'"
        by (auto simp: unquote_lit.simps(2) split: if_splits)
      from loop False have "unquote_loop cs (out @ [c]) = Ok v" by (simp add: unquote_loop.simps(2))
      from IH(2) [OF False c True u'(1) _ this] True valid u'(2) show ?thesis by simp
    next
      case nascii: False
      then have c: "\<not> (c = DQ \<or> byte_of c < (32::nat))" by auto
      from valid obtain r n where h: "utf8_head (c # cs) = Some (r, n)"
        and v: "utf8_valid (drop n (c # cs))"
        by (auto simp: utf8_valid.simps(2) split: option.splits)
      with lit False nascii c obtain u' where u': "unquote_lit (drop n (c # cs)) = Some u'"
        "u = take n (c # cs) @ u'"
        by (auto simp: unquote_lit.simps(2))
      have "unquote_loop (drop n (c # cs)) (out @ take n (c # cs)) = Ok v"
        using unquote_loop_plain [OF multi_plain [OF h nascii], of "drop n (c # cs)"] loop
        by (simp add: append_take_drop_id)
      from IH(4) [OF False c nascii h refl u'(1) v this] u'(2) show ?thesis by simp
    qed
  qed
qed simp

section \<open>The helper on a live daemon\<close>

lemma docker_not_success [simp]:
  "docker_exitf m \<noteq> success t" "daemonError e \<noteq> success t" "panic_out \<noteq> success t"
  by (simp_all add: docker_exitf_def daemonError_def panic_out_def exit_with_def success_def
      split: option.split)

lemma docker_send_success:
  assumes "docker_send c user secret s st = (success [], st')"
  shows "clStore c (s\<lparr>dAttributes := AList.update ''username'' user (dAttributes s),
      dValue := Some secret\<rparr>) st = (Ok (), st')"
  using assms by (auto simp: docker_send_def split: if_splits prod.splits outcome.splits)

text \<open>The secret \<open>store\<close> writes when it ends with success.\<close>

lemma docker_store_success:
  assumes "docker_store c input st = (success [], st')" and "readStoreRequest input = Ok req"
    and "unquote (print_json (the (srSecret req))) = Ok secret"
  obtains s where "clStore c (s\<lparr>dAttributes := AList.update ''username'' (srUsername req) (dAttributes s),
      dValue := Some secret\<rparr>) st = (Ok (), st')"
    and "docker_match c st (srServerURL req) = Ok s \<or> s = docker_secret (srServerURL req)
      \<and> (\<exists>e. docker_match c st (srServerURL req) = Er e \<and> errors_is e (DockerS DkErrNoMatch))"
proof -
  have conn: "clConnect c st = Ok ()"
    using assms by (cases "clConnect c st") (simp_all add: docker_store_def)
  note st = assms(1) [unfolded docker_store_def assms(2,3) conn, simplified, unfolded assms(3), simplified]
  show thesis
  proof (cases "docker_match c st (srServerURL req)")
    case (Ok s)
    with st have "docker_send c (srUsername req) secret s st = (success [], st')" by simp
    from that [OF docker_send_success [OF this]] Ok show thesis by simp
  next
    case (Er e)
    with st have "errors_is e (DockerS DkErrNoMatch)"
      and s: "docker_send c (srUsername req) secret (docker_secret (srServerURL req)) st = (success [], st')"
      by (simp_all split: if_splits)
    with that [OF docker_send_success [OF s]] Er show thesis by simp
  next
    case Panic
    with st show ?thesis by simp
  qed
qed

lemma plain_docker_filter:
  assumes "text_ok server"
  shows "plain_filter (docker_filter server)"
proof -
  have "isSlug docker_kind" "isSlug ''server''" by code_simp+
  with assms show ?thesis by (simp add: plain_filter_def docker_filter_def attrs_ok_def)
qed

lemma selects_docker:
  "selects (docker_filter server) n (kind, val, attrs, created, updated)
     \<longleftrightarrow> kind = docker_kind \<and> attrs ''server'' = Some server"
  by (auto simp: selects_def docker_filter_def docker_kind_def)

text \<open>The one login of a server, in a table of secrets.\<close>

definition docker_login :: "(bytes \<Rightarrow> entry option) \<Rightarrow> bytes \<Rightarrow> bytes \<Rightarrow> bool" where
  "docker_login T server n \<longleftrightarrow> (\<exists>e. T n = Some e \<and> selects (docker_filter server) n e
     \<and> (\<forall>m e'. T m = Some e' \<longrightarrow> selects (docker_filter server) m e' \<longrightarrow> m = n))"

lemma match_one:
  "(case secs of [] \<Rightarrow> Er e | [s] \<Rightarrow> Ok s | _ \<Rightarrow> Er e') = Ok x \<longleftrightarrow> secs = [x]"
  by (auto split: list.split)

lemma lists_singleton:
  assumes "lists T f xs" and "n \<in> dName ` set xs" and "\<forall>m \<in> dName ` set xs. m = n"
  shows "\<exists>x. xs = [x] \<and> dName x = n"
proof -
  have "set (map dName xs) = {n}" using assms(2,3) by auto
  then have "length xs = 1"
    using distinct_card [OF listsD(5) [OF assms(1)]] by simp
  then obtain x where "xs = [x]" by (auto simp: length_Suc_conv)
  with assms(2) show ?thesis by simp
qed

context secret_client
begin

lemma docker_match_Ok:
  assumes "live st" and "docker_match c st server = Ok s"
  shows "docker_login (tab st) server (dName s) \<and> gomap_ok (dAttributes s)
      \<and> dKind s = docker_kind \<and> map_of (dAttributes s) ''server'' = Some server"
proof -
  from assms(2) have x: "clList c (docker_filter server) st = Ok [s]"
    by (auto simp: docker_match_def obind_eq_Ok match_one)
  note l = list_names [OF assms(1) list_valid [OF assms(1) x] x]
  from listsD(2) [OF l, of "dName s"] obtain e where e: "tab st (dName s) = Some e"
    "selects (docker_filter server) (dName s) e" by auto
  from listsD(3,4) [OF l, of s] obtain val where
    v: "tab st (dName s) = Some (dKind s, val, map_of (dAttributes s), dCreated s, dUpdated s)"
    and g: "gomap_ok (dAttributes s)" by auto
  with e have "selects (docker_filter server) (dName s)
    (dKind s, val, map_of (dAttributes s), dCreated s, dUpdated s)" by simp
  moreover have "m' = dName s" if "tab st m' = Some e'" "selects (docker_filter server) m' e'" for m' e'
    using listsD(1) [OF l that] by simp
  ultimately show ?thesis using e g unfolding docker_login_def selects_docker by blast
qed

lemma docker_login_match:
  assumes "live st" and "text_ok server" and "docker_login (tab st) server n"
  shows "\<exists>s. docker_match c st server = Ok s \<and> dName s = n
      \<and> (\<exists>val. tab st n = Some (dKind s, val, map_of (dAttributes s), dCreated s, dUpdated s))"
proof -
  from list_live [OF assms(1) plain_docker_filter [OF assms(2)]] obtain xs
    where xs: "clList c (docker_filter server) st = Ok xs"
      and l: "lists (tab st) (docker_filter server) xs" by blast
  from assms(3) obtain e where e: "tab st n = Some e" "selects (docker_filter server) n e"
    and u: "\<And>m e'. tab st m = Some e' \<Longrightarrow> selects (docker_filter server) m e' \<Longrightarrow> m = n"
    unfolding docker_login_def by blast
  have "\<forall>m \<in> dName ` set xs. m = n" using listsD(2) [OF l] u by blast
  from lists_singleton [OF l listsD(1) [OF l e] this] obtain x where x: "xs = [x]" "dName x = n" by blast
  with xs listsD(3) [OF l, of x] show ?thesis by (auto simp: docker_match_def)
qed

lemma docker_match_None:
  assumes "live st" and "text_ok server" and "docker_match c st server = Er e"
    and "errors_is e (DockerS DkErrNoMatch)" and "tab st m = Some e'"
  shows "\<not> selects (docker_filter server) m e'"
proof -
  from list_live [OF assms(1) plain_docker_filter [OF assms(2)]] obtain xs
    where xs: "clList c (docker_filter server) st = Ok xs"
      and l: "lists (tab st) (docker_filter server) xs" by blast
  from assms(3,4) xs have "xs = []" by (auto simp: docker_match_def split: list.splits)
  then show ?thesis using listsD(1) [OF l assms(5)] by auto
qed

text \<open>What a successful \<open>store\<close> has written: the one login of its server.\<close>

lemma docker_stored:
  assumes "live st" and "readStoreRequest input = Ok req"
    and "unquote (print_json (the (srSecret req))) = Ok secret"
    and "docker_store c input st = (success [], st')"
  obtains n attrs created now where "live st'"
    and "tab st' = (tab st)(n \<mapsto> (docker_kind, Some secret, attrs, created, now))"
    and "attrs ''server'' = Some (srServerURL req)" and "attrs ''username'' = Some (srUsername req)"
    and "docker_login (tab st') (srServerURL req) n" and "text_ok (srServerURL req)" and "text_ok n"
proof -
  let ?server = "srServerURL req" and ?user = "srUsername req"
  from docker_store_success [OF assms(4,2,3)] obtain s where
    sto: "clStore c (s\<lparr>dAttributes := AList.update ''username'' ?user (dAttributes s),
      dValue := Some secret\<rparr>) st = (Ok (), st')" (is "clStore c ?x st = _")
    and s: "docker_match c st ?server = Ok s \<or> s = docker_secret ?server
      \<and> (\<exists>e. docker_match c st ?server = Er e \<and> errors_is e (DockerS DkErrNoMatch))" by metis
  define attrs where "attrs = (map_of (dAttributes s))(''username'' \<mapsto> ?user)"
  have at: "map_of (dAttributes ?x) = attrs" by (simp add: attrs_def update_conv')
  have known: "gomap_ok (dAttributes s) \<and> dKind s = docker_kind \<and> map_of (dAttributes s) ''server'' = Some ?server"
    using s docker_match_Ok [OF assms(1)] by (auto simp: docker_secret_def)
  then have server: "attrs ''server'' = Some ?server" by (simp add: attrs_def)
  have ok: "secret_ok (dName s) (dKind s) (dAttributes ?x) secret"
    using store_valid [OF assms(1) sto] by (simp add: val_bytes_def)
  have srv: "text_ok ?server"
  proof -
    have "(''server'', ?server) \<in> set (dAttributes ?x)"
      by (rule map_of_SomeD) (simp only: at server)
    with ok show ?thesis unfolding secret_ok_def attrs_ok_def by blast
  qed
  have old: "m = dName s" if "tab st m = Some e'" "selects (docker_filter ?server) m e'" for m e'
    using s
  proof
    assume "docker_match c st ?server = Ok s"
    from docker_match_Ok [OF assms(1) this] that show ?thesis unfolding docker_login_def by blast
  next
    assume "s = docker_secret ?server
      \<and> (\<exists>e. docker_match c st ?server = Er e \<and> errors_is e (DockerS DkErrNoMatch))"
    with docker_match_None [OF assms(1) srv _ _ that(1)] that(2) show ?thesis by blast
  qed
  from store_live [OF assms(1) _ sto] known obtain created now where live': "live st'"
    and t: "tab st' = (tab st)(dName s \<mapsto> (docker_kind, Some secret, attrs, created, now))"
    by (auto simp: at [simplified])
  have "selects (docker_filter ?server) (dName s) (docker_kind, Some secret, attrs, created, now)"
    using server by (simp add: selects_docker)
  then have "docker_login (tab st') ?server (dName s)"
    using old by (auto simp: docker_login_def t)
  with that [OF live' t server _ _ srv] ok show thesis by (simp add: attrs_def secret_ok_def)
qed

lemma docker_store_then_get:
  assumes "live st" and "readStoreRequest input = Ok req"
    and "unquote (print_json (the (srSecret req))) = Ok secret"
    and "docker_store c input st = (success [], st')" and "clConnect c st' = Ok ()"
    and "readServerURL input' = Ok (srServerURL req)"
  shows "docker_get c input' st' = success (writeCredential (srServerURL req) (srUsername req) secret)"
proof -
  from docker_stored [OF assms(1-4)] obtain n attrs created now where live': "live st'"
    and t: "tab st' = (tab st)(n \<mapsto> (docker_kind, Some secret, attrs, created, now))"
    and a: "attrs ''username'' = Some (srUsername req)"
    and l: "docker_login (tab st') (srServerURL req) n" "text_ok (srServerURL req)" "text_ok n" by metis
  from docker_login_match [OF live' l(2,1)] obtain y where
    y: "docker_match c st' (srServerURL req) = Ok y" "dName y = n" "map_of (dAttributes y) = attrs"
    by (auto simp: t)
  from get_live [OF live' l(3)] t obtain z where "clGet c n st' = Ok z" "dValue z = Some secret"
    by (auto simp: out_view_def)
  with y a assms(5,6) show ?thesis by (simp add: docker_get_def attr_or_empty_def val_bytes_def)
qed

lemma docker_erase_one:
  assumes "live st" and "readServerURL input = Ok server" and "clConnect c st = Ok ()"
    and "docker_match c st server = Ok s" and "clDelete c (dName s) st = (Ok u, st')"
  shows "docker_erase c input st = (success [], st') \<and> docker_login (tab st) server (dName s)
    \<and> tab st' = (tab st)(dName s := None)"
  using assms docker_match_Ok [OF assms(1,4)] delete_live [OF assms(1,5)] by (simp add: docker_erase_def)

end

text \<open>Without exactly one login of the server \<open>erase\<close> removes nothing, and \<open>store\<close> stops at several.\<close>

lemma docker_no_one:
  assumes "readServerURL input = Ok server" and "docker_match c st server = Er e"
  shows "snd (docker_erase c input st) = st"
  using assms by (simp add: docker_erase_def split: outcome.split)

lemma docker_store_ambiguous:
  assumes "docker_match c st (srServerURL req) = Er e" and "\<not> errors_is e (DockerS DkErrNoMatch)"
    and "readStoreRequest input = Ok req"
  shows "snd (docker_store c input st) = st"
  using assms by (simp add: docker_store_def split: outcome.split)

text \<open>What \<open>list\<close> reports: each server with the username of its last login in the listing.\<close>

lemma docker_logins_lookup:
  "map_of (docker_logins ss out) server =
     (case find (\<lambda>s. attr_or_empty (dAttributes s) ''server'' = server) (rev ss) of
        Some s \<Rightarrow> if server = [] then map_of out server else Some (attr_or_empty (dAttributes s) ''username'')
      | None \<Rightarrow> map_of out server)"
proof (induction ss arbitrary: out)
  case (Cons s ss)
  have f: "find P (xs @ [x]) = (case find P xs of None \<Rightarrow> if P x then Some x else None | Some y \<Rightarrow> Some y)"
    for P and xs :: "dsecret list" and x
    by (induction xs) auto
  show ?case by (simp add: Cons.IH f Let_def update_conv' split: option.split)
qed simp

lemma gomap_ok_docker_logins: "gomap_ok out \<Longrightarrow> gomap_ok (docker_logins ss out)"
  by (induction ss arbitrary: out) (simp_all add: Let_def)

end
