(* ===== verification/ExecEnv.thy ===== *)
theory ExecEnv
  imports Credentials
begin

text \<open>
  cmd/keycell/exec.go: a command is run with secrets in its environment. The mapping is read from a
  file and from flags, every secret is fetched, and then the process is replaced. Opening the file,
  \<open>exec.LookPath\<close> and \<open>syscall.Exec\<close> are parameters. A command line error is the \<open>cmd_out\<close> it ends with.
\<close>

section \<open>The mapping\<close>

record env_entry =
  evVar :: bytes
  evName :: bytes

definition envFileName :: bytes where "envFileName = ''keycell.env''"

definition validEnvVar :: "bytes \<Rightarrow> bool" where
  "validEnvVar s \<longleftrightarrow> list_all (\<lambda>(i, r). r = 95 \<or> (97 \<le> r \<and> r \<le> 122) \<or> (65 \<le> r \<and> r \<le> 90)
      \<or> (0 < i \<and> 48 \<le> r \<and> r \<le> 57)) (runes s) \<and> s \<noteq> []"

definition parseEnvEntry :: "bytes \<Rightarrow> env_entry res" where
  "parseEnvEntry s =
     (case cut_at (CHR ''='') s of
        None \<Rightarrow> Er (New (lit ''expected VAR=name''))
      | Some (k0, v0) \<Rightarrow>
          (let k = trim_space k0; v = trim_space v0 in
           if k = [] then Er (New (lit ''empty variable name''))
           else if \<not> validEnvVar k then Er (New (lit ''invalid variable name '' @ [Q k]))
           else if v = [] then Er (New (lit ''empty secret name''))
           else Ok \<lparr> evVar = k, evName = v \<rparr>))"

definition exec_usage :: "msg \<Rightarrow> cmd_out" where
  "exec_usage m = exit_with (lit ''keycell: exec: '' @ m) 2"

text \<open>The loop over the lines of the file; \<open>n\<close> numbers them from 1.\<close>

fun env_file_lines ::
  "bytes \<Rightarrow> nat \<Rightarrow> bytes list \<Rightarrow> bool \<Rightarrow> (bytes, bytes) gomap \<Rightarrow> (cmd_out, (bytes, bytes) gomap) outcome" where
  "env_file_lines source n [] tooLong byVar =
     (if tooLong then Er (exec_usage (lit (source @ '': bufio.Scanner: token too long''))) else Ok byVar)"
| "env_file_lines source n (l # ls) tooLong byVar =
     (let line = trim_space l in
      if line = [] \<or> take 1 line = ''#'' then env_file_lines source (Suc n) ls tooLong byVar
      else case parseEnvEntry line of
             Ok e \<Rightarrow> env_file_lines source (Suc n) ls tooLong (AList.update (evVar e) (evName e) byVar)
           | Er err \<Rightarrow> Er (exec_usage (lit (source @ '':'') @ [D (int n)] @ lit '': '' @ err_msg err))
           | Panic \<Rightarrow> Panic)"

fun env_flags ::
  "bytes list \<Rightarrow> (bytes, bytes) gomap \<Rightarrow> (cmd_out, (bytes, bytes) gomap) outcome" where
  "env_flags [] byVar = Ok byVar"
| "env_flags (v # vs) byVar =
     (case parseEnvEntry v of
        Ok e \<Rightarrow> env_flags vs (AList.update (evVar e) (evName e) byVar)
      | Er err \<Rightarrow> Er (exec_usage (lit ''-e '' @ [Q v] @ lit '': '' @ err_msg err))
      | Panic \<Rightarrow> Panic)"

definition parseEnvMapping ::
  "bytes option \<Rightarrow> bytes \<Rightarrow> bytes list \<Rightarrow> (cmd_out, env_entry list) outcome" where
  "parseEnvMapping file source flags =
     obind (case file of
              None \<Rightarrow> Ok []
            | Some content \<Rightarrow>
                (case scan_lines (64 * 1024) content of (ls, tooLong) \<Rightarrow>
                   env_file_lines source 1 ls tooLong []))
       (\<lambda>byVar. obind (env_flags flags byVar)
          (\<lambda>byVar. Ok (map (\<lambda>(k, v). \<lparr> evVar = k, evName = v \<rparr>) (sort_key fst byVar))))"

text \<open>\<open>open_file\<close> is \<open>os.Open\<close>, giving the content; \<open>env_file\<close> the value of \<open>--env-file\<close> when it is set.\<close>

definition execMapping ::
  "(bytes \<Rightarrow> bytes res) \<Rightarrow> bytes option \<Rightarrow> bytes list \<Rightarrow> (cmd_out, env_entry list) outcome" where
  "execMapping open_file env_file flags =
     (let path = (case env_file of None \<Rightarrow> envFileName | Some p \<Rightarrow> p) in
      case open_file path of
        Ok content \<Rightarrow> parseEnvMapping (Some content) path flags
      | Er e \<Rightarrow>
          if env_file = None \<and> errors_is e (StdS ErrNotExist) then parseEnvMapping None path flags
          else Er (exec_usage (err_msg e))
      | Panic \<Rightarrow> Panic)"

section \<open>The environment\<close>

definition clearEnv :: "bytes list \<Rightarrow> bytes list" where
  "clearEnv env = map zeroed env"

definition env_key :: "bytes \<Rightarrow> bytes" where
  "env_key kv = (case cut_at (CHR ''='') kv of Some (k, v) \<Rightarrow> k | None \<Rightarrow> kv)"

definition mergeEnv :: "bytes list \<Rightarrow> env_entry list \<Rightarrow> bytes list \<Rightarrow> bytes list" where
  "mergeEnv base mapping secrets =
     filter (\<lambda>kv. \<not> list_ex (\<lambda>e. evVar e = env_key kv) mapping) base @ secrets"

fun join_msgs :: "msg list \<Rightarrow> msg" where
  "join_msgs [] = []"
| "join_msgs [m] = m"
| "join_msgs (m # ms) = m @ lit [LF] @ join_msgs ms"

definition exec_secret :: "bytes \<Rightarrow> dsecret \<Rightarrow> bytes" where
  "exec_secret var s = var @ ''='' @ val_bytes (dValue s)"

text \<open>
  The loop of \<open>resolveEnv\<close>. \<open>Inl\<close> is how the command ends, with the buffers that held secrets; \<open>Inr\<close>
  the buffers to run it with.
\<close>

fun resolve_loop ::
  "'st client \<Rightarrow> 'st \<Rightarrow> env_entry list \<Rightarrow> bytes list \<Rightarrow> msg list \<Rightarrow> cmd_out \<times> bytes list + bytes list" where
  "resolve_loop c st [] env msgs =
     (if msgs \<noteq> [] then Inl (exit_with (join_msgs msgs) 1, clearEnv env) else Inr env)"
| "resolve_loop c st (e # es) env msgs =
     (case clGet c (evName e) st of
        Ok s \<Rightarrow> resolve_loop c st es (env @ [exec_secret (evVar e) s]) msgs
      | Er err \<Rightarrow>
          if errors_is err (ClientS CErrLocked) \<or> errors_is err (ClientS CErrNotRunning)
          then Inl (exitError err, clearEnv env)
          else if errors_is err (ClientS CErrNotFound)
          then resolve_loop c st es env (msgs @ [lit (''keycell: exec: not found: '' @ evName e)])
          else resolve_loop c st es env
                 (msgs @ [lit (''keycell: exec: '' @ evName e @ '': '') @ errorMessage err])
      | Panic \<Rightarrow> Inl (exit_with [] 2, env))"

definition resolveEnv ::
  "'st client \<Rightarrow> 'st \<Rightarrow> env_entry list \<Rightarrow> cmd_out \<times> bytes list + bytes list" where
  "resolveEnv c st mapping =
     (if mapping = [] then Inr []
      else case clConnect c st of
             Er e \<Rightarrow> Inl (exitError e, [])
           | Panic \<Rightarrow> Inl (exit_with [] 2, [])
           | Ok _ \<Rightarrow> resolve_loop c st mapping [] [])"

section \<open>Running\<close>

text \<open>
  How \<open>exec\<close> ends: the process is replaced by a program with its arguments and environment, or
  keycell exits and the buffers that held secrets have these contents.
\<close>

datatype exec_end = Replaced bytes "bytes list" "bytes list" | Exited cmd_out "bytes list"

text \<open>
  \<open>xLookPath\<close> gives a path or the cause of the failure, without the \<open>*exec.Error\<close> around it; \<open>xExec\<close> gives
  the error of \<open>syscall.Exec\<close>, or \<open>None\<close> when the process is replaced.
\<close>

record exec_system =
  xOpen :: "bytes \<Rightarrow> bytes res"
  xLookPath :: "bytes \<Rightarrow> bytes res"
  xExec :: "bytes \<Rightarrow> bytes list \<Rightarrow> bytes list \<Rightarrow> goerr option"
  xEnviron :: "bytes list"

definition execve :: "exec_system \<Rightarrow> bytes list \<Rightarrow> env_entry list \<Rightarrow> bytes list \<Rightarrow> exec_end" where
  "execve X argv mapping secrets =
     (let failed = (\<lambda>e. Exited (exit_with (lit (''keycell: exec: '' @ hd argv @ '': '') @ err_msg e) 1)
            (clearEnv secrets))
      in case xLookPath X (hd argv) of
           Er e \<Rightarrow> failed e
         | Panic \<Rightarrow> Exited (exit_with [] 2) secrets
         | Ok path \<Rightarrow>
             (let env = mergeEnv (xEnviron X) mapping secrets in
              case xExec X path argv env of Some e \<Rightarrow> failed e | None \<Rightarrow> Replaced path argv env))"

definition dry_lines :: "env_entry list \<Rightarrow> bytes" where
  "dry_lines mapping = concat (map (\<lambda>e. evVar e @ '' <- '' @ evName e @ [LF]) mapping)"

definition execCmd ::
  "'st client \<Rightarrow> exec_system \<Rightarrow> bool \<Rightarrow> bytes option \<Rightarrow> bytes list \<Rightarrow> bytes list \<Rightarrow> 'st \<Rightarrow> exec_end" where
  "execCmd c X dry env_file flags argv st =
     (if argv = [] then Exited (exec_usage (lit ''missing command'')) []
      else case execMapping (xOpen X) env_file flags of
             Er out \<Rightarrow> Exited out []
           | Panic \<Rightarrow> Exited (exit_with [] 2) []
           | Ok mapping \<Rightarrow>
               (let printed = (if dry then dry_lines mapping else []) in
                case resolveEnv c st mapping of
                  Inl (out, bufs) \<Rightarrow> Exited (out\<lparr>outText := printed\<rparr>) bufs
                | Inr secrets \<Rightarrow>
                    if dry then Exited (success printed) (clearEnv secrets)
                    else execve X argv mapping secrets))"

section \<open>What the mapping is\<close>

text \<open>The lines that hold an entry, parsed.\<close>

definition line_entries :: "bytes list \<Rightarrow> env_entry res list" where
  "line_entries ls = map (\<lambda>l. parseEnvEntry (trim_space l))
     (filter (\<lambda>l. trim_space l \<noteq> [] \<and> take 1 (trim_space l) \<noteq> ''#'') ls)"

definition file_entries :: "bytes option \<Rightarrow> env_entry res list" where
  "file_entries file =
     (case file of None \<Rightarrow> [] | Some content \<Rightarrow> line_entries (fst (scan_lines (64 * 1024) content)))"

definition add_entries :: "(bytes, bytes) gomap \<Rightarrow> env_entry list \<Rightarrow> (bytes, bytes) gomap" where
  "add_entries m es = foldl (\<lambda>m e. AList.update (evVar e) (evName e) m) m es"

definition entry_pair :: "env_entry \<Rightarrow> bytes \<times> bytes" where
  "entry_pair e = (evVar e, evName e)"

lemma add_entries_simps [simp]:
  "add_entries m [] = m"
  "add_entries m (e # es) = add_entries (AList.update (evVar e) (evName e) m) es"
  by (simp_all add: add_entries_def)

lemma add_entries_append: "add_entries m (es @ fs) = add_entries (add_entries m es) fs"
  by (simp add: add_entries_def)

lemma gomap_ok_add [simp]: "gomap_ok m \<Longrightarrow> gomap_ok (add_entries m es)"
  by (induction es arbitrary: m) simp_all

lemma add_entries_lookup: "map_of (add_entries m es) = map_of m ++ map_of (rev (map entry_pair es))"
  by (induction es arbitrary: m) (auto simp: entry_pair_def update_conv' fun_eq_iff map_add_def split: option.split)

lemma env_file_lines_Ok:
  "env_file_lines source n ls tooLong m = Ok m' \<longleftrightarrow>
     \<not> tooLong \<and> (\<exists>es. line_entries ls = map Ok es \<and> m' = add_entries m es)"
proof (induction source n ls tooLong m rule: env_file_lines.induct)
  case (2 source n l ls tooLong m)
  show ?case
  proof (cases "trim_space l = [] \<or> take 1 (trim_space l) = ''#''")
    case True
    with "2.IH"(1) [OF refl True] show ?thesis by (auto simp: line_entries_def)
  next
    case False
    note IH = "2.IH"(2) [OF refl False]
    show ?thesis
    proof (cases "parseEnvEntry (trim_space l)")
      case (Ok e)
      with False IH [OF Ok] show ?thesis by (auto simp: line_entries_def Cons_eq_map_conv)
    qed (use False in \<open>auto simp: line_entries_def Cons_eq_map_conv\<close>)
  qed
qed (auto simp: line_entries_def)

lemma env_flags_Ok:
  "env_flags vs m = Ok m' \<longleftrightarrow> (\<exists>es. map parseEnvEntry vs = map Ok es \<and> m' = add_entries m es)"
  by (induction vs m rule: env_flags.induct) (auto simp: Cons_eq_map_conv split: outcome.splits)

lemma map_Ok_inj [simp]: "map Ok xs = map Ok ys \<longleftrightarrow> xs = ys"
  by (auto intro: map_injective simp: inj_def)

lemma map_Ok_append:
  "xs @ ys = map Ok es \<longleftrightarrow> (\<exists>as bs. es = as @ bs \<and> xs = map Ok as \<and> ys = map Ok bs)"
  by (metis append_eq_map_conv map_append)

definition too_long :: "bytes option \<Rightarrow> bool" where
  "too_long file = (case file of None \<Rightarrow> False | Some content \<Rightarrow> snd (scan_lines (64 * 1024) content))"

lemma parseEnvMapping_Ok:
  "parseEnvMapping file source flags = Ok entries \<longleftrightarrow>
     \<not> too_long file \<and> (\<exists>es. file_entries file @ map parseEnvEntry flags = map Ok es
       \<and> entries = map (\<lambda>(k, v). \<lparr> evVar = k, evName = v \<rparr>) (sort_key fst (add_entries [] es)))"
proof (cases "file")
  case None
  then show ?thesis
    by (auto simp: parseEnvMapping_def obind_eq_Ok env_flags_Ok file_entries_def too_long_def)
next
  case (Some content)
  obtain ls long where "scan_lines (64 * 1024) content = (ls, long)"
    by (cases "scan_lines (64 * 1024) content")
  then show ?thesis
    by (auto simp: Some parseEnvMapping_def obind_eq_Ok env_flags_Ok env_file_lines_Ok file_entries_def
        too_long_def map_Ok_append add_entries_append intro!: exI [of _ "_ @ _"])
qed

lemma mapping_sorted:
  assumes "parseEnvMapping file source flags = Ok entries"
  shows "sorted_wrt (<) (map evVar entries)"
proof -
  from assms obtain es where "entries = map (\<lambda>(k, v). \<lparr> evVar = k, evName = v \<rparr>)
      (sort_key fst (add_entries [] es))"
    by (auto simp: parseEnvMapping_Ok)
  then have "map evVar entries = map fst (sort_key fst (add_entries [] es))"
    by (simp add: comp_def case_prod_beta)
  moreover have "distinct (map fst (sort_key fst (add_entries [] es)))"
    using gomap_ok_sort [OF gomap_ok_add [OF gomap_ok_Nil]] by (simp only: gomap_ok_def)
  ultimately show ?thesis by (simp add: strict_sorted_iff)
qed

text \<open>The last entry for a variable is the one that counts, and flags come after the file.\<close>

lemma mapping_lookup:
  assumes "parseEnvMapping file source flags = Ok entries"
  shows "\<exists>es. file_entries file @ map parseEnvEntry flags = map Ok es
    \<and> (\<forall>e. e \<in> set entries \<longleftrightarrow> map_of (rev (map entry_pair es)) (evVar e) = Some (evName e))"
proof -
  from assms obtain es where es: "file_entries file @ map parseEnvEntry flags = map Ok es"
    and en: "entries = map (\<lambda>(k, v). \<lparr> evVar = k, evName = v \<rparr>) (sort_key fst (add_entries [] es))"
    by (auto simp: parseEnvMapping_Ok)
  have "e \<in> set entries \<longleftrightarrow> (evVar e, evName e) \<in> set (add_entries [] es)" for e
    by (force simp: en)
  then have "e \<in> set entries \<longleftrightarrow> map_of (add_entries [] es) (evVar e) = Some (evName e)" for e
    by (simp add: gomap_mem)
  with es show ?thesis by (auto simp: add_entries_lookup)
qed

section \<open>Variables and names of an entry\<close>

definition var_rune :: "nat \<Rightarrow> bool" where
  "var_rune r \<longleftrightarrow> r = 95 \<or> (97 \<le> r \<and> r \<le> 122) \<or> (65 \<le> r \<and> r \<le> 90) \<or> (48 \<le> r \<and> r \<le> 57)"

lemma var_runes_bytes:
  "\<forall>(j, r) \<in> set (runes_from i s). var_rune r \<Longrightarrow> \<forall>c \<in> set s. var_rune (byte_of c)"
proof (induction i s rule: runes_from.induct)
  case (2 i c cs)
  obtain r n where d: "decode_rune (c # cs) = (r, n)" by (cases "decode_rune (c # cs)")
  have runes: "runes_from i (c # cs) = (i, r) # runes_from (i + n) (drop n (c # cs))"
    by (simp add: runes_from.simps(2) d)
  with "2.prems" have "var_rune r" by simp
  then have "r < 128" by (auto simp: var_rune_def)
  have "byte_of c < (128::nat)"
  proof (rule ccontr)
    assume n: "\<not> byte_of c < (128::nat)"
    show False
    proof (cases "utf8_head (c # cs)")
      case None
      with d \<open>r < 128\<close> show False by (auto simp: decode_rune_def RuneError_def)
    next
      case (Some p)
      with d have "utf8_head (c # cs) = Some (r, n)" by (auto simp: decode_rune_def)
      from utf8_head_multi [OF this n] \<open>r < 128\<close> show False by simp
    qed
  qed
  then have "r = byte_of c" "n = 1" using d by (simp_all add: decode_rune_def utf8_head_ascii)
  with runes "2.prems" "2.IH" [OF d [symmetric] refl] show ?case by simp
qed simp

lemma valid_var_bytes:
  assumes "validEnvVar s"
  shows "\<forall>c \<in> set s. var_rune (byte_of c)"
  using assms by (intro var_runes_bytes [of 0]) (auto simp: validEnvVar_def list_all_iff runes_def var_rune_def)

lemma valid_var_no_eq:
  assumes "validEnvVar s"
  shows "CHR ''='' \<notin> set s"
proof
  assume "CHR ''='' \<in> set s"
  with valid_var_bytes [OF assms] have "var_rune (byte_of (CHR ''=''))" by blast
  then show False by (simp add: var_rune_def)
qed

lemma parseEnvEntry_Ok:
  "parseEnvEntry s = Ok e \<Longrightarrow> validEnvVar (evVar e) \<and> evName e \<noteq> []"
  by (auto simp: parseEnvEntry_def Let_def split: option.splits if_splits)

lemma mapping_vars:
  assumes "parseEnvMapping file source flags = Ok entries" and "e \<in> set entries"
  shows "validEnvVar (evVar e) \<and> evName e \<noteq> []"
proof -
  from mapping_lookup [OF assms(1)] assms(2) obtain es
    where es: "file_entries file @ map parseEnvEntry flags = map Ok es"
      and "map_of (rev (map entry_pair es)) (evVar e) = Some (evName e)" by blast
  then obtain e' where e': "e' \<in> set es" "entry_pair e' = (evVar e, evName e)"
    by (auto dest!: map_of_SomeD)
  then have "Ok e' \<in> set (file_entries file @ map parseEnvEntry flags)" by (simp only: es set_map) simp
  then obtain s where "parseEnvEntry s = Ok e'"
    by (auto simp: file_entries_def line_entries_def split: option.splits)
  from parseEnvEntry_Ok [OF this] e'(2) show ?thesis by (simp add: entry_pair_def)
qed

section \<open>What the command is run with\<close>

lemma env_key_entry: "CHR ''='' \<notin> set v \<Longrightarrow> env_key (v @ CHR ''='' # x) = v"
  by (simp add: env_key_def cut_at_append)

lemma resolve_loop_Inr:
  "resolve_loop c st es env msgs = Inr env' \<longleftrightarrow>
     msgs = [] \<and> (\<exists>ss. map (\<lambda>e. clGet c (evName e) st) es = map Ok ss
       \<and> env' = env @ map2 (\<lambda>e s. exec_secret (evVar e) s) es ss)"
proof (induction c st es env msgs rule: resolve_loop.induct)
  case (2 c st e es env msgs)
  then show ?case
    by (auto simp: Cons_eq_map_conv split: outcome.split)
qed auto

lemma resolveEnv_Inr:
  assumes "resolveEnv c st mapping = Inr env"
  shows "\<exists>ss. map (\<lambda>e. clGet c (evName e) st) mapping = map Ok ss
    \<and> env = map2 (\<lambda>e s. exec_secret (evVar e) s) mapping ss"
  using assms by (auto simp: resolveEnv_def resolve_loop_Inr split: if_splits outcome.splits)

definition env_get :: "bytes list \<Rightarrow> bytes \<Rightarrow> bytes option" where
  "env_get env v = find (\<lambda>kv. env_key kv = v) env"

lemma find_append: "find P (xs @ ys) = (case find P xs of None \<Rightarrow> find P ys | Some x \<Rightarrow> Some x)"
  by (induction xs) auto

lemma env_get_merged:
  assumes "\<forall>e \<in> set mapping. CHR ''='' \<notin> set (evVar e)" and "distinct (map evVar mapping)"
    and "length ss = length mapping"
  shows "env_get (mergeEnv base mapping (map2 (\<lambda>e s. exec_secret (evVar e) s) mapping ss)) v =
    (case find (\<lambda>(e, s). evVar e = v) (zip mapping ss) of
       Some (e, s) \<Rightarrow> Some (exec_secret v s) | None \<Rightarrow> env_get base v)"
proof -
  have key: "env_key (exec_secret (evVar e) s) = evVar e" if "e \<in> set mapping" for e s
    using assms(1) that by (simp add: exec_secret_def env_key_entry)
  have found: "find (\<lambda>kv. env_key kv = v) (map2 (\<lambda>e s. exec_secret (evVar e) s) mapping ss) =
    map_option (\<lambda>(e, s). exec_secret v s) (find (\<lambda>(e, s). evVar e = v) (zip mapping ss))"
    using assms(3,1) key by (induction rule: list_induct2) auto
  have base: "find (\<lambda>kv. env_key kv = v) (filter (\<lambda>kv. \<not> list_ex (\<lambda>e. evVar e = env_key kv) mapping) base)
    = (if list_ex (\<lambda>e. evVar e = v) mapping then None else find (\<lambda>kv. env_key kv = v) base)"
    by (induction base) auto
  have "list_ex (\<lambda>e. evVar e = v) mapping \<longleftrightarrow> find (\<lambda>(e, s). evVar e = v) (zip mapping ss) \<noteq> None"
    using assms(3) by (induction rule: list_induct2) auto
  then show ?thesis
    by (auto simp: env_get_def mergeEnv_def find_append found base split: option.split)
qed

lemma execCmd_Replaced:
  assumes "execCmd c X dry env_file flags argv st = Replaced path argv' env"
  obtains mapping ss where "execMapping (xOpen X) env_file flags = Ok mapping" and "argv' = argv"
    and "map (\<lambda>e. clGet c (evName e) st) mapping = map Ok ss"
    and "env = mergeEnv (xEnviron X) mapping (map2 (\<lambda>e s. exec_secret (evVar e) s) mapping ss)"
    and "\<not> dry" and "xLookPath X (hd argv) = Ok path"
proof -
  from assms obtain mapping where m: "execMapping (xOpen X) env_file flags = Ok mapping"
    by (auto simp: execCmd_def split: if_splits outcome.splits)
  with assms obtain secrets where r: "resolveEnv c st mapping = Inr secrets" and d: "\<not> dry"
    and x: "execve X argv mapping secrets = Replaced path argv' env"
    by (auto simp: execCmd_def Let_def split: if_splits sum.splits)
  from resolveEnv_Inr [OF r] obtain ss where ss: "map (\<lambda>e. clGet c (evName e) st) mapping = map Ok ss"
    "secrets = map2 (\<lambda>e s. exec_secret (evVar e) s) mapping ss" by blast
  from x have "argv' = argv" "env = mergeEnv (xEnviron X) mapping secrets" "xLookPath X (hd argv) = Ok path"
    by (auto simp: execve_def Let_def split: outcome.splits option.splits)
  with that m d ss show thesis by blast
qed

lemma execMapping_parse:
  "execMapping open_file env_file flags = Ok mapping \<Longrightarrow>
     \<exists>file source. parseEnvMapping file source flags = Ok mapping"
  by (auto simp: execMapping_def Let_def split: outcome.splits if_splits)

lemma mapping_ok:
  assumes "execMapping open_file env_file flags = Ok mapping"
  shows "\<forall>e \<in> set mapping. CHR ''='' \<notin> set (evVar e)" and "distinct (map evVar mapping)"
proof -
  from execMapping_parse [OF assms] obtain inp source where p: "parseEnvMapping inp source flags = Ok mapping"
    by blast
  show "\<forall>e \<in> set mapping. CHR ''='' \<notin> set (evVar e)" using mapping_vars [OF p] valid_var_no_eq by blast
  show "distinct (map evVar mapping)" using mapping_sorted [OF p] by (simp add: strict_sorted_iff)
qed

text \<open>The environment of the command: a mapped variable has the value of its secret, the others are inherited.\<close>

lemma exec_environment:
  assumes "execCmd c X dry env_file flags argv st = Replaced path argv' env"
    and "execMapping (xOpen X) env_file flags = Ok mapping"
  shows "e \<in> set mapping \<Longrightarrow> \<exists>s. clGet c (evName e) st = Ok s
      \<and> env_get env (evVar e) = Some (evVar e @ ''='' @ val_bytes (dValue s))"
    and "v \<notin> evVar ` set mapping \<Longrightarrow> env_get env v = env_get (xEnviron X) v"
proof -
  from execCmd_Replaced [OF assms(1)] assms(2) obtain ss where
    ss: "map (\<lambda>e. clGet c (evName e) st) mapping = map Ok ss"
    and env: "env = mergeEnv (xEnviron X) mapping (map2 (\<lambda>e s. exec_secret (evVar e) s) mapping ss)"
    by (metis outcome.inject(1))
  have len: "length ss = length mapping" using arg_cong [OF ss, of length] by simp
  note get = env_get_merged [OF mapping_ok [OF assms(2)] len, of "xEnviron X", folded env]
  show "\<exists>s. clGet c (evName e) st = Ok s
      \<and> env_get env (evVar e) = Some (evVar e @ ''='' @ val_bytes (dValue s))" if "e \<in> set mapping"
  proof -
    from that obtain i where i: "i < length mapping" "e = mapping ! i" by (metis in_set_conv_nth)
    then have "clGet c (evName e) st = Ok (ss ! i)"
      using arg_cong [OF ss, of "\<lambda>xs. xs ! i"] len by simp
    moreover have "find (\<lambda>(e', s). evVar e' = evVar e) (zip mapping ss) = Some (e, ss ! i)"
    proof (rule find_Some_iff [THEN iffD2], intro exI [of _ i] conjI allI impI)
      show "i < length (zip mapping ss)" using i len by simp
      show "case zip mapping ss ! i of (e', s) \<Rightarrow> evVar e' = evVar e" using i len by simp
      show "(e, ss ! i) = zip mapping ss ! i" using i len by simp
      fix j assume j: "j < i"
      then have "evVar (mapping ! j) \<noteq> evVar e"
        using mapping_ok(2) [OF assms(2)] i by (simp add: distinct_conv_nth)
      then show "\<not> (case zip mapping ss ! j of (e', s) \<Rightarrow> evVar e' = evVar e)" using i j len by simp
    qed
    ultimately show ?thesis by (simp add: get exec_secret_def)
  qed
  show "env_get env v = env_get (xEnviron X) v" if "v \<notin> evVar ` set mapping"
  proof -
    have "find (\<lambda>(e, s). evVar e = v) (zip mapping ss) = None"
      using that by (auto simp: find_None_iff dest: set_zip_leftD)
    then show ?thesis by (simp add: get)
  qed
qed

section \<open>Nothing secret is left behind\<close>

definition all_zero :: "bytes list \<Rightarrow> bool" where
  "all_zero bufs \<longleftrightarrow> (\<forall>b \<in> set bufs. set b \<subseteq> {NUL})"

lemma all_zero_clear [simp]: "all_zero (clearEnv env)"
  using set_zeroed by (auto simp: all_zero_def clearEnv_def)

lemma all_zero_Nil [simp]: "all_zero []"
  by (simp add: all_zero_def)

lemma resolve_loop_zero:
  "resolve_loop c st es env msgs = Inl (out, bufs) \<Longrightarrow> \<forall>n. clGet c n st \<noteq> Panic \<Longrightarrow> all_zero bufs \<and> outCode out = 1"
proof (induction c st es env msgs rule: resolve_loop.induct)
  case (2 c st e es env msgs)
  show ?case
  proof (cases "clGet c (evName e) st")
    case (Er err)
    with 2 show ?thesis by (auto simp: exitError_def exit_with_def split: if_splits option.splits)
  qed (use 2 in auto)
qed (auto simp: exit_with_def split: if_splits)

lemma exec_clears:
  assumes "execCmd c X dry env_file flags argv st = Exited out bufs"
    and "\<forall>n. clGet c n st \<noteq> Panic" and "xLookPath X (hd argv) \<noteq> Panic"
  shows "all_zero bufs"
proof -
  have "all_zero b" if "resolveEnv c st mapping = Inl (o', b)" for mapping o' b
    using that resolve_loop_zero [OF _ assms(2)]
    by (auto simp: resolveEnv_def split: if_splits outcome.splits)
  moreover have "all_zero b" if "execve X argv mapping secrets = Exited o' b" for mapping secrets o' b
    using that assms(3) by (auto simp: execve_def Let_def split: outcome.splits option.splits)
  ultimately show ?thesis
    using assms(1) by (auto simp: execCmd_def Let_def split: if_splits outcome.splits sum.splits prod.splits)
qed

text \<open>A name that cannot be fetched stops everything.\<close>

lemma exec_missing:
  assumes "execMapping (xOpen X) env_file flags = Ok mapping" and "e \<in> set mapping"
    and "clGet c (evName e) st = Er err"
  shows "\<nexists>path argv' env. execCmd c X dry env_file flags argv st = Replaced path argv' env"
proof (rule notI, elim exE)
  fix path argv' env
  assume "execCmd c X dry env_file flags argv st = Replaced path argv' env"
  from exec_environment(1) [OF this assms(1,2)] assms(3) show False by simp
qed

end
