(* ===== verification/Identity.thy ===== *)
theory Identity
  imports Session
begin

text \<open>
  internal/identity: the identity file, \<open>identity.age\<close> under a passphrase or \<open>identity.txt\<close> in plain, and
  the operations that create it and change its form. The scrypt part of the age library is a second
  parameter, with \<open>pass_laws\<close> for what its documentation promises. A passphrase is a byte slice that
  the operations wipe, so each returns what is left of it; \<open>None\<close> is the nil slice.
\<close>

section \<open>The library and the system\<close>

record 'i pass_age =
  paRecipient :: "bytes \<Rightarrow> goerr option"
  paEncrypt :: "bytes \<Rightarrow> bytes \<Rightarrow> bytes \<Rightarrow> bytes res"
  paIdentity :: "bytes \<Rightarrow> goerr option"
  paDecrypt :: "bytes \<Rightarrow> bytes \<Rightarrow> age_result"
  paGenerate :: "bytes \<Rightarrow> 'i res"

text \<open>The second argument of \<open>paEncrypt\<close> and that of \<open>paGenerate\<close> are the randomness they draw.\<close>

definition pass_laws :: "'i pass_age \<Rightarrow> bool" where
  "pass_laws P \<longleftrightarrow>
     (\<forall>p rnd x c. paEncrypt P p rnd x = Ok c \<longrightarrow> paDecrypt P p c = Plain x)
     \<and> (\<forall>p q rnd x c. paEncrypt P p rnd x = Ok c \<longrightarrow> p \<noteq> q \<longrightarrow> paDecrypt P q c = NoIdentityMatch)
     \<and> (\<forall>p. p \<noteq> [] \<longrightarrow> paIdentity P p = None)"

record id_io =
  idMkdir :: "goerr option"
  idStat :: "bytes \<Rightarrow> goerr option"
  idOpen :: "bytes \<Rightarrow> goerr option"
  idSys :: syscalls
  idRemove :: "goerr option"
  idRandom :: bytes
  idVault :: io

section \<open>Files and forms\<close>

definition EncryptedFile :: bytes where "EncryptedFile = ''identity.age''"
definition PlainFile :: bytes where "PlainFile = ''identity.txt''"
definition VaultName :: bytes where "VaultName = ''vault.age''"

text \<open>\<open>filepath.Join\<close> of a clean directory and a file name.\<close>

definition in_dir :: "bytes \<Rightarrow> bytes \<Rightarrow> bytes" where
  "in_dir dir name = (if dir = ''/'' then ''/'' @ name else dir @ ''/'' @ name)"

datatype form = FormEncrypted | FormPlain | FormNone

fun form_text :: "form \<Rightarrow> bytes" where
  "form_text FormEncrypted = ''encrypted''"
| "form_text FormPlain = ''plain''"
| "form_text FormNone = ''none''"

definition exists_file :: "id_io \<Rightarrow> bytes \<Rightarrow> fs \<Rightarrow> bool" where
  "exists_file w path d =
     (case idStat w path of
        Some e \<Rightarrow> \<not> errors_is e (StdS ErrNotExist)
      | None \<Rightarrow> d path \<noteq> None)"

definition Detect :: "id_io \<Rightarrow> bytes \<Rightarrow> fs \<Rightarrow> form res" where
  "Detect w dir d =
     (let enc = exists_file w (in_dir dir EncryptedFile) d;
          plain = exists_file w (in_dir dir PlainFile) d in
      if enc \<and> plain then Er (Sentinel (IdentityS IdErrAmbiguous))
      else if enc then Ok FormEncrypted
      else if plain then Ok FormPlain
      else Ok FormNone)"

definition read_os :: "id_io \<Rightarrow> bytes \<Rightarrow> fs \<Rightarrow> bytes res" where
  "read_os w path d =
     (case idOpen w path of
        Some e \<Rightarrow> Er e
      | None \<Rightarrow> (case d path of None \<Rightarrow> Er no_such_file | Some f \<Rightarrow> Ok (fData f)))"

section \<open>Writing\<close>

definition Generate :: "'i age \<Rightarrow> 'i pass_age \<Rightarrow> bytes \<Rightarrow> bytes res" where
  "Generate A P rnd =
     (case paGenerate P rnd of
        Er e \<Rightarrow> Er (wrapf (lit ''identity: generate'') e)
      | Panic \<Rightarrow> Panic
      | Ok i \<Rightarrow> Ok (ageString A i))"

definition WriteEncrypted ::
  "'i pass_age \<Rightarrow> id_io \<Rightarrow> bytes \<Rightarrow> bytes \<Rightarrow> bytes \<Rightarrow> fs \<Rightarrow> unit res \<times> fs" where
  "WriteEncrypted P w path encoded passphrase d =
     (if passphrase = [] then (Er (New (lit ''identity: empty passphrase'')), d)
      else case paRecipient P passphrase of
             Some e \<Rightarrow> (Er (wrapf (lit ''identity'') e), d)
           | None \<Rightarrow>
               (case paEncrypt P passphrase (idRandom w) encoded of
                  Er e \<Rightarrow> (Er (wrapf (lit ''identity: encrypt'') e), d)
                | Panic \<Rightarrow> (Panic, d)
                | Ok c \<Rightarrow> atomicfile_Write (idSys w) path c 384 True d))"

definition WritePlain :: "id_io \<Rightarrow> bytes \<Rightarrow> bytes \<Rightarrow> fs \<Rightarrow> unit res \<times> fs" where
  "WritePlain w path encoded d =
     atomicfile_Write (idSys w) path (trim_space encoded @ [LF]) 384 True d"

section \<open>Loading\<close>

definition wrapNotFound :: "goerr \<Rightarrow> goerr" where
  "wrapNotFound e =
     (if errors_is e (StdS ErrNotExist) then wrap2 (Sentinel (IdentityS IdErrNotFound)) e
      else wrapf (lit ''identity'') e)"

definition validate_key :: "'i age \<Rightarrow> bytes \<Rightarrow> bytes res" where
  "validate_key A data =
     (let out = trim_space data in
      case Parse A out of Er e \<Rightarrow> Er e | Panic \<Rightarrow> Panic | Ok i \<Rightarrow> Ok out)"

definition wiped :: "bytes option \<Rightarrow> bytes option" where
  "wiped p = map_option zeroed p"

definition pass_bytes :: "bytes option \<Rightarrow> bytes" where
  "pass_bytes p = (case p of None \<Rightarrow> [] | Some b \<Rightarrow> b)"

definition LoadFile ::
  "'i age \<Rightarrow> 'i pass_age \<Rightarrow> id_io \<Rightarrow> bytes \<Rightarrow> bytes option \<Rightarrow> fs \<Rightarrow> bytes res \<times> bytes option" where
  "LoadFile A P w path passphrase d =
     (if path_base path = PlainFile then
        (case read_os w path d of
           Er e \<Rightarrow> Er (wrapNotFound e)
         | Panic \<Rightarrow> Panic
         | Ok data \<Rightarrow> validate_key A data, passphrase)
      else if path_base path = EncryptedFile then
        (case read_os w path d of
           Er e \<Rightarrow> Er (wrapNotFound e)
         | Panic \<Rightarrow> Panic
         | Ok data \<Rightarrow>
             if pass_bytes passphrase = [] then Er (Sentinel (IdentityS IdErrWrongPassphrase))
             else (case paIdentity P (pass_bytes passphrase) of
                     Some e \<Rightarrow> Er (wrapf (lit ''identity'') e)
                   | None \<Rightarrow>
                       (case paDecrypt P (pass_bytes passphrase) data of
                          NoIdentityMatch \<Rightarrow> Er (Sentinel (IdentityS IdErrWrongPassphrase))
                        | AgeError e \<Rightarrow> Er (wrapf (lit ''identity: decrypt'') e)
                        | Plain plain \<Rightarrow> validate_key A plain)), wiped passphrase)
      else (Er (Wrap (lit (sentinel_text (IdentityS IdErrMalformed) @ '': '' @ path_base path
              @ '' is neither '' @ EncryptedFile @ '' nor '' @ PlainFile))
              [Sentinel (IdentityS IdErrMalformed)]), passphrase))"

definition Load ::
  "'i age \<Rightarrow> 'i pass_age \<Rightarrow> id_io \<Rightarrow> bytes \<Rightarrow> bytes option \<Rightarrow> fs \<Rightarrow> bytes res \<times> bytes option" where
  "Load A P w dir passphrase d =
     (case Detect w dir d of
        Er e \<Rightarrow> (Er e, passphrase)
      | Panic \<Rightarrow> (Panic, passphrase)
      | Ok FormPlain \<Rightarrow> LoadFile A P w (in_dir dir PlainFile) passphrase d
      | Ok FormEncrypted \<Rightarrow> LoadFile A P w (in_dir dir EncryptedFile) passphrase d
      | Ok FormNone \<Rightarrow> (Er (Sentinel (IdentityS IdErrNotFound)), passphrase))"

section \<open>Setting up and changing the form\<close>

definition Init ::
  "'i age \<Rightarrow> 'i pass_age \<Rightarrow> id_io \<Rightarrow> bytes \<Rightarrow> bytes option \<Rightarrow> fs \<Rightarrow> unit res \<times> bytes option \<times> fs" where
  "Init A P w dir passphrase d =
     (let vaultPath = in_dir dir VaultName in
      case idMkdir w of
        Some e \<Rightarrow> (Er (wrapf (lit ''identity: init'') e), wiped passphrase, d)
      | None \<Rightarrow>
      if Detect w dir d \<noteq> Ok FormNone then (Er (Sentinel (IdentityS IdErrExists)), wiped passphrase, d)
      else if exists_file w vaultPath d then (Er (Sentinel (IdentityS IdErrExists)), wiped passphrase, d)
      else case Generate A P (idRandom w) of
        Er e \<Rightarrow> (Er e, wiped passphrase, d)
      | Panic \<Rightarrow> (Panic, wiped passphrase, d)
      | Ok encoded \<Rightarrow>
      (case Parse A encoded of
         Er e \<Rightarrow> (Er e, wiped passphrase, d)
       | Panic \<Rightarrow> (Panic, wiped passphrase, d)
       | Ok i \<Rightarrow>
      (case (case passphrase of
               None \<Rightarrow> WritePlain w (in_dir dir PlainFile) encoded d
             | Some p \<Rightarrow> WriteEncrypted P w (in_dir dir EncryptedFile) encoded p d) of
         (Er e, d') \<Rightarrow> (Er e, wiped passphrase, d')
       | (Panic, d') \<Rightarrow> (Panic, wiped passphrase, d')
       | (Ok _, d') \<Rightarrow>
           (case Write_file A (idVault w) vaultPath i New_vault d' of
              (r, d'') \<Rightarrow> (r, wiped passphrase, d'')))))"

text \<open>\<open>load\<close>: the identity, when it is stored in the wanted form.\<close>

definition load_form ::
  "'i age \<Rightarrow> 'i pass_age \<Rightarrow> id_io \<Rightarrow> bytes \<Rightarrow> form \<Rightarrow> bytes option \<Rightarrow> fs \<Rightarrow> bytes res \<times> bytes option" where
  "load_form A P w dir want passphrase d =
     (case Detect w dir d of
        Er e \<Rightarrow> (Er e, wiped passphrase)
      | Panic \<Rightarrow> (Panic, passphrase)
      | Ok form \<Rightarrow>
          if form \<noteq> want then
            (Er (Wrap (lit (sentinel_text (IdentityS IdErrWrongForm) @ '': have '' @ form_text form
                   @ '', need '' @ form_text want)) [Sentinel (IdentityS IdErrWrongForm)]),
             wiped passphrase)
          else Load A P w dir passphrase d)"

definition remove_file :: "id_io \<Rightarrow> bytes \<Rightarrow> fs \<Rightarrow> unit res \<times> fs" where
  "remove_file w path d =
     (case idRemove w of
        Some e \<Rightarrow> (Er (wrapf (lit ''identity'') e), d)
      | None \<Rightarrow>
          if d path = None then (Er (wrapf (lit ''identity'') no_such_file), d)
          else (Ok (), d(path := None)))"

definition ChangePassphrase ::
  "'i age \<Rightarrow> 'i pass_age \<Rightarrow> id_io \<Rightarrow> bytes \<Rightarrow> bytes option \<Rightarrow> bytes \<Rightarrow> fs
    \<Rightarrow> unit res \<times> (bytes option \<times> bytes) \<times> fs" where
  "ChangePassphrase A P w dir old next_pass d =
     (case load_form A P w dir FormEncrypted old d of
        (Er e, old') \<Rightarrow> (Er e, (old', zeroed next_pass), d)
      | (Panic, old') \<Rightarrow> (Panic, (old', zeroed next_pass), d)
      | (Ok encoded, old') \<Rightarrow>
          (case WriteEncrypted P w (in_dir dir EncryptedFile) encoded next_pass d of
             (r, d') \<Rightarrow> (r, (old', zeroed next_pass), d')))"

definition SetPassphrase ::
  "'i age \<Rightarrow> 'i pass_age \<Rightarrow> id_io \<Rightarrow> bytes \<Rightarrow> bytes \<Rightarrow> fs \<Rightarrow> unit res \<times> bytes \<times> fs" where
  "SetPassphrase A P w dir passphrase d =
     (case fst (load_form A P w dir FormPlain None d) of
        Er e \<Rightarrow> (Er e, zeroed passphrase, d)
      | Panic \<Rightarrow> (Panic, zeroed passphrase, d)
      | Ok encoded \<Rightarrow>
          (case WriteEncrypted P w (in_dir dir EncryptedFile) encoded passphrase d of
             (Ok _, d') \<Rightarrow>
               (case remove_file w (in_dir dir PlainFile) d' of (r, d'') \<Rightarrow> (r, zeroed passphrase, d''))
           | (r, d') \<Rightarrow> (r, zeroed passphrase, d')))"

definition RemovePassphrase ::
  "'i age \<Rightarrow> 'i pass_age \<Rightarrow> id_io \<Rightarrow> bytes \<Rightarrow> bytes option \<Rightarrow> fs \<Rightarrow> unit res \<times> bytes option \<times> fs" where
  "RemovePassphrase A P w dir passphrase d =
     (case load_form A P w dir FormEncrypted passphrase d of
        (Er e, p') \<Rightarrow> (Er e, p', d)
      | (Panic, p') \<Rightarrow> (Panic, p', d)
      | (Ok encoded, p') \<Rightarrow>
          (case WritePlain w (in_dir dir PlainFile) encoded d of
             (Ok _, d') \<Rightarrow>
               (case remove_file w (in_dir dir EncryptedFile) d' of (r, d'') \<Rightarrow> (r, p', d''))
           | (r, d') \<Rightarrow> (r, p', d')))"

section \<open>Names\<close>

lemma path_base_in_dir: "CHR ''/'' \<notin> set name \<Longrightarrow> path_base (in_dir dir name) = name"
proof -
  assume n: "CHR ''/'' \<notin> set name"
  obtain pre where p: "in_dir dir name = pre @ CHR ''/'' # name"
    by (cases "dir = ''/''") (simp_all add: in_dir_def)
  have "takeWhile (\<lambda>c. c \<noteq> CHR ''/'') (rev name @ CHR ''/'' # rev pre) = rev name"
    using n by (subst takeWhile_append2) auto
  then show ?thesis by (simp add: path_base_def p)
qed

lemma base_names [simp]:
  "path_base (in_dir dir EncryptedFile) = EncryptedFile"
  "path_base (in_dir dir PlainFile) = PlainFile"
  "path_base (in_dir dir VaultName) = VaultName"
  by (rule path_base_in_dir, simp add: EncryptedFile_def PlainFile_def VaultName_def)+

lemma file_names [simp]:
  "EncryptedFile \<noteq> PlainFile" "PlainFile \<noteq> EncryptedFile" "EncryptedFile \<noteq> VaultName"
  "VaultName \<noteq> EncryptedFile" "PlainFile \<noteq> VaultName" "VaultName \<noteq> PlainFile"
  by (simp_all add: EncryptedFile_def PlainFile_def VaultName_def)

lemma in_dir_apart [simp]:
  "in_dir dir EncryptedFile \<noteq> in_dir dir PlainFile" "in_dir dir PlainFile \<noteq> in_dir dir EncryptedFile"
  "in_dir dir EncryptedFile \<noteq> in_dir dir VaultName" "in_dir dir VaultName \<noteq> in_dir dir EncryptedFile"
  "in_dir dir PlainFile \<noteq> in_dir dir VaultName" "in_dir dir VaultName \<noteq> in_dir dir PlainFile"
  using base_names [of dir] file_names by metis+

lemma last_in_dir [simp]:
  "last (in_dir dir EncryptedFile) = CHR ''e''" "last (in_dir dir PlainFile) = CHR ''t''"
  "last (in_dir dir VaultName) = CHR ''e''"
  by (simp_all add: in_dir_def EncryptedFile_def PlainFile_def VaultName_def)

lemma last_temp [simp]: "last (tmp_name path rnd) = CHR ''p''" "last (bak_name path) = CHR ''k''"
  by (simp_all add: tmp_name_def bak_name_def)

lemma other_names [simp]:
  "in_dir dir PlainFile \<noteq> tmp_name path rnd" "in_dir dir EncryptedFile \<noteq> tmp_name path rnd"
  "in_dir dir VaultName \<noteq> tmp_name path rnd"
  "in_dir dir PlainFile \<noteq> bak_name path" "in_dir dir EncryptedFile \<noteq> bak_name path"
  "in_dir dir VaultName \<noteq> bak_name path"
proof -
  have ne: "CHR ''t'' \<noteq> CHR ''p''" "CHR ''e'' \<noteq> CHR ''p''" "CHR ''t'' \<noteq> CHR ''k''" "CHR ''e'' \<noteq> CHR ''k''"
    by simp_all
  show "in_dir dir PlainFile \<noteq> tmp_name path rnd" "in_dir dir EncryptedFile \<noteq> tmp_name path rnd"
    "in_dir dir VaultName \<noteq> tmp_name path rnd"
    "in_dir dir PlainFile \<noteq> bak_name path" "in_dir dir EncryptedFile \<noteq> bak_name path"
    "in_dir dir VaultName \<noteq> bak_name path"
    using ne last_in_dir [of dir] last_temp by metis+
qed

section \<open>What is stored\<close>

definition sealed :: "'i pass_age \<Rightarrow> fs \<Rightarrow> bytes \<Rightarrow> bytes \<Rightarrow> bytes \<Rightarrow> bool" where
  "sealed P d path p x \<longleftrightarrow> (\<exists>f rnd. d path = Some f \<and> paEncrypt P p rnd x = Ok (fData f))"

definition in_plain :: "fs \<Rightarrow> bytes \<Rightarrow> bytes \<Rightarrow> bool" where
  "in_plain d path x \<longleftrightarrow> (\<exists>f. d path = Some f \<and> trim_space (fData f) = x)"

definition id_calm :: "id_io \<Rightarrow> bool" where
  "id_calm w \<longleftrightarrow> (\<forall>p. idStat w p = None) \<and> (\<forall>p. idOpen w p = None)"

lemma Detect_calm:
  assumes "id_calm w"
  shows "Detect w dir d =
    (if d (in_dir dir EncryptedFile) \<noteq> None \<and> d (in_dir dir PlainFile) \<noteq> None
       then Er (Sentinel (IdentityS IdErrAmbiguous))
     else if d (in_dir dir EncryptedFile) \<noteq> None then Ok FormEncrypted
     else if d (in_dir dir PlainFile) \<noteq> None then Ok FormPlain
     else Ok FormNone)"
  using assms by (simp add: Detect_def exists_file_def id_calm_def)

lemma read_os_Ok: "read_os w path d = Ok data \<longleftrightarrow> idOpen w path = None \<and> (\<exists>f. d path = Some f \<and> fData f = data)"
  by (auto simp: read_os_def split: option.splits)

lemma LoadFile_sealed:
  assumes "pass_laws P" and "sealed P d (in_dir dir EncryptedFile) p x" and "idOpen w (in_dir dir EncryptedFile) = None"
  shows "p \<noteq> [] \<Longrightarrow> LoadFile A P w (in_dir dir EncryptedFile) (Some p) d = (validate_key A x, Some (zeroed p))"
    and "q \<noteq> p \<Longrightarrow> LoadFile A P w (in_dir dir EncryptedFile) (Some q) d
      = (Er (Sentinel (IdentityS IdErrWrongPassphrase)), Some (zeroed q))"
proof -
  from assms(2) obtain f rnd where f: "d (in_dir dir EncryptedFile) = Some f"
    and c: "paEncrypt P p rnd x = Ok (fData f)" unfolding sealed_def by blast
  then have r: "read_os w (in_dir dir EncryptedFile) d = Ok (fData f)"
    using assms(3) by (simp add: read_os_def)
  from assms(1) c have pl: "paDecrypt P p (fData f) = Plain x"
    and no: "\<And>q. p \<noteq> q \<Longrightarrow> paDecrypt P q (fData f) = NoIdentityMatch"
    and i: "\<And>q. q \<noteq> [] \<Longrightarrow> paIdentity P q = None"
    unfolding pass_laws_def by blast+
  show "LoadFile A P w (in_dir dir EncryptedFile) (Some p) d = (validate_key A x, Some (zeroed p))" if "p \<noteq> []"
    using that r pl i by (simp add: LoadFile_def pass_bytes_def wiped_def)
  show "LoadFile A P w (in_dir dir EncryptedFile) (Some q) d
      = (Er (Sentinel (IdentityS IdErrWrongPassphrase)), Some (zeroed q))" if "q \<noteq> p"
    using that r no [of q] i by (simp add: LoadFile_def pass_bytes_def wiped_def)
qed

lemma LoadFile_plain:
  assumes "d (in_dir dir PlainFile) = Some f" and "idOpen w (in_dir dir PlainFile) = None"
  shows "LoadFile A P w (in_dir dir PlainFile) pass d = (validate_key A (fData f), pass)"
  using assms by (simp add: LoadFile_def read_os_def)

lemma validate_key_Ok: "validate_key A x = Ok y \<longleftrightarrow> y = trim_space x \<and> (\<exists>i. Parse A (trim_space x) = Ok i)"
  by (auto simp: validate_key_def Let_def split: outcome.splits)

text \<open>The encoding of a key has no white space at its ends.\<close>

definition key_text :: "'i age \<Rightarrow> bool" where
  "key_text A \<longleftrightarrow> (\<forall>i. trim_space (ageString A i) = ageString A i)"

lemma Parse_string: "age_laws A \<Longrightarrow> key_text A \<Longrightarrow> Parse A (ageString A i) = Ok i"
  by (simp add: Parse_def age_laws_def key_text_def)

lemma validate_string:
  "age_laws A \<Longrightarrow> key_text A \<Longrightarrow> validate_key A (ageString A i) = Ok (ageString A i)"
  using Parse_string [of A i] by (auto simp: validate_key_Ok key_text_def)

section \<open>What writing changes\<close>

lemma WriteEncrypted_Ok:
  assumes "WriteEncrypted P w path x p d = (Ok u, d')"
  shows "p \<noteq> []" and "sealed P d' path p x"
  using assms
  by (auto simp: WriteEncrypted_def sealed_def new_file_def dest!: Write_Ok_path split: if_splits option.splits outcome.splits)

lemma WriteEncrypted_frame:
  assumes "WriteEncrypted P w path x p d = (r, d')"
    and "q \<noteq> path" and "q \<noteq> bak_name path" and "\<And>rnd. q \<noteq> tmp_name path rnd"
  shows "d' q = d q"
  using assms(1) Write_frame [OF _ assms(2-4)]
  by (auto simp: WriteEncrypted_def split: if_splits option.splits outcome.splits)

lemma WriteEncrypted_Er:
  assumes "WriteEncrypted P w path x p d = (Er e, d')"
  shows "d' path = d path \<or> d path \<noteq> None \<and> d' path = None \<and> d' (bak_name path) = d path
    \<or> sealed P d' path p x"
  using assms
  by (auto simp: WriteEncrypted_def sealed_def new_file_def dest!: Write_Er_path split: if_splits option.splits outcome.splits)

lemma WritePlain_Ok:
  assumes "WritePlain w path x d = (Ok u, d')"
  shows "\<exists>f. d' path = Some f \<and> fData f = trim_space x @ [LF]"
  using assms by (auto simp: WritePlain_def new_file_def dest!: Write_Ok_path)

lemma WritePlain_frame:
  assumes "WritePlain w path x d = (r, d')"
    and "q \<noteq> path" and "q \<noteq> bak_name path" and "\<And>rnd. q \<noteq> tmp_name path rnd"
  shows "d' q = d q"
  using assms(1) Write_frame [OF _ assms(2-4)] by (simp add: WritePlain_def)

lemma space_bytes:
  "e \<in> set space_encs \<Longrightarrow> e \<noteq> [] \<and> (length e = 1 \<or> (\<forall>c \<in> set e. 128 \<le> (byte_of c :: nat)))"
proof -
  have "list_all (\<lambda>e. e \<noteq> [] \<and> (length e = 1 \<or> (\<forall>c \<in> set e. 128 \<le> (byte_of c :: nat)))) space_encs"
    unfolding space_encs_eq by (simp add: encode_rune_def)
  then show "e \<in> set space_encs \<Longrightarrow> ?thesis" by (simp add: list_all_iff)
qed

lemma space_LF: "e \<in> set space_encs \<Longrightarrow> LF \<in> set e \<Longrightarrow> e = [LF]"
  using space_bytes [of e] by (fastforce simp: length_Suc_conv)

lemma LF_space: "[LF] \<in> set space_encs"
proof -
  have "LF = char_of (10::nat)" by (rule byte_eqD) simp
  then show ?thesis unfolding space_encs_eq by (simp add: encode_rune_def)
qed

lemma strip_LF:
  assumes "[LF] \<in> set encs" and "\<And>e. e \<in> set encs \<Longrightarrow> LF \<in> set e \<Longrightarrow> e = [LF]"
  shows "strip encs (LF # s) = strip encs s"
proof -
  let ?P = "\<lambda>e. e \<noteq> [] \<and> take (length e) (LF # s) = e"
  have "find ?P encs \<noteq> None" using assms(1) by (auto simp: find_None_iff)
  then obtain e where f: "find ?P encs = Some e" by blast
  then have e: "e \<in> set encs" "e \<noteq> []" "take (length e) (LF # s) = e" by (auto simp: find_Some_iff)
  from e(2,3) have "LF \<in> set e" by (cases e) auto
  with assms(2) e(1) have "e = [LF]" by blast
  with f show ?thesis by (subst strip.simps) simp
qed

lemma trim_space_ends:
  defines "E \<equiv> space_encs" and "R \<equiv> map rev space_encs"
  shows "strip E (trim_space x) = trim_space x" and "strip R (rev (trim_space x)) = rev (trim_space x)"
    and "e \<in> set E \<Longrightarrow> take (length e) (trim_space x) \<noteq> e"
proof -
  define y where "y = trim_space x"
  define z where "z = strip E x"
  have y: "rev y = strip R (rev z)" by (simp add: y_def z_def trim_space_def E_def R_def)
  then show "strip R (rev (trim_space x)) = rev (trim_space x)" by (simp add: strip_idem y_def [symmetric])
  from strip_suffix [of "rev z" R] y obtain p where "rev z = p @ rev y" by auto
  then have z: "z = y @ rev p" by (metis rev_append rev_rev_ident)
  have "strip E z = z" by (simp add: z_def strip_idem)
  then have nz: "take (length e) z \<noteq> e" if "e \<in> set E" for e
    using that space_bytes [of e] by (simp add: strip_id_iff E_def)
  have ny: "take (length e) y \<noteq> e" if "e \<in> set E" for e
  proof
    assume t: "take (length e) y = e"
    then have "length e \<le> length y" by (metis length_take min.absorb_iff2 min.commute)
    then have "take (length e) z = e" using t by (simp add: z)
    with nz [OF that] show False by simp
  qed
  then show "e \<in> set E \<Longrightarrow> take (length e) (trim_space x) \<noteq> e" by (simp add: y_def)
  from ny show "strip E (trim_space x) = trim_space x" by (simp add: strip_id_iff y_def)
qed

lemma trim_space_idem [simp]: "trim_space (trim_space x) = trim_space x"
  by (simp add: trim_space_def [of "trim_space x"] trim_space_ends)

lemma trim_space_LF [simp]: "trim_space (trim_space x @ [LF]) = trim_space x"
proof -
  let ?E = "space_encs" and ?R = "map rev space_encs"
  have R: "strip ?R (LF # s) = strip ?R s" for s
  proof (rule strip_LF)
    show "[LF] \<in> set ?R" using imageI [OF LF_space, of rev] by simp
  next
    fix e assume "e \<in> set ?R" "LF \<in> set e"
    then obtain e0 where "e0 \<in> set ?E" "e = rev e0" "LF \<in> set e0" by auto
    with space_LF show "e = [LF]" by auto
  qed
  define y where "y = trim_space x"
  show ?thesis
  proof (cases "y = []")
    case True
    have "strip ?E [LF] = strip ?E []" by (rule strip_LF [OF LF_space space_LF])
    moreover have "strip encs [] = []" for encs using strip_suffix [of "[]" encs] by simp
    ultimately show ?thesis using True by (simp add: y_def trim_space_def)
  next
    case False
    have "take (length e) (y @ [LF]) \<noteq> e" if e: "e \<in> set ?E" for e
    proof
      assume t: "take (length e) (y @ [LF]) = e"
      show False
      proof (cases "length e \<le> length y")
        case True
        with t trim_space_ends(3) [OF e, of x] show False by (simp add: y_def)
      next
        case False
        with t have "e = y @ [LF]" by simp
        with space_LF [OF e] \<open>y \<noteq> []\<close> show False by auto
      qed
    qed
    then have "strip ?E (y @ [LF]) = y @ [LF]" by (simp add: strip_id_iff)
    then have "trim_space (y @ [LF]) = rev (strip ?R (LF # rev y))" by (simp add: trim_space_def)
    then show ?thesis by (simp add: R trim_space_ends(2) y_def)
  qed
qed

lemma Detect_no_panic [simp]: "Detect w dir d \<noteq> Panic"
  by (simp add: Detect_def Let_def)

lemma load_form_wiped: "snd (load_form A P w dir FormEncrypted pass d) = wiped pass"
  by (auto simp: load_form_def Load_def LoadFile_def split: outcome.splits form.splits)

lemma load_form_sealed:
  assumes "pass_laws P" and "sealed P d (in_dir dir EncryptedFile) p x"
    and "load_form A P w dir FormEncrypted q d = (Ok y, q')"
  shows "q = Some p \<and> p \<noteq> [] \<and> y = trim_space x \<and> (\<exists>i. Parse A y = Ok i)"
proof -
  from assms(3) have l: "LoadFile A P w (in_dir dir EncryptedFile) q d = (Ok y, q')"
    by (auto simp: load_form_def Load_def split: outcome.splits if_splits)
  then have o: "idOpen w (in_dir dir EncryptedFile) = None" and n: "pass_bytes q \<noteq> []"
    by (auto simp: LoadFile_def read_os_def split: outcome.splits option.splits if_splits)
  then obtain q0 where q: "q = Some q0" "q0 \<noteq> []" by (cases q) (auto simp: pass_bytes_def)
  have "q0 = p"
    using LoadFile_sealed(2) [OF assms(1,2) o, of q0] l q by (cases "q0 = p") auto
  with LoadFile_sealed(1) [OF assms(1,2) o] l q have "validate_key A x = Ok y" by simp
  with q \<open>q0 = p\<close> show ?thesis by (auto simp: validate_key_Ok)
qed

lemma load_form_plain:
  assumes "load_form A P w dir FormPlain q d = (Ok y, q')"
  shows "in_plain d (in_dir dir PlainFile) y \<and> (\<exists>i. Parse A y = Ok i) \<and> trim_space y = y"
proof -
  from assms have l: "LoadFile A P w (in_dir dir PlainFile) q d = (Ok y, q')"
    by (auto simp: load_form_def Load_def split: outcome.splits if_splits)
  then obtain data where "read_os w (in_dir dir PlainFile) d = Ok data" "validate_key A data = Ok y"
    by (auto simp: LoadFile_def split: outcome.splits)
  then show ?thesis by (auto simp: read_os_Ok validate_key_Ok in_plain_def)
qed

lemma in_plain_unique: "in_plain d path x \<Longrightarrow> in_plain d path y \<Longrightarrow> x = y"
  by (auto simp: in_plain_def)

lemma sealed_cong: "d' path = d path \<Longrightarrow> sealed P d' path p x = sealed P d path p x"
  by (simp add: sealed_def)

lemma in_plain_cong: "d' path = d path \<Longrightarrow> in_plain d' path x = in_plain d path x"
  by (simp add: in_plain_def)

section \<open>The identity is never lost\<close>

text \<open>
  Whatever fails on the way, one of the files still holds the key afterwards: the old one, the new
  one, or the backup of the old one.
\<close>

lemma SetPassphrase_keeps:
  assumes "in_plain d (in_dir dir PlainFile) x" and "SetPassphrase A P w dir p d = (r, q, d')"
  shows "in_plain d' (in_dir dir PlainFile) x \<or> sealed P d' (in_dir dir EncryptedFile) p x"
proof (cases "fst (load_form A P w dir FormPlain None d)")
  case (Ok y)
  then obtain q' where l: "load_form A P w dir FormPlain None d = (Ok y, q')"
    by (cases "load_form A P w dir FormPlain None d") auto
  from load_form_plain [OF l] in_plain_unique [OF assms(1)] have y: "y = x" by blast
  obtain r1 d1 where w: "WriteEncrypted P w (in_dir dir EncryptedFile) x p d = (r1, d1)"
    by (cases "WriteEncrypted P w (in_dir dir EncryptedFile) x p d")
  have "d1 (in_dir dir PlainFile) = d (in_dir dir PlainFile)"
    by (rule WriteEncrypted_frame [OF w]) simp_all
  then have pl: "in_plain d1 (in_dir dir PlainFile) x" using assms(1) by (simp add: in_plain_def)
  show ?thesis
  proof (cases r1)
    case r: (Ok u)
    with WriteEncrypted_Ok(2) w have s: "sealed P d1 (in_dir dir EncryptedFile) p x" by metis
    obtain r2 d2 where "remove_file w (in_dir dir PlainFile) d1 = (r2, d2)"
      by (cases "remove_file w (in_dir dir PlainFile) d1")
    moreover from this have "d2 = d1 \<or> d2 = d1(in_dir dir PlainFile := None)"
      by (auto simp: remove_file_def split: option.splits if_splits)
    ultimately show ?thesis using assms(2) Ok y w r s pl
      by (auto simp: SetPassphrase_def sealed_def)
  qed (use assms(2) Ok y w pl in \<open>auto simp: SetPassphrase_def\<close>)
qed (use assms in \<open>simp_all add: SetPassphrase_def\<close>)

lemma RemovePassphrase_keeps:
  assumes "pass_laws P" and "sealed P d (in_dir dir EncryptedFile) p x"
    and "RemovePassphrase A P w dir q d = (r, q', d')"
  shows "sealed P d' (in_dir dir EncryptedFile) p x \<or> in_plain d' (in_dir dir PlainFile) (trim_space x)"
proof -
  obtain r0 q0 where l: "load_form A P w dir FormEncrypted q d = (r0, q0)"
    by (cases "load_form A P w dir FormEncrypted q d")
  show ?thesis
  proof (cases r0)
    case (Ok y)
    with load_form_sealed [OF assms(1,2)] l have y: "y = trim_space x" by blast
    obtain r1 d1 where w: "WritePlain w (in_dir dir PlainFile) (trim_space x) d = (r1, d1)"
      by (cases "WritePlain w (in_dir dir PlainFile) (trim_space x) d")
    have "d1 (in_dir dir EncryptedFile) = d (in_dir dir EncryptedFile)"
      by (rule WritePlain_frame [OF w]) simp_all
    then have s: "sealed P d1 (in_dir dir EncryptedFile) p x" using assms(2) by (simp add: sealed_def)
    show ?thesis
    proof (cases r1)
      case r: (Ok u)
      with WritePlain_Ok w obtain f where "d1 (in_dir dir PlainFile) = Some f"
        "fData f = trim_space x @ [LF]" by (metis trim_space_idem)
      then have pl: "in_plain d1 (in_dir dir PlainFile) (trim_space x)" by (simp add: in_plain_def)
      obtain r2 d2 where "remove_file w (in_dir dir EncryptedFile) d1 = (r2, d2)"
        by (cases "remove_file w (in_dir dir EncryptedFile) d1")
      moreover from this have "d2 = d1 \<or> d2 = d1(in_dir dir EncryptedFile := None)"
        by (auto simp: remove_file_def split: option.splits if_splits)
      ultimately show ?thesis using assms(3) Ok y w r s pl l
        by (auto simp: RemovePassphrase_def in_plain_def)
    qed (use assms(3) Ok y w s l in \<open>auto simp: RemovePassphrase_def\<close>)
  qed (use assms l in \<open>simp_all add: RemovePassphrase_def\<close>)
qed

lemma ChangePassphrase_keeps:
  assumes "pass_laws P" and "sealed P d (in_dir dir EncryptedFile) p x"
    and "ChangePassphrase A P w dir old next_pass d = (r, q, d')"
  shows "sealed P d' (in_dir dir EncryptedFile) p x
    \<or> sealed P d' (bak_name (in_dir dir EncryptedFile)) p x
    \<or> sealed P d' (in_dir dir EncryptedFile) next_pass (trim_space x)"
proof -
  obtain r0 q0 where l: "load_form A P w dir FormEncrypted old d = (r0, q0)"
    by (cases "load_form A P w dir FormEncrypted old d")
  show ?thesis
  proof (cases r0)
    case (Ok y)
    with load_form_sealed [OF assms(1,2)] l have y: "y = trim_space x" by blast
    with assms(3) l Ok have w: "WriteEncrypted P w (in_dir dir EncryptedFile) (trim_space x) next_pass d = (r, d')"
      by (auto simp: ChangePassphrase_def split: prod.splits)
    show ?thesis
    proof (cases r)
      case r: (Ok u)
      with WriteEncrypted_Ok(2) w show ?thesis by metis
    next
      case (Er e)
      from WriteEncrypted_Er [OF w [unfolded Er]] assms(2) show ?thesis by (auto simp: sealed_def)
    next
      case Panic
      with w have "d' = d" using Write_no_panic
        by (auto simp: WriteEncrypted_def split: if_splits option.splits outcome.splits)
      with assms(2) show ?thesis by simp
    qed
  qed (use assms l in \<open>simp_all add: ChangePassphrase_def\<close>)
qed

section \<open>What the operations achieve\<close>

lemma Load_calm:
  assumes "id_calm w"
  shows "d (in_dir dir EncryptedFile) \<noteq> None \<Longrightarrow> d (in_dir dir PlainFile) = None \<Longrightarrow>
      Load A P w dir pass d = LoadFile A P w (in_dir dir EncryptedFile) pass d"
    and "d (in_dir dir EncryptedFile) = None \<Longrightarrow> d (in_dir dir PlainFile) \<noteq> None \<Longrightarrow>
      Load A P w dir pass d = LoadFile A P w (in_dir dir PlainFile) pass d"
  using assms by (auto simp: Load_def Detect_calm)

lemma validate_trimmed: "Parse A x = Ok i \<Longrightarrow> trim_space x = x \<Longrightarrow> validate_key A x = Ok x"
  by (simp add: validate_key_Ok)

lemma Load_sealed:
  assumes "pass_laws P" and "sealed P d (in_dir dir EncryptedFile) p x" and "d (in_dir dir PlainFile) = None"
    and "id_calm w" and "Parse A x = Ok i" and "trim_space x = x"
  shows "p \<noteq> [] \<Longrightarrow> Load A P w dir (Some p) d = (Ok x, Some (zeroed p))"
    and "q \<noteq> p \<Longrightarrow> Load A P w dir (Some q) d
      = (Er (Sentinel (IdentityS IdErrWrongPassphrase)), Some (zeroed q))"
proof -
  have e: "d (in_dir dir EncryptedFile) \<noteq> None" using assms(2) by (auto simp: sealed_def)
  have o: "idOpen w (in_dir dir EncryptedFile) = None" using assms(4) by (simp add: id_calm_def)
  note l = Load_calm(1) [OF assms(4) e assms(3)] and f = LoadFile_sealed [OF assms(1,2) o]
  show "p \<noteq> [] \<Longrightarrow> Load A P w dir (Some p) d = (Ok x, Some (zeroed p))"
    by (simp add: l f(1) validate_trimmed [OF assms(5,6)])
  show "q \<noteq> p \<Longrightarrow> Load A P w dir (Some q) d
      = (Er (Sentinel (IdentityS IdErrWrongPassphrase)), Some (zeroed q))"
    by (simp add: l f(2))
qed

lemma SetPassphrase_Ok:
  assumes "pass_laws P" and "SetPassphrase A P w dir p d = (Ok u, q, d')" and "id_calm w'"
  shows "\<exists>x. in_plain d (in_dir dir PlainFile) x \<and> d' (in_dir dir PlainFile) = None
    \<and> Load A P w' dir (Some p) d' = (Ok x, Some (zeroed p))
    \<and> (\<forall>p'. p' \<noteq> p \<longrightarrow> fst (Load A P w' dir (Some p') d') = Er (Sentinel (IdentityS IdErrWrongPassphrase)))"
proof -
  from assms(2) obtain x where "fst (load_form A P w dir FormPlain None d) = Ok x"
    by (auto simp: SetPassphrase_def split: outcome.splits)
  then obtain q' where l: "load_form A P w dir FormPlain None d = (Ok x, q')"
    by (cases "load_form A P w dir FormPlain None d") auto
  with assms(2) obtain u1 d1 where w: "WriteEncrypted P w (in_dir dir EncryptedFile) x p d = (Ok u1, d1)"
    and rm: "remove_file w (in_dir dir PlainFile) d1 = (Ok u, d')"
    by (auto simp: SetPassphrase_def split: prod.splits outcome.splits)
  from rm have d': "d' = d1(in_dir dir PlainFile := None)"
    by (auto simp: remove_file_def split: option.splits if_splits)
  with WriteEncrypted_Ok [OF w] have s: "sealed P d' (in_dir dir EncryptedFile) p x" and p: "p \<noteq> []"
    by (simp_all add: sealed_def)
  from load_form_plain [OF l] obtain i where "in_plain d (in_dir dir PlainFile) x" "Parse A x = Ok i"
    "trim_space x = x" by blast
  moreover have "d' (in_dir dir PlainFile) = None" by (simp add: d')
  ultimately show ?thesis using Load_sealed [OF assms(1) s _ assms(3)] p by auto
qed

lemma RemovePassphrase_Ok:
  assumes "pass_laws P" and "sealed P d (in_dir dir EncryptedFile) p x"
    and "RemovePassphrase A P w dir q d = (Ok u, q', d')" and "id_calm w'"
  shows "q = Some p \<and> q' = Some (zeroed p) \<and> d' (in_dir dir EncryptedFile) = None
    \<and> Load A P w' dir pass d' = (Ok (trim_space x), pass)"
proof -
  from assms(3) obtain y where l: "load_form A P w dir FormEncrypted q d = (Ok y, q')"
    by (auto simp: RemovePassphrase_def split: prod.splits outcome.splits)
  from load_form_sealed [OF assms(1,2) l] obtain i where q: "q = Some p" and y: "y = trim_space x"
    and i: "Parse A (trim_space x) = Ok i" by blast
  from assms(3) l y obtain u1 d1 where w: "WritePlain w (in_dir dir PlainFile) (trim_space x) d = (Ok u1, d1)"
    and rm: "remove_file w (in_dir dir EncryptedFile) d1 = (Ok u, d')"
    by (auto simp: RemovePassphrase_def split: prod.splits outcome.splits)
  from rm have d': "d' = d1(in_dir dir EncryptedFile := None)"
    by (auto simp: remove_file_def split: option.splits if_splits)
  from WritePlain_Ok [OF w] obtain f where f: "d1 (in_dir dir PlainFile) = Some f" "fData f = trim_space x @ [LF]"
    by auto
  have "Load A P w' dir pass d' = LoadFile A P w' (in_dir dir PlainFile) pass d'"
    by (rule Load_calm(2) [OF assms(4)]) (simp_all add: d' f)
  also have "\<dots> = (validate_key A (fData f), pass)"
    by (rule LoadFile_plain) (use assms(4) in \<open>simp_all add: d' f id_calm_def\<close>)
  also have "validate_key A (fData f) = Ok (trim_space x)"
    using i by (simp add: f validate_key_Ok)
  finally have "Load A P w' dir pass d' = (Ok (trim_space x), pass)" .
  moreover have "d' (in_dir dir EncryptedFile) = None" by (simp add: d')
  ultimately show ?thesis using load_form_wiped [of A P w dir q d] l q by (simp add: wiped_def)
qed

lemma ChangePassphrase_Ok:
  assumes "pass_laws P" and "sealed P d (in_dir dir EncryptedFile) p x"
    and "ChangePassphrase A P w dir old next_pass d = (Ok u, q, d')" and "id_calm w" and "id_calm w'"
  shows "old = Some p \<and> q = (Some (zeroed p), zeroed next_pass)
    \<and> Load A P w' dir (Some next_pass) d' = (Ok (trim_space x), Some (zeroed next_pass))
    \<and> (p \<noteq> next_pass \<longrightarrow> fst (Load A P w' dir (Some p) d') = Er (Sentinel (IdentityS IdErrWrongPassphrase)))"
proof -
  from assms(3) obtain y q0 where l: "load_form A P w dir FormEncrypted old d = (Ok y, q0)"
    and q: "q = (q0, zeroed next_pass)"
    by (auto simp: ChangePassphrase_def split: prod.splits outcome.splits)
  from load_form_sealed [OF assms(1,2) l] obtain i where o: "old = Some p" and y: "y = trim_space x"
    and i: "Parse A (trim_space x) = Ok i" by blast
  from assms(3) l y have w: "WriteEncrypted P w (in_dir dir EncryptedFile) (trim_space x) next_pass d = (Ok u, d')"
    by (auto simp: ChangePassphrase_def split: prod.splits)
  have "d (in_dir dir PlainFile) = None"
    using l by (auto simp: load_form_def Detect_calm [OF assms(4)] split: if_splits)
  moreover have "d' (in_dir dir PlainFile) = d (in_dir dir PlainFile)"
    by (rule WriteEncrypted_frame [OF w]) simp_all
  ultimately have "d' (in_dir dir PlainFile) = None" by simp
  note load = Load_sealed [OF assms(1) WriteEncrypted_Ok(2) [OF w] this assms(5) i trim_space_idem]
  show ?thesis
    using load(1) [OF WriteEncrypted_Ok(1) [OF w]] load(2) load_form_wiped [of A P w dir old d] l q o
    by (simp add: wiped_def)
qed

text \<open>A wrong passphrase changes nothing and both passphrases are wiped.\<close>

lemma ChangePassphrase_wrong:
  assumes "pass_laws P" and "sealed P d (in_dir dir EncryptedFile) p x" and "old \<noteq> p" and "id_calm w"
    and "d (in_dir dir PlainFile) = None"
  shows "ChangePassphrase A P w dir (Some old) next_pass d
    = (Er (Sentinel (IdentityS IdErrWrongPassphrase)), (Some (zeroed old), zeroed next_pass), d)"
proof -
  have e: "d (in_dir dir EncryptedFile) \<noteq> None" using assms(2) by (auto simp: sealed_def)
  have o: "idOpen w (in_dir dir EncryptedFile) = None" using assms(4) by (simp add: id_calm_def)
  have "load_form A P w dir FormEncrypted (Some old) d = Load A P w dir (Some old) d"
    using e assms(5) by (simp add: load_form_def Detect_calm [OF assms(4)])
  also have "\<dots> = (Er (Sentinel (IdentityS IdErrWrongPassphrase)), Some (zeroed old))"
    by (simp only: Load_calm(1) [OF assms(4) e assms(5)] LoadFile_sealed(2) [OF assms(1,2) o assms(3)])
  finally show ?thesis by (simp add: ChangePassphrase_def)
qed

lemma Write_file_frame:
  assumes "Write_file A w path i v d = (r, d')"
    and "q \<noteq> path" and "q \<noteq> bak_name path" and "\<And>rnd. q \<noteq> tmp_name path rnd"
  shows "d' q = d q"
  using assms(1) Write_frame [OF _ assms(2-4)]
  by (auto simp: Write_file_def split: outcome.splits prod.splits)

text \<open>After \<open>Init\<close> the identity loads with the passphrase given, and opens an empty vault.\<close>

lemma Init_Ok:
  assumes "age_laws A" and "key_text A" and "pass_laws P"
    and "Init A P w dir pass d = (Ok u, q, d')" and "id_calm w" and "id_calm w'" and "ioOpen v = None"
  shows "\<exists>i. Load A P w' dir pass d' = (Ok (ageString A i), wiped pass) \<and> q = wiped pass
    \<and> Read_file A v (in_dir dir VaultName) i d' = Ok New_vault"
proof -
  let ?E = "in_dir dir EncryptedFile" and ?T = "in_dir dir PlainFile" and ?V = "in_dir dir VaultName"
  from assms(4) have none: "d ?E = None" "d ?T = None"
    by (auto simp: Init_def Detect_calm [OF assms(5)] Let_def split: option.splits if_splits)
  from assms(4) obtain x where "Generate A P (idRandom w) = Ok x"
    by (auto simp: Init_def Let_def split: option.splits if_splits outcome.splits)
  then obtain i where g: "Generate A P (idRandom w) = Ok (ageString A i)"
    by (auto simp: Generate_def split: outcome.splits)
  note parse = Parse_string [OF assms(1,2)] and text_i = assms(2) [unfolded key_text_def, rule_format]
  from assms(4) g parse obtain u1 d1 where
    w: "(case pass of None \<Rightarrow> WritePlain w ?T (ageString A i) d
       | Some p \<Rightarrow> WriteEncrypted P w ?E (ageString A i) p d) = (Ok u1, d1)"
    and v: "Write_file A (idVault w) ?V i New_vault d1 = (Ok u, d')" and q: "q = wiped pass"
    by (auto simp: Init_def Let_def split: option.splits if_splits outcome.splits prod.splits)
  have frame: "d' ?E = d1 ?E" "d' ?T = d1 ?T"
    by (rule Write_file_frame [OF v]; simp)+
  have "Load A P w' dir pass d' = (Ok (ageString A i), wiped pass)"
  proof (cases pass)
    case None
    with w have wp: "WritePlain w ?T (ageString A i) d = (Ok u1, d1)" by simp
    have "d1 ?E = d ?E" by (rule WritePlain_frame [OF wp]) simp_all
    with none frame have e: "d' ?E = None" by simp
    from WritePlain_Ok [OF wp] frame obtain f where f: "d' ?T = Some f" "fData f = trim_space (ageString A i) @ [LF]"
      by auto
    from f have "d' ?T \<noteq> None" by simp
    note l = Load_calm(2) [OF assms(6) e this]
    have "idOpen w' ?T = None" using assms(6) by (simp add: id_calm_def)
    note lf = LoadFile_plain [where d = d' and dir = dir and w = w', OF f(1) this]
    have "validate_key A (fData f) = Ok (ageString A i)"
      using parse [of i] text_i [of i] trim_space_LF [of "ageString A i"] by (simp add: f validate_key_Ok)
    then show ?thesis using l [of A P pass] lf [of A P pass] None by (simp add: wiped_def)
  next
    case (Some p)
    with w have we: "WriteEncrypted P w ?E (ageString A i) p d = (Ok u1, d1)" by simp
    have "d1 ?T = d ?T" by (rule WriteEncrypted_frame [OF we]) simp_all
    with none frame have t: "d' ?T = None" by simp
    from WriteEncrypted_Ok [OF we] have s: "sealed P d' ?E p (ageString A i)" and p: "p \<noteq> []"
      by (simp_all add: sealed_def frame)
    from Load_sealed(1) [OF assms(3) s t assms(6) parse text_i p] Some show ?thesis
      by (simp add: wiped_def)
  qed
  moreover have "Read_file A v ?V i d' = Ok New_vault"
  proof -
    have "vault_ok New_vault" "vVersion New_vault \<le> Version" "norm_vault New_vault = New_vault"
      by (simp_all add: vault_ok_def New_vault_def norm_vault_def)
    with Read_after_Write [OF assms(1) _ _ assms(7) v] show ?thesis by simp
  qed
  ultimately show ?thesis using q by blast
qed

end
