(* ===== verification/SecretCommands.thy ===== *)
theory SecretCommands
  imports Credentials
begin

text \<open>
  cmd/keycell/secrets.go and transfer.go: the commands that store, print, delete and list secrets, and
  export and import. A command is a function of its parsed arguments and flags, of what the terminal
  delivers, and of the client. Standard error is the text written, without the line feed that
  \<open>run\<close> adds after the last message.
\<close>

section \<open>The terminal\<close>

text \<open>
  \<open>ceStdin\<close> is what \<open>io.ReadAll\<close> gives on standard input, \<open>cePrompt n\<close> the answer to the \<open>n\<close>-th prompt,
  \<open>ceReadFile\<close> is \<open>os.ReadFile\<close>, \<open>ceLocal\<close> prints a time in the local zone as \<open>2006-01-02 15:04\<close>.
\<close>

record cmd_env =
  ceInTerminal :: bool
  ceOutTerminal :: bool
  ceStdin :: "bytes res"
  cePrompt :: "nat \<Rightarrow> bytes \<Rightarrow> bytes res"
  ceReadFile :: "bytes \<Rightarrow> bytes res"
  ceLocal :: "gotime \<Rightarrow> bytes"

record 'st control =
  ctStatus :: "'st \<Rightarrow> cstatus res"
  ctUnlock :: "bytes \<Rightarrow> 'st \<Rightarrow> unit res \<times> 'st"
  ctUnlockFor :: "bytes \<Rightarrow> int \<Rightarrow> 'st \<Rightarrow> unit res \<times> 'st"
  ctLock :: "'st \<Rightarrow> unit res \<times> 'st"

definition panic_exit :: cmd_out where "panic_exit = exit_with [] 2"

definition with_LF :: "bytes \<Rightarrow> bytes" where "with_LF t = t @ [LF]"

section \<open>Arguments\<close>

definition oneArg :: "bytes \<Rightarrow> bytes list \<Rightarrow> (cmd_out, bytes) outcome" where
  "oneArg name args =
     (if length args \<noteq> 1 then Er (exit_with (lit (''keycell: '' @ name @ '' takes exactly one name'')) 2)
      else Ok (hd args))"

fun parse_attrs ::
  "bytes list \<Rightarrow> (bytes, bytes) gomap \<Rightarrow> (cmd_out, (bytes, bytes) gomap) outcome" where
  "parse_attrs [] attrs = Ok attrs"
| "parse_attrs (p # ps) attrs =
     (case cut_at (CHR ''='') p of
        None \<Rightarrow> Er (exit_with (lit ''keycell: --attr '' @ [Q p] @ lit '': expected key=value'') 2)
      | Some (k, v) \<Rightarrow>
          if map_of attrs k \<noteq> None
          then Er (exit_with (lit ''keycell: --attr '' @ [Q p] @ lit '': key given twice'') 2)
          else parse_attrs ps (AList.update k v attrs))"

definition parseAttrs :: "bytes list \<Rightarrow> (cmd_out, (bytes, bytes) gomap) outcome" where
  "parseAttrs pairs = parse_attrs pairs []"

definition formatAttrs :: "(bytes, bytes) gomap \<Rightarrow> bytes" where
  "formatAttrs attrs = join_with '','' (map (\<lambda>(k, v). k @ ''='' @ v) (sort_key fst attrs))"

definition promptError :: "goerr \<Rightarrow> cmd_out" where
  "promptError e = exit_with (lit ''keycell: '' @ err_msg e) 1"

section \<open>JSON output\<close>

text \<open>\<open>json.Encoder\<close> with an indentation of two spaces.\<close>

definition json_break :: "nat \<Rightarrow> bytes" where
  "json_break n = LF # replicate (2 * n) (CHR '' '')"

fun print_indent :: "nat \<Rightarrow> json \<Rightarrow> bytes" where
  "print_indent n (JArr js) =
     (if js = [] then ''[]''
      else ''['' @ join_with '','' (map (\<lambda>j. json_break (Suc n) @ print_indent (Suc n) j) js)
        @ json_break n @ '']'')"
| "print_indent n (JObj ms) =
     (if ms = [] then ''{}''
      else ''{'' @ join_with '',''
          (map (\<lambda>(k, j). json_break (Suc n) @ DQ # k @ [DQ] @ '': '' @ print_indent (Suc n) j) ms)
        @ json_break n @ ''}'')"
| "print_indent n j = print_json j"

definition toJSON :: "dsecret \<Rightarrow> json" where
  "toJSON s = JObj
     (fld ''name'' (enc_string (dName s))
      @ fld ''kind'' (enc_string (dKind s))
      @ fld ''attributes'' (enc_strmap (dAttributes s))
      @ fld ''created'' (enc_time (UTC (dCreated s)))
      @ fld ''updated'' (enc_time (UTC (dUpdated s))))"

definition json_times_ok :: "dsecret \<Rightarrow> bool" where
  "json_times_ok s \<longleftrightarrow> time_ok (UTC (dCreated s)) \<and> time_ok (UTC (dUpdated s))"

definition writeJSON :: "bool \<Rightarrow> json \<Rightarrow> cmd_out" where
  "writeJSON encodes j =
     (if encodes then success (print_indent 0 j @ [LF])
      else exit_with (lit ''keycell: '' @ [F JsonText]) 1)"

section \<open>store, get, delete, list\<close>

text \<open>What \<open>store\<close> asks the daemon before it reads the value; \<open>None\<close> lets it go on.\<close>

definition store_check ::
  "'st client \<Rightarrow> 'st control \<Rightarrow> cmd_env \<Rightarrow> bytes \<Rightarrow> bool \<Rightarrow> 'st \<Rightarrow> cmd_out option" where
  "store_check c k ce name noOverwrite st =
     (if noOverwrite then
        (case clList c \<lparr> fKind = [], fPrefix = name, fAttributes = [] \<rparr> st of
           Er e \<Rightarrow> Some (exitError e)
         | Panic \<Rightarrow> Some panic_exit
         | Ok secs \<Rightarrow>
             if list_ex (\<lambda>s. dName s = name) secs
             then Some (exit_with (lit (''keycell: store: '' @ name @ '' already exists'')) 1) else None)
      else if ceInTerminal ce then
        (case ctStatus k st of
           Er e \<Rightarrow> Some (exitError e)
         | Panic \<Rightarrow> Some panic_exit
         | Ok s \<Rightarrow> if csLocked s then Some (exitError (Sentinel (ClientS CErrLocked))) else None)
      else None)"

definition store_value :: "cmd_env \<Rightarrow> bytes \<Rightarrow> (cmd_out, bytes) outcome" where
  "store_value ce name =
     (if ceInTerminal ce then
        (case cePrompt ce 0 (''Value for '' @ name @ '': '') of
           Er e \<Rightarrow> Er (promptError e) | Panic \<Rightarrow> Panic | Ok b \<Rightarrow> Ok b)
      else
        (case ceStdin ce of
           Er e \<Rightarrow> Er (exit_with (lit ''keycell: store: read stdin: '' @ err_msg e) 1)
         | Panic \<Rightarrow> Panic
         | Ok b \<Rightarrow> Ok (if b \<noteq> [] \<and> last b = LF then butlast b else b)))"

definition store_cmd ::
  "'st client \<Rightarrow> 'st control \<Rightarrow> cmd_env \<Rightarrow> bytes list \<Rightarrow> bytes \<Rightarrow> bytes list \<Rightarrow> bool \<Rightarrow> 'st \<Rightarrow> cmd_out \<times> 'st"
where
  "store_cmd c k ce args kind attr_flags noOverwrite st =
     (case oneArg ''store'' args of Er out \<Rightarrow> (out, st) | Panic \<Rightarrow> (panic_exit, st) | Ok name \<Rightarrow>
      case parseAttrs attr_flags of Er out \<Rightarrow> (out, st) | Panic \<Rightarrow> (panic_exit, st) | Ok attrs \<Rightarrow>
      case clConnect c st of Er e \<Rightarrow> (exitError e, st) | Panic \<Rightarrow> (panic_exit, st) | Ok _ \<Rightarrow>
      case store_check c k ce name noOverwrite st of Some out \<Rightarrow> (out, st) | None \<Rightarrow>
      case store_value ce name of Er out \<Rightarrow> (out, st) | Panic \<Rightarrow> (panic_exit, st) | Ok buf \<Rightarrow>
      if buf = [] then (exit_with (lit ''keycell: store: empty value'') 1, st)
      else case clStore c \<lparr> dName = name, dKind = kind, dAttributes = attrs, dValue = Some buf,
                  dCreated = zero_time, dUpdated = zero_time \<rparr> st of
             (Ok _, st') \<Rightarrow> (success [], st')
           | (Er e, st') \<Rightarrow> (exitError e, st')
           | (Panic, st') \<Rightarrow> (panic_exit, st'))"

definition get_cmd ::
  "'st client \<Rightarrow> cmd_env \<Rightarrow> bytes list \<Rightarrow> bytes option \<Rightarrow> bool \<Rightarrow> 'st \<Rightarrow> cmd_out" where
  "get_cmd c ce args attr json_flag st =
     (case oneArg ''get'' args of Er out \<Rightarrow> out | Panic \<Rightarrow> panic_exit | Ok name \<Rightarrow>
      if attr \<noteq> None \<and> json_flag
      then exit_with (lit ''keycell: get: --attr and --json are mutually exclusive'') 2
      else case clConnect c st of Er e \<Rightarrow> exitError e | Panic \<Rightarrow> panic_exit | Ok _ \<Rightarrow>
      case clGet c name st of Er e \<Rightarrow> exitError e | Panic \<Rightarrow> panic_exit | Ok s \<Rightarrow>
      case attr of
        Some key \<Rightarrow>
          (case map_of (dAttributes s) key of
             None \<Rightarrow> exit_with (lit ''keycell: get: attribute '' @ [Q key] @ lit '' not set'') 1
           | Some val \<Rightarrow> success (with_LF val))
      | None \<Rightarrow>
          if json_flag then writeJSON (json_times_ok s) (toJSON s)
          else (let b = val_bytes (dValue s) in
                success (b @ (if ceOutTerminal ce \<and> \<not> (b \<noteq> [] \<and> last b = LF) then [LF] else []))))"

text \<open>The loop over the names; \<open>errs\<close> is what has been written to standard error.\<close>

fun delete_loop :: "'st client \<Rightarrow> bytes list \<Rightarrow> msg \<Rightarrow> bool \<Rightarrow> 'st \<Rightarrow> cmd_out \<times> 'st" where
  "delete_loop c [] errs missing st =
     (\<lparr> outText = [], outErr = errs, outCode = (if missing then 1 else 0) \<rparr>, st)"
| "delete_loop c (name # names) errs missing st =
     (case clDelete c name st of
        (Ok _, st') \<Rightarrow> delete_loop c names errs missing st'
      | (Panic, st') \<Rightarrow> (panic_exit, st')
      | (Er e, st') \<Rightarrow>
          if errors_is e (ClientS CErrNotFound) then
            delete_loop c names (errs @ lit (with_LF (''keycell: delete: not found: '' @ name))) True st'
          else ((exitError e)\<lparr>outErr := errs @ outErr (exitError e)\<rparr>, st'))"

definition delete_cmd :: "'st client \<Rightarrow> bytes list \<Rightarrow> 'st \<Rightarrow> cmd_out \<times> 'st" where
  "delete_cmd c args st =
     (if args = [] then (exit_with (lit ''keycell: delete needs at least one name'') 2, st)
      else case clConnect c st of Er e \<Rightarrow> (exitError e, st) | Panic \<Rightarrow> (panic_exit, st)
           | Ok _ \<Rightarrow> delete_loop c args [] False st)"

text \<open>
  The table of \<open>list --long\<close>: \<open>text/tabwriter\<close> pads every column but the last to its widest cell and two
  spaces, counting runes.
\<close>

definition cell_width :: "bytes \<Rightarrow> nat" where
  "cell_width s = length (runes s)"

definition pad_to :: "nat \<Rightarrow> bytes \<Rightarrow> bytes" where
  "pad_to n s = s @ replicate (n - cell_width s) (CHR '' '')"

definition column_width :: "nat \<Rightarrow> bytes list list \<Rightarrow> nat" where
  "column_width j rows = foldr max (map (\<lambda>r. cell_width (r ! j)) rows) 0 + 2"

definition tab_row :: "bytes list list \<Rightarrow> bytes list \<Rightarrow> bytes" where
  "tab_row rows r = concat (map (\<lambda>j. pad_to (column_width j rows) (r ! j)) [0 ..< length r - 1]) @ with_LF (last r)"

definition long_rows :: "cmd_env \<Rightarrow> dsecret list \<Rightarrow> bytes list list" where
  "long_rows ce secs =
     [''NAME'', ''KIND'', ''UPDATED'', ''ATTRIBUTES'']
     # map (\<lambda>s. [dName s, dKind s, ceLocal ce (dUpdated s), formatAttrs (dAttributes s)]) secs"

definition list_cmd ::
  "'st client \<Rightarrow> cmd_env \<Rightarrow> bytes list \<Rightarrow> bytes \<Rightarrow> bytes \<Rightarrow> bytes list \<Rightarrow> bool \<Rightarrow> bool \<Rightarrow> 'st \<Rightarrow> cmd_out"
where
  "list_cmd c ce args kind pre attr_flags long json_flag st =
     (case noArgs ''list'' args of Some out \<Rightarrow> out | None \<Rightarrow>
      if long \<and> json_flag then exit_with (lit ''keycell: list: --long and --json are mutually exclusive'') 2
      else case parseAttrs attr_flags of Er out \<Rightarrow> out | Panic \<Rightarrow> panic_exit | Ok attrs \<Rightarrow>
      case clConnect c st of Er e \<Rightarrow> exitError e | Panic \<Rightarrow> panic_exit | Ok _ \<Rightarrow>
      case clList c \<lparr> fKind = kind, fPrefix = pre, fAttributes = attrs \<rparr> st of
        Er e \<Rightarrow> exitError e
      | Panic \<Rightarrow> panic_exit
      | Ok secs \<Rightarrow>
          if json_flag then writeJSON (list_all json_times_ok secs) (JArr (map toJSON secs))
          else if long then
            (if secs = [] then success []
             else success (concat (map (tab_row (long_rows ce secs)) (long_rows ce secs))))
          else success (concat (map (\<lambda>s. with_LF (dName s)) secs)))"

section \<open>export and import\<close>

definition any_filter :: sfilter where
  "any_filter = \<lparr> fKind = [], fPrefix = [], fAttributes = [] \<rparr>"

fun export_loop :: "'st client \<Rightarrow> 'st \<Rightarrow> dsecret list \<Rightarrow> vault \<Rightarrow> (cmd_out, vault) outcome" where
  "export_loop c st [] v = Ok v"
| "export_loop c st (s # ss) v =
     (case clGet c (dName s) st of
        Er e \<Rightarrow> Er (exitError e)
      | Panic \<Rightarrow> Panic
      | Ok full \<Rightarrow>
          export_loop c st ss (v\<lparr>vSecrets := AList.update (dName s)
            (Some \<lparr> vKind = dKind full, vValue = dValue full,
               vAttributes = dAttributes full, vCreated = dCreated full, vUpdated = dUpdated full \<rparr>)
            (vSecrets v)\<rparr>))"

definition export_cmd :: "'st client \<Rightarrow> bytes list \<Rightarrow> 'st \<Rightarrow> cmd_out" where
  "export_cmd c args st =
     (case noArgs ''export'' args of Some out \<Rightarrow> out | None \<Rightarrow>
      case clConnect c st of Er e \<Rightarrow> exitError e | Panic \<Rightarrow> panic_exit | Ok _ \<Rightarrow>
      case clList c any_filter st of Er e \<Rightarrow> exitError e | Panic \<Rightarrow> panic_exit | Ok secs \<Rightarrow>
      case export_loop c st secs New_vault of Er out \<Rightarrow> out | Panic \<Rightarrow> panic_exit | Ok v \<Rightarrow>
      case Encode v of
        Er e \<Rightarrow> exit_with (lit ''keycell: export: '' @ err_msg e) 1
      | Panic \<Rightarrow> panic_exit
      | Ok out \<Rightarrow> success (with_LF out))"

text \<open>\<open>path\<close> is the first argument, empty when there is none.\<close>

definition readImport :: "cmd_env \<Rightarrow> bytes \<Rightarrow> (cmd_out, bytes) outcome" where
  "readImport ce path =
     (if path = [] then
        if ceInTerminal ce
        then Er (exit_with (lit ''keycell: import: no file given and stdin is a terminal'') 2)
        else (case ceStdin ce of
                Er e \<Rightarrow> Er (exit_with (lit ''keycell: import: read stdin: '' @ err_msg e) 1)
              | Panic \<Rightarrow> Panic
              | Ok b \<Rightarrow> Ok b)
      else (case ceReadFile ce path of
              Er e \<Rightarrow> Er (exit_with (lit ''keycell: import: '' @ err_msg e) 1)
            | Panic \<Rightarrow> Panic
            | Ok b \<Rightarrow> Ok b))"

text \<open>The loop over the sorted names. Reading a nil secret panics.\<close>

fun import_loop ::
  "'st client \<Rightarrow> bytes list \<Rightarrow> (bytes \<times> vsecret option) list \<Rightarrow> msg \<Rightarrow> 'st \<Rightarrow> cmd_out \<times> 'st" where
  "import_loop c skip [] errs st = (\<lparr> outText = [], outErr = errs, outCode = 0 \<rparr>, st)"
| "import_loop c skip ((name, p) # es) errs st =
     (if name \<in> set skip then
        import_loop c skip es
          (errs @ lit (with_LF (''keycell: import: skipped, already exists: '' @ name))) st
      else case p of
             None \<Rightarrow> (panic_exit, st)
           | Some s \<Rightarrow>
               (case clStore c \<lparr> dName = name, dKind = vKind s, dAttributes = vAttributes s,
                       dValue = vValue s, dCreated = zero_time, dUpdated = zero_time \<rparr> st of
                  (Ok _, st') \<Rightarrow> import_loop c skip es errs st'
                | (Panic, st') \<Rightarrow> (panic_exit, st')
                | (Er e, st') \<Rightarrow>
                    if errors_is e (ClientS CErrLocked) \<or> errors_is e (ClientS CErrNotRunning)
                    then ((exitError e)\<lparr>outErr := errs @ outErr (exitError e)\<rparr>, st')
                    else (exit_with (errs @ lit (''keycell: import: '' @ name @ '': '') @ errorMessage e) 1, st')))"

text \<open>The deferred \<open>vault.Wipe\<close> panics on a nil secret, whatever the result was.\<close>

definition wipe_at_exit :: "vault \<Rightarrow> cmd_out \<times> 'st \<Rightarrow> cmd_out \<times> 'st" where
  "wipe_at_exit v r = (case Wipe (Some v) None of Panic \<Rightarrow> (panic_exit, snd r) | _ \<Rightarrow> r)"

definition import_cmd ::
  "'st client \<Rightarrow> cmd_env \<Rightarrow> bytes list \<Rightarrow> bool \<Rightarrow> 'st \<Rightarrow> cmd_out \<times> 'st" where
  "import_cmd c ce args noOverwrite st =
     (if length args > 1 then (exit_with (lit ''keycell: import takes at most one file'') 2, st)
      else case readImport ce (if args = [] then [] else hd args) of
        Er out \<Rightarrow> (out, st) | Panic \<Rightarrow> (panic_exit, st) | Ok inp \<Rightarrow>
      case Decode inp of
        Er e \<Rightarrow>
          (exit_with (lit (''keycell: import: '' @ (if errors_is e (VaultS ErrVersion) then []
             else ''invalid document: '')) @ err_msg e) 1, st)
      | Panic \<Rightarrow> (panic_exit, st)
      | Ok v \<Rightarrow> wipe_at_exit v
          (case clConnect c st of Er e \<Rightarrow> (exitError e, st) | Panic \<Rightarrow> (panic_exit, st) | Ok _ \<Rightarrow>
           case (if noOverwrite then clList c any_filter st else Ok []) of
             Er e \<Rightarrow> (exitError e, st)
           | Panic \<Rightarrow> (panic_exit, st)
           | Ok existing \<Rightarrow> import_loop c (map dName existing) (sort_key fst (vSecrets v)) [] st))"

section \<open>Arguments and output\<close>

lemma not_success_cmd [simp]:
  "exitError e \<noteq> success t" "exit_with m (Suc n) \<noteq> success t" "panic_exit \<noteq> success t" "promptError e \<noteq> success t"
  by (simp_all add: exitError_def exit_with_def success_def panic_exit_def promptError_def split: option.split)

lemma not_success_bit1 [simp]:
  "exit_with m (numeral k) \<noteq> success t" "exit_with m 1 \<noteq> success t"
  by (simp_all add: exit_with_def success_def)

lemma oneArg_Ok: "oneArg name args = Ok a \<longleftrightarrow> args = [a]"
  by (cases args; cases "tl args") (auto simp: oneArg_def)

lemma parse_attrs_ok: "parse_attrs ps attrs = Ok m \<Longrightarrow> gomap_ok attrs \<Longrightarrow> gomap_ok m"
  by (induction ps attrs rule: parse_attrs.induct) (auto split: option.splits if_splits)

text \<open>The pairs are split at the first equals sign, no key comes twice, and each is looked up.\<close>

lemma parse_attrs_lookup:
  "parse_attrs ps attrs = Ok m \<Longrightarrow>
     \<exists>kvs. ps = map (\<lambda>(k, v). k @ ''='' @ v) kvs \<and> distinct (map fst kvs)
       \<and> (\<forall>(k, v) \<in> set kvs. map_of attrs k = None \<and> CHR ''='' \<notin> set k)
       \<and> map_of m = map_of attrs ++ map_of kvs"
proof (induction ps attrs rule: parse_attrs.induct)
  case (1 attrs)
  then show ?case by (intro exI [of _ "[]"]) simp
next
  case (2 p ps attrs)
  from "2.prems" obtain k v where c: "cut_at (CHR ''='') p = Some (k, v)" by (auto split: option.splits)
  with "2.prems" have n: "map_of attrs k = None" and m: "parse_attrs ps (AList.update k v attrs) = Ok m"
    by (auto split: if_splits)
  from "2.IH" [OF c refl _ m] n obtain kvs where kvs: "ps = map (\<lambda>(k, v). k @ ''='' @ v) kvs"
    "distinct (map fst kvs)"
    "\<forall>(k', v') \<in> set kvs. map_of (AList.update k v attrs) k' = None \<and> CHR ''='' \<notin> set k'"
    "map_of m = map_of (AList.update k v attrs) ++ map_of kvs" by auto
  from c have p: "p = k @ ''='' @ v" "CHR ''='' \<notin> set k" by (auto simp: cut_at_Some_iff)
  have k: "k \<notin> fst ` set kvs" using kvs(3) by (auto simp: update_conv')
  then have "map_of kvs k = None" by (simp add: map_of_eq_None_iff)
  then have eq: "map_of (AList.update k v attrs) ++ map_of kvs = map_of attrs ++ map_of ((k, v) # kvs)"
    by (auto simp: fun_eq_iff update_conv' map_add_def split: option.split)
  have "map_of attrs k' = None" if "(k', v') \<in> set kvs" for k' v'
    using kvs(3) that by (auto simp: update_conv' split: if_splits)
  then show ?case using kvs(1-3) p n k
    by (intro exI [of _ "(k, v) # kvs"] conjI) (auto simp only: kvs(4) eq, auto)
qed

section \<open>The commands on a live daemon\<close>

lemma store_cmd_success:
  assumes "store_cmd c k ce args kind attr_flags noOverwrite st = (success [], st')"
  obtains name attrs buf where "args = [name]" and "parseAttrs attr_flags = Ok attrs"
    and "store_value ce name = Ok buf" and "buf \<noteq> []"
    and "clStore c \<lparr> dName = name, dKind = kind, dAttributes = attrs, dValue = Some buf,
          dCreated = zero_time, dUpdated = zero_time \<rparr> st = (Ok (), st')"
    and "clConnect c st = Ok ()" and "store_check c k ce name noOverwrite st = None"
proof -
  have nc: "store_check c k ce name noOverwrite st \<noteq> Some (success [])" for name
    by (auto simp: store_check_def split: outcome.splits if_splits)
  have nv: "store_value ce name \<noteq> Er (success [])" "oneArg ''store'' args \<noteq> Er (success [])" for name
    by (auto simp: store_value_def oneArg_def split: outcome.splits if_splits)
  have na: "parse_attrs ps m \<noteq> Er (success [])" for ps m
    by (induction ps m rule: parse_attrs.induct) (auto split: option.splits)
  show thesis
    using assms nc nv na that
    by (auto simp: store_cmd_def oneArg_Ok parseAttrs_def split: outcome.splits option.splits if_splits prod.splits)
qed

context secret_client
begin

lemma store_then_get_cmd:
  assumes "live st" and "store_cmd c k ce args kind attr_flags noOverwrite st = (success [], st')"
    and "clConnect c st' = Ok ()"
  shows "\<exists>name buf. args = [name] \<and> store_value ce name = Ok buf
    \<and> get_cmd c ce' args None False st'
      = success (buf @ (if ceOutTerminal ce' \<and> last buf \<noteq> LF then [LF] else []))"
proof -
  from store_cmd_success [OF assms(2)] obtain name attrs buf where a: "args = [name]"
    "parseAttrs attr_flags = Ok attrs" "store_value ce name = Ok buf" "buf \<noteq> []"
    and s: "clStore c \<lparr> dName = name, dKind = kind, dAttributes = attrs, dValue = Some buf,
          dCreated = zero_time, dUpdated = zero_time \<rparr> st = (Ok (), st')" by metis
  have "gomap_ok attrs" using a(2) parse_attrs_ok by (auto simp: parseAttrs_def)
  with get_stored [OF assms(1) _ s] obtain y where "clGet c name st' = Ok y" "dValue y = Some buf" by auto
  then show ?thesis using a assms(3) by (simp add: get_cmd_def oneArg_def val_bytes_def)
qed

lemma delete_loop_gone:
  "live st \<Longrightarrow> delete_loop c names errs missing st = (out, st') \<Longrightarrow> outCode out = 0 \<Longrightarrow>
   live st' \<and> \<not> missing \<and> tab st' = (\<lambda>n. if n \<in> set names then None else tab st n)"
proof (induction names arbitrary: errs missing st)
  case (Cons name names)
  obtain r st1 where d: "clDelete c name st = (r, st1)" by (cases "clDelete c name st")
  show ?case
  proof (cases r)
    case (Ok u)
    with d delete_live [OF Cons.prems(1)] have l: "live st1" "tab st1 = (tab st)(name := None)" by auto
    from Cons.prems(2) d Ok have "delete_loop c names errs missing st1 = (out, st')" by simp
    from Cons.IH [OF l(1) this Cons.prems(3)] l(2) show ?thesis by (auto simp: fun_eq_iff)
  next
    case (Er e)
    have m: "delete_loop c ns es True s = (out, st') \<Longrightarrow> outCode out \<noteq> 0" for ns es s
      by (induction ns arbitrary: es s)
        (auto simp: panic_exit_def exit_with_def exitError_code split: prod.splits outcome.splits if_splits)
    from Cons.prems(2,3) d Er m show ?thesis
      by (auto simp: exitError_code split: if_splits)
  next
    case Panic
    with Cons.prems(2,3) d show ?thesis by (auto simp: panic_exit_def exit_with_def)
  qed
qed (auto split: if_splits)

end

section \<open>export and import\<close>

text \<open>Two entries that differ at most in their times.\<close>

fun same_secret :: "entry \<Rightarrow> entry \<Rightarrow> bool" where
  "same_secret (kind, val, attrs, created, updated) (kind', val', attrs', created', updated')
     \<longleftrightarrow> kind = kind' \<and> val = val' \<and> attrs = attrs'"

lemma Decode_line:
  assumes "vault_ok v" and "vVersion v \<le> Version" and "Encode v = Ok p"
  shows "Decode (with_LF p) = Ok (norm_vault v)"
proof -
  from assms(3) have p: "p = print_json (enc_vault v)" by (auto simp: Encode_def split: if_splits)
  note ok = enc_vault_ok [of v]
  have "list_all is_ws [LF]" by (simp add: is_ws_def)
  with ok have "parse_json (p @ [LF]) = parse_json p" by (simp add: p parse_print_ws parse_print)
  then have "Decode (with_LF p) = Decode p" unfolding Decode_def with_LF_def by (simp only:)
  then show ?thesis using Decode_Encode [OF assms(1,2)] assms(3) by auto
qed

lemma noArgs_success: "noArgs name args \<noteq> Some (success t)"
  by (simp add: noArgs_def)

context secret_client
begin

lemma export_loop_vault:
  assumes "live st" and "export_loop c st ss v = Ok v'" and "vault_ok v"
  shows "vault_ok v' \<and> vVersion v' = vVersion v
    \<and> table v' = (\<lambda>n. if n \<in> dName ` set ss then tab st n else table v n)"
  using assms(2,3)
proof (induction ss arbitrary: v)
  case (Cons s ss)
  from Cons.prems(1) obtain full where g: "clGet c (dName s) st = Ok full"
    by (auto split: outcome.splits)
  let ?s = "\<lparr> vKind = dKind full, vValue = dValue full, vAttributes = dAttributes full,
    vCreated = dCreated full, vUpdated = dUpdated full \<rparr>"
  let ?v = "v\<lparr>vSecrets := AList.update (dName s) (Some ?s) (vSecrets v)\<rparr>"
  from get_valid [OF assms(1) g] have t: "utf8_valid (dName s)" "tab st (dName s) = Some (view ?s)"
    and ok: "vsecret_ok ?s"
    by (simp_all add: text_ok_def out_view_def view_def dsecret_ok_def)
  have "vault_ok ?v" by (rule vault_ok_update [OF Cons.prems(2) t(1) ok])
  moreover from Cons.prems(1) g have "export_loop c st ss ?v = Ok v'" by simp
  ultimately have "vault_ok v' \<and> vVersion v' = vVersion ?v
    \<and> table v' = (\<lambda>n. if n \<in> dName ` set ss then tab st n else table ?v n)"
    by (intro Cons.IH)
  then show ?case using t(2) by (auto simp: table_update fun_eq_iff)
qed simp

lemma selects_any: "selects any_filter n e"
  by (cases e) (simp add: selects_def any_filter_def)

text \<open>What \<open>export\<close> prints is the JSON form of a vault with the secrets of the daemon.\<close>

lemma export_cmd_success:
  assumes "live st" and "export_cmd c args st = success t"
  shows "\<exists>v p. Encode v = Ok p \<and> t = with_LF p \<and> vault_ok v \<and> vVersion v = Version \<and> table v = tab st"
proof -
  have nl: "export_loop c st ss v \<noteq> Er (success t)" for ss v
    by (induction ss arbitrary: v) (auto split: outcome.splits)
  from assms(2) nl obtain secs v p where l: "clList c any_filter st = Ok secs"
    and x: "export_loop c st secs New_vault = Ok v" and e: "Encode v = Ok p" and t: "t = with_LF p"
    by (auto simp: export_cmd_def noArgs_success split: option.splits outcome.splits)
  have "vault_ok New_vault" "vVersion New_vault = Version" "table New_vault = Map.empty"
    by (simp_all add: vault_ok_def New_vault_def table_def fun_eq_iff)
  with export_loop_vault [OF assms(1) x] have v: "vault_ok v" "vVersion v = Version"
    "table v = (\<lambda>n. if n \<in> dName ` set secs then tab st n else None)" by auto
  from listsD(1) [OF list_names [OF assms(1) list_valid [OF assms(1) l] l] _ selects_any]
  have "tab st n = None" if "n \<notin> dName ` set secs" for n
    using that by (cases "tab st n") auto
  then have "table v = tab st" using v(3) by (auto simp: fun_eq_iff)
  with v e t show ?thesis by blast
qed

lemma import_loop_done:
  assumes "live st" and "import_loop c skip es errs st = (out, st')" and "outCode out = 0"
    and "distinct (map fst es)" and "\<forall>(n, p) \<in> set es. \<forall>s. p = Some s \<longrightarrow> gomap_ok (vAttributes s)"
  shows "live st' \<and> (\<forall>n. if n \<in> set skip \<or> n \<notin> fst ` set es then tab st' n = tab st n
    else \<exists>s created updated. map_of es n = Some (Some s)
      \<and> tab st' n = Some (vKind s, vValue s, map_of (vAttributes s), created, updated))"
  using assms
proof (induction es arbitrary: errs st)
  case (Cons q es)
  obtain name p where q: "q = (name, p)" by (cases q)
  have d: "distinct (map fst es)" "name \<notin> fst ` set es"
    and g: "\<forall>(n, p) \<in> set es. \<forall>s. p = Some s \<longrightarrow> gomap_ok (vAttributes s)"
    using Cons.prems(4,5) by (auto simp: q)
  show ?case
  proof (cases "name \<in> set skip")
    case True
    with Cons.prems(2) q obtain errs' where "import_loop c skip es errs' st = (out, st')" by auto
    note IH = Cons.IH [OF Cons.prems(1) this Cons.prems(3) d(1) g]
    show ?thesis
    proof (intro conjI allI)
      show "live st'" using IH by blast
      fix n
      show "if n \<in> set skip \<or> n \<notin> fst ` set (q # es) then tab st' n = tab st n
        else \<exists>s created updated. map_of (q # es) n = Some (Some s)
          \<and> tab st' n = Some (vKind s, vValue s, map_of (vAttributes s), created, updated)"
        using IH [THEN conjunct2, rule_format, of n] True by (cases "n = name") (auto simp: q split: if_splits)
    qed
  next
    case False
    from Cons.prems(2,3) q False obtain s where p: "p = Some s"
      by (cases p) (auto simp: panic_exit_def exit_with_def)
    let ?x = "\<lparr> dName = name, dKind = vKind s, dAttributes = vAttributes s, dValue = vValue s,
      dCreated = zero_time, dUpdated = zero_time \<rparr>"
    obtain r st1 where sto: "clStore c ?x st = (r, st1)" by (cases "clStore c ?x st")
    from Cons.prems(2,3) q False p sto obtain u where u: "r = Ok u"
      and rest: "import_loop c skip es errs st1 = (out, st')"
      by (cases r) (auto simp: panic_exit_def exit_with_def exitError_code split: if_splits)
    have "gomap_ok (vAttributes s)" using Cons.prems(5) by (auto simp: q p)
    then have "live st1 \<and> (\<exists>created now. tab st1 = (tab st)(name \<mapsto>
        (vKind s, vValue s, map_of (vAttributes s), created, now)))"
      using store_live [OF Cons.prems(1) _ sto [unfolded u]] by simp
    then obtain created now where l: "live st1"
      and t: "tab st1 = (tab st)(name \<mapsto> (vKind s, vValue s, map_of (vAttributes s), created, now))"
      by blast
    note IH = Cons.IH [OF l rest Cons.prems(3) d(1) g]
    show ?thesis
    proof (intro conjI allI)
      show "live st'" using IH by blast
      fix n
      show "if n \<in> set skip \<or> n \<notin> fst ` set (q # es) then tab st' n = tab st n
        else \<exists>s created updated. map_of (q # es) n = Some (Some s)
          \<and> tab st' n = Some (vKind s, vValue s, map_of (vAttributes s), created, updated)"
      proof (cases "n = name")
        case True
        from IH d(2) True t have "tab st' n = Some (vKind s, vValue s, map_of (vAttributes s), created, now)"
          by auto
        with True False show ?thesis by (simp add: q p)
      next
        case False
        with IH [THEN conjunct2, rule_format, of n] t show ?thesis by (auto simp: q split: if_splits)
      qed
    qed
  qed
qed auto

text \<open>
  A successful \<open>import\<close> leaves every secret of the document in the daemon, apart from its times; with
  \<open>--no-overwrite\<close> a name that was there keeps its secret. Nothing else changes.
\<close>

lemma import_cmd_done:
  assumes "live st" and "import_cmd c ce args noOverwrite st = (out, st')" and "outCode out = 0"
  shows "\<exists>inp v. readImport ce (if args = [] then [] else hd args) = Ok inp \<and> Decode inp = Ok v \<and> live st'
    \<and> (\<forall>n. if noOverwrite \<and> tab st n \<noteq> None \<or> table v n = None then tab st' n = tab st n
         else \<exists>e. tab st' n = Some e \<and> same_secret e (the (table v n)))"
proof -
  have nr: "readImport ce p \<noteq> Er out" for p
    using assms(3) by (auto simp: readImport_def exit_with_def split: if_splits outcome.splits)
  from assms(2,3) nr obtain inp where i: "readImport ce (if args = [] then [] else hd args) = Ok inp"
    by (auto simp: import_cmd_def panic_exit_def exit_with_def split: if_splits outcome.splits)
  from assms(2,3) i obtain v where v: "Decode inp = Ok v"
    by (auto simp: import_cmd_def panic_exit_def exit_with_def split: if_splits outcome.splits)
  have n: "no_nil v"
  proof (rule ccontr)
    assume "\<not> no_nil v"
    then have "Wipe (Some v) None = Panic" by (simp add: no_nil_def Wipe_def wipe_secrets_eq)
    with assms(2,3) i v show False
      by (simp add: import_cmd_def wipe_at_exit_def panic_exit_def exit_with_def split: if_splits)
       (auto split: if_splits)
  qed
  then have w: "wipe_at_exit v r = r" for r :: "cmd_out \<times> 'st"
    by (simp add: wipe_at_exit_def no_nil_def Wipe_def wipe_secrets_eq)
  from assms(2,3) i v obtain existing where
    ex: "(if noOverwrite then clList c any_filter st else Ok []) = Ok existing"
    and l: "import_loop c (map dName existing) (sort_key fst (vSecrets v)) [] st = (out, st')"
    by (cases "clConnect c st"; cases "if noOverwrite then clList c any_filter st else Ok []")
      (auto simp: import_cmd_def w panic_exit_def exit_with_def exitError_code split: if_splits)
  have skip: "n \<in> set (map dName existing) \<longleftrightarrow> noOverwrite \<and> tab st n \<noteq> None" for n
  proof (cases noOverwrite)
    case True
    with ex have xs: "clList c any_filter st = Ok existing" by simp
    note ls = list_names [OF assms(1) list_valid [OF assms(1) xs] xs]
    from listsD(1) [OF ls _ selects_any] listsD(2) [OF ls]
    have "n \<in> dName ` set existing \<longleftrightarrow> tab st n \<noteq> None" by (metis not_None_eq)
    then show ?thesis using True by simp
  qed (use ex in simp)
  from Decode_wf [OF v] have vo: "gomap_ok (vSecrets v)"
    and go: "\<forall>(n, p) \<in> set (vSecrets v). \<forall>s. p = Some s \<longrightarrow> gomap_ok (vAttributes s)"
    by (auto simp: vault_ok_def vsecret_ok_def split: option.splits)
  have "distinct (map fst (sort_key fst (vSecrets v)))"
    using gomap_ok_sort [OF vo] by (simp add: gomap_ok_def)
  note fin = import_loop_done [OF assms(1) l assms(3) this, unfolded map_of_sort [OF vo] set_sort, OF go]
  have d: "live st'" using fin by (rule conjunct1)
  note t = fin [THEN conjunct2, THEN spec]
  have none: "n \<notin> fst ` set (vSecrets v) \<longleftrightarrow> table v n = None" for n
    by (simp add: table_lookup(1) [OF n] map_of_eq_None_iff)
  have "if noOverwrite \<and> tab st n \<noteq> None \<or> table v n = None then tab st' n = tab st n
         else \<exists>e. tab st' n = Some e \<and> same_secret e (the (table v n))" for n
  proof (cases "noOverwrite \<and> tab st n \<noteq> None \<or> table v n = None")
    case True
    then show ?thesis using t [of n, unfolded skip none] by (simp only: if_True)
  next
    case False
    with t [of n, unfolded skip none] obtain s created updated where
      s: "map_of (vSecrets v) n = Some (Some s)"
      "tab st' n = Some (vKind s, vValue s, map_of (vAttributes s), created, updated)"
      by (simp only: if_False) blast
    then have "table v n = Some (view s)" by (simp add: table_def)
    with False s(2) show ?thesis by (simp only: if_False) (simp add: view_def)
  qed
  with i v d show ?thesis by blast
qed

end

context secret_client
begin

text \<open>Exporting one daemon and importing the document into an empty one copies every secret.\<close>

text \<open>A printed vault, imported into an empty one.\<close>

lemma import_exported:
  assumes "live st" and "tab st = Map.empty" and "import_cmd c ce args noOverwrite st = (out, st')"
    and "outCode out = 0" and "Encode v = Ok p" and "vault_ok v" and "vVersion v = Version"
    and "readImport ce (if args = [] then [] else hd args) = Ok (with_LF p)"
  shows "(tab st' n = None \<longleftrightarrow> table v n = None)
    \<and> (\<forall>e. table v n = Some e \<longrightarrow> (\<exists>e'. tab st' n = Some e' \<and> same_secret e' e))"
proof -
  have d: "Decode (with_LF p) = Ok (norm_vault v)" using Decode_line [OF assms(6) _ assms(5)] assms(7) by simp
  from import_cmd_done [OF assms(1,3,4)] obtain inp v'
    where a: "readImport ce (if args = [] then [] else hd args) = Ok inp" "Decode inp = Ok v'"
      and b: "\<forall>n. if noOverwrite \<and> tab st n \<noteq> None \<or> table v' n = None then tab st' n = tab st n
        else \<exists>e. tab st' n = Some e \<and> same_secret e (the (table v' n))" by blast
  from a assms(8) d have "v' = norm_vault v" by simp
  note b [THEN spec, of n, unfolded this]
  then have "if table v n = None then tab st' n = None
      else \<exists>e. tab st' n = Some e \<and> same_secret e (the (table v n))"
    by (simp only: table_norm [OF assms(6)] assms(2) simp_thms)
  then show ?thesis by (cases "table v n") auto
qed

lemma delete_cmd_gone:
  assumes "live st" and "delete_cmd c args st = (out, st')" and "outCode out = 0"
  shows "live st' \<and> tab st' = (\<lambda>n. if n \<in> set args then None else tab st n)"
proof -
  from assms(2,3) have "delete_loop c args [] False st = (out, st')"
    by (cases "clConnect c st") (auto simp: delete_cmd_def exitError_code panic_exit_def exit_with_def split: if_splits)
  from delete_loop_gone [OF assms(1) this assms(3)] show ?thesis by blast
qed

end

end
