(* ===== verification/GoPath.thy ===== *)
theory GoPath
  imports Prelude
begin

text \<open>
  The lexical part of path/filepath on Unix: \<open>IsAbs\<close>, \<open>Clean\<close> and \<open>Join\<close>. A path is cleaned as the
  list of its elements: empty elements and dots go, and a double dot takes the element before it away.
\<close>

section \<open>Definitions\<close>

definition is_abs :: "bytes \<Rightarrow> bool" where
  "is_abs p \<longleftrightarrow> p \<noteq> [] \<and> hd p = CHR ''/''"

definition path_elems :: "bytes \<Rightarrow> bytes list" where
  "path_elems p = filter (\<lambda>e. e \<noteq> [] \<and> e \<noteq> ''.'') (split_by (CHR ''/'') p)"

text \<open>The elements so far, the last one first.\<close>

definition push_elem :: "bool \<Rightarrow> bytes list \<Rightarrow> bytes \<Rightarrow> bytes list" where
  "push_elem rooted es e =
     (if e = ''..'' then
        (if es \<noteq> [] \<and> hd es \<noteq> ''..'' then tl es else if rooted then es else e # es)
      else e # es)"

definition clean_elems :: "bool \<Rightarrow> bytes list \<Rightarrow> bytes list" where
  "clean_elems rooted es = rev (foldl (push_elem rooted) [] es)"

definition path_text :: "bool \<Rightarrow> bytes list \<Rightarrow> bytes" where
  "path_text rooted es =
     (if rooted then ''/'' @ join_with ''/'' es
      else if es = [] then ''.'' else join_with ''/'' es)"

definition path_clean :: "bytes \<Rightarrow> bytes" where
  "path_clean p = path_text (is_abs p) (clean_elems (is_abs p) (path_elems p))"

definition path_join :: "bytes list \<Rightarrow> bytes" where
  "path_join es =
     (case dropWhile (\<lambda>e. e = []) es of [] \<Rightarrow> [] | es' \<Rightarrow> path_clean (join_with ''/'' es'))"

section \<open>Clean paths\<close>

text \<open>The element lists that cleaning leaves alone.\<close>

definition elems_ok :: "bool \<Rightarrow> bytes list \<Rightarrow> bool" where
  "elems_ok rooted es \<longleftrightarrow>
     (\<forall>e \<in> set es. e \<noteq> [] \<and> e \<noteq> ''.'' \<and> CHR ''/'' \<notin> set e \<and> (rooted \<longrightarrow> e \<noteq> ''..''))
     \<and> list_all (\<lambda>e. e \<noteq> ''..'') (dropWhile (\<lambda>e. e = ''..'') es)"

text \<open>The invariant of the loop: double dots are only at the bottom, and not at all under a root.\<close>

definition stack_ok :: "bool \<Rightarrow> bytes list \<Rightarrow> bool" where
  "stack_ok rooted es \<longleftrightarrow>
     (\<forall>e \<in> set es. e \<noteq> [] \<and> e \<noteq> ''.'' \<and> CHR ''/'' \<notin> set e \<and> (rooted \<longrightarrow> e \<noteq> ''..''))
     \<and> list_all (\<lambda>e. e = ''..'') (dropWhile (\<lambda>e. e \<noteq> ''..'') es)"

lemma push_elem_ok:
  assumes "stack_ok rooted es" and "e \<noteq> []" and "e \<noteq> ''.''" and "CHR ''/'' \<notin> set e"
  shows "stack_ok rooted (push_elem rooted es e)"
proof (cases es)
  case (Cons f fs)
  with assms show ?thesis by (auto simp: push_elem_def stack_ok_def split: if_splits)
qed (use assms in \<open>auto simp: push_elem_def stack_ok_def\<close>)

lemma foldl_push_ok:
  "stack_ok rooted st \<Longrightarrow> \<forall>e \<in> set es. e \<noteq> [] \<and> e \<noteq> ''.'' \<and> CHR ''/'' \<notin> set e
    \<Longrightarrow> stack_ok rooted (foldl (push_elem rooted) st es)"
  by (induction es arbitrary: st) (auto intro: push_elem_ok)

lemma stack_rev:
  "list_all P (dropWhile (\<lambda>e. \<not> P e) es) \<longleftrightarrow> list_all (\<lambda>e. \<not> P e) (dropWhile P (rev es))"
proof (induction es)
  case (Cons e es)
  show ?case
  proof (cases "P e")
    case True
    have "list_all P es \<and> P e \<longleftrightarrow> list_all (\<lambda>e. \<not> P e) (dropWhile P (rev es @ [e]))"
      using True by (auto simp: dropWhile_append list_all_iff dropWhile_eq_Nil_conv dest: set_dropWhileD)
    with True show ?thesis by auto
  next
    case False
    with Cons show ?thesis by (auto simp: dropWhile_append list_all_iff)
  qed
qed simp

lemma elems_ok_rev: "stack_ok rooted es \<Longrightarrow> elems_ok rooted (rev es)"
  using stack_rev [of "\<lambda>e. e = ''..''" es] by (simp add: stack_ok_def elems_ok_def)

lemma path_elems_ok: "e \<in> set (path_elems p) \<Longrightarrow> e \<noteq> [] \<and> e \<noteq> ''.'' \<and> CHR ''/'' \<notin> set e"
  using split_by_free by (auto simp: path_elems_def)

lemma clean_elems_ok: "elems_ok rooted (clean_elems rooted (path_elems p))"
  unfolding clean_elems_def
  by (intro elems_ok_rev foldl_push_ok) (auto simp: stack_ok_def dest: path_elems_ok)

lemma elems_okD:
  assumes "elems_ok rooted es"
  shows "e \<in> set es \<Longrightarrow> e \<noteq> []" and "e \<in> set es \<Longrightarrow> e \<noteq> ''.''" and "e \<in> set es \<Longrightarrow> CHR ''/'' \<notin> set e"
    and "rooted \<Longrightarrow> e \<in> set es \<Longrightarrow> e \<noteq> ''..''"
    and "e \<in> set (dropWhile (\<lambda>e. e = ''..'') es) \<Longrightarrow> e \<noteq> ''..''"
  using assms unfolding elems_ok_def list_all_iff by blast+

lemma push_plain:
  "\<forall>e \<in> set es. e \<noteq> ''..'' \<Longrightarrow> foldl (push_elem rooted) st es = rev es @ st"
  by (induction es arbitrary: st) (simp_all add: push_elem_def)

lemma push_dots:
  "\<forall>e \<in> set es. e = ''..'' \<Longrightarrow> \<forall>e \<in> set st. e = ''..'' \<Longrightarrow>
   foldl (push_elem False) st es = rev es @ st"
  by (induction es arbitrary: st) (auto simp: push_elem_def)

lemma clean_elems_id:
  assumes "elems_ok rooted es"
  shows "clean_elems rooted es = es"
proof -
  let ?P = "\<lambda>e. e = ''..''"
  have dots: "\<forall>e \<in> set (takeWhile ?P es). e = ''..''" by (auto dest: set_takeWhileD)
  have plain: "\<forall>e \<in> set (dropWhile ?P es). e \<noteq> ''..''" using elems_okD(5) [OF assms] by blast
  have "foldl (push_elem rooted) [] (takeWhile ?P es) = rev (takeWhile ?P es)"
  proof (cases rooted)
    case True
    with elems_okD(4) [OF assms] have "takeWhile ?P es = []" by (cases es) auto
    then show ?thesis by simp
  qed (use push_dots [OF dots, of "[]"] in simp)
  then have "foldl (push_elem rooted) [] (takeWhile ?P es @ dropWhile ?P es)
      = rev (takeWhile ?P es @ dropWhile ?P es)"
    using push_plain [OF plain] by (simp only: foldl_append rev_append)
  then show ?thesis by (simp add: clean_elems_def)
qed

lemma path_text_read:
  assumes "elems_ok rooted es"
  shows "path_elems (path_text rooted es) = es" and "is_abs (path_text rooted es) = rooted"
proof -
  have f: "filter (\<lambda>e. e \<noteq> [] \<and> e \<noteq> ''.'') es = es"
    unfolding filter_id_conv using elems_okD(1,2) [OF assms] by blast
  have sp: "es \<noteq> [] \<Longrightarrow> split_by (CHR ''/'') (join_with ''/'' es) = es"
    using split_join [of es "CHR ''/''"] elems_okD(3) [OF assms] by blast
  show "path_elems (path_text rooted es) = es"
    using f sp by (cases "es = []") (auto simp: path_elems_def path_text_def)
  show "is_abs (path_text rooted es) = rooted"
  proof (cases "rooted \<or> es = []")
    case False
    then obtain e es' where es: "es = e # es'" and r: "\<not> rooted" by (cases es) auto
    then have "e \<noteq> []" "hd e \<noteq> CHR ''/''" using elems_okD(1,3) [OF assms, of e] by (auto dest: hd_in_set)
    then show ?thesis using r es by (cases es') (auto simp: is_abs_def path_text_def)
  qed (auto simp: is_abs_def path_text_def)
qed

definition path_is_clean :: "bytes \<Rightarrow> bool" where
  "path_is_clean p \<longleftrightarrow> (\<exists>rooted es. elems_ok rooted es \<and> p = path_text rooted es)"

lemma path_clean_clean: "path_is_clean (path_clean p)"
  unfolding path_is_clean_def path_clean_def using clean_elems_ok by blast

lemma path_clean_id: "path_is_clean p \<Longrightarrow> path_clean p = p"
  by (auto simp: path_is_clean_def path_clean_def path_text_read clean_elems_id)

lemma path_clean_idem [simp]: "path_clean (path_clean p) = path_clean p"
  by (rule path_clean_id [OF path_clean_clean])

lemma path_clean_abs [simp]: "is_abs (path_clean p) = is_abs p"
  unfolding path_clean_def by (rule path_text_read(2) [OF clean_elems_ok])

text \<open>A clean absolute path has no empty element, no dot and no double dot.\<close>

lemma clean_abs_elems:
  assumes "path_is_clean p" and "is_abs p"
  shows "\<exists>es. p = ''/'' @ join_with ''/'' es \<and> (\<forall>e \<in> set es. e \<noteq> [] \<and> e \<noteq> ''.'' \<and> e \<noteq> ''..'' \<and> CHR ''/'' \<notin> set e)"
proof -
  from assms(1) obtain rooted es where es: "elems_ok rooted es" "p = path_text rooted es"
    by (auto simp: path_is_clean_def)
  with assms(2) path_text_read(2) [OF es(1)] have "rooted" by simp
  with es(2) have "p = ''/'' @ join_with ''/'' es" by (simp add: path_text_def)
  then show ?thesis using elems_okD(1-4) [OF es(1)] \<open>rooted\<close> by blast
qed

lemma path_join_abs:
  assumes "is_abs p"
  shows "is_abs (path_join (p # es)) \<and> path_is_clean (path_join (p # es))"
proof -
  from assms have "p \<noteq> []" by (auto simp: is_abs_def)
  then have "path_join (p # es) = path_clean (join_with ''/'' (p # es))" by (simp add: path_join_def)
  moreover have "is_abs (join_with ''/'' (p # es))" using assms by (cases es) (auto simp: is_abs_def)
  ultimately show ?thesis by (simp add: path_clean_clean)
qed

end
