(* ===== verification/GoDuration.thy ===== *)
theory GoDuration
  imports GoTime "HOL-Library.Log_Nat"
begin

text \<open>
  The durations of package time that users write and read: \<open>ParseDuration\<close> with its arithmetic on
  \<open>uint64\<close> and, for fractions, on \<open>float64\<close>; \<open>Duration.Round\<close>; and the saturating \<open>Time.Sub\<close>.

  A positive \<open>float64\<close> is the rational it stands for. Results are rounded to 53 bits, to even when
  half way. The exponent is not bounded here: where Go's would overflow or become subnormal the
  product is below one nanosecond and is truncated to zero in both.
\<close>

section \<open>Floating point\<close>

definition two_pow :: "int \<Rightarrow> rat" where
  "two_pow e = (if 0 \<le> e then 2 ^ nat e else 1 / 2 ^ nat (- e))"

definition floor_log2 :: "rat \<Rightarrow> int" where
  "floor_log2 x =
     (let (n, d) = quotient_of x; e = bitlen n - bitlen d in if two_pow e \<le> x then e else e - 1)"

definition round_even :: "rat \<Rightarrow> int" where
  "round_even x =
     (let n = \<lfloor>x\<rfloor>; r = x - of_int n in
      if r < 1 / 2 \<or> r = 1 / 2 \<and> even n then n else n + 1)"

definition float64 :: "rat \<Rightarrow> rat" where
  "float64 x =
     (if x = 0 then 0
      else let u = two_pow (floor_log2 x - 52) in of_int (round_even (x / u)) * u)"

section \<open>ParseDuration\<close>

text \<open>\<open>leadingInt\<close>: \<open>None\<close> is the overflow.\<close>

fun leading_int :: "nat \<Rightarrow> bytes \<Rightarrow> (nat \<times> bytes) option" where
  "leading_int x [] = Some (x, [])"
| "leading_int x (c # s) =
     (if \<not> is_digit c then Some (x, c # s)
      else if x > 2 ^ 63 div 10 then None
      else let y = x * 10 + (byte_of c - 48) in if y > 2 ^ 63 then None else leading_int y s)"

text \<open>\<open>leadingFraction\<close>: the digits as a number, the power of ten below them, the rest.\<close>

fun leading_fraction :: "nat \<Rightarrow> rat \<Rightarrow> bool \<Rightarrow> bytes \<Rightarrow> nat \<times> rat \<times> bytes" where
  "leading_fraction x scale over [] = (x, scale, [])"
| "leading_fraction x scale over (c # s) =
     (if \<not> is_digit c then (x, scale, c # s)
      else if over \<or> x > (2 ^ 63 - 1) div 10 then leading_fraction x scale True s
      else let y = x * 10 + (byte_of c - 48) in
           if y > 2 ^ 63 then leading_fraction x scale True s
           else leading_fraction y (float64 (scale * 10)) False s)"

definition duration_unit :: "bytes \<Rightarrow> nat option" where
  "duration_unit u =
     (if u = ''ns'' then Some 1
      else if u = ''us'' \<or> u = [CHR 0xC2, CHR 0xB5, CHR ''s''] \<or> u = [CHR 0xCE, CHR 0xBC, CHR ''s''] then Some 1000
      else if u = ''ms'' then Some 1000000
      else if u = ''s'' then Some 1000000000
      else if u = ''m'' then Some 60000000000
      else if u = ''h'' then Some 3600000000000
      else None)"

definition unit_char :: "char \<Rightarrow> bool" where
  "unit_char c \<longleftrightarrow> c \<noteq> CHR ''.'' \<and> \<not> is_digit c"

text \<open>One number with its unit: its nanoseconds and the rest of the text.\<close>

definition duration_part :: "bytes \<Rightarrow> (nat \<times> bytes) option" where
  "duration_part s =
     (if s = [] \<or> unit_char (hd s) then None
      else case leading_int 0 s of
        None \<Rightarrow> None
      | Some (v, s1) \<Rightarrow>
          (let (f, scale, s2) =
             (case s1 of c # s' \<Rightarrow> if c = CHR ''.'' then leading_fraction 0 1 False s' else (0, 1, s1)
                       | [] \<Rightarrow> (0, 1, []));
               pre = (length s \<noteq> length s1);
               post = (length s1 > length s2 + 1)
           in if \<not> pre \<and> \<not> post then None
              else case duration_unit (takeWhile unit_char s2) of
                None \<Rightarrow> None
              | Some unit \<Rightarrow>
                  if v > 2 ^ 63 div unit then None
                  else let w = v * unit +
                         (if f > 0 then nat \<lfloor>float64 (float64 (of_nat f) * float64 (of_nat unit / scale))\<rfloor> else 0)
                       in if w > 2 ^ 63 then None else Some (w, dropWhile unit_char s2)))"

lemma leading_int_length: "leading_int x s = Some (v, r) \<Longrightarrow> length r \<le> length s"
  by (induction s arbitrary: x) (auto simp: Let_def intro: le_SucI split: if_splits)

lemma leading_fraction_length: "leading_fraction x scale over s = (f, scale', r) \<Longrightarrow> length r \<le> length s"
  by (induction s arbitrary: x scale over) (auto simp: Let_def intro: le_SucI split: if_splits)

lemma duration_unit_ne: "duration_unit u = Some n \<Longrightarrow> u \<noteq> []"
  by (auto simp: duration_unit_def)

lemma drop_unit_less: "duration_unit (takeWhile unit_char s) = Some n \<Longrightarrow> length (dropWhile unit_char s) < length s"
  using duration_unit_ne [of "takeWhile unit_char s" n] takeWhile_dropWhile_id [of unit_char s]
  by (metis length_append length_greater_0_conv less_add_same_cancel2)

lemma duration_part_less:
  assumes "duration_part s = Some (w, r)"
  shows "length r < length s"
proof -
  from assms obtain v s1 where i: "leading_int 0 s = Some (v, s1)"
    by (auto simp: duration_part_def split: if_splits option.splits)
  obtain f scale s2 where f: "(case s1 of c # s' \<Rightarrow> if c = CHR ''.'' then leading_fraction 0 1 False s' else (0, 1, s1)
      | [] \<Rightarrow> (0, 1, [])) = (f, scale, s2)" by (rule prod_cases3)
  from f have "length s2 \<le> length s1"
    by (cases s1) (auto dest!: leading_fraction_length split: if_splits)
  moreover from assms i f obtain n where "duration_unit (takeWhile unit_char s2) = Some n" "r = dropWhile unit_char s2"
    by (auto simp: duration_part_def Let_def split: if_splits option.splits)
  ultimately show ?thesis using drop_unit_less [of s2 n] leading_int_length [OF i] by simp
qed

text \<open>The loop over the parts; the sum is at most \<open>2 ^ 63\<close>.\<close>

function duration_loop :: "nat \<Rightarrow> bytes \<Rightarrow> nat option" where
  "duration_loop d s =
     (if s = [] then Some d
      else case duration_part s of
        None \<Rightarrow> None
      | Some (w, r) \<Rightarrow> if d + w > 2 ^ 63 then None else duration_loop (d + w) r)"
  by pat_completeness auto
termination
  by (relation "measure (\<lambda>(d, s). length s)") (auto dest: duration_part_less)

declare duration_loop.simps [simp del]

definition parse_duration :: "bytes \<Rightarrow> int option" where
  "parse_duration text =
     (let (neg, s) = (case text of
            c # r \<Rightarrow> if c = CHR ''-'' then (True, r) else if c = CHR ''+'' then (False, r) else (False, text)
          | [] \<Rightarrow> (False, []))
      in if s = ''0'' then Some 0
         else if s = [] then None
         else case duration_loop 0 s of
           None \<Rightarrow> None
         | Some d \<Rightarrow>
             if neg then Some (- int d)
             else if d > 2 ^ 63 - 1 then None else Some (int d))"

section \<open>Round and Sub\<close>

text \<open>\<open>Duration.Round\<close>, with the remainder of Go's division, which has the sign of the dividend.\<close>

definition less_than_half :: "int \<Rightarrow> int \<Rightarrow> bool" where
  "less_than_half x y \<longleftrightarrow> x + x < y"

definition duration_round :: "int \<Rightarrow> int \<Rightarrow> int" where
  "duration_round d m =
     (if m \<le> 0 then d
      else let r = \<bar>d\<bar> mod m in
           if d < 0 then
             (if less_than_half r m then d + r
              else let d1 = wrap64 (d - m + r) in if d1 < d then d1 else - (2 ^ 63))
           else if less_than_half r m then d - r
           else let d1 = wrap64 (d + m - r) in if d1 > d then d1 else 2 ^ 63 - 1)"

definition time_sub :: "gotime \<Rightarrow> gotime \<Rightarrow> int" where
  "time_sub t u = max (- (2 ^ 63)) (min (2 ^ 63 - 1) (unix_ns t - unix_ns u))"

section \<open>What they give\<close>

lemma duration_loop_bound: "d \<le> 2 ^ 63 \<Longrightarrow> duration_loop d s = Some n \<Longrightarrow> d \<le> n \<and> n \<le> 2 ^ 63"
proof (induction d s rule: duration_loop.induct)
  case (1 d s)
  show ?case
  proof (cases "s = []")
    case False
    with 1(3) obtain w r where p: "duration_part s = Some (w, r)" and le: "d + w \<le> 2 ^ 63"
      and l: "duration_loop (d + w) r = Some n"
      by (auto simp: duration_loop.simps [of d s] split: option.splits if_splits)
    have "\<not> d + w > 2 ^ 63" using le by simp
    from 1(1) [OF False p refl this le l] show ?thesis by simp
  qed (use 1 in \<open>simp add: duration_loop.simps\<close>)
qed

lemma parse_duration_range: "parse_duration s = Some d \<Longrightarrow> int64_range d"
  by (auto simp: parse_duration_def int64_range_def Let_def split: list.splits if_splits option.splits
      dest!: duration_loop_bound [rotated])

text \<open>Whole numbers with a unit.\<close>

lemma leading_int_digits:
  assumes "list_all is_digit ds" and "foldl (\<lambda>a c. a * 10 + (byte_of c - 48)) x ds < 2 ^ 63"
    and "r = [] \<or> \<not> is_digit (hd r)"
  shows "leading_int x (ds @ r) = Some (foldl (\<lambda>a c. a * 10 + (byte_of c - 48)) x ds, r)"
  using assms(1,2)
proof (induction ds arbitrary: x)
  case Nil
  then show ?case using assms(3) by (cases r) auto
next
  case (Cons c ds)
  let ?y = "x * 10 + (byte_of c - 48)"
  have mono: "y \<le> foldl (\<lambda>a c. a * 10 + (byte_of c - 48)) y ds" for y :: nat
  proof (induction ds arbitrary: y)
    case (Cons d ds)
    show ?case using Cons [of "y * 10 + (byte_of d - 48)"] by simp
  qed simp
  from mono [of ?y] Cons.prems(2) have y: "?y < 2 ^ 63" by simp
  then have "x \<le> 2 ^ 63 div 10" by simp
  with y Cons show ?case by (simp add: Let_def)
qed

lemma unit_not_digit:
  "duration_unit u = Some n \<Longrightarrow> list_all unit_char u \<and> 0 < n \<and> n \<le> 3600000000000"
  by (auto simp: duration_unit_def unit_char_def is_digit_def split: if_splits)

lemma duration_part_whole:
  assumes "duration_unit u = Some unit" and "n * unit < 2 ^ 63" and "r = [] \<or> \<not> unit_char (hd r)"
  shows "duration_part (dec_nat n @ u @ r) = Some (n * unit, r)"
proof -
  from unit_not_digit [OF assms(1)] have u: "list_all unit_char u" "0 < unit" by auto
  from duration_unit_ne [OF assms(1)] obtain c u' where c: "u = c # u'" "unit_char c"
    using u(1) by (cases u) auto
  have "n \<le> n * unit" using u(2) by simp
  with assms(2) have "n < 2 ^ 63" by linarith
  then have l: "leading_int 0 (dec_nat n @ u @ r) = Some (n, u @ r)"
    using leading_int_digits [OF dec_nat_digits, of 0 n "u @ r"] read_nat_dec [of n] c
    by (simp add: read_nat_def unit_char_def)
  have t: "takeWhile unit_char (u @ r) = u \<and> dropWhile unit_char (u @ r) = r"
    using u(1) assms(3) by (cases r) (auto simp: list_all_iff)
  have h: "dec_nat n \<noteq> []" "\<not> unit_char (hd (dec_nat n))"
    using dec_nat_digits [of n] hd_in_set [OF dec_nat_nonempty, of n] by (auto simp: unit_char_def list_all_iff)
  have "n \<le> 2 ^ 63 div unit"
    using assms(2) u(2) by (metis div_le_mono less_or_eq_imp_le nonzero_mult_div_cancel_right not_gr0)
  with l t h c assms(1,2) show ?thesis
    by (simp add: duration_part_def unit_char_def)
qed

text \<open>Rounding is to the nearest multiple, halves away from zero.\<close>

lemma div_eqI: "(a::int) = q * b + r \<Longrightarrow> 0 \<le> r \<Longrightarrow> r < b \<Longrightarrow> a div b = q \<and> a mod b = r"
  by (metis div_pos_pos_trivial div_mult_self3 mod_mult_self3 mod_pos_pos_trivial add.right_neutral
      add.commute less_le_not_le order_le_less_trans)

lemma duration_round_even:
  assumes "0 \<le> d" and "d + 2 * h < 2 ^ 63" and "0 < h"
  shows "duration_round d (2 * h) = (d + h) div (2 * h) * (2 * h)"
proof -
  define q r where "q = d div (2 * h)" and "r = d mod (2 * h)"
  have d: "d = q * (2 * h) + r" and r: "0 \<le> r" "r < 2 * h"
    unfolding q_def r_def using assms(3) by (simp only: div_mult_mod_eq, simp_all)
  have m: "\<bar>d\<bar> mod (2 * h) = r" "\<not> d < 0" "\<not> 2 * h \<le> 0" using assms by (simp_all add: r_def)
  show ?thesis
  proof (cases "r < h")
    case True
    have "d + h = q * (2 * h) + (r + h)" using d by simp
    from div_eqI [OF this] True r have "(d + h) div (2 * h) = q" by simp
    moreover have "duration_round d (2 * h) = d - r"
      using True by (simp only: duration_round_def m Let_def less_than_half_def if_False) simp
    ultimately show ?thesis using d by simp
  next
    case False
    have "d + h = (q + 1) * (2 * h) + (r - h)" using d by (simp add: algebra_simps)
    from div_eqI [OF this] False r have q: "(d + h) div (2 * h) = q + 1" by simp
    have "int64_range (d + 2 * h - r)" using assms r by (simp add: int64_range_def)
    then have "wrap64 (d + 2 * h - r) = d + 2 * h - r" by (rule wrap64_id)
    then have "duration_round d (2 * h) = d + 2 * h - r"
      using False r by (simp only: duration_round_def m Let_def less_than_half_def if_False) simp
    with q d show ?thesis by (simp add: algebra_simps)
  qed
qed

lemma duration_round_neg:
  assumes "d < 0" and "0 < m"
  shows "duration_round d m \<le> 0"
proof -
  have "\<bar>d\<bar> mod m \<le> \<bar>d\<bar>" using assms(2) by (simp add: zmod_le_nonneg_dividend)
  with assms show ?thesis by (simp add: duration_round_def Let_def)
qed

end
