(* ===== verification/Config.thy ===== *)
theory Config
  imports GoErrors JsonStream GoPath GoDuration
begin

text \<open>
  internal/config: where the vault and the socket are, when to lock, how much to log. Each setting is
  taken from the flags, the environment, the file or a default. The environment is a function, and so
  is what opening and reading a file gives.
\<close>

section \<open>State\<close>

record settings =
  stDataDir :: bytes
  stSocket :: bytes
  stAutoLock :: int
  stLogLevel :: bytes

text \<open>\<open>layer\<close>, and \<open>Flags\<close>, which has the same fields.\<close>

record layer =
  lyDataDir :: "bytes option"
  lySocket :: "bytes option"
  lyAutoLock :: "bytes option"
  lyLogLevel :: "bytes option"

definition no_layer :: layer where
  "no_layer = \<lparr> lyDataDir = None, lySocket = None, lyAutoLock = None, lyLogLevel = None \<rparr>"

definition EnvConfig :: bytes where "EnvConfig = ''KEYCELL_CONFIG''"
definition EnvDataDir :: bytes where "EnvDataDir = ''KEYCELL_DATA_DIR''"
definition EnvSocket :: bytes where "EnvSocket = ''KEYCELL_SOCKET''"
definition EnvAutoLock :: bytes where "EnvAutoLock = ''KEYCELL_AUTO_LOCK''"
definition EnvLogLevel :: bytes where "EnvLogLevel = ''KEYCELL_LOG_LEVEL''"

definition DefaultAutoLock :: int where "DefaultAutoLock = 8 * Hour"
definition DefaultLogLevel :: bytes where "DefaultLogLevel = ''info''"

definition logLevels :: "bytes list" where
  "logLevels = [''trace'', ''debug'', ''info'', ''warn'', ''error'']"

section \<open>Values\<close>

definition wrapKey :: "bytes \<Rightarrow> goerr \<Rightarrow> goerr" where
  "wrapKey src e = wrapf (lit (''config: '' @ src)) e"

definition wrap_key :: "bytes \<Rightarrow> 'a res \<Rightarrow> 'a res" where
  "wrap_key src r = (case r of Er e \<Rightarrow> Er (wrapKey src e) | _ \<Rightarrow> r)"

definition expandPath :: "bytes \<Rightarrow> bytes \<Rightarrow> bytes res" where
  "expandPath p home =
     obind (if p = ''~'' \<or> take 2 p = ''~/'' then
              if home = [] then Er (New (lit ''cannot expand '' @ [Q p] @ lit '', HOME is not set''))
              else Ok (path_join [home, tl p])
            else Ok p)
       (\<lambda>q. if \<not> is_abs q then Er (New (lit ''path '' @ [Q q] @ lit '' is not absolute''))
             else Ok (path_clean q))"

definition parseAutoLock :: "bytes \<Rightarrow> int res" where
  "parseAutoLock s =
     (if s = ''0'' then Ok 0
      else case parse_duration s of
        None \<Rightarrow> Er (New (lit ''invalid duration '' @ [Q s]))
      | Some d \<Rightarrow> if d < 0 then Er (New (lit ''duration '' @ [Q s] @ lit '' is negative'')) else Ok d)"

text \<open>
  \<open>strings.ToLower\<close>. Besides the ASCII letters only U+0130 and U+212A have an ASCII letter as lower
  case; all other runes are left here, so that the result is a known level exactly when Go's is.
\<close>

definition lower_rune :: "nat \<Rightarrow> nat" where
  "lower_rune r = (if 65 \<le> r \<and> r \<le> 90 then r + 32 else if r = 304 then 105 else if r = 8490 then 107 else r)"

definition to_lower :: "bytes \<Rightarrow> bytes" where
  "to_lower s = concat (map (\<lambda>(i, r). encode_rune (lower_rune r)) (runes s))"

definition parseLogLevel :: "bytes \<Rightarrow> bytes res" where
  "parseLogLevel s =
     (let lv = to_lower (trim_space s) in
      if lv \<in> set logLevels then Ok lv
      else Er (New (lit ''invalid log level '' @ [Q s] @ lit ('', want one of '' @ join_with '', '' logLevels))))"

section \<open>Layers\<close>

definition apply_field :: "bytes option \<Rightarrow> (bytes \<Rightarrow> 'a res) \<Rightarrow> bytes \<Rightarrow> ('a \<Rightarrow> settings) \<Rightarrow> settings \<Rightarrow> settings res" where
  "apply_field v parse src upd c =
     (case v of None \<Rightarrow> Ok c | Some s \<Rightarrow> obind (wrap_key src (parse s)) (\<lambda>x. Ok (upd x)))"

definition apply_layer :: "layer \<Rightarrow> bytes \<Rightarrow> (bytes \<Rightarrow> bytes) \<Rightarrow> settings \<Rightarrow> settings res" where
  "apply_layer l home src c =
     obind (apply_field (lyDataDir l) (\<lambda>p. expandPath p home) (src ''data_dir'') (\<lambda>p. c\<lparr>stDataDir := p\<rparr>) c) (\<lambda>c.
     obind (apply_field (lySocket l) (\<lambda>p. expandPath p home) (src ''socket'') (\<lambda>p. c\<lparr>stSocket := p\<rparr>) c) (\<lambda>c.
     obind (apply_field (lyAutoLock l) parseAutoLock (src ''auto_lock'') (\<lambda>d. c\<lparr>stAutoLock := d\<rparr>) c) (\<lambda>c.
     apply_field (lyLogLevel l) parseLogLevel (src ''log_level'') (\<lambda>v. c\<lparr>stLogLevel := v\<rparr>) c)))"

definition envValue :: "(bytes \<Rightarrow> bytes) \<Rightarrow> bytes \<Rightarrow> bytes option" where
  "envValue env name = (if env name = [] then None else Some (env name))"

definition env_layer :: "(bytes \<Rightarrow> bytes) \<Rightarrow> layer" where
  "env_layer env = \<lparr> lyDataDir = envValue env EnvDataDir, lySocket = envValue env EnvSocket,
     lyAutoLock = envValue env EnvAutoLock, lyLogLevel = envValue env EnvLogLevel \<rparr>"

section \<open>The file\<close>

datatype file_read = OpenFails goerr | ReadFails goerr | Contents bytes

text \<open>A pointer to a string is decoded into the string it has, or a new one; null clears it.\<close>

definition dec_str_ptr :: "bytes option \<Rightarrow> json \<Rightarrow> bytes option option" where
  "dec_str_ptr cur j =
     (if j = JNull then Some None
      else map_option Some (dec_string (case cur of None \<Rightarrow> [] | Some s \<Rightarrow> s) j))"

definition layer_fields :: "(bytes \<times> layer setter) list" where
  "layer_fields =
     [(''data_dir'', \<lambda>l j. map_option (\<lambda>v. l\<lparr>lyDataDir := v\<rparr>) (dec_str_ptr (lyDataDir l) j)),
      (''socket'', \<lambda>l j. map_option (\<lambda>v. l\<lparr>lySocket := v\<rparr>) (dec_str_ptr (lySocket l) j)),
      (''auto_lock'', \<lambda>l j. map_option (\<lambda>v. l\<lparr>lyAutoLock := v\<rparr>) (dec_str_ptr (lyAutoLock l) j)),
      (''log_level'', \<lambda>l j. map_option (\<lambda>v. l\<lparr>lyLogLevel := v\<rparr>) (dec_str_ptr (lyLogLevel l) j))]"

definition readFile :: "(bytes \<Rightarrow> file_read) \<Rightarrow> bytes \<Rightarrow> bool \<Rightarrow> layer res" where
  "readFile files path explicit =
     (case files path of
        OpenFails e \<Rightarrow>
          if errors_is e (StdS ErrNotExist) \<and> \<not> explicit then Ok no_layer else Er (wrapf (lit ''config'') e)
      | ReadFails e \<Rightarrow> Er (wrapf (lit (''config: '' @ path)) e)
      | Contents s \<Rightarrow>
          if at_eof s then Er (wrapf (lit (''config: '' @ path)) (Sentinel (StdS EOF)))
          else case json_decoder s of
            None \<Rightarrow> Er (wrapf (lit (''config: '' @ path)) (New [F JsonText]))
          | Some (j, rest) \<Rightarrow>
              (case dec_struct True layer_fields no_layer j of
                 None \<Rightarrow> Er (wrapf (lit (''config: '' @ path)) (New [F JsonText]))
               | Some l \<Rightarrow>
                   if at_eof rest then Ok l
                   else Er (New (lit (''config: '' @ path @ '': trailing data after document'')))))"

section \<open>Load\<close>

definition xdgDir :: "(bytes \<Rightarrow> bytes) \<Rightarrow> bytes \<Rightarrow> bytes \<Rightarrow> bytes res" where
  "xdgDir env xdg fallback =
     (if env xdg \<noteq> [] then Ok (path_join [env xdg, ''keycell''])
      else if env ''HOME'' = [] then Er (New (lit (''config: neither '' @ xdg @ '' nor HOME is set'')))
      else Ok (path_join [env ''HOME'', fallback, ''keycell'']))"

definition configPath :: "bytes \<Rightarrow> (bytes \<Rightarrow> bytes) \<Rightarrow> (bytes \<times> bool) res" where
  "configPath flag env =
     (if flag \<noteq> [] then
        obind (wrap_key ''--config'' (expandPath flag (env ''HOME''))) (\<lambda>p. Ok (p, True))
      else if env EnvConfig \<noteq> [] then
        obind (wrap_key EnvConfig (expandPath (env EnvConfig) (env ''HOME''))) (\<lambda>p. Ok (p, True))
      else obind (xdgDir env ''XDG_CONFIG_HOME'' ''.config'') (\<lambda>dir. Ok (path_join [dir, ''config.json''], False)))"

definition upper_ascii :: "char \<Rightarrow> char" where
  "upper_ascii c = (if CHR ''a'' \<le> c \<and> c \<le> CHR ''z'' then char_of (byte_of c - (32::nat)) else c)"

definition file_src :: "bytes \<Rightarrow> bytes \<Rightarrow> bytes" where
  "file_src path key = path @ '': key '' @ key"

definition env_src :: "bytes \<Rightarrow> bytes" where
  "env_src key = ''KEYCELL_'' @ map upper_ascii key"

definition flag_src :: "bytes \<Rightarrow> bytes" where
  "flag_src key = ''--'' @ map (\<lambda>c. if c = CHR ''_'' then CHR ''-'' else c) key"

text \<open>The directories that are filled in at the end.\<close>

definition default_dirs :: "(bytes \<Rightarrow> bytes) \<Rightarrow> settings \<Rightarrow> settings res" where
  "default_dirs env c =
     obind (if stDataDir c = [] then
              obind (xdgDir env ''XDG_DATA_HOME'' ''.local/share'') (\<lambda>p. Ok (c\<lparr>stDataDir := p\<rparr>))
            else Ok c)
       (\<lambda>c. if stSocket c = [] then
               if env ''XDG_RUNTIME_DIR'' = [] then Er (wrapf (lit ''config'') (Sentinel NoRuntimeDirS))
               else Ok (c\<lparr>stSocket := path_join [env ''XDG_RUNTIME_DIR'', ''keycell'', ''keycell.sock'']\<rparr>)
             else Ok c)"

definition config_Load :: "bytes \<Rightarrow> (bytes \<Rightarrow> bytes) \<Rightarrow> layer \<Rightarrow> (bytes \<Rightarrow> file_read) \<Rightarrow> settings res" where
  "config_Load flag env flags files =
     (let c = \<lparr> stDataDir = [], stSocket = [], stAutoLock = DefaultAutoLock, stLogLevel = DefaultLogLevel \<rparr>;
          home = env ''HOME'' in
      obind (configPath flag env) (\<lambda>(path, explicit).
      obind (readFile files path explicit) (\<lambda>l.
      obind (apply_layer l home (file_src path) c) (\<lambda>c.
      obind (apply_layer (env_layer env) home env_src c) (\<lambda>c.
      obind (apply_layer flags home flag_src c) (default_dirs env))))))"

section \<open>Precedence\<close>

fun first_some :: "'a option list \<Rightarrow> 'a option" where
  "first_some [] = None"
| "first_some (None # vs) = first_some vs"
| "first_some (Some x # vs) = Some x"

text \<open>Layers merged field by field, the earlier ones first, and what a layer makes of the settings.\<close>

definition merge_layers :: "layer list \<Rightarrow> layer" where
  "merge_layers ls = \<lparr> lyDataDir = first_some (map lyDataDir ls), lySocket = first_some (map lySocket ls),
     lyAutoLock = first_some (map lyAutoLock ls), lyLogLevel = first_some (map lyLogLevel ls) \<rparr>"

definition field_ok :: "(bytes \<Rightarrow> 'a res) \<Rightarrow> bytes option \<Rightarrow> bool" where
  "field_ok parse v \<longleftrightarrow> (\<forall>s. v = Some s \<longrightarrow> is_ok (parse s))"

definition layer_ok :: "bytes \<Rightarrow> layer \<Rightarrow> bool" where
  "layer_ok home l \<longleftrightarrow> field_ok (\<lambda>p. expandPath p home) (lyDataDir l) \<and> field_ok (\<lambda>p. expandPath p home) (lySocket l)
     \<and> field_ok parseAutoLock (lyAutoLock l) \<and> field_ok parseLogLevel (lyLogLevel l)"

definition field_val :: "(bytes \<Rightarrow> 'a res) \<Rightarrow> bytes option \<Rightarrow> 'a \<Rightarrow> 'a" where
  "field_val parse v old = (case v of None \<Rightarrow> old | Some s \<Rightarrow> ok_val (parse s))"

definition override :: "bytes \<Rightarrow> layer \<Rightarrow> settings \<Rightarrow> settings" where
  "override home l c = \<lparr> stDataDir = field_val (\<lambda>p. expandPath p home) (lyDataDir l) (stDataDir c),
     stSocket = field_val (\<lambda>p. expandPath p home) (lySocket l) (stSocket c),
     stAutoLock = field_val parseAutoLock (lyAutoLock l) (stAutoLock c),
     stLogLevel = field_val parseLogLevel (lyLogLevel l) (stLogLevel c) \<rparr>"

definition default_settings :: settings where
  "default_settings = \<lparr> stDataDir = [], stSocket = [], stAutoLock = DefaultAutoLock, stLogLevel = DefaultLogLevel \<rparr>"

lemma wrap_key_Ok [simp]: "wrap_key src r = Ok x \<longleftrightarrow> r = Ok x"
  by (cases r) (auto simp: wrap_key_def)

lemma apply_field_Ok:
  "apply_field v parse src upd c = Ok c' \<longleftrightarrow>
     field_ok parse v \<and> c' = (case v of None \<Rightarrow> c | Some s \<Rightarrow> upd (ok_val (parse s)))"
  by (cases v) (auto simp: apply_field_def field_ok_def obind_eq_Ok elim: is_okE)

lemma apply_layer_Ok: "apply_layer l home src c = Ok c' \<longleftrightarrow> layer_ok home l \<and> c' = override home l c"
  by (auto simp: apply_layer_def obind_eq_Ok apply_field_Ok layer_ok_def override_def field_val_def
      split: option.splits)

lemma field_val_chain:
  "field_val parse u (field_val parse v (field_val parse w x)) = field_val parse (first_some [u, v, w]) x"
  by (cases u; cases v; cases w) (simp_all add: field_val_def)

lemma override_chain:
  "override home a (override home b (override home l c)) = override home (merge_layers [a, b, l]) c"
  by (simp add: override_def merge_layers_def field_val_chain)

lemma config_Load_Ok:
  "config_Load flag env flags files = Ok c \<longleftrightarrow>
     (\<exists>path explicit l. configPath flag env = Ok (path, explicit) \<and> readFile files path explicit = Ok l
        \<and> (\<forall>y \<in> {l, env_layer env, flags}. layer_ok (env ''HOME'') y)
        \<and> default_dirs env (override (env ''HOME'') (merge_layers [flags, env_layer env, l]) default_settings) = Ok c)"
  by (auto simp: config_Load_def obind_eq_Ok apply_layer_Ok override_chain default_settings_def Let_def)

section \<open>What comes out\<close>

definition settings_ok :: "settings \<Rightarrow> bool" where
  "settings_ok c \<longleftrightarrow> is_abs (stDataDir c) \<and> path_is_clean (stDataDir c)
     \<and> is_abs (stSocket c) \<and> path_is_clean (stSocket c)
     \<and> 0 \<le> stAutoLock c \<and> stAutoLock c < 2 ^ 63 \<and> stLogLevel c \<in> set logLevels"

text \<open>A directory of the environment is taken as it is, so it has to be absolute where it is set.\<close>

definition env_abs :: "(bytes \<Rightarrow> bytes) \<Rightarrow> bool" where
  "env_abs env \<longleftrightarrow> (\<forall>v \<in> {''HOME'', ''XDG_DATA_HOME'', ''XDG_RUNTIME_DIR''}. env v = [] \<or> is_abs (env v))"

lemma expandPath_Ok: "expandPath p home = Ok q \<Longrightarrow> is_abs q \<and> path_is_clean q"
  by (auto simp: expandPath_def obind_eq_Ok path_clean_clean split: if_splits)

lemma parseAutoLock_Ok: "parseAutoLock s = Ok d \<Longrightarrow> 0 \<le> d \<and> d < 2 ^ 63"
  using parse_duration_range [of s]
  by (auto simp: parseAutoLock_def int64_range_def split: if_splits option.splits)

lemma parseLogLevel_Ok: "parseLogLevel s = Ok v \<Longrightarrow> v \<in> set logLevels"
  by (auto simp: parseLogLevel_def Let_def split: if_splits)

lemma field_val_inv:
  assumes "field_ok parse v" and "\<And>s x. parse s = Ok x \<Longrightarrow> P x" and "P old"
  shows "P (field_val parse v old)"
  using assms by (cases v) (auto simp: field_ok_def field_val_def elim!: is_okE)

lemma first_some_inv: "(\<And>v. v \<in> set vs \<Longrightarrow> field_ok parse v) \<Longrightarrow> field_ok parse (first_some vs)"
  by (induction vs rule: first_some.induct) (auto simp: field_ok_def)

lemma merge_layers_ok: "(\<And>l. l \<in> set ls \<Longrightarrow> layer_ok home l) \<Longrightarrow> layer_ok home (merge_layers ls)"
  by (auto simp: layer_ok_def merge_layers_def intro!: first_some_inv)

lemma is_abs_Nil [simp]: "\<not> is_abs []"
  by (simp add: is_abs_def)

lemma override_ok:
  assumes "layer_ok home l"
  shows "(stDataDir (override home l default_settings) = [] \<or> is_abs (stDataDir (override home l default_settings))
        \<and> path_is_clean (stDataDir (override home l default_settings)))
    \<and> (stSocket (override home l default_settings) = [] \<or> is_abs (stSocket (override home l default_settings))
        \<and> path_is_clean (stSocket (override home l default_settings)))
    \<and> 0 \<le> stAutoLock (override home l default_settings) \<and> stAutoLock (override home l default_settings) < 2 ^ 63
    \<and> stLogLevel (override home l default_settings) \<in> set logLevels"
proof -
  let ?P = "\<lambda>p. p = [] \<or> is_abs p \<and> path_is_clean p"
  have "?P (field_val (\<lambda>p. expandPath p home) v [])" if "field_ok (\<lambda>p. expandPath p home) v" for v
    by (rule field_val_inv [OF that]) (auto dest: expandPath_Ok)
  moreover have "0 \<le> field_val parseAutoLock (lyAutoLock l) DefaultAutoLock
      \<and> field_val parseAutoLock (lyAutoLock l) DefaultAutoLock < 2 ^ 63"
  proof (rule field_val_inv [where P = "\<lambda>d. 0 \<le> d \<and> d < 2 ^ 63"])
    show "field_ok parseAutoLock (lyAutoLock l)" using assms by (simp add: layer_ok_def)
  qed (auto dest: parseAutoLock_Ok simp: DefaultAutoLock_def duration_defs)
  moreover have "field_val parseLogLevel (lyLogLevel l) DefaultLogLevel \<in> set logLevels"
  proof (rule field_val_inv [where P = "\<lambda>v. v \<in> set logLevels"])
    show "field_ok parseLogLevel (lyLogLevel l)" using assms by (simp add: layer_ok_def)
  qed (auto dest: parseLogLevel_Ok simp: DefaultLogLevel_def logLevels_def)
  ultimately show ?thesis using assms by (simp add: layer_ok_def override_def default_settings_def)
qed

lemma xdgDir_Ok:
  assumes "xdgDir env xdg fallback = Ok p" and "env xdg = [] \<or> is_abs (env xdg)" and "env ''HOME'' = [] \<or> is_abs (env ''HOME'')"
  shows "is_abs p \<and> path_is_clean p"
  using assms path_join_abs [of "env xdg"] path_join_abs [of "env ''HOME''"]
  unfolding xdgDir_def by (metis outcome.distinct(1) outcome.inject(1))

lemma default_dirs_ok:
  assumes "default_dirs env c = Ok c'" and "env_abs env"
    and "stDataDir c = [] \<or> is_abs (stDataDir c) \<and> path_is_clean (stDataDir c)"
    and "stSocket c = [] \<or> is_abs (stSocket c) \<and> path_is_clean (stSocket c)"
  shows "is_abs (stDataDir c') \<and> path_is_clean (stDataDir c') \<and> is_abs (stSocket c') \<and> path_is_clean (stSocket c')
    \<and> stAutoLock c' = stAutoLock c \<and> stLogLevel c' = stLogLevel c"
proof -
  from assms(1) obtain c1 where c1: "(if stDataDir c = [] then
      obind (xdgDir env ''XDG_DATA_HOME'' ''.local/share'') (\<lambda>p. Ok (c\<lparr>stDataDir := p\<rparr>)) else Ok c) = Ok c1"
    and c': "(if stSocket c1 = [] then
               if env ''XDG_RUNTIME_DIR'' = [] then Er (wrapf (lit ''config'') (Sentinel NoRuntimeDirS))
               else Ok (c1\<lparr>stSocket := path_join [env ''XDG_RUNTIME_DIR'', ''keycell'', ''keycell.sock'']\<rparr>)
             else Ok c1) = Ok c'"
    unfolding default_dirs_def obind_eq_Ok by blast
  have a: "env v = [] \<or> is_abs (env v)" if "v \<in> {''HOME'', ''XDG_DATA_HOME'', ''XDG_RUNTIME_DIR''}" for v
    using assms(2) that unfolding env_abs_def by blast
  have "is_abs (stDataDir c1) \<and> path_is_clean (stDataDir c1)"
    using c1 assms(3) xdgDir_Ok [OF _ a a] by (auto simp: obind_eq_Ok split: if_splits)
  moreover have "stSocket c1 = stSocket c" "stAutoLock c1 = stAutoLock c" "stLogLevel c1 = stLogLevel c"
    using c1 by (auto simp: obind_eq_Ok split: if_splits)
  moreover have "env ''XDG_RUNTIME_DIR'' \<noteq> [] \<Longrightarrow> is_abs (env ''XDG_RUNTIME_DIR'')"
    using a [of "''XDG_RUNTIME_DIR''"] by simp
  note path_join_abs [OF this]
  ultimately show ?thesis using c' assms(4) by (auto split: if_splits)
qed

lemma config_Load_settings_ok:
  assumes "config_Load flag env flags files = Ok c" and "env_abs env"
  shows "settings_ok c"
proof -
  from assms(1) obtain l where l: "\<forall>y \<in> {l, env_layer env, flags}. layer_ok (env ''HOME'') y"
    and d: "default_dirs env (override (env ''HOME'') (merge_layers [flags, env_layer env, l]) default_settings) = Ok c"
    unfolding config_Load_Ok by blast
  have "layer_ok (env ''HOME'') (merge_layers [flags, env_layer env, l])" using l by (intro merge_layers_ok) auto
  note o = override_ok [OF this]
  from default_dirs_ok [OF d assms(2)] o show ?thesis unfolding settings_ok_def by metis
qed

end
