(* ===== verification/ServeLoop.thy ===== *)
theory ServeLoop
  imports Server
begin

text \<open>
  internal/daemon/server.go: \<open>Serve\<close> with the goroutines it starts, one per connection and one that
  waits for the end of the context, as a step relation. A connection is a number; \<open>peers\<close> is what
  \<open>peerUID\<close> finds out about it. Every step belongs to the world (clients, signals, time) or to the
  server itself, which needs nobody else for it.

  A request is one step, except \<open>unlock\<close>: between \<open>Session.Unlock\<close> and \<open>verifyIdentity\<close>, and between
  that and the \<open>Lock\<close> after a failure, other connections may be served.
\<close>

section \<open>A request in parts\<close>

datatype 'i call_result = Answered response "'i session \<times> fs" | MustVerify "'i session" | MustLock goerr | Crash

definition begin_call ::
  "'i age \<Rightarrow> texts \<Rightarrow> io \<Rightarrow> config \<Rightarrow> request \<Rightarrow> 'i session \<times> fs \<Rightarrow> 'i call_result" where
  "begin_call A X w cf q = (\<lambda>(s, d).
     if rqMethod q = MethodUnlock then
       (case Bind q unlock_fields zero_unlock of
          Er e \<Rightarrow> Answered (NewError X (rqId q) (toError e)) (s, d)
        | Panic \<Rightarrow> Crash
        | Ok p \<Rightarrow>
            (case Unlock A w (cfDefaultFor cf) (val_bytes (upIdentity p)) (lock_after p) s of
               (Er e, s1, _) \<Rightarrow> Answered (NewError X (rqId q) (toError e)) (s1, d)
             | (Panic, s1, _) \<Rightarrow> Crash
             | (Ok _, s1, _) \<Rightarrow> MustVerify s1))
     else
       (case dispatch A X w cf q (s, d) of
          (None, _) \<Rightarrow> Crash
        | (Some r, sd') \<Rightarrow> Answered r sd'))"

definition verify_unlock ::
  "'i age \<Rightarrow> texts \<Rightarrow> io \<Rightarrow> config \<Rightarrow> request \<Rightarrow> 'i session \<times> fs \<Rightarrow> 'i call_result" where
  "verify_unlock A X w cf q = (\<lambda>(s, d).
     case verifyIdentity A w cf s d of
       Er e \<Rightarrow> MustLock e
     | Panic \<Rightarrow> Crash
     | Ok _ \<Rightarrow>
         (case NewResult (rqId q) REmpty of
            Ok r \<Rightarrow> Answered r (s, d)
          | _ \<Rightarrow> Answered (NewError X (rqId q) (CodeInternal, lit ''internal error'')) (s, d)))"

definition relock :: "texts \<Rightarrow> request \<Rightarrow> goerr \<Rightarrow> 'i session \<times> fs \<Rightarrow> 'i call_result" where
  "relock X q e = (\<lambda>(s, d). Answered (NewError X (rqId q) (toError e)) (Lock s, d))"

text \<open>With nothing in between, the parts are \<open>dispatch\<close>.\<close>

definition whole_call ::
  "'i age \<Rightarrow> texts \<Rightarrow> io \<Rightarrow> config \<Rightarrow> request \<Rightarrow> 'i session \<times> fs \<Rightarrow> 'i call_result" where
  "whole_call A X w cf q sd =
     (case begin_call A X w cf q sd of
        MustVerify s1 \<Rightarrow>
          (case verify_unlock A X w cf q (s1, snd sd) of MustLock e \<Rightarrow> relock X q e (s1, snd sd) | r \<Rightarrow> r)
      | r \<Rightarrow> r)"

lemma whole_call_dispatch:
  "whole_call A X w cf q sd =
     (case dispatch A X w cf q sd of (None, _) \<Rightarrow> Crash | (Some r, sd') \<Rightarrow> Answered r sd')"
proof (cases "rqMethod q = MethodUnlock")
  case True
  then have "rqMethod q \<noteq> MethodStatus" by (simp add: MethodUnlock_def MethodStatus_def)
  with True show ?thesis
    by (auto simp: whole_call_def begin_call_def verify_unlock_def relock_def dispatch_def server_call_def call_unlock_def
        split: outcome.splits prod.splits)
qed (auto simp: whole_call_def begin_call_def split: prod.splits option.splits)

section \<open>State\<close>

datatype handler = Reading | InCall request | Verifying request | Relocking request goerr | Writing response | Gone

datatype serve_pc = Accepting | Grace | Locking | Closing | Joining | Returned "unit res" | Crashed

record 'i serving =
  svPc :: serve_pc
  svCancelled :: bool
  svOpen :: bool
  svConns :: "nat set"
  svClosed :: "nat set"
  svHandlers :: "(nat, handler) gomap"
  svSession :: "'i session"
  svFs :: fs

definition serve_start :: "'i session \<Rightarrow> fs \<Rightarrow> 'i serving" where
  "serve_start s d = \<lparr> svPc = Accepting, svCancelled = False, svOpen = True, svConns = {}, svClosed = {},
     svHandlers = [], svSession = s, svFs = d \<rparr>"

fun running :: "serve_pc \<Rightarrow> bool" where
  "running (Returned r) = False"
| "running Crashed = False"
| "running pc = True"

definition goes :: "nat \<Rightarrow> handler \<Rightarrow> 'i serving \<Rightarrow> 'i serving" where
  "goes c h s = s\<lparr>svHandlers := AList.update c h (svHandlers s)\<rparr>"

text \<open>\<open>track\<close>.\<close>

definition track :: "nat \<Rightarrow> bool \<Rightarrow> 'i serving \<Rightarrow> 'i serving" where
  "track c add s = s\<lparr>svConns := (if add then insert c (svConns s) else svConns s - {c})\<rparr>"

text \<open>\<open>handle\<close> returns: the connection is closed and no longer tracked.\<close>

definition ends :: "nat \<Rightarrow> 'i serving \<Rightarrow> 'i serving" where
  "ends c s = track c False (goes c Gone s\<lparr>svClosed := insert c (svClosed s)\<rparr>)"

text \<open>What a step of a request makes of the state.\<close>

fun continues :: "nat \<Rightarrow> request \<Rightarrow> 'i call_result \<Rightarrow> 'i serving \<Rightarrow> 'i serving" where
  "continues c q (Answered r (s', d')) s = goes c (Writing r) s\<lparr>svSession := s', svFs := d'\<rparr>"
| "continues c q (MustVerify s') s = goes c (Verifying q) s\<lparr>svSession := s'\<rparr>"
| "continues c q (MustLock e) s = goes c (Relocking q e) s"
| "continues c q Crash s = s\<lparr>svPc := Crashed\<rparr>"

section \<open>Steps\<close>

datatype agent = World | Own

text \<open>The user of the process at the other end of a connection.\<close>

definition peerUID :: "nat raw_call \<Rightarrow> nat res" where
  "peerUID conn = raw_do conn"

lemma peerUID_ok [simp]: "peerUID (call_ok uid) = Ok uid"
  by (simp add: peerUID_def)

inductive serve_step ::
  "'i age \<Rightarrow> texts \<Rightarrow> config \<Rightarrow> (nat \<Rightarrow> nat raw_call) \<Rightarrow> nat \<Rightarrow> agent \<Rightarrow> 'i serving \<Rightarrow> 'i serving \<Rightarrow> bool"
  for A X cf peers uid where
  cancel: "running (svPc s) \<Longrightarrow> serve_step A X cf peers uid World s (s\<lparr>svCancelled := True\<rparr>)"
| close_listener: "running (svPc s) \<Longrightarrow> svCancelled s \<Longrightarrow> svOpen s \<Longrightarrow>
    serve_step A X cf peers uid Own s (s\<lparr>svOpen := False\<rparr>)"
| accept: "svPc s = Accepting \<Longrightarrow> svOpen s \<Longrightarrow> map_of (svHandlers s) c = None \<Longrightarrow> c \<notin> svClosed s \<Longrightarrow>
    peerUID (peers c) = Ok uid \<Longrightarrow> serve_step A X cf peers uid World s (track c True (goes c Reading s))"
| reject: "svPc s = Accepting \<Longrightarrow> svOpen s \<Longrightarrow> map_of (svHandlers s) c = None \<Longrightarrow> c \<notin> svClosed s \<Longrightarrow>
    peerUID (peers c) \<noteq> Ok uid \<Longrightarrow> serve_step A X cf peers uid World s (s\<lparr>svClosed := insert c (svClosed s)\<rparr>)"
| accept_fails: "svPc s = Accepting \<Longrightarrow> svOpen s \<Longrightarrow> \<not> svCancelled s \<Longrightarrow>
    serve_step A X cf peers uid World s
      (s\<lparr>svPc := Returned (Er (wrapf (lit ''daemon: accept'') e)), svOpen := False\<rparr>)"
| accept_stops: "svPc s = Accepting \<Longrightarrow> svCancelled s \<Longrightarrow> \<not> svOpen s \<Longrightarrow>
    serve_step A X cf peers uid Own s (s\<lparr>svPc := Grace\<rparr>)"
| accept_cancelled: "svPc s = Accepting \<Longrightarrow> svCancelled s \<Longrightarrow> svOpen s \<Longrightarrow>
    serve_step A X cf peers uid World s (s\<lparr>svPc := Grace\<rparr>)"
| request: "running (svPc s) \<Longrightarrow> map_of (svHandlers s) c = Some Reading \<Longrightarrow>
    serve_step A X cf peers uid World s (goes c (InCall q) s)"
| bad_request: "running (svPc s) \<Longrightarrow> map_of (svHandlers s) c = Some Reading \<Longrightarrow>
    serve_step A X cf peers uid World s (goes c (Writing (NewError X i pe)) s)"
| hangs_up: "running (svPc s) \<Longrightarrow> map_of (svHandlers s) c = Some Reading \<Longrightarrow>
    serve_step A X cf peers uid World s (ends c s)"
| read_fails: "running (svPc s) \<Longrightarrow> map_of (svHandlers s) c = Some Reading \<Longrightarrow> c \<in> svClosed s \<Longrightarrow>
    serve_step A X cf peers uid Own s (ends c s)"
| calls: "running (svPc s) \<Longrightarrow> map_of (svHandlers s) c = Some (InCall q) \<Longrightarrow>
    serve_step A X cf peers uid Own s
      (continues c q (begin_call A X w cf q (svSession s, svFs s)) s)"
| verifies: "running (svPc s) \<Longrightarrow> map_of (svHandlers s) c = Some (Verifying q) \<Longrightarrow>
    serve_step A X cf peers uid Own s
      (continues c q (verify_unlock A X w cf q (svSession s, svFs s)) s)"
| relocks: "running (svPc s) \<Longrightarrow> map_of (svHandlers s) c = Some (Relocking q e) \<Longrightarrow>
    serve_step A X cf peers uid Own s (continues c q (relock X q e (svSession s, svFs s)) s)"
| wrote: "running (svPc s) \<Longrightarrow> map_of (svHandlers s) c = Some (Writing r) \<Longrightarrow> c \<notin> svClosed s \<Longrightarrow>
    serve_step A X cf peers uid World s (goes c Reading s)"
| write_fails: "running (svPc s) \<Longrightarrow> map_of (svHandlers s) c = Some (Writing r) \<Longrightarrow>
    serve_step A X cf peers uid World s (ends c s)"
| write_closed: "running (svPc s) \<Longrightarrow> map_of (svHandlers s) c = Some (Writing r) \<Longrightarrow> c \<in> svClosed s \<Longrightarrow>
    serve_step A X cf peers uid Own s (ends c s)"
| waited: "svPc s = Grace \<Longrightarrow> serve_step A X cf peers uid Own s (s\<lparr>svPc := Locking\<rparr>)"
| locks: "svPc s = Locking \<Longrightarrow>
    serve_step A X cf peers uid Own s (s\<lparr>svSession := Lock (svSession s), svPc := Closing\<rparr>)"
| closes: "svPc s = Closing \<Longrightarrow>
    serve_step A X cf peers uid Own s (s\<lparr>svClosed := svClosed s \<union> svConns s, svPc := Joining\<rparr>)"
| joins: "svPc s = Joining \<Longrightarrow> \<forall>(c, h) \<in> set (svHandlers s). h = Gone \<Longrightarrow>
    serve_step A X cf peers uid Own s (s\<lparr>svPc := Returned (Ok ()), svOpen := False\<rparr>)"
| fires: "running (svPc s) \<Longrightarrow> (h, g) \<in> set (sPending (svSession s)) \<Longrightarrow>
    serve_step A X cf peers uid World s
      (s\<lparr>svSession := stop_timer h (svSession s)\<lparr>sFired := g # sFired (svSession s)\<rparr>\<rparr>)"
| callback: "running (svPc s) \<Longrightarrow> g \<in> set (sFired (svSession s)) \<Longrightarrow>
    serve_step A X cf peers uid Own s
      (s\<lparr>svSession := autoLock g (svSession s\<lparr>sFired := remove1 g (sFired (svSession s))\<rparr>)\<rparr>)"

inductive serves ::
  "'i age \<Rightarrow> texts \<Rightarrow> config \<Rightarrow> (nat \<Rightarrow> nat raw_call) \<Rightarrow> nat \<Rightarrow> 'i session \<Rightarrow> fs \<Rightarrow> 'i serving \<Rightarrow> bool"
  for A X cf peers uid s0 d0 where
  starts: "serves A X cf peers uid s0 d0 (serve_start s0 d0)"
| steps: "serves A X cf peers uid s0 d0 s \<Longrightarrow> serve_step A X cf peers uid a s t
    \<Longrightarrow> serves A X cf peers uid s0 d0 t"

section \<open>The invariant\<close>

definition ended :: "serve_pc \<Rightarrow> bool" where
  "ended pc \<longleftrightarrow> pc \<in> {Joining, Returned (Ok ())}"

definition serve_inv :: "(nat \<Rightarrow> nat raw_call) \<Rightarrow> nat \<Rightarrow> 'i serving \<Rightarrow> bool" where
  "serve_inv peers uid s \<longleftrightarrow>
     gomap_ok (svHandlers s)
     \<and> (\<forall>c h. map_of (svHandlers s) c = Some h \<longrightarrow> peerUID (peers c) = Ok uid)
     \<and> (\<forall>c. c \<in> svConns s \<longleftrightarrow> (\<exists>h. map_of (svHandlers s) c = Some h \<and> h \<noteq> Gone))
     \<and> (\<forall>c. map_of (svHandlers s) c = Some Gone \<longrightarrow> c \<in> svClosed s)
     \<and> (ended (svPc s) \<longrightarrow> svConns s \<subseteq> svClosed s)
     \<and> (svPc s = Returned (Ok ()) \<longrightarrow> svConns s = {} \<and> \<not> svOpen s)
     \<and> (svPc s \<in> {Grace, Locking, Closing, Joining, Returned (Ok ())} \<longrightarrow> svCancelled s)
     \<and> ((\<exists>e. svPc s = Returned (Er e)) \<longrightarrow> \<not> svCancelled s)
     \<and> svPc s \<noteq> Returned Panic
     \<and> (svPc s = Accepting \<and> \<not> svOpen s \<longrightarrow> svCancelled s)"

lemma running_eq: "running pc \<longleftrightarrow> (\<forall>r. pc \<noteq> Returned r) \<and> pc \<noteq> Crashed"
  by (cases pc) auto

lemma goes_simps [simp]:
  "svPc (goes c h s) = svPc s" "svCancelled (goes c h s) = svCancelled s" "svOpen (goes c h s) = svOpen s"
  "svConns (goes c h s) = svConns s" "svClosed (goes c h s) = svClosed s" "svSession (goes c h s) = svSession s"
  "svHandlers (goes c h s) = AList.update c h (svHandlers s)" "svFs (goes c h s) = svFs s"
  by (simp_all add: goes_def)

lemma track_simps [simp]:
  "svPc (track c b s) = svPc s" "svCancelled (track c b s) = svCancelled s" "svOpen (track c b s) = svOpen s"
  "svClosed (track c b s) = svClosed s" "svSession (track c b s) = svSession s"
  "svHandlers (track c b s) = svHandlers s" "svFs (track c b s) = svFs s"
  "svConns (track c b s) = (if b then insert c (svConns s) else svConns s - {c})"
  by (simp_all add: track_def)

lemma ends_simps [simp]:
  "svPc (ends c s) = svPc s" "svCancelled (ends c s) = svCancelled s" "svOpen (ends c s) = svOpen s"
  "svConns (ends c s) = svConns s - {c}" "svClosed (ends c s) = insert c (svClosed s)"
  "svSession (ends c s) = svSession s" "svHandlers (ends c s) = AList.update c Gone (svHandlers s)"
  by (simp_all add: ends_def)

lemma continues_cases:
  obtains h s' d' where "continues c q r s = goes c h s\<lparr>svSession := s', svFs := d'\<rparr>" and "h \<noteq> Gone"
  | "continues c q r s = s\<lparr>svPc := Crashed\<rparr>"
proof (cases r)
  case (Answered x sd)
  then show ?thesis using that(1) [where h = "Writing x" and s' = "fst sd" and d' = "snd sd"] by (cases sd) simp
next
  case (MustVerify s')
  then show ?thesis using that(1) [where h = "Verifying q" and s' = s' and d' = "svFs s"] by (simp add: goes_def)
next
  case (MustLock e)
  then show ?thesis
    using that(1) [where h = "Relocking q e" and s' = "svSession s" and d' = "svFs s"] by (simp add: goes_def)
qed (use that(2) in simp)

lemma inv_goes:
  assumes "serve_inv peers uid s" and "map_of (svHandlers s) c = Some h0" and "h0 \<noteq> Gone" and "h \<noteq> Gone"
  shows "serve_inv peers uid (goes c h s\<lparr>svSession := s', svFs := d'\<rparr>)"
  using assms unfolding serve_inv_def by (auto simp: update_conv')

lemma inv_goes':
  assumes "serve_inv peers uid s" and "map_of (svHandlers s) c = Some h0" and "h0 \<noteq> Gone" and "h \<noteq> Gone"
  shows "serve_inv peers uid (goes c h s)"
  using assms unfolding serve_inv_def by (auto simp: update_conv')

lemma inv_ends:
  assumes "serve_inv peers uid s" and "map_of (svHandlers s) c = Some h0" and "h0 \<noteq> Gone"
  shows "serve_inv peers uid (ends c s)"
  using assms unfolding serve_inv_def by (auto simp: update_conv')

lemma inv_accept:
  assumes "serve_inv peers uid s" and "svPc s = Accepting" and "map_of (svHandlers s) c = None"
    and "peerUID (peers c) = Ok uid"
  shows "serve_inv peers uid (track c True (goes c Reading s))"
  using assms unfolding serve_inv_def ended_def by (auto simp: update_conv')

lemma inv_continues:
  assumes "serve_inv peers uid s" and "map_of (svHandlers s) c = Some h0" and "h0 \<noteq> Gone" and "running (svPc s)"
  shows "serve_inv peers uid (continues c q r s)"
proof (rule continues_cases [of c q r s])
  fix h s' d'
  assume "continues c q r s = goes c h s\<lparr>svSession := s', svFs := d'\<rparr>" and "h \<noteq> Gone"
  then show ?thesis using inv_goes [OF assms(1-3)] by simp
next
  assume "continues c q r s = s\<lparr>svPc := Crashed\<rparr>"
  then show ?thesis using assms(1) unfolding serve_inv_def ended_def by simp
qed

lemma serve_step_inv:
  assumes "serve_step A X cf peers uid a s t" and "serve_inv peers uid s"
  shows "serve_inv peers uid t"
  using assms
proof (induction rule: serve_step.induct)
  case (joins s)
  have "svConns s = {}"
    using joins map_of_SomeD unfolding serve_inv_def by fastforce
  with joins show ?case unfolding serve_inv_def ended_def by auto
qed ((rule inv_goes', assumption+, simp, simp) | (rule inv_ends, assumption+, simp) | (rule inv_accept, assumption+)
  | (rule inv_continues, assumption+, simp, assumption) | (force simp: serve_inv_def ended_def running_eq))+

lemma serves_inv: "serves A X cf peers uid s0 d0 s \<Longrightarrow> serve_inv peers uid s"
proof (induction rule: serves.induct)
  case starts
  show ?case by (simp add: serve_inv_def serve_start_def ended_def)
qed (rule serve_step_inv)

section \<open>Liveness\<close>

text \<open>How much the server has left to do on its own once it is to stop.\<close>

fun handler_work :: "handler \<Rightarrow> nat" where
  "handler_work Reading = 5"
| "handler_work (InCall q) = 4"
| "handler_work (Verifying q) = 3"
| "handler_work (Relocking q e) = 2"
| "handler_work (Writing r) = 1"
| "handler_work Gone = 0"

fun pc_work :: "serve_pc \<Rightarrow> nat" where
  "pc_work Accepting = 5"
| "pc_work Grace = 4"
| "pc_work Locking = 3"
| "pc_work Closing = 2"
| "pc_work Joining = 1"
| "pc_work pc = 0"

definition serve_work :: "'i serving \<Rightarrow> nat" where
  "serve_work s = pc_work (svPc s) + (if svOpen s then 1 else 0)
     + sum_list (map (\<lambda>(c, h). handler_work h) (svHandlers s)) + length (sFired (svSession s))"

lemma work_update:
  assumes "map_of m c = Some h0"
  shows "sum_list (map (\<lambda>(c, h). handler_work h) (AList.update c h m)) + handler_work h0
    = sum_list (map (\<lambda>(c, h). handler_work h) m) + handler_work h"
  using assms by (induction m) (auto split: if_splits)

lemma drop_session_fired [simp]: "sFired (drop_session s) = sFired s"
  by (simp add: drop_session_def stop_timer_def split: option.split)

lemma Lock_fired [simp]: "sFired (Lock s) = sFired s"
  by (simp add: Lock_def)

lemma Unlock_fired: "Unlock A w df encoded la s = (r, s', z) \<Longrightarrow> sFired s' = sFired s"
  by (auto simp: Unlock_def Let_def split: outcome.splits option.splits if_splits)

lemma call_unlock_fired: "call_unlock A w cf q s d = (r, s') \<Longrightarrow> sFired s' = sFired s"
  by (auto simp: call_unlock_def split: outcome.splits prod.splits dest!: Unlock_fired)

lemma dispatch_fired: "dispatch A X w cf q (s, d) = (r, s', d') \<Longrightarrow> sFired s' = sFired s"
  by (auto simp: dispatch_def server_call_def split: outcome.splits prod.splits if_splits dest!: call_unlock_fired)

text \<open>A part of a call leaves the callbacks alone, and what is left of the call is less.\<close>

definition less_left :: "nat \<Rightarrow> 'i session \<Rightarrow> 'i call_result \<Rightarrow> bool" where
  "less_left n s r \<longleftrightarrow> (case r of
       Answered x (s', d) \<Rightarrow> sFired s' = sFired s \<and> 1 < n
     | MustVerify s' \<Rightarrow> sFired s' = sFired s \<and> 3 < n
     | MustLock e \<Rightarrow> 2 < n
     | Crash \<Rightarrow> True)"

lemma begin_call_left: "less_left 4 s (begin_call A X w cf q (s, d))"
  by (auto simp: less_left_def begin_call_def split: outcome.splits option.splits prod.splits if_splits
      dest!: Unlock_fired dispatch_fired)

lemma verify_unlock_left: "less_left 3 s (verify_unlock A X w cf q (s, d))"
  by (auto simp: less_left_def verify_unlock_def split: outcome.splits)

lemma relock_left: "less_left 2 s (relock X q e (s, d))"
  by (simp add: less_left_def relock_def)

lemma continues_work:
  assumes "map_of (svHandlers s) c = Some h" and "running (svPc s)" and "less_left (handler_work h) (svSession s) r"
  shows "serve_work (continues c q r s) < serve_work s"
proof (cases r)
  case (Answered x sd)
  then show ?thesis using assms work_update [OF assms(1), of "Writing x"]
    by (cases sd) (simp add: serve_work_def less_left_def)
next
  case (MustVerify s')
  then show ?thesis using assms work_update [OF assms(1), of "Verifying q"]
    by (simp add: serve_work_def less_left_def)
next
  case (MustLock e)
  then show ?thesis using assms work_update [OF assms(1), of "Relocking q e"]
    by (simp add: serve_work_def less_left_def)
next
  case Crash
  with assms(2) show ?thesis by (cases "svPc s") (auto simp: serve_work_def)
qed

lemma ends_work:
  assumes "map_of (svHandlers s) c = Some h" and "h \<noteq> Gone"
  shows "serve_work (ends c s) < serve_work s"
  using work_update [OF assms(1), of Gone] assms(2) by (cases h) (auto simp: serve_work_def)

lemma own_step_work:
  assumes "serve_step A X cf peers uid a s t" and "a = Own"
  shows "serve_work t < serve_work s"
  using assms
proof (induction rule: serve_step.induct)
  case (callback s g)
  then have "length (remove1 g (sFired (svSession s))) < length (sFired (svSession s))"
    using length_pos_if_in_set [OF callback.hyps(2)] by (simp add: length_remove1)
  then show ?case by (simp add: serve_work_def autoLock_def)
qed ((rule ends_work, assumption, simp)
  | (rule continues_work, assumption, assumption, simp add: begin_call_left verify_unlock_left relock_left)
  | (simp add: serve_work_def))+

lemma own_steps_bound: "(serve_step A X cf peers uid Own ^^ n) s t \<Longrightarrow> n + serve_work t \<le> serve_work s"
proof (induction n arbitrary: t)
  case (Suc n)
  from Suc.prems obtain u where u: "(serve_step A X cf peers uid Own ^^ n) s u" "serve_step A X cf peers uid Own u t"
    by auto
  from Suc.IH [OF u(1)] own_step_work [OF u(2) refl] show ?case by simp
qed simp

lemma handler_work_le: "handler_work h \<le> 5"
  by (cases h) simp_all

lemma serve_work_bound: "serve_work s \<le> 6 + 5 * length (svHandlers s) + length (sFired (svSession s))"
proof -
  have "sum_list (map (\<lambda>(c, h). handler_work h) m) \<le> 5 * length m" for m :: "(nat \<times> handler) list"
    by (induction m) (use handler_work_le in \<open>auto intro: add_mono\<close>)
  moreover have "pc_work (svPc s) \<le> 5" by (cases "svPc s") simp_all
  ultimately show ?thesis by (simp add: serve_work_def add_mono)
qed

text \<open>So the steps of its own always lead to a state without another one.\<close>

lemma own_steps_stop:
  obtains t where "(serve_step A X cf peers uid Own)\<^sup>*\<^sup>* s t" and "\<not> (\<exists>u. serve_step A X cf peers uid Own t u)"
proof -
  have "\<exists>t. (serve_step A X cf peers uid Own)\<^sup>*\<^sup>* s t \<and> \<not> (\<exists>u. serve_step A X cf peers uid Own t u)"
  proof (induction "serve_work s" arbitrary: s rule: less_induct)
    case less
    show ?case
    proof (cases "\<exists>u. serve_step A X cf peers uid Own s u")
      case True
      then obtain u where u: "serve_step A X cf peers uid Own s u" by blast
      from less [OF own_step_work [OF u refl]] u show ?thesis by (meson converse_rtranclp_into_rtranclp)
    qed auto
  qed
  with that show thesis by blast
qed

text \<open>A server that is to stop and has nothing left to do on its own has stopped.\<close>

lemma own_step_stuck:
  assumes "serve_inv peers uid s" and "svCancelled s" and "\<not> (\<exists>t. serve_step A X cf peers uid Own s t)"
  shows "svPc s = Returned (Ok ()) \<or> svPc s = Crashed"
proof (cases "svPc s")
  case Accepting
  then have "running (svPc s)" by simp
  then show ?thesis
    using assms(2,3) serve_step.close_listener [OF \<open>running (svPc s)\<close> assms(2)] serve_step.accept_stops [OF Accepting assms(2)]
    by blast
next
  case Joining
  have "h = Gone" if "(c, h) \<in> set (svHandlers s)" for c h
  proof (rule ccontr)
    assume h: "h \<noteq> Gone"
    from assms(1) that have m: "map_of (svHandlers s) c = Some h" by (simp add: serve_inv_def gomap_mem)
    have cl: "c \<in> svClosed s"
      using assms(1) Joining m h unfolding serve_inv_def ended_def by auto
    have run: "running (svPc s)" by (simp add: Joining)
    have "\<exists>t. serve_step A X cf peers uid Own s t"
    proof (cases h)
      case Reading
      with serve_step.read_fails [OF run _ cl] m show ?thesis by blast
    next
      case (InCall q)
      with m have "map_of (svHandlers s) c = Some (InCall q)" by simp
      from serve_step.calls [OF run this] show ?thesis by blast
    next
      case (Verifying q)
      with m have "map_of (svHandlers s) c = Some (Verifying q)" by simp
      from serve_step.verifies [OF run this] show ?thesis by blast
    next
      case (Relocking q e)
      with m have "map_of (svHandlers s) c = Some (Relocking q e)" by simp
      from serve_step.relocks [OF run this] show ?thesis by blast
    next
      case (Writing r)
      with m have "map_of (svHandlers s) c = Some (Writing r)" by simp
      from serve_step.write_closed [OF run this cl] show ?thesis by blast
    qed (use h in simp)
    with assms(3) show False by contradiction
  qed
  then have "\<forall>(c, h) \<in> set (svHandlers s). h = Gone" by auto
  from serve_step.joins [OF Joining this] assms(3) show ?thesis by blast
next
  case (Returned r)
  with assms(1,2) show ?thesis by (cases r) (auto simp: serve_inv_def)
qed (use assms(3) serve_step.waited serve_step.locks serve_step.closes in blast)+

lemma own_step_cancelled: "serve_step A X cf peers uid a s t \<Longrightarrow> svCancelled s \<Longrightarrow> svCancelled t"
proof (induction rule: serve_step.induct)
  case (calls s c q w)
  then show ?case by (cases "begin_call A X w cf q (svSession s, svFs s)") (auto simp: goes_def)
next
  case (verifies s c q w)
  then show ?case by (cases "verify_unlock A X w cf q (svSession s, svFs s)") (auto simp: goes_def)
next
  case (relocks s c q e)
  then show ?case by (cases "relock X q e (svSession s, svFs s)") (auto simp: goes_def)
qed auto

lemma serves_steps:
  "serves A X cf peers uid s0 d0 s \<Longrightarrow> (serve_step A X cf peers uid a)\<^sup>*\<^sup>* s t \<Longrightarrow> serves A X cf peers uid s0 d0 t"
  by (rotate_tac, induction rule: rtranclp_induct) (auto intro: serves.steps)

lemma own_steps_end:
  assumes "serves A X cf peers uid s0 d0 s" and "svCancelled s"
    and "(serve_step A X cf peers uid Own)\<^sup>*\<^sup>* s t" and "\<not> (\<exists>u. serve_step A X cf peers uid Own t u)"
  shows "svPc t = Crashed \<or> svPc t = Returned (Ok ()) \<and> \<not> svOpen t \<and> svConns t = {}
    \<and> (\<forall>c h. (c, h) \<in> set (svHandlers t) \<longrightarrow> h = Gone \<and> c \<in> svClosed t)"
proof -
  have c: "svCancelled t" using assms(3,2) by (induction rule: rtranclp_induct) (auto intro: own_step_cancelled)
  have inv: "serve_inv peers uid t" by (rule serves_inv [OF serves_steps [OF assms(1,3)]])
  from own_step_stuck [OF this c assms(4)] inv show ?thesis
    unfolding serve_inv_def by (auto simp: gomap_mem)
qed

section \<open>Listen\<close>

text \<open>
  What is at the socket path: nothing, something that no daemon answers on, or the socket of a daemon
  that answers. The system calls are parameters; the last component is what is there afterwards.
\<close>

datatype at_path = NoSocket | DeadSocket | LiveSocket

record listen_io =
  liMkdir :: "goerr option"
  liChmodDir :: "goerr option"
  liRemove :: "goerr option"
  liListen :: "goerr option"
  liChmod :: "goerr option"

definition daemon_wrap :: "goerr \<Rightarrow> 'a res" where
  "daemon_wrap e = Er (wrapf (lit ''daemon'') e)"

definition Listen :: "listen_io \<Rightarrow> bytes \<Rightarrow> at_path \<Rightarrow> unit res \<times> at_path" where
  "Listen w path at =
     (case liMkdir w of Some e \<Rightarrow> (daemon_wrap e, at) | None \<Rightarrow>
      case liChmodDir w of Some e \<Rightarrow> (daemon_wrap e, at) | None \<Rightarrow>
      if at = LiveSocket then
        (Er (Wrap (lit (daemon_err_text ErrAlreadyRunning @ '' on '' @ path)) [Sentinel (DaemonS ErrAlreadyRunning)]), at)
      else if at = DeadSocket \<and> liRemove w \<noteq> None then
        (Er (wrapf (lit ''daemon: remove stale socket'') (the (liRemove w))), at)
      else case liListen w of Some e \<Rightarrow> (daemon_wrap e, NoSocket) | None \<Rightarrow>
      case liChmod w of Some e \<Rightarrow> (daemon_wrap e, NoSocket) | None \<Rightarrow> (Ok (), LiveSocket))"

text \<open>A daemon that answers keeps its socket, and only a listener that was made replaces what was there.\<close>

lemma Listen_beside:
  "at = LiveSocket \<Longrightarrow> snd (Listen w path at) = LiveSocket \<and> fst (Listen w path at) \<noteq> Ok ()"
  by (auto simp: Listen_def daemon_wrap_def split: option.split)

lemma Listen_Ok: "Listen w path at = (Ok (), at') \<Longrightarrow> at \<noteq> LiveSocket \<and> at' = LiveSocket"
  by (auto simp: Listen_def daemon_wrap_def split: option.splits if_splits)

end
