(* ===== verification/Samples.thy ===== *)
theory Samples
  imports GitCredential DockerHelper ExecEnv Identity SecretCommands Config ServeLoop
begin

text \<open>
  Concrete instances of the parameters: an age library that tags what it encrypts with the key, an
  outside world in which nothing fails, an unlocked session and a vault file with one secret in it.
  The theorems of the development are applied to them.
\<close>

section \<open>An age library\<close>

definition tag :: "bool \<Rightarrow> char" where
  "tag i = (if i then CHR ''T'' else CHR ''F'')"

definition tag_age :: "bool age" where
  "tag_age = \<lparr> ageEncrypt = (\<lambda>i rnd p. Ok (tag i # p)),
     ageDecrypt = (\<lambda>i c. case c of [] \<Rightarrow> AgeError (New [F AgeText])
       | x # p \<Rightarrow> if x = tag i then Plain p else NoIdentityMatch),
     ageParse = (\<lambda>s. if s = ''T'' then Some True else if s = ''F'' then Some False else None),
     ageString = (\<lambda>i. [tag i]) \<rparr>"

lemma tag_age_laws [simp]: "age_laws tag_age"
  by (auto simp: age_laws_def tag_age_def tag_def)

section \<open>An outside world\<close>

definition calm_io :: io where
  "calm_io = \<lparr> ioSys = \<lparr> sysFault = (\<lambda>_. None), sysShort = 0, sysRandom = ''1'' \<rparr>, ioOpen = None,
     ioRandom = [], ioNow = zero_time, ioSecmem = None \<rparr>"

lemma UTC_zero [simp]: "UTC zero_time = zero_time"
  by (simp add: UTC_def zero_time_def)

lemma calm_io_simps [simp]:
  "ioOpen calm_io = None" "ioNow calm_io = zero_time" "ioSecmem calm_io = None"
  "sysFault (ioSys calm_io) c = None" "io_calm calm_io" "no_faults tag_age calm_io"
  by (simp_all add: calm_io_def io_calm_def no_faults_def tag_age_def time_ok_zero)

section \<open>A vault file\<close>

definition some_secret :: vsecret where
  "some_secret = \<lparr> vKind = ''token'', vValue = Some ''pw'', vAttributes = [],
     vCreated = zero_time, vUpdated = zero_time \<rparr>"

definition some_vault :: vault where
  "some_vault = \<lparr> vVersion = 1, vSecrets = [(''k'', Some some_secret)] \<rparr>"

definition some_path :: bytes where "some_path = ''/v''"

definition vault_fs :: "vault \<Rightarrow> fs" where
  "vault_fs v = [some_path \<mapsto> new_file (tag True # print_json (enc_vault v)) 384]"

lemma some_vault_ok [simp]: "vault_ok some_vault" "vVersion some_vault = Version" "no_nil some_vault"
  by (simp_all add: vault_ok_def some_vault_def Version_def int64_range_def vsecret_ok_def some_secret_def
      time_ok_zero no_nil_def)

lemma New_vault_ok [simp]: "vault_ok New_vault" "vVersion New_vault = Version" "no_nil New_vault"
  by (simp_all add: vault_ok_def New_vault_def no_nil_def)

lemma vault_fs_read:
  "vault_ok v \<Longrightarrow> vVersion v = Version \<Longrightarrow>
   Read_file tag_age calm_io some_path True (vault_fs v) = Ok (norm_vault v)"
  by (simp add: Read_file_def vault_fs_def new_file_def tag_age_def Decode_print)

lemma vault_fs_other:
  "Read_file tag_age calm_io some_path False (vault_fs v) = Er (Sentinel (VaultS ErrWrongIdentity))"
  by (simp add: Read_file_def vault_fs_def new_file_def tag_age_def tag_def)

lemma vault_fs_table:
  assumes "vault_ok v" and "vVersion v = Version" and "no_nil v"
  shows "secrets_at tag_age some_path True (vault_fs v) = Some (table v)"
  using read_secrets_at [OF vault_fs_read [OF assms(1,2)] no_nil_norm [OF assms(3)]]
  by (simp add: table_norm [OF assms(1)])

lemma some_table:
  "secrets_at tag_age some_path True (vault_fs some_vault)
    = Some [''k'' \<mapsto> (''token'', Some ''pw'', Map.empty, zero_time, zero_time)]"
proof -
  have "table some_vault = [''k'' \<mapsto> (''token'', Some ''pw'', Map.empty, zero_time, zero_time)]"
    by (simp add: fun_eq_iff table_def some_vault_def some_secret_def view_def)
  then show ?thesis by (simp add: vault_fs_table)
qed

lemma empty_table: "secrets_at tag_age some_path True (vault_fs New_vault) = Some Map.empty"
proof -
  have "table New_vault = Map.empty" by (simp add: fun_eq_iff table_def New_vault_def)
  then show ?thesis by (simp add: vault_fs_table)
qed

section \<open>A session and a configuration\<close>

definition open_session :: "bool session" where
  "open_session = NewSession\<lparr>sBuf := Some ''T'', sId := Some True, sGen := 1\<rparr>"

lemma open_session_simps [simp]:
  "sId open_session = Some True" "sBuf open_session = Some ''T''" "sReaders open_session = 0"
  "sTimer open_session = None" "session_inv open_session"
  by (simp_all add: open_session_def NewSession_def session_inv_def)

definition some_config :: config where
  "some_config = \<lparr> cfPath = some_path, cfDefaultFor = 0 \<rparr>"

lemma some_config_simps [simp]: "cfPath some_config = some_path" "cfDefaultFor some_config = 0"
  by (simp_all add: some_config_def)

lemma Parse_tag: "Parse tag_age ''T'' = Ok True"
proof -
  have "trim_space ''T'' = ''T''" by (rule trim_graphic) (simp_all add: graphic_def)
  then show ?thesis by (simp add: Parse_def tag_age_def)
qed

lemma Unlock_tag:
  "Unlock tag_age calm_io 0 ''T'' None NewSession = (Ok (), open_session, [NUL])"
  by (simp add: Unlock_def Parse_tag drop_session_def open_session_def NewSession_def Let_def zeroed_def)

lemma open_session_reach: "sreach tag_age 0 1 open_session"
  using sreach.unlocks [OF sreach.fresh _ Unlock_tag] by (simp add: NewSession_def)

definition armed_session :: "bool session" where
  "armed_session = fst (snd (Unlock tag_age calm_io 0 ''T'' (Some 60) NewSession))"

lemma Unlock_armed:
  "Unlock tag_age calm_io 0 ''T'' (Some 60) NewSession = (Ok (), armed_session, [NUL])"
  by (simp add: armed_session_def Unlock_def Parse_tag Let_def zeroed_def)

lemma armed_session_reach: "sreach tag_age 0 1 armed_session"
  using sreach.unlocks [OF sreach.fresh _ Unlock_armed] by (simp add: NewSession_def)

definition some_texts :: texts where
  "some_texts = \<lparr> txForeign = (\<lambda>_. ''error''), txQuote = (\<lambda>s. ''text'') \<rparr>"

definition some_wire :: wire where
  "some_wire = \<lparr> wrIo = (\<lambda>_. calm_io), wrWrites = (\<lambda>_. True) \<rparr>"

lemma some_wire_simps [simp]: "wrIo some_wire n = calm_io" "wrWrites some_wire n"
  by (simp_all add: some_wire_def)

lemma slug_token [simp]: "isSlug ''token''"
  by code_simp

lemma some_secret_ok [simp]: "secret_ok ''k'' ''token'' [] ''pw''"
proof -
  have "text_ok ''k''" by (rule text_ok_graphic) (simp_all add: graphic_def)
  then show ?thesis by (simp add: secret_ok_def attrs_ok_def)
qed

lemma text_ok_k [simp]: "text_ok ''k''"
  using some_secret_ok unfolding secret_ok_def by blast

lemma singleton_list: "distinct xs \<Longrightarrow> set xs = {a} \<Longrightarrow> xs = [a]"
  by (cases xs; cases "tl xs") auto

lemma sample_store:
  obtains d' where "Store_secret tag_age calm_io some_path open_session ''k'' ''token'' [] (Some ''pw'')
    (vault_fs New_vault) = (Ok (), d')"
proof -
  have "secret_ok ''k'' ''token'' [] (val_bytes (Some ''pw''))" by (simp add: val_bytes_def)
  from Store_succeeds [OF _ _ empty_table this gomap_ok_Nil, of calm_io open_session] that show thesis
    by (auto simp: time_ok_zero)
qed

section \<open>A git request\<close>

definition sample_input :: bytes where
  "sample_input = ''host=h'' @ [LF] @ ''username=u'' @ [LF] @ ''password=p'' @ [LF, LF]"

definition sample_req :: git_request where
  "sample_req = \<lparr> gqProtocol = [], gqHost = ''h'', gqUsername = ''u'', gqPath = [], gqPassword = Some ''p'' \<rparr>"

lemma scan_line:
  "LF \<notin> set l \<Longrightarrow> length l < k \<Longrightarrow>
   scan_lines k (l @ LF # rest) = (case scan_lines k rest of (ls, long) \<Rightarrow> (drop_cr l # ls, long))"
  by (subst scan_lines.simps) (simp add: cut_at_append)

lemma sample_scan:
  "scan_lines (1024 * 1024) sample_input = ([''host=h'', ''username=u'', ''password=p'', []], False)"
proof -
  let ?k = "1024 * 1024 :: nat"
  have "scan_lines ?k [] = ([], False)" by (subst scan_lines.simps) simp
  with scan_line [of "[]" ?k "[]"] have "scan_lines ?k [LF] = ([[]], False)" by (simp add: drop_cr_def)
  with scan_line [of "''password=p''" ?k "[LF]"]
  have "scan_lines ?k (''password=p'' @ [LF, LF]) = ([''password=p'', []], False)" by (simp add: drop_cr_def)
  with scan_line [of "''username=u''" ?k "''password=p'' @ [LF, LF]"]
  have "scan_lines ?k (''username=u'' @ LF # ''password=p'' @ [LF, LF]) = ([''username=u'', ''password=p'', []], False)"
    by (simp add: drop_cr_def)
  with scan_line [of "''host=h''" ?k "''username=u'' @ LF # ''password=p'' @ [LF, LF]"]
  show ?thesis by (simp add: drop_cr_def sample_input_def)
qed

lemma sample_parse: "parseGitRequest sample_input = Ok sample_req"
  unfolding parseGitRequest_def sample_scan
  by (simp add: git_field_def empty_git_def sample_req_def)


lemma sample_git_secret:
  "secret_ok (gitName sample_req) gitKind (gitAttrs sample_req) (val_bytes (Some ''p''))"
proof -
  have g: "graphic (CHR ''h'')" "graphic (CHR ''u'')" by (simp_all add: graphic_def)
  have t: "text_ok ''h''" "text_ok ''u''" "text_ok ''git/h/u''"
    by (rule text_ok_graphic; simp add: graphic_def)+
  have s: "isSlug gitKind" "isSlug ''host''" "isSlug ''username''" by code_simp+
  show ?thesis
    by (simp add: secret_ok_def gitName_def gitAttrs_def git_wants_def sample_req_def attrs_ok_def t s val_bytes_def)
qed

lemma sample_live: "daemon_live tag_age calm_io some_path (open_session, vault_fs New_vault)"
  "daemon_table tag_age some_path (open_session, vault_fs New_vault) = Map.empty"
  by (simp_all add: daemon_live_def daemon_table_def empty_table)

lemma sample_git_store:
  obtains st' where "gitCredentialStore (daemon_client tag_age calm_io some_path) [] sample_input
      (open_session, vault_fs New_vault) = (success [], st')"
proof -
  let ?c = "daemon_client tag_age calm_io some_path" and ?st = "(open_session, vault_fs New_vault)"
  have ok: "attrs_ok (dAttributes (git_secret sample_req))"
    using sample_git_secret by (simp add: secret_ok_def git_secret_def)
  have "plain_filter (git_filter sample_req)"
    by (rule daemon.plain_git_filter [OF git_secret_fits _ ok]) (simp add: sample_req_def)
  from daemon.list_live [OF sample_live(1) this] obtain xs where xs: "clList ?c (git_filter sample_req) ?st = Ok xs"
    and l: "lists (daemon_table tag_age some_path ?st) (git_filter sample_req) xs" by blast
  from listsD(2) [OF l] have "xs = []" by (cases xs) (auto simp: sample_live(2))
  then have m: "gitMatch ?c ?st sample_req = Er (Sentinel (GitS ErrNoMatch))"
    by (simp add: gitMatch_def xs matchGitCredential_def)
  have "secret_ok (gitName sample_req) gitKind (gitAttrs sample_req) (val_bytes (gqPassword sample_req))"
    using sample_git_secret by (simp add: sample_req_def)
  from Store_succeeds [OF _ _ empty_table this gomap_ok_gitAttrs, of calm_io open_session] obtain d'
    where "Store_secret tag_age calm_io some_path open_session (gitName sample_req) gitKind (gitAttrs sample_req)
      (gqPassword sample_req) (vault_fs New_vault) = (Ok (), d')" by (auto simp: time_ok_zero)
  then have s: "clStore ?c (git_secret sample_req\<lparr>dValue := gqPassword sample_req\<rparr>) ?st = (Ok (), open_session, d')"
    by (simp add: daemon_client_def git_secret_def sample_req_def)
  have "gitCredentialStore ?c [] sample_input ?st = (success [], open_session, d')"
    using m s by (simp add: gitCredentialStore_def noArgs_def git_request_or_end_def sample_parse Let_def
        val_bytes_def sample_req_def daemon_client_def)
  then show thesis by (rule that)
qed

section \<open>A docker login\<close>

definition sample_login :: bytes where
  "sample_login = writeCredential ''h'' ''u'' ''p''"

definition sample_store_request :: store_request where
  "sample_store_request =
     \<lparr> srServerURL = ''h'', srUsername = ''u'', srSecret = Some (JStr (quote_loop ''p'')) \<rparr>"

lemma sample_login_text: "sample_login = ''{\"ServerURL\":\"h\",\"Username\":\"u\",\"Secret\":\"p\"}'' @ [LF]"
  by code_simp

lemma sample_login_read: "readStoreRequest sample_login = Ok sample_store_request"
proof -
  have "length (print_json (credential_json ''h'' ''u'' ''p'') @ [LF]) \<le> maxRequest"
    using sample_login_text by (simp add: sample_login_def writeCredential_eq maxRequest_def)
  then show ?thesis
    using readStoreRequest_print [of "''h''" "''u''" "''p''" "[LF]"]
    by (simp add: sample_login_def writeCredential_eq sample_store_request_def)
qed

lemma sample_secret_unquoted: "unquote (print_json (the (srSecret sample_store_request))) = Ok ''p''"
  by (simp add: sample_store_request_def stored_secret_unquoted)

lemma sample_server: "readServerURL ''h'' = Ok ''h''"
proof -
  have "trim_space ''h'' = ''h''" by (rule trim_graphic) (simp_all add: graphic_def)
  then show ?thesis by (simp add: readServerURL_def maxRequest_def)
qed

lemma sample_docker_store:
  obtains st' where "docker_store (daemon_client tag_age calm_io some_path) sample_login
      (open_session, vault_fs New_vault) = (success [], st')"
proof -
  let ?c = "daemon_client tag_age calm_io some_path" and ?st = "(open_session, vault_fs New_vault)"
  have t: "text_ok ''h''" "text_ok ''u''" "text_ok ''docker/h''"
    by (rule text_ok_graphic; simp add: graphic_def)+
  have s: "isSlug docker_kind" "isSlug ''server''" "isSlug ''username''" by code_simp+
  from daemon.list_live [OF sample_live(1) plain_docker_filter [OF t(1)]] obtain xs
    where xs: "clList ?c (docker_filter ''h'') ?st = Ok xs"
    and l: "lists (daemon_table tag_age some_path ?st) (docker_filter ''h'') xs" by blast
  from listsD(2) [OF l] have "xs = []" by (cases xs) (auto simp: sample_live(2))
  then have m: "docker_match ?c ?st ''h'' = Er (Sentinel (DockerS DkErrNoMatch))"
    by (simp add: docker_match_def xs)
  have n: "secretName ''h'' = ''docker/h''" by code_simp
  let ?attrs = "[(''server'', ''h''), (''username'', ''u'')]"
  have "secret_ok ''docker/h'' docker_kind ?attrs (val_bytes (Some ''p''))"
    using t s by (simp add: secret_ok_def attrs_ok_def val_bytes_def)
  from Store_succeeds [OF _ _ empty_table this, of calm_io open_session] obtain d'
    where "Store_secret tag_age calm_io some_path open_session ''docker/h'' docker_kind ?attrs
      (Some ''p'') (vault_fs New_vault) = (Ok (), d')" by (auto simp: time_ok_zero)
  then have "docker_send ?c ''u'' ''p'' (docker_secret ''h'') ?st = (success [], open_session, d')"
    by (simp add: docker_send_def docker_secret_def daemon_client_def n)
  with m have "docker_store ?c sample_login ?st = (success [], open_session, d')"
    using sample_secret_unquoted
    by (simp add: docker_store_def sample_login_read daemon_client_def sample_store_request_def)
  then show thesis by (rule that)
qed

section \<open>A command run with a secret\<close>

definition sample_exec :: exec_system where
  "sample_exec = \<lparr> xOpen = (\<lambda>_. Er no_such_file), xLookPath = (\<lambda>_. Ok ''/bin/sh''),
     xExec = (\<lambda>_ _ _. None), xEnviron = [''H=1''] \<rparr>"

lemma sample_entry: "parseEnvEntry ''A=k'' = Ok \<lparr> evVar = ''A'', evName = ''k'' \<rparr>"
proof -
  have "trim_space ''A'' = ''A''" "trim_space ''k'' = ''k''"
    by (rule trim_graphic; simp add: graphic_def)+
  moreover have "validEnvVar ''A''" by code_simp
  ultimately show ?thesis by (simp add: parseEnvEntry_def)
qed

lemma sample_entry_x: "parseEnvEntry ''A=x'' = Ok \<lparr> evVar = ''A'', evName = ''x'' \<rparr>"
proof -
  have "trim_space ''A'' = ''A''" "trim_space ''x'' = ''x''"
    by (rule trim_graphic; simp add: graphic_def)+
  moreover have "validEnvVar ''A''" by code_simp
  ultimately show ?thesis by (simp add: parseEnvEntry_def)
qed

lemma sample_exec_mapping:
  "execMapping (xOpen sample_exec) None [''A=k''] = Ok [\<lparr> evVar = ''A'', evName = ''k'' \<rparr>]"
  by (simp add: execMapping_def sample_exec_def no_such_file_def parseEnvMapping_def sample_entry)

text \<open>The daemon after \<open>k\<close> was stored.\<close>

lemma sample_stored:
  obtains st y where "daemon_live tag_age calm_io some_path st" and "fst st = open_session"
    and "clGet (daemon_client tag_age calm_io some_path) ''k'' st = Ok y" and "dValue y = Some ''pw''"
    and "dKind y = ''token''" and "dAttributes y = []" and "dName y = ''k''"
    and "\<And>n. n \<noteq> ''k'' \<Longrightarrow> daemon_table tag_age some_path st n = None"
    and "daemon_table tag_age some_path st ''k'' \<noteq> None"
proof -
  let ?c = "daemon_client tag_age calm_io some_path" and ?st = "(open_session, vault_fs New_vault)"
  let ?x = "\<lparr> dName = ''k'', dKind = ''token'', dAttributes = [], dValue = Some ''pw'',
    dCreated = zero_time, dUpdated = zero_time \<rparr>"
  from sample_store obtain d' where "Store_secret tag_age calm_io some_path open_session ''k'' ''token'' []
      (Some ''pw'') (vault_fs New_vault) = (Ok (), d')" .
  then have s: "clStore ?c ?x ?st = (Ok (), open_session, d')" by (simp add: daemon_client_def)
  from daemon.store_live [OF sample_live(1) _ s] obtain created now
    where l: "daemon_live tag_age calm_io some_path (open_session, d')"
      and t: "daemon_table tag_age some_path (open_session, d')
        = [''k'' \<mapsto> (''token'', Some ''pw'', Map.empty, created, now)]"
    by (auto simp: sample_live(2))
  from daemon.get_live [OF l text_ok_k] t obtain y where
    y: "clGet ?c ''k'' (open_session, d') = Ok y" "dName y = ''k''"
      "out_view y = (''token'', Some ''pw'', Map.empty, created, now)" by auto
  have "dAttributes y = []"
    using y(3) by (cases "dAttributes y") (auto simp: out_view_def fun_eq_iff split: if_splits)
  then show thesis using that [OF l _ y(1)] y t by (simp add: out_view_def)
qed

lemma sample_resolve:
  assumes "clGet (daemon_client tag_age calm_io some_path) ''k'' st = Ok y" and "dValue y = Some ''pw''"
  shows "resolveEnv (daemon_client tag_age calm_io some_path) st [\<lparr> evVar = ''A'', evName = ''k'' \<rparr>] = Inr [''A=pw'']"
proof -
  have "clConnect (daemon_client tag_age calm_io some_path) st = Ok ()" by (simp add: daemon_client_def)
  moreover have "exec_secret ''A'' y = ''A=pw''" using assms(2) by (simp add: exec_secret_def val_bytes_def)
  ultimately show ?thesis using assms(1) by (simp add: resolveEnv_def)
qed

lemma sample_exec_run:
  obtains st where "execCmd (daemon_client tag_age calm_io some_path) sample_exec False None [''A=k''] [''sh''] st
    = Replaced ''/bin/sh'' [''sh''] [''H=1'', ''A=pw'']"
proof -
  from sample_stored obtain st y where "clGet (daemon_client tag_age calm_io some_path) ''k'' st = Ok y"
    "dValue y = Some ''pw''" by metis
  from that [of st] sample_resolve [OF this] show thesis
    by (simp add: execCmd_def sample_exec_mapping execve_def)
      (simp add: sample_exec_def mergeEnv_def env_key_def)
qed

lemma sample_exec_dry:
  obtains st where "execCmd (daemon_client tag_age calm_io some_path) sample_exec True None [''A=k''] [''sh''] st
      = Exited (success (''A <- k'' @ [LF])) [zeroed ''A=pw'']"
    and "\<forall>n. clGet (daemon_client tag_age calm_io some_path) n st \<noteq> Panic"
proof -
  from sample_stored obtain st y where l: "daemon_live tag_age calm_io some_path st"
    and y: "clGet (daemon_client tag_age calm_io some_path) ''k'' st = Ok y" "dValue y = Some ''pw''" by metis
  have "clGet (daemon_client tag_age calm_io some_path) n st \<noteq> Panic" for n
  proof (cases st)
    case (Pair s d)
    from daemon_liveE [OF l [unfolded Pair]] obtain i T where "sId s = Some i"
      "secrets_at tag_age some_path i d = Some T" by metis
    from Get_no_panic [OF this(2) _ this(1), of calm_io n] show ?thesis
      by (cases "fst (Get tag_age calm_io some_path s n d)")
        (auto simp: daemon_client_def Pair calm_io_def)
  qed
  with that [of st] sample_resolve [OF y] show thesis
    by (simp add: execCmd_def sample_exec_mapping dry_lines_def clearEnv_def)
qed

section \<open>An identity directory\<close>

text \<open>A passphrase is written before what it encrypts, each byte of it behind a plus sign.\<close>

fun seal :: "bytes \<Rightarrow> bytes \<Rightarrow> bytes" where
  "seal [] x = CHR ''.'' # x"
| "seal (c # p) x = CHR ''+'' # c # seal p x"

fun unseal :: "bytes \<Rightarrow> (bytes \<times> bytes) option" where
  "unseal (a # c # r) =
     (if a = CHR ''+'' then map_option (apfst ((#) c)) (unseal r) else Some ([], c # r))"
| "unseal [a] = Some ([], [])"
| "unseal [] = None"

lemma unseal_seal [simp]: "unseal (seal p x) = Some (p, x)"
proof (induction p)
  case Nil
  show ?case by (cases x) simp_all
qed simp

definition tag_pass :: "bool pass_age" where
  "tag_pass = \<lparr> paRecipient = (\<lambda>_. None), paEncrypt = (\<lambda>p rnd x. Ok (seal p x)),
     paIdentity = (\<lambda>_. None),
     paDecrypt = (\<lambda>p c. case unseal c of None \<Rightarrow> AgeError (New [F AgeText])
       | Some (q, x) \<Rightarrow> if q = p then Plain x else NoIdentityMatch),
     paGenerate = (\<lambda>rnd. Ok True) \<rparr>"

lemma tag_pass_laws [simp]: "pass_laws tag_pass"
  by (simp add: pass_laws_def tag_pass_def)

definition calm_id :: id_io where
  "calm_id = \<lparr> idMkdir = None, idStat = (\<lambda>_. None), idOpen = (\<lambda>_. None), idSys = ioSys calm_io,
     idRemove = None, idRandom = [], idVault = calm_io \<rparr>"

lemma calm_id_simps [simp]: "id_calm calm_id" "idOpen calm_id p = None" "idStat calm_id p = None"
  by (simp_all add: calm_id_def id_calm_def)

lemma tag_key_text [simp]: "key_text tag_age"
proof -
  have "trim_space [tag i] = [tag i]" for i by (rule trim_graphic) (simp_all add: graphic_def tag_def)
  then show ?thesis by (simp add: key_text_def tag_age_def)
qed

lemma calm_write:
  obtains d' where "atomicfile_Write (ioSys calm_io) path data perm backup d = (Ok (), d')"
  using Write_keeps_backup [of "ioSys calm_io" path data perm backup d] by auto

text \<open>A directory that holds the key under the passphrase \<open>pw\<close>.\<close>

definition sealed_fs :: fs where
  "sealed_fs = [in_dir ''/k'' EncryptedFile \<mapsto> new_file (seal ''pw'' ''T'') 384]"

lemma sealed_fs_holds: "sealed tag_pass sealed_fs (in_dir ''/k'' EncryptedFile) ''pw'' ''T''"
  by (simp add: sealed_def sealed_fs_def new_file_def tag_pass_def)

lemma sealed_fs_plain: "sealed_fs (in_dir ''/k'' PlainFile) = None"
  by (simp add: sealed_fs_def)

lemma sample_change:
  obtains d' where "ChangePassphrase tag_age tag_pass calm_id ''/k'' (Some ''pw'') ''new'' sealed_fs
    = (Ok (), (Some (zeroed ''pw''), zeroed ''new''), d')"
proof -
  have f: "idOpen calm_id (in_dir ''/k'' EncryptedFile) = None" by simp
  have e: "sealed_fs (in_dir ''/k'' EncryptedFile) \<noteq> None" by (simp add: sealed_fs_def)
  have t: "trim_space ''T'' = ''T''" by (rule trim_graphic) (simp_all add: graphic_def)
  have "Load tag_age tag_pass calm_id ''/k'' (Some ''pw'') sealed_fs
    = LoadFile tag_age tag_pass calm_id (in_dir ''/k'' EncryptedFile) (Some ''pw'') sealed_fs"
    by (rule Load_calm(1)) (simp_all add: e sealed_fs_plain)
  also have "\<dots> = (validate_key tag_age ''T'', Some (zeroed ''pw''))"
    by (rule LoadFile_sealed(1) [OF tag_pass_laws sealed_fs_holds f]) simp
  also have "validate_key tag_age ''T'' = Ok ''T''" by (simp add: validate_key_def t Parse_tag)
  finally have l: "load_form tag_age tag_pass calm_id ''/k'' FormEncrypted (Some ''pw'') sealed_fs
      = (Ok ''T'', Some (zeroed ''pw''))"
    using e by (simp add: load_form_def Detect_calm sealed_fs_plain)
  obtain d' where "atomicfile_Write (ioSys calm_io) (in_dir ''/k'' EncryptedFile) (seal ''new'' ''T'') 384 True
      sealed_fs = (Ok (), d')"
    by (rule calm_write)
  then have "WriteEncrypted tag_pass calm_id (in_dir ''/k'' EncryptedFile) ''T'' ''new'' sealed_fs = (Ok (), d')"
    by (simp add: WriteEncrypted_def tag_pass_def calm_id_def)
  with that l show thesis by (simp add: ChangePassphrase_def)
qed

lemma sample_init:
  assumes "p0 \<noteq> []"
  obtains d' where "Init tag_age tag_pass calm_id ''/k'' (Some p0) Map.empty = (Ok (), Some (zeroed p0), d')"
proof -
  have D: "Detect calm_id ''/k'' Map.empty = Ok FormNone" by (simp add: Detect_calm)
  have g: "Generate tag_age tag_pass (idRandom calm_id) = Ok ''T''"
    by (simp add: Generate_def tag_pass_def tag_age_def tag_def)
  obtain d1 where "atomicfile_Write (ioSys calm_io) (in_dir ''/k'' EncryptedFile) (seal p0 ''T'') 384 True
      Map.empty = (Ok (), d1)"
    by (rule calm_write)
  then have w: "WriteEncrypted tag_pass calm_id (in_dir ''/k'' EncryptedFile) ''T'' p0 Map.empty = (Ok (), d1)"
    using assms by (simp add: WriteEncrypted_def tag_pass_def calm_id_def)
  obtain p where p: "Encode New_vault = Ok p" using Encode_Ok [OF New_vault_ok(1)] by blast
  obtain d2 where "atomicfile_Write (ioSys calm_io) (in_dir ''/k'' VaultName) (tag True # p) 384 True d1 = (Ok (), d2)"
    by (rule calm_write)
  then have v: "Write_file tag_age (idVault calm_id) (in_dir ''/k'' VaultName) True New_vault d1 = (Ok (), d2)"
    by (simp add: Write_file_def p tag_age_def calm_id_def)
  have "idMkdir calm_id = None" "exists_file calm_id (in_dir ''/k'' VaultName) Map.empty = False"
    by (simp_all add: calm_id_def exists_file_def)
  with D g w v that show thesis by (simp add: Init_def Parse_tag wiped_def)
qed

section \<open>Commands\<close>

definition sample_ce :: cmd_env where
  "sample_ce = \<lparr> ceInTerminal = False, ceOutTerminal = False, ceStdin = Ok (''pw'' @ [LF]),
     cePrompt = (\<lambda>_ _. Ok ''pw''), ceReadFile = (\<lambda>_. Ok (with_LF (print_json (enc_vault some_vault)))),
     ceLocal = (\<lambda>_. []) \<rparr>"

definition no_control :: "'st control" where
  "no_control = \<lparr> ctStatus = (\<lambda>_. Er eof), ctUnlock = (\<lambda>_ st. (Er eof, st)),
     ctUnlockFor = (\<lambda>_ _ st. (Er eof, st)), ctLock = (\<lambda>st. (Er eof, st)) \<rparr>"

lemma sample_store_client:
  obtains d' where "clStore (daemon_client tag_age calm_io some_path) \<lparr> dName = ''k'', dKind = ''token'',
      dAttributes = [], dValue = Some ''pw'', dCreated = zero_time, dUpdated = zero_time \<rparr>
      (open_session, vault_fs New_vault) = (Ok (), open_session, d')"
proof -
  from sample_store obtain d' where "Store_secret tag_age calm_io some_path open_session ''k'' ''token'' []
      (Some ''pw'') (vault_fs New_vault) = (Ok (), d')" .
  with that show thesis by (simp add: daemon_client_def)
qed

lemma sample_store_cmd:
  obtains st' where "store_cmd (daemon_client tag_age calm_io some_path) no_control sample_ce [''k''] ''token'' []
      False (open_session, vault_fs New_vault) = (success [], st')"
proof -
  obtain d' where d': "clStore (daemon_client tag_age calm_io some_path) \<lparr> dName = ''k'', dKind = ''token'',
      dAttributes = [], dValue = Some ''pw'', dCreated = zero_time, dUpdated = zero_time \<rparr>
      (open_session, vault_fs New_vault) = (Ok (), open_session, d')" by (rule sample_store_client)
  have c: "clConnect (daemon_client tag_age calm_io some_path) st = Ok ()" for st
    by (simp add: daemon_client_def)
  have v: "store_value sample_ce ''k'' = Ok ''pw''" by (simp add: store_value_def sample_ce_def)
  have k: "store_check (daemon_client tag_age calm_io some_path) no_control sample_ce ''k'' False st = None" for st
    by (simp add: store_check_def sample_ce_def)
  show thesis by (rule that, simp add: store_cmd_def oneArg_def parseAttrs_def c v k d')
qed

text \<open>The daemon whose vault holds \<open>k\<close>, and what is exported from it.\<close>

lemma full_live: "daemon_live tag_age calm_io some_path (open_session, vault_fs some_vault)"
  "daemon_table tag_age some_path (open_session, vault_fs some_vault)
    = [''k'' \<mapsto> (''token'', Some ''pw'', Map.empty, zero_time, zero_time)]"
  by (simp_all add: daemon_live_def daemon_table_def some_table)

lemma sample_listing:
  obtains x where "clList (daemon_client tag_age calm_io some_path) any_filter
    (open_session, vault_fs some_vault) = Ok [x]" and "dName x = ''k''"
proof -
  obtain xs where xs: "clList (daemon_client tag_age calm_io some_path) any_filter
      (open_session, vault_fs some_vault) = Ok xs"
    and l: "lists [''k'' \<mapsto> (''token'', Some ''pw'', Map.empty, zero_time, zero_time)] any_filter xs"
    using daemon.list_live [OF full_live(1), of any_filter] full_live(2)
    by (auto simp: any_filter_def plain_filter_def attrs_ok_def)
  have "''k'' \<in> dName ` set xs" by (rule listsD(1) [OF l]) (simp_all add: selects_def any_filter_def)
  moreover have "set (map dName xs) \<subseteq> {''k''}"
    using listsD(2) [OF l] by (fastforce split: if_splits)
  ultimately have "map dName xs = [''k'']"
    using listsD(5) [OF l] by (cases "map dName xs"; cases "tl (map dName xs)") auto
  then obtain x where "xs = [x]" "dName x = ''k''" by (cases xs) auto
  with that xs show thesis by simp
qed

lemma sample_full_get:
  "clGet (daemon_client tag_age calm_io some_path) ''k'' (open_session, vault_fs some_vault)
    = Ok \<lparr> dName = ''k'', dKind = ''token'', dAttributes = [], dValue = Some ''pw'',
        dCreated = zero_time, dUpdated = zero_time \<rparr>"
proof -
  obtain y where y: "clGet (daemon_client tag_age calm_io some_path) ''k'' (open_session, vault_fs some_vault) = Ok y"
    "dName y = ''k''" "out_view y = (''token'', Some ''pw'', Map.empty, zero_time, zero_time)"
    using daemon.get_live [OF full_live(1) text_ok_k] full_live(2) by auto
  have "dAttributes y = []"
    using y(3) by (cases "dAttributes y") (auto simp: out_view_def fun_eq_iff split: if_splits)
  with y show ?thesis by (cases y) (simp add: out_view_def)
qed

lemma sample_export:
  "export_cmd (daemon_client tag_age calm_io some_path) [] (open_session, vault_fs some_vault)
    = success (with_LF (print_json (enc_vault some_vault)))"
proof -
  let ?c = "daemon_client tag_age calm_io some_path" and ?st = "(open_session, vault_fs some_vault)"
  obtain x where x: "clList ?c any_filter ?st = Ok [x]" "dName x = ''k''" by (rule sample_listing)
  have c: "clConnect ?c ?st = Ok ()" by (simp add: daemon_client_def)
  have "export_loop ?c ?st [x] New_vault = Ok (New_vault\<lparr>vSecrets := AList.update ''k'' (Some some_secret) (vSecrets New_vault)\<rparr>)"
    by (simp add: x sample_full_get some_secret_def)
  also have "New_vault\<lparr>vSecrets := AList.update ''k'' (Some some_secret) (vSecrets New_vault)\<rparr> = some_vault"
    by (simp add: New_vault_def some_vault_def Version_def)
  finally have "export_loop ?c ?st [x] New_vault = Ok some_vault" .
  with x c show ?thesis
    by (simp add: export_cmd_def noArgs_def Encode_Ok)
qed

lemma sample_import:
  obtains st' where "import_cmd (daemon_client tag_age calm_io some_path) sample_ce [''f''] False
      (open_session, vault_fs New_vault) = (success [], st')"
    and "readImport sample_ce ''f'' = Ok (with_LF (print_json (enc_vault some_vault)))"
proof -
  have r: "readImport sample_ce ''f'' = Ok (with_LF (print_json (enc_vault some_vault)))"
    by (simp add: readImport_def sample_ce_def)
  have "norm_vault some_vault = some_vault"
    by (simp add: Version_def norm_vault_def some_vault_def some_secret_def norm_secret_def)
  with Decode_line [OF some_vault_ok(1) _ Encode_Ok [OF some_vault_ok(1)]] some_vault_ok(2)
  have d: "Decode (with_LF (print_json (enc_vault some_vault))) = Ok some_vault" by simp
  obtain d' where d': "clStore (daemon_client tag_age calm_io some_path) \<lparr> dName = ''k'', dKind = ''token'',
      dAttributes = [], dValue = Some ''pw'', dCreated = zero_time, dUpdated = zero_time \<rparr>
      (open_session, vault_fs New_vault) = (Ok (), open_session, d')" by (rule sample_store_client)
  have c: "clConnect (daemon_client tag_age calm_io some_path) st = Ok ()" for st
    by (simp add: daemon_client_def)
  have "sort_key fst (vSecrets some_vault) = [(''k'', Some some_secret)]" by (simp add: some_vault_def)
  moreover have "wipe_at_exit some_vault x = x" for x :: "cmd_out \<times> bool session \<times> fs"
    by (simp add: wipe_at_exit_def Wipe_def wipe_secrets_eq some_vault_def)
  ultimately have "import_cmd (daemon_client tag_age calm_io some_path) sample_ce [''f''] False
      (open_session, vault_fs New_vault) = (success [], open_session, d')"
    using r d d' c by (simp add: import_cmd_def some_secret_def success_def)
  with that r show thesis by blast
qed

section \<open>A server and its connections\<close>

text \<open>Requests to unlock with the key \<open>x\<close>; \<open>T\<close> opens the vault and \<open>F\<close> does not.\<close>

definition unlock_with :: "bytes \<Rightarrow> request" where
  "unlock_with x = \<lparr> rqId = None, rqMethod = MethodUnlock,
     rqParams = Some (enc_unlock_params \<lparr> upIdentity = Some x, upFor = None \<rparr>) \<rparr>"

definition unlocked_by :: "bool \<Rightarrow> bool session \<Rightarrow> bool session" where
  "unlocked_by i s = (drop_session s)\<lparr>sBuf := Some [tag i], sId := Some i, sGen := sGen s + 1\<rparr>"

lemma Parse_tag_of: "Parse tag_age [tag i] = Ok i"
proof -
  have "trim_space [tag i] = [tag i]" by (rule trim_graphic) (simp_all add: graphic_def tag_def)
  then show ?thesis by (simp add: Parse_def tag_age_def tag_def)
qed

lemma sGen_drop [simp]: "sGen (drop_session s) = sGen s"
  by (simp add: drop_session_def stop_timer_def split: option.split)

lemma begin_unlock:
  "begin_call tag_age X calm_io some_config (unlock_with [tag i]) (s, d) = MustVerify (unlocked_by i s)"
proof -
  have "Bind (unlock_with [tag i]) unlock_fields zero_unlock = Ok \<lparr> upIdentity = Some [tag i], upFor = None \<rparr>"
    unfolding unlock_with_def by (rule Bind_unlock) simp_all
  moreover have "Unlock tag_age calm_io 0 [tag i] None s = (Ok (), unlocked_by i s, zeroed [tag i])"
    by (simp add: Unlock_def Parse_tag_of unlocked_by_def)
  ultimately show ?thesis
    by (simp add: begin_call_def val_bytes_def lock_after_def) (simp add: unlock_with_def)
qed

lemma verify_right:
  assumes "sId s = Some True"
  obtains r where "verify_unlock tag_age X calm_io some_config (unlock_with x) (s, vault_fs some_vault)
      = Answered r (s, vault_fs some_vault)" and "rsError r = None"
proof -
  have "no_nil (norm_vault some_vault)" by (rule no_nil_norm) simp
  with assms have "verifyIdentity tag_age calm_io some_config s (vault_fs some_vault) = Ok ()"
    by (simp add: verify_eq [where i = True] vault_fs_read)
  moreover obtain raw where "NewResult (rqId (unlock_with x)) REmpty
      = Ok \<lparr> rsId = None, rsResult = Some raw, rsError = None \<rparr>"
    by (simp add: NewResult_def unlock_with_def)
  ultimately show thesis using that by (simp add: verify_unlock_def)
qed

lemma verify_wrong:
  assumes "sId s = Some False"
  obtains e where "verify_unlock tag_age X calm_io some_config q (s, vault_fs some_vault) = MustLock e"
  using that assms by (simp add: verify_unlock_def verify_eq [where i = False] vault_fs_other)

abbreviation sample_step :: "agent \<Rightarrow> bool serving \<Rightarrow> bool serving \<Rightarrow> bool" where
  "sample_step \<equiv> serve_step tag_age some_texts some_config (\<lambda>c. call_ok 0) 0"

abbreviation sample_serves :: "bool serving \<Rightarrow> bool" where
  "sample_serves \<equiv> serves tag_age some_texts some_config (\<lambda>c. call_ok 0) 0 NewSession (vault_fs some_vault)"

text \<open>Connection 1 asks with the wrong key, connection 2 with the right one.\<close>

definition two_requests :: "bool serving" where
  "two_requests = goes 2 (InCall (unlock_with ''T'')) (goes 1 (InCall (unlock_with ''F''))
     (track 2 True (goes 2 Reading (track 1 True (goes 1 Reading (serve_start NewSession (vault_fs some_vault)))))))"

lemma two_requests_served: "sample_serves two_requests"
proof -
  let ?s0 = "serve_start NewSession (vault_fs some_vault) :: bool serving"
  let ?s1 = "track 1 True (goes 1 Reading ?s0)"
  let ?s2 = "track 2 True (goes 2 Reading ?s1)"
  let ?s3 = "goes 1 (InCall (unlock_with ''F'')) ?s2"
  have "sample_step World ?s0 ?s1" "sample_step World ?s1 ?s2"
    by (rule serve_step.accept; simp add: serve_start_def)+
  moreover have "sample_step World ?s2 ?s3" "sample_step World ?s3 two_requests"
    unfolding two_requests_def by (rule serve_step.request; simp add: serve_start_def)+
  ultimately show ?thesis by (meson serves.intros)
qed

lemma two_requests_simps [simp]:
  "svPc two_requests = Accepting" "svSession two_requests = NewSession" "svFs two_requests = vault_fs some_vault"
  "map_of (svHandlers two_requests) 1 = Some (InCall (unlock_with ''F''))"
  "map_of (svHandlers two_requests) 2 = Some (InCall (unlock_with ''T''))"
  by (simp_all add: two_requests_def serve_start_def)

lemma tag_texts: "''T'' = [tag True]" "''F'' = [tag False]"
  by (simp_all add: tag_def)


lemma begin_F: "begin_call tag_age X calm_io some_config (unlock_with ''F'') (s, d) = MustVerify (unlocked_by False s)"
  and begin_T: "begin_call tag_age X calm_io some_config (unlock_with ''T'') (s, d) = MustVerify (unlocked_by True s)"
  by (simp_all only: tag_texts begin_unlock)

text \<open>Connection 1 has sent the wrong key to the session.\<close>

definition wrong_sent :: "bool serving" where
  "wrong_sent = goes 1 (Verifying (unlock_with ''F'')) two_requests\<lparr>svSession := unlocked_by False NewSession\<rparr>"

lemma wrong_sent_step: "sample_step Own two_requests wrong_sent"
proof -
  have "running (svPc two_requests)" by simp
  from serve_step.calls [OF this two_requests_simps(4), of tag_age some_texts some_config "\<lambda>c. call_ok 0" 0 calm_io]
  show ?thesis by (simp add: begin_F wrong_sent_def)
qed

lemma wrong_sent_simps [simp]:
  "svPc wrong_sent = Accepting" "svSession wrong_sent = unlocked_by False NewSession" "svFs wrong_sent = vault_fs some_vault"
  "map_of (svHandlers wrong_sent) 1 = Some (Verifying (unlock_with ''F''))"
  "map_of (svHandlers wrong_sent) 2 = Some (InCall (unlock_with ''T''))"
  by (simp_all add: wrong_sent_def update_conv')

text \<open>An order in which the wrong key is answered with success.\<close>

lemma race_wrong_key:
  "\<exists>t r. (sample_step Own ^^ 3) two_requests t
    \<and> map_of (svHandlers t) 1 = Some (Writing r) \<and> rsError r = None"
proof -
  let ?F = "unlock_with ''F''" and ?T = "unlock_with ''T''"
  define s2 where "s2 = goes 2 (Verifying ?T) wrong_sent\<lparr>svSession := unlocked_by True (svSession wrong_sent)\<rparr>"
  have run: "running (svPc wrong_sent)" by simp
  have 2: "sample_step Own wrong_sent s2"
    using serve_step.calls [OF run wrong_sent_simps(5), of tag_age some_texts some_config "\<lambda>c. call_ok 0" 0 calm_io]
    by (simp add: s2_def begin_T)
  have "sId (svSession s2) = Some True" by (simp add: s2_def unlocked_by_def)
  then obtain r where r: "verify_unlock tag_age some_texts calm_io some_config ?F (svSession s2, vault_fs some_vault)
      = Answered r (svSession s2, vault_fs some_vault)" "rsError r = None" by (rule verify_right)
  note wrong_sent_simps(4) [unfolded One_nat_def, simp]
  have fs: "svFs s2 = vault_fs some_vault" "running (svPc s2)" "map_of (svHandlers s2) 1 = Some (Verifying ?F)"
    by (simp_all add: s2_def update_conv')
  have 3: "sample_step Own s2 (goes 1 (Writing r) s2\<lparr>svSession := svSession s2, svFs := svFs s2\<rparr>)"
    using serve_step.verifies [OF fs(2,3), of tag_age some_texts some_config "\<lambda>c. call_ok 0" 0 calm_io] r fs(1) by simp
  from wrong_sent_step 2 3 have "(sample_step Own ^^ 3) two_requests (goes 1 (Writing r) s2\<lparr>svSession := svSession s2, svFs := svFs s2\<rparr>)"
    by (auto simp: eval_nat_numeral)
  with r(2) show ?thesis by (intro exI conjI) (assumption, simp add: update_conv')
qed

lemma five_steps:
  assumes "R a b" and "R b c" and "R c d" and "R d e" and "R e f"
  shows "(R ^^ 5) a f"
proof -
  from assms(1,2) have "(R ^^ Suc (Suc 0)) a c" by auto
  then have "(R ^^ Suc (Suc (Suc (Suc (Suc 0))))) a f" using assms(3-5) by (meson relpowp_Suc_I)
  then show ?thesis by (simp add: eval_nat_numeral)
qed

text \<open>An order in which connection 2 is told of success and the session is locked.\<close>

lemma race_locks:
  "\<exists>t r. (sample_step Own ^^ 5) two_requests t
    \<and> map_of (svHandlers t) 2 = Some (Writing r) \<and> rsError r = None \<and> sId (svSession t) = None"
proof -
  let ?F = "unlock_with ''F''" and ?T = "unlock_with ''T''"
  have "sId (svSession wrong_sent) = Some False" by (simp add: unlocked_by_def)
  then obtain e where e: "verify_unlock tag_age some_texts calm_io some_config ?F (svSession wrong_sent, vault_fs some_vault)
      = MustLock e" by (rule verify_wrong)
  have run: "running (svPc wrong_sent)" by simp
  define s2 where "s2 = goes 1 (Relocking ?F e) wrong_sent"
  have 2: "sample_step Own wrong_sent s2"
    using serve_step.verifies [OF run wrong_sent_simps(4), of tag_age some_texts some_config "\<lambda>c. call_ok 0" 0 calm_io] e
    by (simp add: s2_def)
  define s3 where "s3 = goes 2 (Verifying ?T) s2\<lparr>svSession := unlocked_by True (svSession s2)\<rparr>"
  have h2: "running (svPc s2)" "map_of (svHandlers s2) 2 = Some (InCall ?T)"
    by (simp_all add: s2_def update_conv')
  have 3: "sample_step Own s2 s3"
    using serve_step.calls [OF h2, of tag_age some_texts some_config "\<lambda>c. call_ok 0" 0 calm_io]
    by (simp add: s3_def begin_T)
  have "sId (svSession s3) = Some True" by (simp add: s3_def unlocked_by_def)
  then obtain r where r: "verify_unlock tag_age some_texts calm_io some_config ?T (svSession s3, vault_fs some_vault)
      = Answered r (svSession s3, vault_fs some_vault)" "rsError r = None" by (rule verify_right)
  note wrong_sent_simps(4) [unfolded One_nat_def, simp]
  have h3: "svFs s3 = vault_fs some_vault" "running (svPc s3)" "map_of (svHandlers s3) 2 = Some (Verifying ?T)"
    "map_of (svHandlers s3) 1 = Some (Relocking ?F e)"
    by (simp_all add: s2_def s3_def update_conv')
  define s4 where "s4 = goes 2 (Writing r) s3\<lparr>svSession := svSession s3, svFs := svFs s3\<rparr>"
  have 4: "sample_step Own s3 s4"
    using serve_step.verifies [OF h3(2,3), of tag_age some_texts some_config "\<lambda>c. call_ok 0" 0 calm_io] r h3(1)
    by (simp add: s4_def)
  have h4: "running (svPc s4)" "map_of (svHandlers s4) 1 = Some (Relocking ?F e)"
    using h3 by (simp_all add: s4_def update_conv')
  define s5 where "s5 = continues 1 ?F (relock some_texts ?F e (svSession s4, svFs s4)) s4"
  have 5: "sample_step Own s4 s5"
    using serve_step.relocks [OF h4, of tag_age some_texts some_config "\<lambda>c. call_ok 0" 0] by (simp add: s5_def)
  have "sBuf (svSession s4) \<noteq> None" by (simp add: s4_def s3_def unlocked_by_def)
  from lock_clears [OF this] have "sId (svSession s5) = None" by (simp add: s5_def relock_def)
  moreover have "map_of (svHandlers s5) 2 = Some (Writing r)"
    by (simp add: s5_def relock_def s4_def update_conv')
  moreover have "(sample_step Own ^^ 5) two_requests s5"
    by (rule five_steps [where R = "sample_step Own", OF wrong_sent_step 2 3 4 5])
  ultimately show ?thesis using r(2) by blast
qed

end
