(* ===== verification/Tty.thy ===== *)
theory Tty
  imports Framing "HOL-Library.Word"
begin

unbundle bit_operations_syntax

text \<open>
  internal/tty: a passphrase is read from the terminal with echo off. What a \<open>Read\<close> of \<open>/dev/tty\<close>
  delivers is a connection as in \<open>Framing\<close>; the system calls may fail. Besides its result an operation
  yields what the terminal saw, as a list of events, and what is left in memory of the buffers it
  used.
\<close>

section \<open>A line of input\<close>

text \<open>
  \<open>lbAcc\<close> is \<open>acc\<close>, in an array of \<open>lbCap\<close> bytes, and \<open>lbLeft\<close> are the arrays that \<open>append\<close> has moved away
  from. How much \<open>append\<close> allocates is left open by Go: a function of the old capacity and of the
  length that is needed.
\<close>

record linebuf =
  lbBuf :: bytes
  lbAcc :: bytes
  lbCap :: nat
  lbLeft :: "bytes list"

definition no_line :: linebuf where
  "no_line = \<lparr> lbBuf = replicate 256 NUL, lbAcc = [], lbCap = 0, lbLeft = [] \<rparr>"

definition append_acc :: "(nat \<Rightarrow> nat \<Rightarrow> nat) \<Rightarrow> bytes \<Rightarrow> linebuf \<Rightarrow> linebuf" where
  "append_acc grow x b =
     (let n = length (lbAcc b) + length x in
      if n \<le> lbCap b then b\<lparr>lbAcc := lbAcc b @ x\<rparr>
      else b\<lparr>lbAcc := lbAcc b @ x, lbCap := grow (lbCap b) n, lbLeft := lbAcc b # lbLeft b\<rparr>)"

definition trimmed :: "bytes \<Rightarrow> bytes" where
  "trimmed b = (if b \<noteq> [] \<and> last b = CHR 0x0D then butlast b else b)"

text \<open>\<open>Read\<close> into \<open>buf\<close>, and \<open>clear(buf[:n])\<close> once the bytes are in \<open>acc\<close>.\<close>

definition read_piece :: "(nat \<Rightarrow> nat \<Rightarrow> nat) \<Rightarrow> bytes \<Rightarrow> linebuf \<Rightarrow> linebuf" where
  "read_piece grow x b =
     (let b1 = append_acc grow x (b\<lparr>lbBuf := store_at 0 x (lbBuf b)\<rparr>)
      in b1\<lparr>lbBuf := store_at 0 (zeroed x) (lbBuf b1)\<rparr>)"

function line_loop :: "(nat \<Rightarrow> nat \<Rightarrow> nat) \<Rightarrow> linebuf \<Rightarrow> conn \<Rightarrow> bytes res \<times> linebuf \<times> conn" where
  "line_loop grow b cs =
     (let (x, e, cs') = conn_read 256 cs;
          b' = read_piece grow x b
      in case cut_at LF (lbAcc b') of
           Some (l, _) \<Rightarrow> (Ok (trimmed l), b', cs')
         | None \<Rightarrow>
             (case e of
                Some err \<Rightarrow>
                  if errors_is err (StdS EOF) then (Ok (trimmed (lbAcc b')), b', cs') else (Er err, b', cs')
              | None \<Rightarrow> line_loop grow b' cs'))"
  by pat_completeness auto
termination
proof (relation "measure (\<lambda>(g, b, cs). conn_size cs)", goal_cases)
  case (2 grow b cs r x y e cs' b')
  then show ?case using conn_read_size(2) [of 256 cs x None cs'] by simp
qed simp

declare line_loop.simps [simp del]

text \<open>\<open>readLine\<close> of the package, with the deferred \<open>clear\<close>s: the result and what is left in memory.\<close>

definition tty_readLine :: "(nat \<Rightarrow> nat \<Rightarrow> nat) \<Rightarrow> conn \<Rightarrow> bytes res \<times> bytes list" where
  "tty_readLine grow cs =
     (case line_loop grow no_line cs of
        (r, b, _) \<Rightarrow> (r, zeroed (lbBuf b) # zeroed (lbAcc b) # lbLeft b))"

section \<open>The terminal\<close>

text \<open>Of \<open>unix.Termios\<close> only \<open>Lflag\<close> is looked at; \<open>tmOther\<close> stands for the other fields.\<close>

record termios =
  tmLflag :: "32 word"
  tmOther :: bytes

definition ECHO :: "32 word" where "ECHO = 8"

definition noEcho :: "termios \<Rightarrow> termios" where
  "noEcho t = t\<lparr>tmLflag := tmLflag t AND NOT ECHO\<rparr>"

definition echoes :: "termios \<Rightarrow> bool" where
  "echoes t \<longleftrightarrow> tmLflag t AND ECHO \<noteq> 0"

text \<open>
  \<open>tySet n\<close> is what the \<open>n\<close>-th \<open>setTermios\<close> meets. \<open>tySignal\<close> says after how many events a signal
  comes, if one does: the terminal is restored and the read fails, past its deadline.
\<close>

record tty_io =
  tyOpen :: "goerr option"
  tyGet :: "unit raw_call"
  tySet :: "nat \<Rightarrow> unit raw_call"
  tyPrompt :: "goerr option"
  tyInput :: conn
  tySignal :: "nat option"

datatype term_event = SetMode termios | Wrote bytes | Reads

definition deadline_error :: goerr where
  "deadline_error = Sentinel (StdS OsDeadlineExceeded)"

definition tty_input :: "tty_io \<Rightarrow> conn" where
  "tty_input w = (case tySignal w of None \<Rightarrow> tyInput w | Some n \<Rightarrow> take n (tyInput w) @ [DataErr [] deadline_error])"

definition raw_error :: "unit raw_call \<Rightarrow> goerr option" where
  "raw_error w = (case raw_do w of Er e \<Rightarrow> Some e | _ \<Rightarrow> None)"

lemma raw_error_ok [simp]: "raw_error (call_ok u) = None"
  by (simp add: raw_error_def)

definition getTermios :: "tty_io \<Rightarrow> goerr option" where
  "getTermios w = raw_error (tyGet w)"

definition setTermios :: "tty_io \<Rightarrow> nat \<Rightarrow> goerr option" where
  "setTermios w n = raw_error (tySet w n)"

definition set_mode :: "tty_io \<Rightarrow> nat \<Rightarrow> termios \<Rightarrow> term_event list" where
  "set_mode w n t = (if setTermios w n = None then [SetMode t] else [])"

text \<open>The second argument is the mode the terminal is in.\<close>

definition tty_Read ::
  "(nat \<Rightarrow> nat \<Rightarrow> nat) \<Rightarrow> tty_io \<Rightarrow> termios \<Rightarrow> bytes \<Rightarrow> bytes res \<times> term_event list \<times> bytes list" where
  "tty_Read grow w saved prompt =
     (if tyOpen w \<noteq> None then (Er (Sentinel (TtyS ErrNoTTY)), [], [])
      else case getTermios w of Some e \<Rightarrow> (Er e, [], []) | None \<Rightarrow>
      case setTermios w 0 of Some e \<Rightarrow> (Er e, [], []) | None \<Rightarrow>
      case tyPrompt w of Some e \<Rightarrow> (Er e, SetMode (noEcho saved) # set_mode w 1 saved, []) | None \<Rightarrow>
      (let (r, left) = tty_readLine grow (tty_input w);
           seen = [SetMode (noEcho saved), Wrote prompt, Reads]
             @ (if tySignal w = None then [] else set_mode w 2 saved) @ [Wrote [LF]] @ set_mode w 1 saved
       in case r of
            Er e \<Rightarrow>
              if errors_is e (StdS OsDeadlineExceeded) then (Er (Sentinel (TtyS ErrInterrupted)), seen, left)
              else (Er e, seen, left)
          | _ \<Rightarrow> (r, seen, left)))"

definition IsTerminal :: "goerr option \<Rightarrow> bool" where
  "IsTerminal e \<longleftrightarrow> e = None"

section \<open>Confirm\<close>

text \<open>
  A \<open>ReadFunc\<close> gives an answer to the \<open>n\<close>-th prompt. \<open>Confirm\<close> yields the result, what is left of the
  entries it does not return, and the number of the next prompt.
\<close>

type_synonym read_func = "nat \<Rightarrow> bytes \<Rightarrow> bytes res"

definition Confirm :: "read_func \<Rightarrow> nat \<Rightarrow> bytes \<Rightarrow> bytes res \<times> bytes list \<times> nat" where
  "Confirm r n prompt =
     (case r n prompt of
        Er e \<Rightarrow> (Er e, [], n + 1)
      | Panic \<Rightarrow> (Panic, [], n + 1)
      | Ok first \<Rightarrow>
          if first = [] then (Er (Sentinel (TtyS ErrEmpty)), [], n + 1)
          else (case r (n + 1) ''Repeat passphrase: '' of
                  Er e \<Rightarrow> (Er e, [zeroed first], n + 2)
                | Panic \<Rightarrow> (Panic, [first], n + 2)
                | Ok second \<Rightarrow>
                    if first \<noteq> second then (Er (Sentinel (TtyS ErrMismatch)), [zeroed first, zeroed second], n + 2)
                    else (Ok first, [zeroed second], n + 2)))"


section \<open>The line that is read\<close>

text \<open>The first line of the input, or all of it, whatever the pieces it comes in.\<close>

definition first_line :: "bytes \<Rightarrow> bytes" where
  "first_line S = takeWhile (\<lambda>c. c \<noteq> LF) S"

lemma first_line_cut: "first_line S = (case cut_at LF S of Some (l, _) \<Rightarrow> l | None \<Rightarrow> S)"
  by (induction S) (auto simp: first_line_def split: option.splits)

lemma no_line_simps [simp]: "lbAcc no_line = []" "lbCap no_line = 0" "lbLeft no_line = []"
  by (simp_all add: no_line_def)

lemma read_piece_acc [simp]: "lbAcc (read_piece grow x b) = lbAcc b @ x"
  by (simp add: read_piece_def append_acc_def Let_def)

lemma read_piece_left: "set (lbLeft b) \<subseteq> set (lbLeft (read_piece grow x b))"
  by (auto simp: read_piece_def append_acc_def Let_def)

lemma line_loop_spec:
  "plain_conn cs \<Longrightarrow> line_loop grow b cs = (r, b', cs') \<Longrightarrow> r = Ok (trimmed (first_line (lbAcc b @ stream cs)))"
proof (induction grow b cs arbitrary: r b' cs' rule: line_loop.induct)
  case (1 grow b cs)
  obtain x e cs1 where rd: "conn_read 256 cs = (x, e, cs1)" by (metis prod_cases3)
  from conn_read_plain [OF "1.prems"(1) rd] have p: "plain_conn cs1" "x @ stream cs1 = stream cs"
    "e = None \<or> e = Some eof \<and> cs = [] \<and> cs1 = [] \<and> x = []" by auto
  show ?case
  proof (cases "cut_at LF (lbAcc b @ x)")
    case (Some q)
    obtain l rest where q: "q = (l, rest)" by (cases q)
    have "cut_at LF (lbAcc b @ stream cs) = Some (l, rest @ stream cs1)"
      using cut_at_append_left [of LF "lbAcc b @ x" l rest "stream cs1"] Some q p(2) by simp
    with "1.prems"(2) Some q rd show ?thesis by (simp add: line_loop.simps [of grow b cs] first_line_cut)
  next
    case None
    show ?thesis
    proof (cases e)
      case None': None
      from "1.prems"(2) None None' rd have "line_loop grow (read_piece grow x b) cs1 = (r, b', cs')"
        by (simp add: line_loop.simps [of grow b cs])
      with "1.IH" [OF rd [symmetric] refl refl refl _ None' p(1)] None p(2) show ?thesis by simp
    next
      case (Some err)
      with p(3) have e: "err = eof" "cs = []" "cs1 = []" "x = []" by auto
      with "1.prems"(2) None Some rd show ?thesis
        by (simp add: line_loop.simps [of grow b "[]"] first_line_cut eof_def)
    qed
  qed
qed

lemma tty_readLine_spec: "plain_conn cs \<Longrightarrow> fst (tty_readLine grow cs) = Ok (trimmed (first_line (stream cs)))"
proof -
  assume plain: "plain_conn cs"
  obtain r b cs' where l: "line_loop grow no_line cs = (r, b, cs')" by (metis prod_cases3)
  from line_loop_spec [OF plain l] show ?thesis by (simp add: tty_readLine_def l)
qed

text \<open>A read that fails for another reason than the end of the input gives its error, unless the line was there.\<close>

lemma line_loop_fails:
  "plain_conn cs \<Longrightarrow> LF \<notin> set (lbAcc b @ stream cs) \<Longrightarrow> \<not> errors_is e (StdS EOF)
    \<Longrightarrow> line_loop grow b (cs @ [DataErr [] e]) = (r, b', cs') \<Longrightarrow> r = Er e"
proof (induction grow b cs arbitrary: r b' cs' rule: line_loop.induct)
  case (1 grow b cs)
  show ?case
  proof (cases cs)
    case Nil
    from "1.prems"(4) have "line_loop grow b [DataErr [] e] = (r, b', cs')" by (simp add: Nil)
    with "1.prems"(2,3) show ?thesis
      by (simp add: line_loop.simps [of grow b "[DataErr [] e]"] Nil Let_def cut_at_None_iff [THEN iffD2])
  next
    case (Cons ev cs1)
    from "1.prems"(1) Cons obtain c where ev: "ev = Data c" by (auto simp: plain_conn_def)
    let ?cs' = "if length c \<le> 256 then cs1 else Data (drop 256 c) # cs1"
    have rd: "conn_read 256 cs = (take 256 c, None, ?cs')" by (simp add: Cons ev)
    have app: "conn_read 256 (cs @ [DataErr [] e]) = (take 256 c, None, ?cs' @ [DataErr [] e])" by (simp add: Cons ev)
    have str: "take 256 c @ stream ?cs' = stream cs" by (simp add: Cons ev)
    have n: "cut_at LF (lbAcc b @ take 256 c) = None"
      using "1.prems"(2) str [symmetric] by (simp add: cut_at_None_iff)
    have plain: "plain_conn ?cs'" using "1.prems"(1) by (simp add: Cons ev)
    have lf: "LF \<notin> set (lbAcc (read_piece grow (take 256 c) b) @ stream ?cs')"
      using "1.prems"(2) str [symmetric] by simp
    from "1.prems"(4) app n have
      "line_loop grow (read_piece grow (take 256 c) b) (?cs' @ [DataErr [] e]) = (r, b', cs')"
      by (simp add: line_loop.simps [of grow b "cs @ [DataErr [] e]"])
    from "1.IH" [OF rd [symmetric] refl refl refl _ refl plain lf "1.prems"(3) this] n show ?thesis by simp
  qed
qed

section \<open>What is left in memory\<close>

lemma line_loop_left: "line_loop grow b cs = (r, b', cs') \<Longrightarrow> set (lbLeft b) \<subseteq> set (lbLeft b')"
proof (induction grow b cs arbitrary: r b' cs' rule: line_loop.induct)
  case (1 grow b cs)
  obtain x e cs1 where rd: "conn_read 256 cs = (x, e, cs1)" by (metis prod_cases3)
  note st = line_loop.simps [of grow b cs]
  show ?case
  proof (cases "cut_at LF (lbAcc b @ x) = None \<and> e = None")
    case True
    with "1.prems" rd have "line_loop grow (read_piece grow x b) cs1 = (r, b', cs')" by (simp add: st)
    with "1.IH" [OF rd [symmetric] refl refl refl] True have "set (lbLeft (read_piece grow x b)) \<subseteq> set (lbLeft b')"
      by simp
    with read_piece_left [of b grow x] show ?thesis by blast
  next
    case False
    with "1.prems" rd have "b' = read_piece grow x b" by (auto simp: st Let_def split: option.splits if_splits)
    with read_piece_left [of b grow x] show ?thesis by blast
  qed
qed

text \<open>A line that comes in one piece leaves nothing.\<close>

lemma tty_readLine_wiped:
  assumes "cs = Data c # cs'" and "LF \<in> set (take 256 c)"
  shows "\<forall>b \<in> set (snd (tty_readLine grow cs)). set b \<subseteq> {NUL}"
proof -
  from assms(2) obtain l rest where "cut_at LF (take 256 c) = Some (l, rest)"
    by (cases "cut_at LF (take 256 c)") (auto simp: cut_at_None_iff)
  then obtain r cs1 where "line_loop grow no_line cs = (r, read_piece grow (take 256 c) no_line, cs1)"
    by (simp add: line_loop.simps [of grow no_line] assms(1) Let_def)
  moreover have "set (lbLeft (read_piece grow (take 256 c) no_line)) \<subseteq> {[]}"
    by (simp add: read_piece_def append_acc_def Let_def)
  ultimately show ?thesis using set_zeroed by (auto simp: tty_readLine_def)
qed

text \<open>
  A line of more than 256 bytes leaves the first 256 where \<open>append\<close> had put them, when that array has no
  more room than was asked for.
\<close>

lemma tty_readLine_leaves:
  assumes "256 < length c" and "LF \<notin> set (take 256 c)" and "grow 0 256 = 256"
  shows "take 256 c \<in> set (snd (tty_readLine grow (Data c # cs)))"
proof -
  let ?b1 = "read_piece grow (take 256 c) no_line" and ?d = "drop 256 c"
  let ?b2 = "read_piece grow (take 256 ?d) ?b1"
  have b1: "lbAcc ?b1 = take 256 c" "lbCap ?b1 = 256"
    using assms(1,3) by (simp_all add: read_piece_def append_acc_def Let_def)
  then have "take 256 c \<in> set (lbLeft ?b2)"
    using assms(1) by (simp add: read_piece_def [of grow "take 256 ?d"] append_acc_def Let_def min_def)
  moreover obtain r b cs' where l: "line_loop grow no_line (Data c # cs) = (r, b, cs')" by (metis prod_cases3)
  have "line_loop grow no_line (Data c # cs) = line_loop grow ?b1 (Data ?d # cs)"
    using assms(1,2) by (simp add: line_loop.simps [of grow no_line] cut_at_None_iff [THEN iffD2] Let_def)
  with l have l1: "line_loop grow ?b1 (Data ?d # cs) = (r, b, cs')" by simp
  have "set (lbLeft ?b2) \<subseteq> set (lbLeft b)"
  proof (cases "cut_at LF (lbAcc ?b1 @ take 256 ?d)")
    case None
    with l1 have "line_loop grow ?b2 (if length ?d \<le> 256 then cs else Data (drop 256 ?d) # cs) = (r, b, cs')"
      by (simp add: line_loop.simps [of grow ?b1] Let_def)
    then show ?thesis by (rule line_loop_left)
  next
    case (Some q)
    with l1 show ?thesis by (cases q) (simp add: line_loop.simps [of grow ?b1] Let_def)
  qed
  ultimately show ?thesis by (auto simp: tty_readLine_def l)
qed


section \<open>The terminal is restored\<close>

fun final_mode :: "termios \<Rightarrow> term_event list \<Rightarrow> termios" where
  "final_mode t [] = t"
| "final_mode t (SetMode u # es) = final_mode u es"
| "final_mode t (e # es) = final_mode t es"

fun read_modes :: "termios \<Rightarrow> term_event list \<Rightarrow> termios list" where
  "read_modes t [] = []"
| "read_modes t (SetMode u # es) = read_modes u es"
| "read_modes t (Reads # es) = t # read_modes t es"
| "read_modes t (Wrote x # es) = read_modes t es"

lemma noEcho_quiet: "\<not> echoes (noEcho t)"
proof -
  have "(tmLflag t AND NOT ECHO) AND ECHO = 0"
    by (rule bit_word_eqI) (simp add: bit_simps)
  then show ?thesis by (simp add: echoes_def noEcho_def)
qed

lemma final_mode_append [simp]: "final_mode t (a @ b) = final_mode (final_mode t a) b"
  by (induction t a rule: final_mode.induct) auto

lemma read_modes_append: "read_modes t (a @ b) = read_modes t a @ read_modes (final_mode t a) b"
  by (induction t a rule: read_modes.induct) auto

lemma set_mode_modes [simp]:
  "read_modes t (set_mode w n u) = []" "setTermios w n = None \<Longrightarrow> final_mode t (set_mode w n u) = u"
  by (simp_all add: set_mode_def)

lemma tty_Read_restores:
  assumes "tty_Read grow w saved prompt = (r, seen, left)" and "setTermios w 1 = None"
  shows "final_mode saved seen = saved \<and> (\<forall>t \<in> set (read_modes saved seen). \<not> echoes t)"
  using assms
  by (auto simp: tty_Read_def noEcho_quiet read_modes_append Let_def
      split: if_splits option.splits outcome.splits prod.splits)

lemma tty_Read_Ok:
  assumes "fst (tty_Read grow w saved prompt) = Ok l"
  shows "tyOpen w = None \<and> fst (tty_readLine grow (tty_input w)) = Ok l"
  using assms
  by (auto simp: tty_Read_def Let_def split: if_splits option.splits outcome.splits prod.splits)

lemma tty_Read_line:
  assumes "tyOpen w = None" and "getTermios w = None" and "setTermios w 0 = None" and "tyPrompt w = None"
    and "tySignal w = None" and "plain_conn (tyInput w)"
  shows "fst (tty_Read grow w saved prompt) = Ok (trimmed (first_line (stream (tyInput w))))"
proof -
  obtain r l where t: "tty_readLine grow (tty_input w) = (r, l)" by (metis prod.exhaust)
  with tty_readLine_spec [OF assms(6), of grow] assms(5)
  have "r = Ok (trimmed (first_line (stream (tyInput w))))" by (simp add: tty_input_def)
  with t assms show ?thesis by (simp add: tty_Read_def)
qed

lemma tty_Read_interrupted:
  assumes "tyOpen w = None" and "getTermios w = None" and "setTermios w 0 = None" and "tyPrompt w = None"
    and "tySignal w = Some n" and "plain_conn (take n (tyInput w))" and "LF \<notin> set (stream (take n (tyInput w)))"
  shows "fst (tty_Read grow w saved prompt) = Er (Sentinel (TtyS ErrInterrupted))"
proof -
  obtain r b cs' where l: "line_loop grow no_line (take n (tyInput w) @ [DataErr [] deadline_error]) = (r, b, cs')"
    by (metis prod_cases3)
  have "r = Er deadline_error"
    by (rule line_loop_fails [OF assms(6) _ _ l]) (use assms(7) in \<open>simp_all add: no_line_def deadline_error_def\<close>)
  with l assms show ?thesis by (simp add: tty_Read_def tty_readLine_def tty_input_def deadline_error_def)
qed

lemma plain_take: "plain_conn cs \<Longrightarrow> plain_conn (take n cs)"
  by (auto simp: plain_conn_def dest: in_set_takeD)

lemma tty_Read_wiped:
  "tty_input w = Data c # cs \<Longrightarrow> LF \<in> set (take 256 c) \<Longrightarrow>
    \<forall>b \<in> set (snd (snd (tty_Read grow w saved prompt))). set b \<subseteq> {NUL}"
  using tty_readLine_wiped [of "tty_input w" c cs grow]
  by (auto simp: tty_Read_def Let_def split: option.split outcome.split prod.split)

section \<open>Two equal entries\<close>

lemma Confirm_Ok:
  "Confirm r n prompt = (Ok p, left, m) \<longleftrightarrow>
     p \<noteq> [] \<and> r n prompt = Ok p \<and> r (n + 1) ''Repeat passphrase: '' = Ok p \<and> left = [zeroed p] \<and> m = n + 2"
  by (auto simp: Confirm_def split: outcome.splits)

lemma Confirm_left:
  "Confirm r n prompt = (res, left, m) \<Longrightarrow> res \<noteq> Panic \<Longrightarrow> \<forall>b \<in> set left. set b \<subseteq> {NUL}"
  by (auto simp: Confirm_def zeroed_def split: outcome.splits if_splits)

lemma Confirm_prompts: "Confirm r n prompt = (res, left, m) \<Longrightarrow> m = n + 1 \<or> m = n + 2"
  by (auto simp: Confirm_def split: outcome.splits if_splits)

end
