(* ===== verification/Setup.thy ===== *)
theory Setup
  imports Identity SecretCommands Tty GoDuration
begin

text \<open>
  cmd/keycell/setup.go, unlock.go and status.go: the commands that create the identity, change its
  passphrase, hand it to the daemon, and show the state of both. The answers at the terminal are a
  \<open>read_func\<close>; what a command types to standard error before its last message is collected.
\<close>

section \<open>Asking for the passphrase\<close>

definition passphraseAttempts :: nat where
  "passphraseAttempts = 3"

definition unencryptedWarning :: bytes where
  "unencryptedWarning = ''keycell: warning: identity is stored unencrypted; anyone with read access to identity.txt can decrypt the vault''"

text \<open>
  A command that asks: its state, the number of the next prompt, what it has written to standard
  error, and what is left of the entries.
\<close>

record 'st asking =
  akSt :: 'st
  akPrompt :: nat
  akErr :: msg
  akLeft :: "bytes list"

definition asks :: "'st \<Rightarrow> 'st asking" where
  "asks st = \<lparr> akSt = st, akPrompt = 0, akErr = [], akLeft = [] \<rparr>"

definition try_again :: msg where
  "try_again = lit (with_LF ''keycell: wrong passphrase, try again'')"

definition wrong_pass :: "'a res \<Rightarrow> bool" where
  "wrong_pass r = (case r of Er e \<Rightarrow> errors_is e (IdentityS IdErrWrongPassphrase) | _ \<Rightarrow> False)"

text \<open>The loop; \<open>k\<close> is how many attempts are left after this one.\<close>

fun ask_loop ::
  "nat \<Rightarrow> read_func \<Rightarrow> bytes \<Rightarrow> (bytes \<Rightarrow> 'st asking \<Rightarrow> unit res \<times> 'st asking) \<Rightarrow> 'st asking \<Rightarrow> unit res \<times> 'st asking"
where
  "ask_loop k r label fn a =
     (let a0 = a\<lparr>akPrompt := akPrompt a + 1\<rparr> in
      case r (akPrompt a) label of
        Er e \<Rightarrow> (Er e, a0)
      | Panic \<Rightarrow> (Panic, a0)
      | Ok pass \<Rightarrow>
          (let (res, a1) = fn pass a0;
               a2 = a1\<lparr>akLeft := zeroed pass # akLeft a1\<rparr>
           in case k of
                0 \<Rightarrow> (res, a2)
              | Suc k' \<Rightarrow>
                  if wrong_pass res then ask_loop k' r label fn (a2\<lparr>akErr := akErr a2 @ try_again\<rparr>)
                  else (res, a2)))"

declare ask_loop.simps [simp del]

definition askPassphrase ::
  "read_func \<Rightarrow> bytes \<Rightarrow> (bytes \<Rightarrow> 'st asking \<Rightarrow> unit res \<times> 'st asking) \<Rightarrow> 'st asking \<Rightarrow> unit res \<times> 'st asking" where
  "askPassphrase r label fn a = ask_loop (passphraseAttempts - 1) r label fn a"

text \<open>\<open>setupError\<close>.\<close>

definition setupError :: "goerr \<Rightarrow> cmd_out" where
  "setupError e =
     (if errors_is e (IdentityS IdErrExists) then exit_with (lit (''keycell: '' @ identity_err_text IdErrExists)) 1
      else if errors_is e (IdentityS IdErrWrongPassphrase) then exit_with (lit ''keycell: wrong passphrase'') 1
      else exit_with (lit ''keycell: '' @ err_msg e) 1)"

text \<open>The end of a command: what it wrote to standard error before, and the message of its error.\<close>

definition ends_with :: "(goerr \<Rightarrow> cmd_out) \<Rightarrow> unit res \<Rightarrow> msg \<Rightarrow> bytes \<Rightarrow> cmd_out" where
  "ends_with f r errs out =
     (case r of
        Ok _ \<Rightarrow> \<lparr> outText = out, outErr = errs, outCode = 0 \<rparr>
      | Er e \<Rightarrow> (f e)\<lparr>outErr := errs @ outErr (f e)\<rparr>
      | Panic \<Rightarrow> panic_exit)"

section \<open>init\<close>

definition initCmd ::
  "'i age \<Rightarrow> 'i pass_age \<Rightarrow> id_io \<Rightarrow> bytes \<Rightarrow> read_func \<Rightarrow> bytes list \<Rightarrow> bool \<Rightarrow> fs \<Rightarrow> cmd_out \<times> fs" where
  "initCmd A P w dir r args noPassphrase d =
     (case noArgs ''init'' args of Some out \<Rightarrow> (out, d) | None \<Rightarrow>
      case (if noPassphrase then Ok None
            else obind (fst (Confirm r 0 ''New passphrase: '')) (\<lambda>p. Ok (Some p))) of
        Er e \<Rightarrow> (promptError e, d)
      | Panic \<Rightarrow> (panic_exit, d)
      | Ok pass \<Rightarrow>
          (case Init A P w dir pass d of (res, _, d') \<Rightarrow>
             (ends_with setupError res (if pass = None \<and> is_ok res then lit (with_LF unencryptedWarning) else [])
                (with_LF (''initialized '' @ dir)
                  @ with_LF ''start the daemon:  systemctl --user enable --now keycell''
                  @ with_LF ''load the identity: keycell unlock''), d')))"

section \<open>passphrase\<close>

text \<open>
  \<open>changePassphrase\<close>. The state is the file system and \<open>next\<close>, which survives a wrong current passphrase;
  \<open>ChangePassphrase\<close> gets a copy of it.
\<close>

definition change_with ::
  "'i age \<Rightarrow> 'i pass_age \<Rightarrow> id_io \<Rightarrow> bytes \<Rightarrow> bytes \<Rightarrow> bytes \<Rightarrow> (fs \<times> bytes option) asking
    \<Rightarrow> unit res \<times> (fs \<times> bytes option) asking" where
  "change_with A P w dir old p a =
     (case ChangePassphrase A P w dir (Some old) p (fst (akSt a)) of
        (r, (_, copy), d') \<Rightarrow> (r, a\<lparr>akSt := (d', Some p), akLeft := copy # akLeft a\<rparr>))"

definition change_once ::
  "'i age \<Rightarrow> 'i pass_age \<Rightarrow> id_io \<Rightarrow> bytes \<Rightarrow> read_func \<Rightarrow> bytes \<Rightarrow> (fs \<times> bytes option) asking
    \<Rightarrow> unit res \<times> (fs \<times> bytes option) asking" where
  "change_once A P w dir r old a =
     (case snd (akSt a) of
        Some p \<Rightarrow> change_with A P w dir old p a
      | None \<Rightarrow>
          (case Confirm r (akPrompt a) ''New passphrase: '' of
             (Ok p, left, n) \<Rightarrow> change_with A P w dir old p (a\<lparr>akPrompt := n, akLeft := left @ akLeft a\<rparr>)
           | (Er e, left, n) \<Rightarrow> (Er e, a\<lparr>akPrompt := n, akLeft := left @ akLeft a\<rparr>)
           | (Panic, left, n) \<Rightarrow> (Panic, a\<lparr>akPrompt := n, akLeft := left @ akLeft a\<rparr>)))"

definition changePassphrase ::
  "'i age \<Rightarrow> 'i pass_age \<Rightarrow> id_io \<Rightarrow> bytes \<Rightarrow> read_func \<Rightarrow> fs \<Rightarrow> unit res \<times> (fs \<times> bytes option) asking" where
  "changePassphrase A P w dir r d =
     (case askPassphrase r ''Current passphrase: '' (change_once A P w dir r) (asks (d, None)) of
        (res, a) \<Rightarrow>
          (res, case snd (akSt a) of None \<Rightarrow> a | Some p \<Rightarrow> a\<lparr>akLeft := zeroed p # akLeft a\<rparr>))"

definition remove_once ::
  "'i age \<Rightarrow> 'i pass_age \<Rightarrow> id_io \<Rightarrow> bytes \<Rightarrow> bytes \<Rightarrow> fs asking \<Rightarrow> unit res \<times> fs asking" where
  "remove_once A P w dir old a =
     (case RemovePassphrase A P w dir (Some old) (akSt a) of (r, _, d') \<Rightarrow> (r, a\<lparr>akSt := d'\<rparr>))"

definition passphrase_cmd ::
  "'i age \<Rightarrow> 'i pass_age \<Rightarrow> id_io \<Rightarrow> bytes \<Rightarrow> read_func \<Rightarrow> bytes list \<Rightarrow> bool \<Rightarrow> fs \<Rightarrow> cmd_out \<times> fs" where
  "passphrase_cmd A P w dir r args remove d =
     (case noArgs ''passphrase'' args of Some out \<Rightarrow> (out, d) | None \<Rightarrow>
      case Detect w dir d of
        Er e \<Rightarrow> (setupError e, d)
      | Panic \<Rightarrow> (panic_exit, d)
      | Ok FormNone \<Rightarrow> (exit_with (lit (''keycell: no identity, run '' @ quoted ''keycell init'')) 1, d)
      | Ok FormPlain \<Rightarrow>
          if remove then (exit_with (lit ''keycell: identity is not passphrase-protected'') 1, d)
          else (case fst (Confirm r 0 ''New passphrase: '') of
                  Er e \<Rightarrow> (promptError e, d)
                | Panic \<Rightarrow> (panic_exit, d)
                | Ok p \<Rightarrow> (case SetPassphrase A P w dir p d of (res, _, d') \<Rightarrow> (ends_with setupError res [] [], d')))
      | Ok FormEncrypted \<Rightarrow>
          if remove then
            (case askPassphrase r ''Current passphrase: '' (remove_once A P w dir) (asks d) of
               (res, a) \<Rightarrow>
                 (ends_with setupError res (akErr a @ (if is_ok res then lit (with_LF unencryptedWarning) else [])) [],
                  akSt a))
          else (case changePassphrase A P w dir r d of
                  (res, a) \<Rightarrow> (ends_with setupError res (akErr a) [], fst (akSt a))))"


section \<open>What the loop keeps\<close>

definition wiped_all :: "bytes list \<Rightarrow> bool" where
  "wiped_all bs \<longleftrightarrow> (\<forall>b \<in> set bs. set b \<subseteq> {NUL})"

lemma wiped_all_simps [simp]:
  "wiped_all []" "wiped_all (b # bs) \<longleftrightarrow> set b \<subseteq> {NUL} \<and> wiped_all bs"
  "wiped_all (as @ bs) \<longleftrightarrow> wiped_all as \<and> wiped_all bs"
  by (auto simp: wiped_all_def)

lemma wrong_pass_simps [simp]:
  "\<not> wrong_pass (Ok x)" "\<not> wrong_pass Panic" "wrong_pass (Er e) \<longleftrightarrow> errors_is e (IdentityS IdErrWrongPassphrase)"
  by (simp_all add: wrong_pass_def)

text \<open>One round of the loop.\<close>

lemma ask_loop_cases:
  assumes "ask_loop k r label fn a = (res, a')"
  obtains (failed) res' where "r (akPrompt a) label = res'" and "akSt a' = akSt a" and "akLeft a' = akLeft a"
      and "(\<exists>e. res' = Er e \<and> res = Er e) \<or> res' = Panic \<and> res = Panic"
  | (last) pass a1 where "r (akPrompt a) label = Ok pass" and "fn pass (a\<lparr>akPrompt := akPrompt a + 1\<rparr>) = (res, a1)"
      and "a' = a1\<lparr>akLeft := zeroed pass # akLeft a1\<rparr>" and "k = 0 \<or> \<not> wrong_pass res"
  | (again) pass res1 a1 k' where "k = Suc k'" and "r (akPrompt a) label = Ok pass"
      and "fn pass (a\<lparr>akPrompt := akPrompt a + 1\<rparr>) = (res1, a1)" and "wrong_pass res1"
      and "ask_loop k' r label fn (a1\<lparr>akLeft := zeroed pass # akLeft a1, akErr := akErr a1 @ try_again\<rparr>) = (res, a')"
proof (cases "r (akPrompt a) label")
  case (Ok pass)
  obtain res1 a1 where f: "fn pass (a\<lparr>akPrompt := akPrompt a + 1\<rparr>) = (res1, a1)"
    by (cases "fn pass (a\<lparr>akPrompt := akPrompt a + 1\<rparr>)")
  show ?thesis
  proof (cases k)
    case 0
    with assms Ok f have "res = res1" "a' = a1\<lparr>akLeft := zeroed pass # akLeft a1\<rparr>" by (simp_all add: ask_loop.simps [of 0 r label fn a])
    with last Ok f 0 show ?thesis by blast
  next
    case (Suc k')
    show ?thesis
    proof (cases "wrong_pass res1")
      case True
      with assms Ok f Suc have "ask_loop k' r label fn (a1\<lparr>akLeft := zeroed pass # akLeft a1, akErr := akErr a1 @ try_again\<rparr>) = (res, a')"
        by (simp add: ask_loop.simps [of "Suc k'" r label fn a])
      with again Suc Ok f True show ?thesis by blast
    next
      case False
      with assms Ok f Suc have "res = res1" "a' = a1\<lparr>akLeft := zeroed pass # akLeft a1\<rparr>" by (simp_all add: ask_loop.simps [of "Suc k'" r label fn a])
      with last Ok f False show ?thesis by blast
    qed
  qed
qed (use assms failed in \<open>auto simp: ask_loop.simps [of k]\<close>)

text \<open>
  The contract of what is done with an entry: a wrong passphrase leaves what matters of the state,
  and no copy of an entry stays behind.
\<close>

locale entry_use =
  fixes fn :: "bytes \<Rightarrow> 'st asking \<Rightarrow> unit res \<times> 'st asking"
    and keep :: "'st \<Rightarrow> bool"
  assumes wrong_keeps: "fn pass a = (res, a') \<Longrightarrow> wrong_pass res \<Longrightarrow> keep (akSt a) \<Longrightarrow> keep (akSt a')"
    and wipes: "fn pass a = (res, a') \<Longrightarrow> res \<noteq> Panic \<Longrightarrow> wiped_all (akLeft a) \<Longrightarrow> wiped_all (akLeft a')"
begin

text \<open>The command ends with a prompt that fails, or with what came of one of the entries.\<close>

lemma loop_ends:
  "ask_loop k r label fn a = (res, a') \<Longrightarrow> keep (akSt a) \<Longrightarrow>
    (keep (akSt a') \<and> (\<exists>n. (\<exists>e. r n label = Er e \<and> res = Er e) \<or> r n label = Panic \<and> res = Panic))
    \<or> (\<exists>n pass b b'. r n label = Ok pass \<and> keep (akSt b) \<and> fn pass b = (res, b') \<and> akSt a' = akSt b')"
proof (induction k arbitrary: a rule: less_induct)
  case (less k)
  from less.prems(1) show ?case
  proof (cases rule: ask_loop_cases)
    case (failed res')
    then show ?thesis using less.prems(2) by metis
  next
    case (last pass a1)
    moreover have "keep (akSt (a\<lparr>akPrompt := akPrompt a + 1\<rparr>))" using less.prems(2) by simp
    moreover have "akSt a' = akSt a1" by (simp add: last(3))
    ultimately show ?thesis by metis
  next
    case (again pass res1 a1 k')
    then have k: "k' < k" by simp
    have "keep (akSt a1)" using wrong_keeps [OF again(3,4)] less.prems(2) by simp
    with less.IH [OF k again(5)] show ?thesis by simp
  qed
qed

lemma ask_ends:
  "askPassphrase r label fn a = (res, a') \<Longrightarrow> keep (akSt a) \<Longrightarrow>
    (keep (akSt a') \<and> (\<exists>n. (\<exists>e. r n label = Er e \<and> res = Er e) \<or> r n label = Panic \<and> res = Panic))
    \<or> (\<exists>n pass b b'. r n label = Ok pass \<and> keep (akSt b) \<and> fn pass b = (res, b') \<and> akSt a' = akSt b')"
  unfolding askPassphrase_def by (rule loop_ends)

lemma ask_Ok:
  assumes "askPassphrase r label fn a = (Ok u, a')" and "keep (akSt a)"
  obtains n pass b b' where "r n label = Ok pass" "keep (akSt b)" "fn pass b = (Ok u, b')" "akSt a' = akSt b'"
  using ask_ends [OF assms] by auto

lemma loop_wiped:
  "ask_loop k r label fn a = (res, a') \<Longrightarrow> res \<noteq> Panic \<Longrightarrow> wiped_all (akLeft a) \<Longrightarrow> wiped_all (akLeft a')"
proof (induction k arbitrary: a rule: less_induct)
  case (less k)
  from less.prems(1) show ?case
  proof (cases rule: ask_loop_cases)
    case (last pass a1)
    have "wiped_all (akLeft a1)" by (rule wipes [OF last(2) less.prems(2)]) (use less.prems(3) in simp)
    then show ?thesis by (simp add: last(3) set_zeroed)
  next
    case (again pass res1 a1 k')
    then have k: "k' < k" and "res1 \<noteq> Panic" by auto
    have "wiped_all (akLeft a1)" by (rule wipes [OF again(3) \<open>res1 \<noteq> Panic\<close>]) (use less.prems(3) in simp)
    then show ?thesis by (intro less.IH [OF k again(5) less.prems(2)]) (simp add: set_zeroed)
  qed (use less.prems in simp)
qed

lemma ask_wiped:
  "askPassphrase r label fn a = (res, a') \<Longrightarrow> res \<noteq> Panic \<Longrightarrow> wiped_all (akLeft a) \<Longrightarrow> wiped_all (akLeft a')"
  unfolding askPassphrase_def by (rule loop_wiped)

end


text \<open>An entry function that asks nothing itself: at most three prompts, and a wrong passphrase only after three.\<close>

lemma loop_prompts:
  assumes "\<And>pass a res a'. fn pass a = (res, a') \<Longrightarrow> akPrompt a' = akPrompt a"
  shows "ask_loop k r label fn a = (res, a') \<Longrightarrow>
    akPrompt a' \<le> akPrompt a + k + 1
    \<and> (wrong_pass res \<longrightarrow> (\<forall>n e. r n label \<noteq> Er e) \<longrightarrow> akPrompt a' = akPrompt a + k + 1)"
proof (induction k arbitrary: a rule: less_induct)
  case (less k)
  from less.prems show ?case
  proof (cases rule: ask_loop_cases)
    case (failed res')
    have "akPrompt a' = akPrompt a + 1"
      using less.prems failed(1,4) by (auto simp: ask_loop.simps [of k])
    with failed show ?thesis by auto
  next
    case (last pass a1)
    with assms [OF last(2)] show ?thesis by auto
  next
    case (again pass res1 a1 k')
    then have "k' < k" by simp
    from less.IH [OF this again(5)] assms [OF again(3)] again(1) show ?thesis by simp
  qed
qed

section \<open>The passphrase commands\<close>

text \<open>
  Errors of the system and of the age library are never the package's own \<open>ErrWrongPassphrase\<close>.
\<close>

definition not_wrong :: "goerr \<Rightarrow> bool" where
  "not_wrong e \<longleftrightarrow> \<not> errors_is e (IdentityS IdErrWrongPassphrase)"

definition foreign_errors :: "'i pass_age \<Rightarrow> id_io \<Rightarrow> bool" where
  "foreign_errors P w \<longleftrightarrow>
     (\<forall>c e. sysFault (idSys w) c = Some e \<longrightarrow> not_wrong e) \<and> (\<forall>e. idRemove w = Some e \<longrightarrow> not_wrong e)
     \<and> (\<forall>p e. paRecipient P p = Some e \<longrightarrow> not_wrong e)
     \<and> (\<forall>p rnd x e. paEncrypt P p rnd x = Er e \<longrightarrow> not_wrong e)"

lemma not_wrong_simps [simp]: "not_wrong (wrapf p e) = not_wrong e" "not_wrong no_such_file" "not_wrong (New m)"
  by (simp_all add: not_wrong_def no_such_file_def)

lemma Write_not_wrong:
  assumes "\<forall>c e. sysFault W c = Some e \<longrightarrow> not_wrong e" and "atomicfile_Write W path data perm backup d = (Er e, d')"
  shows "not_wrong e"
proof -
  have rn: "not_wrong e'" if "sys_rename (sysFault W c) a b d1 = (Some e', d2)" for c a b d1 d2 e'
    using that assms(1) by (auto simp: sys_rename_def split: option.splits if_splits)
  from assms(2) show ?thesis
    by (auto simp: atomicfile_Write_def Let_def step_err_def syncDir_def assms(1) dest!: rn
        split: option.splits if_splits prod.splits)
qed

lemma WriteEncrypted_not_wrong:
  assumes "foreign_errors P w" and "WriteEncrypted P w path x p d = (Er e, d')"
  shows "not_wrong e"
proof -
  from assms(1) have W: "\<forall>c e. sysFault (idSys w) c = Some e \<longrightarrow> not_wrong e" by (simp add: foreign_errors_def)
  from assms show ?thesis
    by (auto simp: WriteEncrypted_def foreign_errors_def dest: Write_not_wrong [OF W]
        split: if_splits option.splits outcome.splits)
qed

lemma change_wrong:
  assumes "foreign_errors P w" and "ChangePassphrase A P w dir old p d = (r, q, d')" and "wrong_pass r"
  shows "d' = d"
  using assms(2,3) WriteEncrypted_not_wrong [OF assms(1)]
  by (fastforce simp: ChangePassphrase_def wrong_pass_def not_wrong_def split: outcome.splits prod.splits)

lemma remove_wrong:
  assumes "foreign_errors P w" and "RemovePassphrase A P w dir old d = (r, q, d')" and "wrong_pass r"
  shows "d' = d"
proof -
  from assms(1) have W: "\<forall>c e. sysFault (idSys w) c = Some e \<longrightarrow> not_wrong e" by (simp add: foreign_errors_def)
  have "not_wrong e" if "WritePlain w path x d1 = (Er e, d2)" for path x d1 d2 e
    using that Write_not_wrong [OF W] by (auto simp: WritePlain_def)
  moreover have "not_wrong e" if "remove_file w path d1 = (Er e, d2)" for path d1 d2 e
    using that assms(1) by (auto simp: remove_file_def foreign_errors_def split: option.splits if_splits)
  ultimately show ?thesis using assms(2,3)
    by (fastforce simp: RemovePassphrase_def wrong_pass_def not_wrong_def split: outcome.splits prod.splits)
qed

lemma ChangePassphrase_copy: "ChangePassphrase A P w dir old p d = (r, (q, copy), d') \<Longrightarrow> copy = zeroed p"
  by (auto simp: ChangePassphrase_def split: outcome.splits prod.splits)


text \<open>A new passphrase counts when it was typed twice and is not empty.\<close>

definition chosen :: "read_func \<Rightarrow> bytes \<Rightarrow> bool" where
  "chosen r p \<longleftrightarrow> p \<noteq> [] \<and> (\<exists>n. r n ''New passphrase: '' = Ok p \<and> r (n + 1) ''Repeat passphrase: '' = Ok p)"

lemma Confirm_chosen: "Confirm r n ''New passphrase: '' = (Ok p, left, m) \<Longrightarrow> chosen r p"
  unfolding chosen_def by (auto simp: Confirm_Ok)

definition change_keep :: "'i pass_age \<Rightarrow> id_io \<Rightarrow> read_func \<Rightarrow> fs \<Rightarrow> fs \<times> bytes option \<Rightarrow> bool" where
  "change_keep P w r d0 st \<longleftrightarrow> (foreign_errors P w \<longrightarrow> fst st = d0) \<and> (\<forall>p. snd st = Some p \<longrightarrow> chosen r p)"

text \<open>What one round of \<open>changePassphrase\<close> does: it may ask for the new passphrase, and then tries the change.\<close>

lemma change_once_cases:
  assumes "change_once A P w dir r pass a = (res, a')"
  obtains (no_new) left where "akSt a' = akSt a" and "akLeft a' = left @ akLeft a" and "\<forall>u. res \<noteq> Ok u"
      and "res \<noteq> Panic \<longrightarrow> wiped_all left"
  | (tried) p left q d' where "ChangePassphrase A P w dir (Some pass) p (fst (akSt a)) = (res, q, d')"
      and "akSt a' = (d', Some p)" and "akLeft a' = snd q # left @ akLeft a" and "wiped_all left"
      and "snd (akSt a) = Some p \<or> chosen r p"
proof (cases "snd (akSt a)")
  case (Some p)
  obtain r1 q1 q2 d' where c: "ChangePassphrase A P w dir (Some pass) p (fst (akSt a)) = (r1, (q1, q2), d')"
    by (metis prod_cases3 surj_pair)
  with assms Some have "r1 = res" and a': "a' = a\<lparr>akSt := (d', Some p), akLeft := q2 # akLeft a\<rparr>"
    by (simp_all add: change_once_def change_with_def)
  show ?thesis
    by (rule tried [where p = p and left = "[]" and q = "(q1, q2)" and d' = d'])
      (use c \<open>r1 = res\<close> Some in \<open>simp_all add: a'\<close>)
next
  case None
  obtain r0 left n where f: "Confirm r (akPrompt a) ''New passphrase: '' = (r0, left, n)" by (metis prod_cases3)
  have wl: "wiped_all left" if "r0 \<noteq> Panic" using Confirm_left [OF f that] by (simp add: wiped_all_def)
  show ?thesis
  proof (cases r0)
    case (Ok p)
    obtain r1 q1 q2 d' where c: "ChangePassphrase A P w dir (Some pass) p (fst (akSt a)) = (r1, (q1, q2), d')"
      by (metis prod_cases3 surj_pair)
    with assms None f Ok have "r1 = res" and a': "akSt a' = (d', Some p)" "akLeft a' = q2 # left @ akLeft a"
      by (auto simp: change_once_def change_with_def)
    show ?thesis
      by (rule tried [where p = p and left = left and q = "(q1, q2)" and d' = d'])
        (use c \<open>r1 = res\<close> a' wl Ok Confirm_chosen f in auto)
  next
    case (Er e)
    show ?thesis
      by (rule no_new [where left = left]) (use assms None f Er wl in \<open>auto simp: change_once_def\<close>)
  next
    case Panic
    show ?thesis
      by (rule no_new [where left = left]) (use assms None f Panic in \<open>auto simp: change_once_def\<close>)
  qed
qed

interpretation changing: entry_use "change_once A P w dir r" "change_keep P w r d0" for A P w dir r d0
proof
  fix pass a res a'
  assume run: "change_once A P w dir r pass a = (res, a')"
  show "change_keep P w r d0 (akSt a')" if "wrong_pass res" and "change_keep P w r d0 (akSt a)"
    using run
  proof (cases rule: change_once_cases)
    case (tried p left q d')
    have "d' = fst (akSt a)" if "foreign_errors P w" by (rule change_wrong [OF that tried(1) \<open>wrong_pass res\<close>])
    with tried that show ?thesis by (auto simp: change_keep_def)
  qed (use that in simp)
  show "wiped_all (akLeft a')" if "res \<noteq> Panic" and "wiped_all (akLeft a)"
    using run
  proof (cases rule: change_once_cases)
    case (tried p left q d')
    then have "snd q = zeroed p" using ChangePassphrase_copy by (metis prod.collapse)
    with tried that set_zeroed show ?thesis by simp
  qed (use that in simp)
qed

interpretation removing: entry_use "remove_once A P w dir" "\<lambda>d. foreign_errors P w \<longrightarrow> d = d0" for A P w dir d0
proof
  fix pass a res a'
  assume run: "remove_once A P w dir pass a = (res, a')"
  then obtain q d' where c: "RemovePassphrase A P w dir (Some pass) (akSt a) = (res, q, d')" and a': "a' = a\<lparr>akSt := d'\<rparr>"
    by (auto simp: remove_once_def split: prod.splits)
  show "foreign_errors P w \<longrightarrow> akSt a' = d0" if "wrong_pass res" and "foreign_errors P w \<longrightarrow> akSt a = d0"
    using that remove_wrong [OF _ c] by (auto simp: a')
  show "wiped_all (akLeft a')" if "wiped_all (akLeft a)" using that by (simp add: a')
qed


lemma changePassphrase_run:
  assumes "changePassphrase A P w dir r d = (res, a')"
  obtains a where "askPassphrase r ''Current passphrase: '' (change_once A P w dir r) (asks (d, None)) = (res, a)"
    and "akSt a' = akSt a" and "wiped_all (akLeft a) \<Longrightarrow> wiped_all (akLeft a')"
proof -
  obtain res0 a where "askPassphrase r ''Current passphrase: '' (change_once A P w dir r) (asks (d, None)) = (res0, a)"
    by fastforce
  with assms that show thesis
    by (auto simp: changePassphrase_def set_zeroed split: option.splits)
qed

lemma change_start: "change_keep P w r d (akSt (asks (d, None)))"
  by (simp add: change_keep_def asks_def)

text \<open>
  A change that succeeds was made with the current passphrase among the entries, and afterwards the
  new one, typed twice, opens the same identity.
\<close>

lemma changePassphrase_Ok:
  assumes "pass_laws P" and "foreign_errors P w" and "id_calm w" and "id_calm w'"
    and "sealed P d (in_dir dir EncryptedFile) p x" and "changePassphrase A P w dir r d = (Ok u, a')"
  shows "\<exists>n new. r n ''Current passphrase: '' = Ok p \<and> chosen r new
    \<and> Load A P w' dir (Some new) (fst (akSt a')) = (Ok (trim_space x), Some (zeroed new))
    \<and> (p \<noteq> new \<longrightarrow> fst (Load A P w' dir (Some p) (fst (akSt a'))) = Er (Sentinel (IdentityS IdErrWrongPassphrase)))"
proof -
  from changePassphrase_run [OF assms(6)] obtain a
    where ask: "askPassphrase r ''Current passphrase: '' (change_once A P w dir r) (asks (d, None)) = (Ok u, a)"
      and st: "akSt a' = akSt a" by blast
  from changing.ask_Ok [OF ask change_start [of P]] obtain n pass b b'
    where n: "r n ''Current passphrase: '' = Ok pass" and k: "change_keep P w r d (akSt b)"
      and f: "change_once A P w dir r pass b = (Ok u, b')" and st': "akSt a = akSt b'" by metis
  from f show ?thesis
  proof (cases rule: change_once_cases)
    case (tried new left q d')
    have "fst (akSt b) = d" using k assms(2) by (simp add: change_keep_def)
    with tried(1) have c: "ChangePassphrase A P w dir (Some pass) new d = (Ok u, q, d')" by simp
    from tried(5) k have "chosen r new" by (auto simp: change_keep_def)
    moreover have "fst (akSt a') = d'" using st st' tried(2) by simp
    ultimately show ?thesis
      using ChangePassphrase_Ok [OF assms(1,5) c assms(3,4)] n by auto
  qed simp
qed

text \<open>Whatever happens, the identity stays: under the old passphrase, in place or in the backup, or under the new one.\<close>

lemma changePassphrase_keeps:
  assumes "pass_laws P" and "foreign_errors P w" and "sealed P d (in_dir dir EncryptedFile) p x"
    and "changePassphrase A P w dir r d = (res, a')"
  shows "sealed P (fst (akSt a')) (in_dir dir EncryptedFile) p x
    \<or> sealed P (fst (akSt a')) (bak_name (in_dir dir EncryptedFile)) p x
    \<or> (\<exists>new. chosen r new \<and> sealed P (fst (akSt a')) (in_dir dir EncryptedFile) new (trim_space x))"
proof -
  from changePassphrase_run [OF assms(4)] obtain a
    where ask: "askPassphrase r ''Current passphrase: '' (change_once A P w dir r) (asks (d, None)) = (res, a)"
      and st: "akSt a' = akSt a" by blast
  from changing.ask_ends [OF ask change_start [of P]] show ?thesis
  proof (elim disjE conjE exE)
    fix n pass b b'
    assume k: "change_keep P w r d (akSt b)" and f: "change_once A P w dir r pass b = (res, b')"
      and st': "akSt a = akSt b'"
    have d: "fst (akSt b) = d" using k assms(2) by (simp add: change_keep_def)
    from f show ?thesis
    proof (cases rule: change_once_cases)
      case (no_new left)
      then have "fst (akSt a') = d" using st st' d by simp
      with assms(3) show ?thesis by simp
    next
      case (tried new left q d')
      with d have c: "ChangePassphrase A P w dir (Some pass) new d = (res, q, d')" by simp
      from tried(5) k have "chosen r new" by (auto simp: change_keep_def)
      moreover have "fst (akSt a') = d'" using st st' tried(2) by simp
      ultimately show ?thesis using ChangePassphrase_keeps [OF assms(1,3) c] by auto
    qed
  qed (use assms(2,3) st in \<open>auto simp: change_keep_def\<close>)
qed

lemma changePassphrase_wiped:
  assumes "changePassphrase A P w dir r d = (res, a')" and "res \<noteq> Panic"
  shows "wiped_all (akLeft a')"
proof -
  from changePassphrase_run [OF assms(1)] obtain a
    where ask: "askPassphrase r ''Current passphrase: '' (change_once A P w dir r) (asks (d, None)) = (res, a)"
      and l: "wiped_all (akLeft a) \<Longrightarrow> wiped_all (akLeft a')" by blast
  have "wiped_all (akLeft (asks (d, None)))" by (simp add: asks_def)
  from l [OF changing.ask_wiped [OF ask assms(2) this]] show ?thesis .
qed

section \<open>The commands end\<close>

lemma setupError_code [simp]: "outCode (setupError e) = 1"
  by (simp add: setupError_def exit_with_def)

lemma ends_with_success: "(\<And>e. outCode (f e) \<noteq> 0) \<Longrightarrow> outCode (ends_with f res errs out) = 0 \<longleftrightarrow> is_ok res"
  by (cases res) (simp_all add: ends_with_def panic_exit_def exit_with_def)

lemma ends_setup [simp]: "outCode (ends_with setupError res errs out) = 0 \<longleftrightarrow> is_ok res"
  by (rule ends_with_success) simp

lemma exit_code [simp]: "outCode (exit_with m n) = n"
  by (simp add: exit_with_def)

lemma promptError_code [simp]: "outCode (promptError e) = 1"
  by (simp add: promptError_def)

lemma panic_code [simp]: "outCode panic_exit = 2"
  by (simp add: panic_exit_def)

lemma noArgs_code: "noArgs name args = Some out \<Longrightarrow> outCode out = 2"
  by (auto simp: noArgs_def split: if_splits)

lemma init_cmd_Ok:
  assumes "age_laws A" and "key_text A" and "pass_laws P" and "id_calm w" and "id_calm w'" and "ioOpen v = None"
    and "initCmd A P w dir r args noPass d = (out, d')" and "outCode out = 0"
  shows "\<exists>pass i. (if noPass then pass = None else \<exists>p. pass = Some p \<and> chosen r p)
    \<and> Load A P w' dir pass d' = (Ok (ageString A i), wiped pass)
    \<and> Read_file A v (in_dir dir VaultName) i d' = Ok New_vault
    \<and> outErr out = (if noPass then lit (with_LF unencryptedWarning) else [])"
proof -
  obtain pass where pass: "(if noPass then Ok None
      else obind (fst (Confirm r 0 ''New passphrase: '')) (\<lambda>p. Ok (Some p))) = Ok pass"
    using assms(7,8) by (auto simp: initCmd_def split: option.splits outcome.splits dest: noArgs_code)
  then have c: "if noPass then pass = None else \<exists>p. pass = Some p \<and> chosen r p"
    by (cases "Confirm r 0 ''New passphrase: ''") (auto simp: obind_eq_Ok Confirm_chosen)
  obtain res q d1 where I: "Init A P w dir pass d = (res, q, d1)" by (metis prod_cases3)
  have o: "is_ok res \<and> d1 = d' \<and> outErr out = (if pass = None \<and> is_ok res then lit (with_LF unencryptedWarning) else [])"
    using assms(7,8) pass I
    by (auto simp: initCmd_def ends_with_def is_ok_def split: option.splits outcome.splits dest: noArgs_code)
  then obtain u where "res = Ok u" by (auto elim: is_okE)
  with I o have "Init A P w dir pass d = (Ok u, q, d')" by simp
  from Init_Ok [OF assms(1-3) this assms(4-6)] obtain i where
    "Load A P w' dir pass d' = (Ok (ageString A i), wiped pass)" "Read_file A v (in_dir dir VaultName) i d' = Ok New_vault"
    by blast
  moreover have "outErr out = (if noPass then lit (with_LF unencryptedWarning) else [])"
    using c o \<open>res = Ok u\<close> by (auto split: if_splits)
  ultimately show ?thesis using c by blast
qed


text \<open>
  \<open>passphrase\<close> on a protected identity. With exit code 0 the new passphrase, typed twice, opens the same
  identity, and one of the entries was the old one; otherwise the identity is still there.
\<close>

lemma passphrase_cmd_change:
  assumes "pass_laws P" and "foreign_errors P w" and "id_calm w" and "id_calm w'"
    and "sealed P d (in_dir dir EncryptedFile) p x" and "d (in_dir dir PlainFile) = None"
    and "passphrase_cmd A P w dir r args False d = (out, d')"
  shows "if outCode out = 0
    then (\<exists>n new. r n ''Current passphrase: '' = Ok p \<and> chosen r new
      \<and> Load A P w' dir (Some new) d' = (Ok (trim_space x), Some (zeroed new))
      \<and> (p \<noteq> new \<longrightarrow> fst (Load A P w' dir (Some p) d') = Er (Sentinel (IdentityS IdErrWrongPassphrase))))
    else sealed P d' (in_dir dir EncryptedFile) p x \<or> sealed P d' (bak_name (in_dir dir EncryptedFile)) p x
      \<or> (\<exists>new. chosen r new \<and> sealed P d' (in_dir dir EncryptedFile) new (trim_space x))"
proof (cases "noArgs ''passphrase'' args")
  case (Some o')
  with assms(5,7) noArgs_code show ?thesis by (auto simp: passphrase_cmd_def)
next
  case None
  have "d (in_dir dir EncryptedFile) \<noteq> None" using assms(5) by (auto simp: sealed_def)
  with assms(6) have det: "Detect w dir d = Ok FormEncrypted" by (simp add: Detect_calm [OF assms(3)])
  obtain res a where c: "changePassphrase A P w dir r d = (res, a)" by fastforce
  with assms(7) None det have out: "outCode out = 0 \<longleftrightarrow> is_ok res" "d' = fst (akSt a)"
    by (auto simp: passphrase_cmd_def)
  show ?thesis
  proof (cases res)
    case (Ok u)
    with changePassphrase_Ok [OF assms(1-5)] c out show ?thesis by simp
  next
    case (Er e)
    with changePassphrase_keeps [OF assms(1,2,5) c] out show ?thesis by simp
  next
    case Panic
    with changePassphrase_keeps [OF assms(1,2,5) c] out show ?thesis by simp
  qed
qed

text \<open>\<open>passphrase --remove\<close>: with exit code 0 the identity is in plain, and the user has been warned.\<close>

lemma passphrase_cmd_remove:
  assumes "pass_laws P" and "foreign_errors P w" and "id_calm w" and "id_calm w'"
    and "sealed P d (in_dir dir EncryptedFile) p x" and "d (in_dir dir PlainFile) = None"
    and "passphrase_cmd A P w dir r args True d = (out, d')" and "outCode out = 0"
  shows "(\<exists>n. r n ''Current passphrase: '' = Ok p) \<and> d' (in_dir dir EncryptedFile) = None
    \<and> Load A P w' dir None d' = (Ok (trim_space x), None)
    \<and> (\<exists>errs. outErr out = errs @ lit (with_LF unencryptedWarning))"
proof -
  have none: "noArgs ''passphrase'' args = None"
    using assms(7,8) by (auto simp: passphrase_cmd_def split: option.splits dest: noArgs_code)
  have "d (in_dir dir EncryptedFile) \<noteq> None" using assms(5) by (auto simp: sealed_def)
  with assms(6) have det: "Detect w dir d = Ok FormEncrypted" by (simp add: Detect_calm [OF assms(3)])
  obtain res a where ask: "askPassphrase r ''Current passphrase: '' (remove_once A P w dir) (asks d) = (res, a)"
    by fastforce
  with assms(7) none det have out: "out = ends_with setupError res
      (akErr a @ (if is_ok res then lit (with_LF unencryptedWarning) else [])) []" "d' = akSt a"
    by (auto simp: passphrase_cmd_def)
  from assms(8) out obtain u where u: "res = Ok u" by (auto elim: is_okE)
  have "foreign_errors P w \<longrightarrow> akSt (asks d) = d" by (simp add: asks_def)
  from removing.ask_Ok [OF ask [unfolded u] this] obtain n pass b b'
    where n: "r n ''Current passphrase: '' = Ok pass" "foreign_errors P w \<longrightarrow> akSt b = d"
      and f: "remove_once A P w dir pass b = (Ok u, b')" "akSt a = akSt b'" by metis
  from f n(2) assms(2) obtain q where "RemovePassphrase A P w dir (Some pass) d = (Ok u, q, d')"
    by (auto simp: remove_once_def out(2) split: prod.splits)
  from RemovePassphrase_Ok [OF assms(1,5) this assms(4)] n(1) show ?thesis
    by (auto simp: out(1) u ends_with_def)
qed

end
