(* ===== verification/UnlockCommands.thy ===== *)
theory UnlockCommands
  imports Setup Config
begin

text \<open>
  cmd/keycell/unlock.go and status.go: \<open>unlock\<close>, which decrypts the identity and hands it to the daemon,
  \<open>status\<close> and \<open>lock\<close>. The daemon is a \<open>client\<close> for the connection and a \<open>control\<close> for the calls.
\<close>

section \<open>What status and unlock print\<close>

definition formatRemaining :: "int \<Rightarrow> bytes" where
  "formatRemaining d0 =
     (let d = duration_round d0 Minute in
      if d < Minute then ''<1m''
      else let h = d div Hour; m = d mod Hour div Minute in
           if h = 0 then print_int m @ ''m'' else print_int h @ ''h'' @ print_int m @ ''m'')"

text \<open>The zero time and no time are the same to \<open>IsZero\<close>.\<close>

definition lockState :: "cstatus \<Rightarrow> gotime \<Rightarrow> bytes" where
  "lockState st now =
     (if csLocked st then ''locked''
      else case csLocksAt st of
             None \<Rightarrow> ''unlocked, no auto-lock''
           | Some t \<Rightarrow>
               if unix_ns t = unix_ns zero_time then ''unlocked, no auto-lock''
               else ''unlocked, locks in '' @ formatRemaining (time_sub t now))"

text \<open>The literal part of a text; \<open>Detect\<close> has no error that \<open>identityForm\<close> would print otherwise.\<close>

definition literal_text :: "msg \<Rightarrow> bytes" where
  "literal_text m = concat (map (\<lambda>f. case f of C c \<Rightarrow> [c] | _ \<Rightarrow> []) m)"

definition identityForm :: "id_io \<Rightarrow> bytes \<Rightarrow> fs \<Rightarrow> bytes" where
  "identityForm w dir d =
     (case Detect w dir d of
        Er e \<Rightarrow>
          if errors_is e (IdentityS IdErrAmbiguous) then ''ambiguous, both identity.age and identity.txt exist''
          else literal_text (err_msg e)
      | Panic \<Rightarrow> []
      | Ok FormEncrypted \<Rightarrow> ''passphrase-protected''
      | Ok FormPlain \<Rightarrow> ''UNENCRYPTED''
      | Ok FormNone \<Rightarrow> ''none, run '' @ quoted ''keycell init'')"

section \<open>status and lock\<close>

definition daemonStatus :: "'st client \<Rightarrow> 'st control \<Rightarrow> 'st \<Rightarrow> cstatus res" where
  "daemonStatus c k st = obind (clConnect c st) (\<lambda>_. ctStatus k st)"

definition status_cmd ::
  "'st client \<Rightarrow> 'st control \<Rightarrow> id_io \<Rightarrow> settings \<Rightarrow> gotime \<Rightarrow> bytes list \<Rightarrow> fs \<Rightarrow> 'st \<Rightarrow> cmd_out" where
  "status_cmd c k w cfg now args d st =
     (case noArgs ''status'' args of Some out \<Rightarrow> out | None \<Rightarrow>
      (let head = with_LF (''socket:   '' @ stSocket cfg) @ with_LF (''identity: '' @ identityForm w (stDataDir cfg) d) in
       case daemonStatus c k st of
         Er e \<Rightarrow>
           if errors_is e (ClientS CErrNotRunning) then
             \<lparr> outText = head @ with_LF (''daemon:   not running, run '' @ quoted ''systemctl --user start keycell''),
               outErr = [], outCode = 1 \<rparr>
           else (exitError e)\<lparr>outText := head\<rparr>
       | Panic \<Rightarrow> panic_exit
       | Ok s \<Rightarrow> success (head @ with_LF (''daemon:   '' @ lockState s now))))"

definition lock_cmd :: "'st client \<Rightarrow> 'st control \<Rightarrow> bytes list \<Rightarrow> 'st \<Rightarrow> cmd_out \<times> 'st" where
  "lock_cmd c k args st =
     (case noArgs ''lock'' args of Some out \<Rightarrow> (out, st) | None \<Rightarrow>
      case clConnect c st of Er e \<Rightarrow> (exitError e, st) | Panic \<Rightarrow> (panic_exit, st) | Ok _ \<Rightarrow>
      (case ctLock k st of (r, st') \<Rightarrow> (ends_with exitError r [] [], st')))"

section \<open>unlock\<close>

text \<open>\<open>--for\<close>.\<close>

definition for_flag :: "bytes option \<Rightarrow> (cmd_out, int option) outcome" where
  "for_flag flag =
     (case flag of
        None \<Rightarrow> Ok None
      | Some t \<Rightarrow>
          (case parse_duration t of
             Some n \<Rightarrow> if n < 0 then Er (exit_with (lit ''keycell: invalid duration '' @ [Q t] @ lit '' for --for'') 2) else Ok (Some n)
           | None \<Rightarrow> Er (exit_with (lit ''keycell: invalid duration '' @ [Q t] @ lit '' for --for'') 2)))"

definition send_identity :: "'st control \<Rightarrow> int option \<Rightarrow> bytes \<Rightarrow> 'st \<Rightarrow> unit res \<times> 'st" where
  "send_identity k dur i st = (case dur of Some n \<Rightarrow> ctUnlockFor k i n st | None \<Rightarrow> ctUnlock k i st)"

definition unlock_once ::
  "'i age \<Rightarrow> 'i pass_age \<Rightarrow> id_io \<Rightarrow> 'st control \<Rightarrow> bytes \<Rightarrow> int option \<Rightarrow> fs \<Rightarrow> bytes \<Rightarrow> 'st asking
    \<Rightarrow> unit res \<times> 'st asking" where
  "unlock_once A P w k path dur d pass a =
     (case fst (LoadFile A P w path (Some pass) d) of
        Er e \<Rightarrow> (Er e, a)
      | Panic \<Rightarrow> (Panic, a)
      | Ok i \<Rightarrow> (case send_identity k dur i (akSt a) of (r, st') \<Rightarrow> (r, a\<lparr>akSt := st'\<rparr>)))"

text \<open>Which errors of \<open>unlock\<close> are not the daemon's.\<close>

definition unlockError :: "goerr \<Rightarrow> cmd_out" where
  "unlockError e =
     (if errors_is e (IdentityS IdErrWrongPassphrase) \<or> errors_is e (TtyS ErrNoTTY)
        \<or> errors_is e (TtyS ErrInterrupted) \<or> errors_is e (IdentityS IdErrMalformed)
      then setupError e else exitError e)"

text \<open>\<open>now\<close> is the time when the state is printed; the file system is only read.\<close>

definition unlock_cmd ::
  "'i age \<Rightarrow> 'i pass_age \<Rightarrow> id_io \<Rightarrow> 'st client \<Rightarrow> 'st control \<Rightarrow> bytes \<Rightarrow> read_func \<Rightarrow> gotime \<Rightarrow> bytes list
    \<Rightarrow> bytes option \<Rightarrow> fs \<Rightarrow> 'st \<Rightarrow> cmd_out \<times> 'st" where
  "unlock_cmd A P w c k dir r now args flag d st =
     (case noArgs ''unlock'' args of Some out \<Rightarrow> (out, st) | None \<Rightarrow>
      case for_flag flag of Er out \<Rightarrow> (out, st) | Panic \<Rightarrow> (panic_exit, st) | Ok dur \<Rightarrow>
      case Detect w dir d of
        Er e \<Rightarrow> (setupError e, st)
      | Panic \<Rightarrow> (panic_exit, st)
      | Ok form \<Rightarrow>
      if form = FormNone then (exit_with (lit (''keycell: no identity, run '' @ quoted ''keycell init'')) 1, st)
      else case clConnect c st of Er e \<Rightarrow> (exitError e, st) | Panic \<Rightarrow> (panic_exit, st) | Ok _ \<Rightarrow>
      case ctStatus k st of Er e \<Rightarrow> (exitError e, st) | Panic \<Rightarrow> (panic_exit, st) | Ok s0 \<Rightarrow>
      if \<not> csLocked s0 then (success (with_LF (''already '' @ lockState s0 now)), st)
      else case (if form = FormPlain then
                   (case fst (LoadFile A P w (in_dir dir PlainFile) None d) of
                      Er e \<Rightarrow> Er (setupError e)
                    | Panic \<Rightarrow> Panic
                    | Ok i \<Rightarrow> Ok (case send_identity k dur i st of (res, st') \<Rightarrow> (res, (asks st)\<lparr>akSt := st'\<rparr>)))
                 else Ok (askPassphrase r ''Passphrase: ''
                   (unlock_once A P w k (in_dir dir EncryptedFile) dur d) (asks st))) of
        Er out \<Rightarrow> (out, st)
      | Panic \<Rightarrow> (panic_exit, st)
      | Ok (res, a) \<Rightarrow>
          (case res of
             Er e \<Rightarrow> (ends_with unlockError res (akErr a) [], akSt a)
           | Panic \<Rightarrow> (panic_exit, akSt a)
           | Ok _ \<Rightarrow>
               (case ctStatus k (akSt a) of
                  Er e \<Rightarrow> (ends_with exitError (Er e) (akErr a) [], akSt a)
                | Panic \<Rightarrow> (panic_exit, akSt a)
                | Ok s1 \<Rightarrow> (ends_with exitError res (akErr a) (with_LF (lockState s1 now)), akSt a))))"


section \<open>The time that is left\<close>

text \<open>The time is rounded to whole minutes, half a minute up.\<close>

lemma formatRemaining_minutes:
  assumes "0 \<le> d" and "d + Minute < 2 ^ 63"
  defines "m \<equiv> (d + 30 * Second) div Minute"
  shows "formatRemaining d =
    (if m < 1 then ''<1m''
     else if m < 60 then print_int m @ ''m''
     else print_int (m div 60) @ ''h'' @ print_int (m mod 60) @ ''m'')"
proof -
  have s: "0 < Second" by (simp add: Second_def)
  have min: "Minute = 2 * (30 * Second)" by (simp add: Minute_def)
  have "duration_round d (2 * (30 * Second)) = (d + 30 * Second) div (2 * (30 * Second)) * (2 * (30 * Second))"
    using assms(1,2) s by (intro duration_round_even) (simp_all add: min)
  then have r: "duration_round d Minute = m * Minute" by (simp add: m_def min)
  have pos: "0 < Minute" using s by (simp add: Minute_def)
  have lt: "m * Minute < Minute \<longleftrightarrow> m < 1" using pos by (simp add: mult_less_cancel_right1)
  have h: "m * Minute div Hour = m div 60" and mm: "m * Minute mod Hour div Minute = m mod 60"
    using pos by (simp_all add: Hour_def mult.commute [of m] mult.commute [of 60] mult_mod_right [symmetric])
  have "0 \<le> m" using assms(1) s pos by (simp add: m_def pos_imp_zdiv_nonneg_iff)
  then have "m div 60 = 0 \<longleftrightarrow> m < 60" by (auto simp: zdiv_eq_0_iff)
  moreover have "m < 60 \<Longrightarrow> m mod 60 = m" using \<open>0 \<le> m\<close> by simp
  ultimately show ?thesis by (simp add: formatRemaining_def r lt h mm Let_def)
qed

lemma formatRemaining_past: "d < 0 \<Longrightarrow> formatRemaining d = ''<1m''"
  using duration_round_neg [of d Minute] by (simp add: formatRemaining_def Minute_def Second_def)

lemma formatRemaining_all:
  assumes "d + Minute < 2 ^ 63"
  shows "formatRemaining d =
    (if (d + 30 * Second) div Minute < 1 then ''<1m''
     else if (d + 30 * Second) div Minute < 60 then print_int ((d + 30 * Second) div Minute) @ ''m''
     else print_int ((d + 30 * Second) div Minute div 60) @ ''h'' @ print_int ((d + 30 * Second) div Minute mod 60) @ ''m'')"
proof (cases "0 \<le> d")
  case True
  from formatRemaining_minutes [OF this assms] show ?thesis .
next
  case False
  then have "d + 30 * Second < Minute" by (simp add: Minute_def Second_def)
  then have "(d + 30 * Second) div Minute \<le> 0"
    using zdiv_mono1 [of "d + 30 * Second" "Minute - 1" Minute] by (simp add: Minute_def Second_def)
  with False show ?thesis by (simp add: formatRemaining_past)
qed

lemma identityForm_literal: "Detect w dir d = Er e \<Longrightarrow> errors_is e (IdentityS IdErrAmbiguous)"
  by (auto simp: Detect_def Let_def split: if_splits)

section \<open>The daemon at the other end\<close>

definition unlock_request :: "bytes \<Rightarrow> int option \<Rightarrow> request" where
  "unlock_request x secs = \<lparr> rqId = Some (JNum ''1''), rqMethod = MethodUnlock,
     rqParams = Some (enc_unlock_params \<lparr> upIdentity = Some x, upFor = secs \<rparr>) \<rparr>"

definition daemon_unlock ::
  "'i age \<Rightarrow> io \<Rightarrow> config \<Rightarrow> bytes \<Rightarrow> int option \<Rightarrow> 'i session \<times> fs \<Rightarrow> unit res \<times> 'i session \<times> fs" where
  "daemon_unlock A v cf x secs st =
     (case server_call A v cf (unlock_request x secs) st of
        (r, st') \<Rightarrow> (client_res MethodUnlock (obind r (\<lambda>_. Ok ())), survives r st'))"

definition daemon_status :: "'i session \<Rightarrow> cstatus" where
  "daemon_status s = \<lparr> csProtocol = ProtoVersion, csLocked = fst (Status s),
     csLocksAt = (if unix_ns (snd (Status s)) = unix_ns zero_time then None else Some (snd (Status s))) \<rparr>"

definition daemon_control :: "'i age \<Rightarrow> io \<Rightarrow> config \<Rightarrow> ('i session \<times> fs) control" where
  "daemon_control A v cf =
     \<lparr> ctStatus = (\<lambda>st. Ok (daemon_status (fst st))),
       ctUnlock = (\<lambda>x. daemon_unlock A v cf x None),
       ctUnlockFor = (\<lambda>x n. daemon_unlock A v cf x (Some (whole_seconds n))),
       ctLock = (\<lambda>(s, d). (Ok (), Lock s, d)) \<rparr>"

lemma daemon_ends [simp]:
  "ctStatus (daemon_control A v cf) st = Ok (daemon_status (fst st))" "clConnect (daemon_client A v path) st = Ok ()"
  by (simp_all add: daemon_control_def daemon_client_def)

lemma daemon_status_of: "call_status s = Ok (RStatus (csProtocol (daemon_status s)) (csLocked (daemon_status s)) (csLocksAt (daemon_status s)))"
  by (simp add: call_status_def daemon_status_def split: prod.split)

lemma daemon_unlock_cases:
  assumes "daemon_unlock A v cf x secs (s, d) = (r, s', d')" and "\<forall>n. secs = Some n \<longrightarrow> int64_range n"
    and "sId s = None"
  shows "d' = d \<and> \<not> wrong_pass r
    \<and> (\<forall>u. r = Ok u \<longrightarrow> (\<exists>i t. Parse A x = Ok i \<and> sId s' = Some i \<and> Read_file A v (cfPath cf) i d = Ok t))
    \<and> (\<forall>e. r = Er e \<longrightarrow> sId s' = None)"
proof -
  obtain r0 s1 where c: "call_unlock A v cf (unlock_request x secs) s d = (r0, s1)" by fastforce
  then have r: "r = client_res MethodUnlock (obind r0 (\<lambda>_. Ok ()))" and st: "(s', d') = survives r0 (s1, d)"
    using assms(1) by (simp_all add: daemon_unlock_def server_call_def unlock_request_def method_defs)
  then have d: "d' = d" by (simp add: survives_def prod_eq_iff split: if_splits)
  have b: "Bind (unlock_request x secs) unlock_fields zero_unlock = Ok \<lparr> upIdentity = Some x, upFor = secs \<rparr>"
    using assms(2) by (intro Bind_unlock) (simp_all add: unlock_request_def)
  have "\<not> wrong_pass r"
    by (cases r0) (auto simp: r client_error_def closed_early_def split: prod.split)
  moreover have "(\<forall>u. r = Ok u \<longrightarrow> (\<exists>i t. Parse A x = Ok i \<and> sId s' = Some i \<and> Read_file A v (cfPath cf) i d = Ok t))
    \<and> (\<forall>e. r = Er e \<longrightarrow> sId s' = None)"
    using unlock_outcomes [OF b c] assms(3) c b st
    by (cases r0) (auto simp: r NewSession_def val_bytes_def call_unlock_def Unlock_def split: outcome.splits option.splits if_splits)
  ultimately show ?thesis using d by simp
qed

lemma whole_seconds_range: "int64_range n \<Longrightarrow> int64_range (whole_seconds n)"
proof -
  have "0 \<le> m \<Longrightarrow> 0 \<le> m div Second \<and> m div Second \<le> m" for m
    using zdiv_mono2 [of m 1 Second] by (simp add: Second_def)
  from this [of n] this [of "- n"] show "int64_range n \<Longrightarrow> int64_range (whole_seconds n)"
    by (auto simp: int64_range_def whole_seconds_def)
qed

lemma for_flag_range: "for_flag flag = Ok (Some n) \<Longrightarrow> int64_range n \<and> 0 \<le> n"
  by (auto simp: for_flag_def dest: parse_duration_range split: option.splits if_splits)


section \<open>unlock on a daemon\<close>

lemma send_identity_cases:
  assumes "send_identity (daemon_control A v cf) dur x (s, d) = (r, s', d')" and "\<forall>n. dur = Some n \<longrightarrow> int64_range n"
    and "sId s = None"
  shows "d' = d \<and> \<not> wrong_pass r
    \<and> (\<forall>u. r = Ok u \<longrightarrow> (\<exists>i t. Parse A x = Ok i \<and> sId s' = Some i \<and> Read_file A v (cfPath cf) i d = Ok t))
    \<and> (\<forall>e. r = Er e \<longrightarrow> sId s' = None)"
proof -
  have "daemon_unlock A v cf x (map_option whole_seconds dur) (s, d) = (r, s', d')"
    using assms(1) by (simp add: send_identity_def daemon_control_def split: option.splits)
  from daemon_unlock_cases [OF this _ assms(3)] assms(2) show ?thesis using whole_seconds_range by blast
qed

text \<open>What one entry does: it is not the passphrase, or the identity goes to the daemon.\<close>

lemma unlock_once_cases:
  assumes "unlock_once A P w k path dur d pass a = (res, a')"
  obtains (not_opened) "a' = a" and "\<forall>u. res \<noteq> Ok u" and "\<forall>x. fst (LoadFile A P w path (Some pass) d) \<noteq> Ok x"
  | (sent) x st' where "fst (LoadFile A P w path (Some pass) d) = Ok x"
      and "send_identity k dur x (akSt a) = (res, st')" and "a' = a\<lparr>akSt := st'\<rparr>"
proof (cases "fst (LoadFile A P w path (Some pass) d)")
  case (Ok x)
  obtain res1 st' where s: "send_identity k dur x (akSt a) = (res1, st')" by (cases "send_identity k dur x (akSt a)")
  with assms Ok have "res1 = res" "a' = a\<lparr>akSt := st'\<rparr>" by (simp_all add: unlock_once_def)
  with sent Ok s show ?thesis by blast
qed (use assms not_opened in \<open>auto simp: unlock_once_def\<close>)

lemma unlock_once_prompts: "unlock_once A P w k path dur d pass a = (res, a') \<Longrightarrow> akPrompt a' = akPrompt a"
  by (auto elim: unlock_once_cases)

definition unlock_keep :: "int option \<Rightarrow> 'i session \<times> fs \<Rightarrow> 'i session \<times> fs \<Rightarrow> bool" where
  "unlock_keep dur st0 st \<longleftrightarrow>
     (sId (fst st0) = None \<longrightarrow> (\<forall>n. dur = Some n \<longrightarrow> int64_range n) \<longrightarrow> st = st0)"

interpretation unlocking: entry_use "unlock_once A P w (daemon_control A v cf) path dur d" "unlock_keep dur st0"
  for A P w v cf path dur d st0
proof
  fix pass a res a'
  assume run: "unlock_once A P w (daemon_control A v cf) path dur d pass a = (res, a')"
  show "unlock_keep dur st0 (akSt a')" if "wrong_pass res" and "unlock_keep dur st0 (akSt a)"
    using run
  proof (cases rule: unlock_once_cases)
    case (sent x st')
    show ?thesis
      unfolding unlock_keep_def
    proof (intro impI)
      assume l: "sId (fst st0) = None" "\<forall>n. dur = Some n \<longrightarrow> int64_range n"
      then have "akSt a = st0" using that(2) by (simp add: unlock_keep_def)
      with send_identity_cases [of A v cf dur x "fst st0" "snd st0" res "fst st'" "snd st'"] sent(2) l that(1)
      show "akSt a' = st0" by simp
    qed
  qed (use that in simp)
  show "wiped_all (akLeft a')" if "wiped_all (akLeft a)"
    using run that by (cases rule: unlock_once_cases) simp_all
qed

text \<open>A wrong passphrase is told after three entries, and until then the daemon hears nothing.\<close>

lemma wrong_entries:
  assumes "sId s = None" and "\<forall>n. dur = Some n \<longrightarrow> int64_range n" and "wrong_pass res"
    and "askPassphrase r ''Passphrase: '' (unlock_once A P w (daemon_control A v cf) path dur d) (asks (s, d2)) = (res, a)"
    and "\<forall>n e. r n ''Passphrase: '' \<noteq> Er e"
  shows "akPrompt a = 3 \<and> akSt a = (s, d2)"
proof -
  have p: "unlock_once A P w (daemon_control A v cf) path dur d pass b = (q, b') \<Longrightarrow> akPrompt b' = akPrompt b"
    for pass b q b' by (rule unlock_once_prompts)
  have "akPrompt a = 3"
    using loop_prompts [OF p assms(4) [unfolded askPassphrase_def]] assms(3,5)
    by (simp add: asks_def passphraseAttempts_def)
  moreover have k: "unlock_keep dur (s, d2) (akSt (asks (s, d2)))" by (simp add: unlock_keep_def asks_def)
  have "akSt a = (s, d2)"
  proof -
    from unlocking.ask_ends [OF assms(4) k] show ?thesis
    proof (elim disjE conjE exE)
      fix n pass b b'
      assume kb: "unlock_keep dur (s, d2) (akSt b)" and st: "akSt a = akSt b'"
        and f: "unlock_once A P w (daemon_control A v cf) path dur d pass b = (res, b')"
      from unlocking.wrong_keeps [OF f assms(3) kb] assms(1,2) st show ?thesis by (simp add: unlock_keep_def)
    qed (use assms(1,2) in \<open>simp_all add: unlock_keep_def\<close>)
  qed
  ultimately show ?thesis by simp
qed

lemma unlockError_code [simp]: "outCode (unlockError e) = 1"
  by (simp add: unlockError_def exitError_code)

lemma ends_codes [simp]:
  "outCode (ends_with unlockError (Er e) errs out) = 1" "outCode (ends_with exitError (Er e) errs out) = 1"
  "outCode (ends_with exitError (Ok u) errs out) = 0" "outText (ends_with exitError (Ok u) errs out) = out"
  by (simp_all add: ends_with_def exitError_code)


text \<open>
  \<open>unlock\<close> on a protected identity and a locked daemon. With exit code 0 one of the entries was the
  passphrase, the daemon holds the key of that file, and that key opens the vault; with exit code 1
  the daemon is still locked. The files do not change.
\<close>

lemma unlock_cmd_sealed:
  assumes "pass_laws P" and "id_calm w"
    and "sealed P d (in_dir dir EncryptedFile) p x" and "d (in_dir dir PlainFile) = None"
    and "sBuf s = None" and "sId s = None"
    and "unlock_cmd A P w (daemon_client A v (cfPath cf)) (daemon_control A v cf) dir r now args flag d (s, d)
      = (out, s', d')"
  shows "(outCode out = 0 \<longrightarrow>
      d' = d \<and> outText out = with_LF (lockState (daemon_status s') now)
      \<and> (\<exists>n i t. r n ''Passphrase: '' = Ok p \<and> Parse A (trim_space x) = Ok i \<and> sId s' = Some i
          \<and> Read_file A v (cfPath cf) i d = Ok t))
    \<and> (outCode out = 1 \<longrightarrow> d' = d \<and> sId s' = None)"
proof (cases "noArgs ''unlock'' args")
  case (Some o')
  with assms(7) noArgs_code show ?thesis by (auto simp: unlock_cmd_def)
next
  case noargs: None
  let ?k = "daemon_control A v cf" and ?path = "in_dir dir EncryptedFile"
  show ?thesis
  proof (cases "for_flag flag")
    case (Ok dur)
    then have dur: "\<forall>n. dur = Some n \<longrightarrow> int64_range n" using for_flag_range by blast
    have "d ?path \<noteq> None" using assms(3) by (auto simp: sealed_def)
    with assms(4) have det: "Detect w dir d = Ok FormEncrypted" by (simp add: Detect_calm [OF assms(2)])
    obtain res a where ask: "askPassphrase r ''Passphrase: '' (unlock_once A P w ?k ?path dur d) (asks (s, d)) = (res, a)"
      by fastforce
    have locked: "csLocked (daemon_status s)" using assms(5) by (simp add: daemon_status_def Status_def)
    have run: "(out, s', d') = (case res of
             Er e \<Rightarrow> (ends_with unlockError res (akErr a) [], akSt a)
           | Panic \<Rightarrow> (panic_exit, akSt a)
           | Ok _ \<Rightarrow> (ends_with exitError res (akErr a) (with_LF (lockState (daemon_status (fst (akSt a))) now)), akSt a))"
      using assms(7) [symmetric] noargs Ok det ask locked by (cases res) (simp_all add: unlock_cmd_def)
    have k: "unlock_keep dur (s, d) (akSt (asks (s, d)))" by (simp add: unlock_keep_def asks_def)
    from unlocking.ask_ends [OF ask k] show ?thesis
    proof (elim disjE conjE exE)
      fix n pass b b'
      assume n: "r n ''Passphrase: '' = Ok pass" and kb: "unlock_keep dur (s, d) (akSt b)"
        and f: "unlock_once A P w ?k ?path dur d pass b = (res, b')" and st: "akSt a = akSt b'"
      have b: "akSt b = (s, d)" using kb dur assms(6) by (simp add: unlock_keep_def)
      from f show ?thesis
      proof (cases rule: unlock_once_cases)
        case not_opened
        with run st b assms(6) show ?thesis by (cases res) auto
      next
        case (sent y st')
        obtain s1 d1 where st': "st' = (s1, d1)" by (cases st')
        have o: "idOpen w ?path = None" using assms(2) by (simp add: id_calm_def)
        have "pass = p" using sent(1) LoadFile_sealed(2) [where A = A and q = pass, OF assms(1,3) o] by force
        moreover have "p \<noteq> []" using sent(1) \<open>pass = p\<close>
          by (auto simp: LoadFile_def pass_bytes_def split: outcome.splits if_splits)
        with LoadFile_sealed(1) [where A = A, OF assms(1,3) o] sent(1) \<open>pass = p\<close> have "validate_key A x = Ok y" by simp
        then have y: "y = trim_space x" by (simp add: validate_key_Ok)
        from send_identity_cases [OF sent(2) [unfolded b st'] dur assms(6)]
        have q: "d1 = d" "\<And>u. res = Ok u \<Longrightarrow> \<exists>i t. Parse A y = Ok i \<and> sId s1 = Some i \<and> Read_file A v (cfPath cf) i d = Ok t"
          "\<And>e. res = Er e \<Longrightarrow> sId s1 = None" by blast+
        have "akSt a = (s1, d1)" using st sent(3) st' by simp
        with run n y \<open>pass = p\<close> q show ?thesis by (cases res) auto
      qed
    qed (use run assms(6) dur in \<open>auto simp: unlock_keep_def\<close>)
  next
    case (Er o')
    with assms(7) noargs show ?thesis by (auto simp: unlock_cmd_def for_flag_def split: option.splits if_splits)
  next
    case Panic
    then show ?thesis by (simp add: for_flag_def split: option.splits if_splits)
  qed
qed

text \<open>A daemon that is open already, or no daemon, never causes a prompt.\<close>

lemma unlock_cmd_open:
  assumes "sBuf s \<noteq> None"
    and "unlock_cmd A P w (daemon_client A v (cfPath cf)) (daemon_control A v cf) dir r now args flag d (s, d2)
      = (out, st')"
  shows "st' = (s, d2) \<and> (outCode out = 0 \<longrightarrow> outText out = with_LF (''already '' @ lockState (daemon_status s) now))"
  using assms noArgs_code [of "''unlock''" args]
  by (auto simp: unlock_cmd_def daemon_client_def daemon_control_def daemon_status_def Status_def success_def
      for_flag_def split: option.splits outcome.splits if_splits)

lemma unlock_cmd_no_daemon:
  assumes "clConnect c st = Er e"
  shows "unlock_cmd A P w c k dir r now args flag d st = unlock_cmd A P w c k dir r' now args flag d st"
    and "snd (unlock_cmd A P w c k dir r now args flag d st) = st"
  using assms by (simp_all add: unlock_cmd_def split: option.split outcome.split)

end
