(* ===== verification/Secmem.thy ===== *)
theory Secmem
  imports GoErrors GoTime
begin

text \<open>
  internal/secmem: a buffer outside the Go heap, in a mapping of its own that is locked and left out of
  core dumps, and the hardening of the process. The mappings of the process are a state; which system
  calls fail is a parameter.
\<close>

section \<open>Mappings\<close>

record mapping =
  mpData :: bytes
  mpLocked :: bool
  mpDump :: bool

record address_space =
  asMaps :: "(nat, mapping) gomap"
  asNext :: nat

record mem_io =
  meMmap :: "goerr option"
  meMlock :: "goerr option"
  meMadvise :: "goerr option"
  meMunmap :: "goerr option"
  mePage :: int

text \<open>\<open>Buffer\<close>: the mapping, none after \<open>Destroy\<close>, and the size asked for.\<close>

record buffer =
  bfMem :: "nat option"
  bfSize :: int

definition unmap :: "mem_io \<Rightarrow> nat \<Rightarrow> address_space \<Rightarrow> address_space" where
  "unmap w a m = (if meMunmap w = None then m\<lparr>asMaps := AList.delete a (asMaps m)\<rparr> else m)"

definition page_multiple :: "mem_io \<Rightarrow> int \<Rightarrow> int" where
  "page_multiple w sz = wrap64 (sz + mePage w - 1) div mePage w * mePage w"

text \<open>A length that is not positive is refused by \<open>mmap\<close> itself.\<close>

definition secmem_New :: "mem_io \<Rightarrow> int \<Rightarrow> address_space \<Rightarrow> buffer res \<times> address_space" where
  "secmem_New w sz m =
     (if sz \<le> 0 then (Er (New (lit ''secmem: size '' @ [D sz] @ lit '' must be positive'')), m)
      else
      (let n = page_multiple w sz; a = asNext m in
       case (if n \<le> 0 then Some (New [F OsText]) else meMmap w) of
         Some e \<Rightarrow> (Er (wrapf (lit ''secmem: mmap '' @ [D n] @ lit '' bytes'') e), m)
       | None \<Rightarrow>
       (let put = (\<lambda>locked dump. m\<lparr>asMaps := AList.update a
               \<lparr> mpData = replicate (nat n) NUL, mpLocked = locked, mpDump = dump \<rparr> (asMaps m), asNext := Suc a\<rparr>) in
        case meMlock w of
          Some e \<Rightarrow> (Er (wrapf (lit ''secmem: mlock'') e), unmap w a (put False True))
        | None \<Rightarrow>
        case meMadvise w of
          Some e \<Rightarrow> (Er (wrapf (lit ''secmem: madvise'') e), unmap w a (put False True))
        | None \<Rightarrow> (Ok \<lparr> bfMem = Some a, bfSize = sz \<rparr>, put True False))))"

definition Bytes :: "buffer \<Rightarrow> address_space \<Rightarrow> bytes option" where
  "Bytes b m =
     (case bfMem b of
        None \<Rightarrow> None
      | Some a \<Rightarrow> map_option (\<lambda>p. take (nat (bfSize b)) (mpData p)) (map_of (asMaps m) a))"

text \<open>The program writes through the slice that \<open>Bytes\<close> gives.\<close>

definition fill :: "buffer \<Rightarrow> bytes \<Rightarrow> address_space \<Rightarrow> address_space" where
  "fill b x m =
     (case bfMem b of
        None \<Rightarrow> m
      | Some a \<Rightarrow>
          (case map_of (asMaps m) a of
             None \<Rightarrow> m
           | Some p \<Rightarrow> m\<lparr>asMaps := AList.update a
               (p\<lparr>mpData := take (nat (bfSize b)) x @ drop (min (length x) (nat (bfSize b))) (mpData p)\<rparr>) (asMaps m)\<rparr>))"

text \<open>\<open>wipe\<close>.\<close>

definition wipe :: "nat \<Rightarrow> address_space \<Rightarrow> address_space" where
  "wipe a m =
     (case map_of (asMaps m) a of
        None \<Rightarrow> m
      | Some p \<Rightarrow> m\<lparr>asMaps := AList.update a (p\<lparr>mpData := zeroed (mpData p)\<rparr>) (asMaps m)\<rparr>)"

definition unlock_pages :: "nat \<Rightarrow> address_space \<Rightarrow> address_space" where
  "unlock_pages a m =
     (case map_of (asMaps m) a of
        None \<Rightarrow> m
      | Some p \<Rightarrow> m\<lparr>asMaps := AList.update a (p\<lparr>mpLocked := False\<rparr>) (asMaps m)\<rparr>)"

definition Destroy :: "mem_io \<Rightarrow> buffer \<Rightarrow> address_space \<Rightarrow> buffer \<times> address_space" where
  "Destroy w b m =
     (case bfMem b of
        None \<Rightarrow> (b, m)
      | Some a \<Rightarrow> (b\<lparr>bfMem := None\<rparr>, unmap w a (unlock_pages a (wipe a m))))"

section \<open>Hardening\<close>

record process =
  prDumpable :: bool
  prCoreSoft :: nat
  prCoreHard :: nat

record harden_io =
  hdPrctl :: "goerr option"
  hdGetrlimit :: "goerr option"
  hdSetrlimit :: "goerr option"

definition DebugEnv :: bytes where "DebugEnv = ''KEYCELL_DEBUG_DUMPABLE''"

text \<open>The first component is the error, none when the process is hardened.\<close>

definition Harden :: "harden_io \<Rightarrow> (bytes \<Rightarrow> bytes) \<Rightarrow> process \<Rightarrow> goerr option \<times> process" where
  "Harden w env p =
     (if env DebugEnv = ''1'' then (Some (Sentinel DebugDumpableS), p)
      else case hdPrctl w of
        Some e \<Rightarrow> (Some (wrapf (lit ''secmem: prctl PR_SET_DUMPABLE'') e), p)
      | None \<Rightarrow>
          (let p1 = p\<lparr>prDumpable := False\<rparr> in
           case hdGetrlimit w of
             Some e \<Rightarrow> (Some (wrapf (lit ''secmem: getrlimit RLIMIT_CORE'') e), p1)
           | None \<Rightarrow>
               (case hdSetrlimit w of
                  Some e \<Rightarrow> (Some (wrapf (lit ''secmem: setrlimit RLIMIT_CORE'') e), p1)
                | None \<Rightarrow> (None, p1\<lparr>prCoreSoft := 0\<rparr>))))"

section \<open>The life of a buffer\<close>

definition space_ok :: "address_space \<Rightarrow> bool" where
  "space_ok m \<longleftrightarrow> gomap_ok (asMaps m) \<and> (\<forall>a \<in> fst ` set (asMaps m). a < asNext m)"

lemma fresh_map: "space_ok m \<Longrightarrow> map_of (asMaps m) (asNext m) = None"
  by (auto simp: space_ok_def map_of_eq_None_iff)

lemma page_multiple_bounds:
  assumes "0 < mePage w" and "0 < sz" and "sz + mePage w \<le> 2 ^ 63"
  shows "sz \<le> page_multiple w sz \<and> page_multiple w sz < sz + mePage w \<and> mePage w dvd page_multiple w sz"
proof -
  let ?P = "mePage w"
  have "wrap64 (sz + ?P - 1) = sz + ?P - 1"
    by (rule wrap64_id) (use assms in \<open>simp add: int64_range_def\<close>)
  moreover have "(sz + ?P - 1) div ?P * ?P = sz + ?P - 1 - (sz + ?P - 1) mod ?P"
    by (simp add: minus_mod_eq_div_mult [symmetric])
  moreover have "0 \<le> (sz + ?P - 1) mod ?P" "(sz + ?P - 1) mod ?P < ?P" using assms(1) by simp_all
  ultimately show ?thesis by (simp add: page_multiple_def)
qed

text \<open>
  A buffer that was made is a locked mapping of zeros, whole pages, not in core dumps, and the rest of
  the address space is as before.
\<close>

lemma secmem_New_Ok:
  assumes "secmem_New w sz m = (Ok b, m')" and "space_ok m" and "0 < mePage w" and "sz + mePage w \<le> 2 ^ 63"
  shows "space_ok m' \<and> bfSize b = sz \<and> 0 < sz
    \<and> (\<exists>a p. bfMem b = Some a \<and> map_of (asMaps m) a = None \<and> map_of (asMaps m') = (map_of (asMaps m))(a \<mapsto> p)
        \<and> mpLocked p \<and> \<not> mpDump p \<and> set (mpData p) \<subseteq> {NUL}
        \<and> sz \<le> int (length (mpData p)) \<and> mePage w dvd int (length (mpData p)))"
proof -
  from assms(1) have s: "0 < sz" by (auto simp: secmem_New_def split: if_splits)
  let ?n = "page_multiple w sz" and ?a = "asNext m"
  let ?p = "\<lparr> mpData = replicate (nat ?n) NUL, mpLocked = True, mpDump = False \<rparr>"
  from page_multiple_bounds [OF assms(3) s assms(4)] have n: "sz \<le> ?n" "mePage w dvd ?n" by blast+
  from assms(1) s n(1) have r: "b = \<lparr> bfMem = Some ?a, bfSize = sz \<rparr>"
    "m' = m\<lparr>asMaps := AList.update ?a ?p (asMaps m), asNext := Suc ?a\<rparr>"
    by (auto simp: secmem_New_def Let_def split: option.splits)
  have "space_ok m'" using assms(2) by (auto simp: r space_ok_def dom_update image_Un intro: less_SucI)
  moreover have "map_of (asMaps m') = (map_of (asMaps m))(?a \<mapsto> ?p)" by (simp add: r update_conv')
  ultimately show ?thesis using s n fresh_map [OF assms(2)] by (auto simp: r(1))
qed

lemma delete_update_new: "a \<notin> fst ` set al \<Longrightarrow> AList.delete a (AList.update a p al) = al"
  by (induction al) (auto simp: AList.delete_eq filter_id_conv)

text \<open>Nothing stays mapped when it fails.\<close>

lemma secmem_New_Er:
  assumes "secmem_New w sz m = (Er e, m')" and "space_ok m" and "meMunmap w = None"
  shows "map_of (asMaps m') = map_of (asMaps m) \<and> space_ok m'"
proof -
  have f: "asNext m \<notin> fst ` set (asMaps m)" using fresh_map [OF assms(2)] by (simp add: map_of_eq_None_iff)
  note u = delete_update_new [OF f]
  have "m' = m \<or> m' = m\<lparr>asNext := Suc (asNext m)\<rparr>"
    using assms(1,3) by (auto simp: secmem_New_def Let_def unmap_def u split: option.splits if_splits)
  with assms(2) show ?thesis by (fastforce simp: space_ok_def)
qed

text \<open>After \<open>Destroy\<close> the mapping is gone; where unmapping fails it holds nothing but zeros. A second call does nothing.\<close>

lemma Destroy_gone:
  assumes "Destroy w b m = (b', m')" and "bfMem b = Some a" and "gomap_ok (asMaps m)"
  shows "bfMem b' = None \<and> Bytes b' m' = None
    \<and> (meMunmap w = None \<longrightarrow> map_of (asMaps m') a = None)
    \<and> (\<forall>p. map_of (asMaps m') a = Some p \<longrightarrow> set (mpData p) \<subseteq> {NUL})
    \<and> (\<forall>a'. a' \<noteq> a \<longrightarrow> map_of (asMaps m') a' = map_of (asMaps m) a')"
proof (cases "map_of (asMaps m) a")
  case None
  with assms show ?thesis
    by (auto simp: Destroy_def Bytes_def unmap_def unlock_pages_def wipe_def delete_conv' split: if_splits)
next
  case (Some p)
  with assms show ?thesis
    by (auto simp: Destroy_def Bytes_def unmap_def unlock_pages_def wipe_def update_conv' delete_conv' zeroed_def split: if_splits)
qed

lemma Destroy_twice: "Destroy w b m = (b', m') \<Longrightarrow> Destroy w' b' m' = (b', m')"
  by (auto simp: Destroy_def split: option.splits)

text \<open>What is written into a buffer is what \<open>Bytes\<close> gives.\<close>

lemma fill_Bytes:
  assumes "bfMem b = Some a" and "map_of (asMaps m) a = Some p" and "bfSize b = int (length x)"
    and "length x \<le> length (mpData p)"
  shows "Bytes b (fill b x m) = Some x"
  using assms by (simp add: Bytes_def fill_def update_conv')

lemma fill_map:
  assumes "bfMem b = Some a" and "gomap_ok (asMaps m)"
  shows "gomap_ok (asMaps (fill b x m))"
  using assms by (auto simp: fill_def split: option.split)

text \<open>The life of a buffer from one end to the other.\<close>

lemma buffer_life_cycle:
  assumes "space_ok m" and "0 < mePage w" and "sz + mePage w \<le> 2 ^ 63"
  shows "case secmem_New w sz m of
      (Ok b, m') \<Rightarrow>
        (\<exists>a p. bfMem b = Some a \<and> map_of (asMaps m) a = None \<and> map_of (asMaps m') = (map_of (asMaps m))(a \<mapsto> p)
          \<and> mpLocked p \<and> \<not> mpDump p \<and> set (mpData p) \<subseteq> {NUL} \<and> sz \<le> int (length (mpData p))
          \<and> (\<forall>x. case Destroy w b (fill b x m') of (b', m'') \<Rightarrow>
               Bytes b' m'' = None \<and> (meMunmap w = None \<longrightarrow> map_of (asMaps m'') a = None)
               \<and> (\<forall>q. map_of (asMaps m'') a = Some q \<longrightarrow> set (mpData q) \<subseteq> {NUL})))
    | (Er e, m') \<Rightarrow> meMunmap w = None \<longrightarrow> map_of (asMaps m') = map_of (asMaps m)
    | (Panic, m') \<Rightarrow> False"
proof -
  obtain r m' where n: "secmem_New w sz m = (r, m')" by fastforce
  show ?thesis
  proof (cases r)
    case (Ok b)
    from secmem_New_Ok [OF n [unfolded Ok] assms] obtain a p where ap: "bfMem b = Some a" "map_of (asMaps m) a = None"
      "map_of (asMaps m') = (map_of (asMaps m))(a \<mapsto> p)" "mpLocked p" "\<not> mpDump p" "set (mpData p) \<subseteq> {NUL}"
      "sz \<le> int (length (mpData p))" and ok: "space_ok m'" by blast
    have g: "gomap_ok (asMaps (fill b x m'))" for x using fill_map [OF ap(1)] ok by (simp add: space_ok_def)
    have d: "case Destroy w b (fill b x m') of (b', m'') \<Rightarrow>
               Bytes b' m'' = None \<and> (meMunmap w = None \<longrightarrow> map_of (asMaps m'') a = None)
               \<and> (\<forall>q. map_of (asMaps m'') a = Some q \<longrightarrow> set (mpData q) \<subseteq> {NUL})" for x
    proof -
      obtain b' m'' where D: "Destroy w b (fill b x m') = (b', m'')" by fastforce
      from Destroy_gone [OF D ap(1) g] D show ?thesis by simp
    qed
    show ?thesis unfolding n Ok prod.case outcome.case
      by (intro exI [of _ a] exI [of _ p] conjI allI ap d)
  next
    case (Er e)
    with secmem_New_Er [of w sz m e m'] n assms(1) show ?thesis by simp
  next
    case Panic
    with n show ?thesis by (auto simp: secmem_New_def Let_def split: if_splits option.splits)
  qed
qed

text \<open>A hardened process cannot be dumped; only the soft limit is changed, so that a child can raise it.\<close>

lemma Harden_None:
  "Harden w env p = (None, p') \<Longrightarrow> \<not> prDumpable p' \<and> prCoreSoft p' = 0 \<and> prCoreHard p' = prCoreHard p
    \<and> env DebugEnv \<noteq> ''1''"
  by (auto simp: Harden_def Let_def split: if_splits option.splits)

lemma Harden_debug: "env DebugEnv = ''1'' \<Longrightarrow> Harden w env p = (Some (Sentinel DebugDumpableS), p)"
  by (simp add: Harden_def)

end
