(* ===== verification/Process.thy ===== *)
theory Process
  imports UnlockCommands ServeLoop Secmem
begin

text \<open>
  The programs: cmd/keycelld/main.go and notify.go with the flags they parse, the frame of
  cmd/keycell/main.go around its commands, and how the library finds the daemon (pkg/keycell). What
  the logger writes is left out.
\<close>

section \<open>Flags\<close>

text \<open>\<open>FlagSet.Parse\<close> for flags that all take a value; the rest of the arguments is not looked at.\<close>

definition flag_help :: goerr where "flag_help = Sentinel (StdS ErrHelp)"

fun flag_parse :: "bytes list \<Rightarrow> (bytes, bytes) gomap \<Rightarrow> bytes list \<Rightarrow> (bytes, bytes) gomap res" where
  "flag_parse names vals [] = Ok vals"
| "flag_parse names vals (s # rest) =
     (if length s < 2 \<or> hd s \<noteq> CHR ''-'' \<or> s = ''--'' then Ok vals
      else
      (let word = (if s ! 1 = CHR ''-'' then drop 2 s else drop 1 s) in
       if hd word = CHR ''-'' \<or> hd word = CHR ''='' then Er (New (lit (''bad flag syntax: '' @ s)))
       else
       (let (name, val) = (case cut_at (CHR ''='') (tl word) of
              None \<Rightarrow> (word, None) | Some (a, b) \<Rightarrow> (hd word # a, Some b)) in
        if name \<notin> set names then
          (if name = ''help'' \<or> name = ''h'' then Er flag_help
           else Er (New (lit (''flag provided but not defined: -'' @ name))))
        else case val of
          Some v \<Rightarrow> flag_parse names (AList.update name v vals) rest
        | None \<Rightarrow>
            (case rest of
               [] \<Rightarrow> Er (New (lit (''flag needs an argument: -'' @ name)))
             | v # rest' \<Rightarrow> flag_parse names (AList.update name v vals) rest'))))"

definition daemon_flag_names :: "bytes list" where
  "daemon_flag_names = [''config'', ''data-dir'', ''socket'', ''auto-lock'', ''log-level'']"

definition daemon_flags :: "(bytes, bytes) gomap \<Rightarrow> layer" where
  "daemon_flags vals = \<lparr> lyDataDir = map_of vals ''data-dir'', lySocket = map_of vals ''socket'',
     lyAutoLock = map_of vals ''auto-lock'', lyLogLevel = map_of vals ''log-level'' \<rparr>"

section \<open>Notifying systemd\<close>

record notify_io =
  ntDial :: "bytes \<Rightarrow> goerr option"
  ntWrite :: "goerr option"

definition sdNotify :: "notify_io \<Rightarrow> bytes \<Rightarrow> bytes \<Rightarrow> unit res \<times> (bytes \<times> bytes) list" where
  "sdNotify w socket state =
     (let addr = (if socket \<noteq> [] \<and> hd socket = CHR ''@'' then NUL # tl socket else socket) in
      case ntDial w addr of
        Some e \<Rightarrow> (Er (wrapf (lit ''sd_notify'') e), [])
      | None \<Rightarrow>
          (case ntWrite w of
             Some e \<Rightarrow> (Er (wrapf (lit ''sd_notify'') e), [])
           | None \<Rightarrow> (Ok (), [(addr, state)])))"

definition notify :: "notify_io \<Rightarrow> bytes \<Rightarrow> bytes \<Rightarrow> (bytes \<times> bytes) list" where
  "notify w socket state = (if socket = [] then [] else snd (sdNotify w socket state))"

section \<open>The daemon\<close>

record daemon_world =
  dwEnv :: "bytes \<Rightarrow> bytes"
  dwFiles :: "bytes \<Rightarrow> file_read"
  dwHarden :: "goerr option"
  dwListen :: listen_io
  dwNotify :: notify_io

definition vault_config :: "settings \<Rightarrow> config" where
  "vault_config cfg = \<lparr> cfPath = path_join [stDataDir cfg, VaultName], cfDefaultFor = stAutoLock cfg \<rparr>"

record daemon_exit =
  deCode :: nat
  deErr :: msg
  deSent :: "(bytes \<times> bytes) list"
  deAt :: at_path

text \<open>\<open>srv\<close> is the outcome of \<open>Serve\<close>, which closes the listener and with it removes the socket.\<close>

definition keycelld_run :: "daemon_world \<Rightarrow> (config \<Rightarrow> unit res) \<Rightarrow> bytes list \<Rightarrow> at_path \<Rightarrow> daemon_exit" where
  "keycelld_run w srv args sock =
     (let stop = (\<lambda>code errs. \<lparr> deCode = code, deErr = errs, deSent = [], deAt = sock \<rparr>) in
      case flag_parse daemon_flag_names [] args of
        Er e \<Rightarrow> if errors_is e (StdS ErrHelp) then stop 0 [] else stop 2 (err_msg e)
      | Panic \<Rightarrow> stop 2 []
      | Ok vals \<Rightarrow>
      (case config_Load (attr_or_empty vals ''config'') (dwEnv w) (daemon_flags vals) (dwFiles w) of
         Er e \<Rightarrow> stop 1 (lit ''keycelld: '' @ err_msg e)
       | Panic \<Rightarrow> stop 2 []
       | Ok cfg \<Rightarrow>
           if (case dwHarden w of None \<Rightarrow> False | Some e \<Rightarrow> \<not> errors_is e DebugDumpableS) then stop 1 []
           else
           (case Listen (dwListen w) (stSocket cfg) sock of
              (Er e, sock') \<Rightarrow> (stop 1 [])\<lparr>deAt := sock'\<rparr>
            | (Panic, sock') \<Rightarrow> (stop 2 [])\<lparr>deAt := sock'\<rparr>
            | (Ok _, sock') \<Rightarrow>
                (let say = notify (dwNotify w) (dwEnv w ''NOTIFY_SOCKET'') in
                 case srv (vault_config cfg) of
                   Ok _ \<Rightarrow> \<lparr> deCode = 0, deErr = [], deSent = say ''READY=1'' @ say ''STOPPING=1'', deAt = NoSocket \<rparr>
                 | Er e \<Rightarrow> \<lparr> deCode = 1, deErr = [], deSent = say ''READY=1'' @ say ''STOPPING=1'', deAt = NoSocket \<rparr>
                 | Panic \<Rightarrow> \<lparr> deCode = 2, deErr = [], deSent = say ''READY=1'', deAt = DeadSocket \<rparr>))))"

section \<open>The command line\<close>

text \<open>What a command of the framework ends with: nothing, an exit error, or any other error.\<close>

datatype cli_result = CliOk | CliExit msg nat | CliError goerr

definition keycell_run :: "goerr option \<Rightarrow> cli_result \<Rightarrow> msg \<times> nat" where
  "keycell_run harden r =
     (let debug = (case harden of None \<Rightarrow> False | Some e \<Rightarrow> errors_is e DebugDumpableS) in
      if harden \<noteq> None \<and> \<not> debug
      then (lit ''keycell: hardening failed: '' @ err_msg (the harden) @ [C LF], 1)
      else
      (let warn = (if debug then lit ''keycell: warning: '' @ err_msg (the harden) @ [C LF] else []) in
       case r of
         CliOk \<Rightarrow> (warn, 0)
       | CliExit m code \<Rightarrow> (warn @ (if m = [] then [] else m @ [C LF]), code)
       | CliError e \<Rightarrow> (warn @ lit ''keycell: '' @ err_msg e @ [C LF], 1)))"

definition loadConfig ::
  "(bytes \<Rightarrow> bytes) \<Rightarrow> (bytes \<Rightarrow> file_read) \<Rightarrow> bytes \<Rightarrow> bytes option \<Rightarrow> (cmd_out, settings) outcome" where
  "loadConfig env files config socket =
     (case config_Load config env (no_layer\<lparr>lySocket := socket\<rparr>) files of
        Ok cfg \<Rightarrow> Ok cfg
      | Er e \<Rightarrow> Er (exit_with (lit ''keycell: '' @ err_msg e) 1)
      | Panic \<Rightarrow> Panic)"

text \<open>\<open>main\<close> of both programs hardens the process first.\<close>

definition keycelld_main ::
  "harden_io \<Rightarrow> daemon_world \<Rightarrow> (config \<Rightarrow> unit res) \<Rightarrow> bytes list \<Rightarrow> at_path \<Rightarrow> process \<Rightarrow> daemon_exit \<times> process" where
  "keycelld_main h w srv args sock p =
     (case Harden h (dwEnv w) p of (e, p') \<Rightarrow> (keycelld_run (w\<lparr>dwHarden := e\<rparr>) srv args sock, p'))"

definition keycell_main :: "harden_io \<Rightarrow> (bytes \<Rightarrow> bytes) \<Rightarrow> (process \<Rightarrow> cli_result) \<Rightarrow> process \<Rightarrow> (msg \<times> nat) \<times> process" where
  "keycell_main h env cmd p = (case Harden h env p of (e, p') \<Rightarrow> (keycell_run e (cmd p'), p'))"

text \<open>\<open>shown\<close> is what showing the help gives.\<close>

definition root_cmd :: "cli_result \<Rightarrow> bytes list \<Rightarrow> cli_result" where
  "root_cmd shown args =
     (case args of [] \<Rightarrow> shown | a # _ \<Rightarrow> CliExit (lit ''keycell: unknown command '' @ [Q a]) 2)"

definition usageError :: "goerr \<Rightarrow> cli_result" where
  "usageError e = CliExit (lit ''keycell: '' @ err_msg e) 2"

definition cmd_connect :: "settings \<Rightarrow> network \<Rightarrow> nat \<Rightarrow> bytes res" where
  "cmd_connect cfg nw n = ConnectSocket (stSocket cfg) nw n"

section \<open>The library\<close>

definition keycell_Connect :: "(bytes \<Rightarrow> bytes) \<Rightarrow> (bytes \<Rightarrow> file_read) \<Rightarrow> network \<Rightarrow> nat \<Rightarrow> bytes res" where
  "keycell_Connect env files nw n =
     (case config_Load [] env no_layer files of
        Er e \<Rightarrow> Er (wrapf (lit ''keycell: connect'') e)
      | Panic \<Rightarrow> Panic
      | Ok cfg \<Rightarrow> ConnectSocket (stSocket cfg) nw n)"

definition LoadIdentity ::
  "'i age \<Rightarrow> 'i pass_age \<Rightarrow> id_io \<Rightarrow> bytes \<Rightarrow> bytes option \<Rightarrow> fs \<Rightarrow> bytes res \<times> bytes option" where
  "LoadIdentity A P w path passphrase d =
     (case LoadFile A P w path passphrase d of
        (Ok i, q) \<Rightarrow> (Ok i, q)
      | (Panic, q) \<Rightarrow> (Panic, q)
      | (Er e, q) \<Rightarrow>
          (Er (if errors_is e (IdentityS IdErrNotFound) then wrapf (lit ''keycell: load identity'') (wrap2 (Sentinel (ClientS CErrNotFound)) e)
               else if errors_is e (IdentityS IdErrWrongPassphrase) \<or> errors_is e (IdentityS IdErrMalformed)
               then wrapf (lit ''keycell: load identity'') (wrap2 (Sentinel (ClientS CErrInvalidArgument)) e)
               else wrapf (lit ''keycell: load identity'') e), q))"

section \<open>What they keep\<close>

lemma attr_or_empty_Nil [simp]: "attr_or_empty [] k = []"
  by (simp add: attr_or_empty_def)

text \<open>A daemon that is started beside a living one leaves its socket alone and tells systemd nothing.\<close>

lemma keycelld_beside:
  assumes "sock = LiveSocket"
  shows "deAt (keycelld_run w srv args sock) = LiveSocket \<and> deSent (keycelld_run w srv args sock) = []
    \<and> (deCode (keycelld_run w srv args sock) = 0 \<longrightarrow>
        (\<exists>e. flag_parse daemon_flag_names [] args = Er e \<and> errors_is e (StdS ErrHelp)))"
proof -
  have "r \<noteq> Ok () \<and> sock' = LiveSocket" if "Listen (dwListen w) path sock = (r, sock')" for path r sock'
    using Listen_beside [OF assms, of "dwListen w" path] that by simp
  with assms show ?thesis
    by (auto simp: keycelld_run_def Let_def split: outcome.splits prod.splits option.splits)
qed

text \<open>When it ends with 0, and when it has told systemd that it is ready.\<close>

definition listens :: "daemon_world \<Rightarrow> bytes list \<Rightarrow> at_path \<Rightarrow> settings \<Rightarrow> bool" where
  "listens w args sock cfg \<longleftrightarrow>
     (\<exists>vals. flag_parse daemon_flag_names [] args = Ok vals
        \<and> config_Load (attr_or_empty vals ''config'') (dwEnv w) (daemon_flags vals) (dwFiles w) = Ok cfg)
     \<and> (\<forall>e. dwHarden w = Some e \<longrightarrow> errors_is e DebugDumpableS)
     \<and> fst (Listen (dwListen w) (stSocket cfg) sock) = Ok ()"

lemma Listen_no_panic: "fst (Listen w path sock) \<noteq> Panic"
  by (simp add: Listen_def daemon_wrap_def split: option.split)

lemma keycelld_cases:
  obtains (asked) e where "flag_parse daemon_flag_names [] args = Er e" and "errors_is e (StdS ErrHelp)"
      and "deCode (keycelld_run w srv args sock) = 0" and "deSent (keycelld_run w srv args sock) = []"
  | (failed) "deCode (keycelld_run w srv args sock) \<noteq> 0" and "deSent (keycelld_run w srv args sock) = []"
      and "\<nexists>cfg. listens w args sock cfg"
  | (served) cfg where "listens w args sock cfg"
      and "deCode (keycelld_run w srv args sock) = (case srv (vault_config cfg) of Ok _ \<Rightarrow> 0 | Er e \<Rightarrow> 1 | Panic \<Rightarrow> 2)"
      and "deSent (keycelld_run w srv args sock) = notify (dwNotify w) (dwEnv w ''NOTIFY_SOCKET'') ''READY=1''
        @ (if srv (vault_config cfg) = Panic then [] else notify (dwNotify w) (dwEnv w ''NOTIFY_SOCKET'') ''STOPPING=1'')"
proof (cases "\<exists>cfg. listens w args sock cfg")
  case True
  then obtain cfg where c: "listens w args sock cfg" by blast
  then obtain vals where v: "flag_parse daemon_flag_names [] args = Ok vals"
    "config_Load (attr_or_empty vals ''config'') (dwEnv w) (daemon_flags vals) (dwFiles w) = Ok cfg"
    by (auto simp: listens_def)
  have h: "\<not> (case dwHarden w of None \<Rightarrow> False | Some e \<Rightarrow> \<not> errors_is e DebugDumpableS)"
    using c by (auto simp: listens_def split: option.split)
  obtain sock' where l: "Listen (dwListen w) (stSocket cfg) sock = (Ok (), sock')"
    using c by (cases "Listen (dwListen w) (stSocket cfg) sock") (simp add: listens_def)
  show thesis
    by (rule served [OF c]; use v h l in \<open>simp add: keycelld_run_def Let_def split: outcome.split\<close>)
next
  case False
  show thesis
  proof (cases "\<exists>e. flag_parse daemon_flag_names [] args = Er e \<and> errors_is e (StdS ErrHelp)")
    case True
    then show thesis using asked by (auto simp: keycelld_run_def)
  next
    case nohelp: False
    have "fst (Listen (dwListen w) path sock) \<noteq> Panic" for path by (rule Listen_no_panic)
    with False nohelp have "deCode (keycelld_run w srv args sock) \<noteq> 0 \<and> deSent (keycelld_run w srv args sock) = []"
      by (auto simp: keycelld_run_def Let_def listens_def split: outcome.splits prod.splits option.splits)
    with failed False show thesis by blast
  qed
qed

lemma notify_states: "m \<in> set (notify w socket state) \<Longrightarrow> snd m = state \<and> socket \<noteq> []"
  by (auto simp: notify_def sdNotify_def Let_def split: if_splits option.splits)

text \<open>
  With \<open>Serve\<close> as in \<open>ServeLoop\<close>: a daemon that ends with 0 and was not asked for help was told to stop,
  has closed every connection and is no longer listening.
\<close>

lemma keycelld_stops:
  assumes "deCode (keycelld_run w srv args sock) = 0"
    and "\<And>cfg r. srv (vault_config cfg) = r \<Longrightarrow> r \<noteq> Panic \<Longrightarrow>
      \<exists>s. serves A X (vault_config cfg) peers uid NewSession d s \<and> svPc s = Returned r"
    and "\<nexists>e. flag_parse daemon_flag_names [] args = Er e \<and> errors_is e (StdS ErrHelp)"
  shows "\<exists>cfg s. listens w args sock cfg \<and> serves A X (vault_config cfg) peers uid NewSession d s
    \<and> svPc s = Returned (Ok ()) \<and> svCancelled s \<and> \<not> svOpen s \<and> svConns s = {}"
proof (rule keycelld_cases [of args w srv sock])
  fix cfg
  assume c: "listens w args sock cfg"
    and "deCode (keycelld_run w srv args sock) = (case srv (vault_config cfg) of Ok _ \<Rightarrow> 0 | Er e \<Rightarrow> 1 | Panic \<Rightarrow> 2)"
  with assms(1) have "srv (vault_config cfg) = Ok ()" by (auto split: outcome.splits)
  from assms(2) [OF this] obtain s where s: "serves A X (vault_config cfg) peers uid NewSession d s"
    "svPc s = Returned (Ok ())" by auto
  from serves_inv [OF s(1)] s(2) have "svCancelled s \<and> \<not> svOpen s \<and> svConns s = {}"
    unfolding serve_inv_def by simp
  with c s show ?thesis by blast
qed (use assms in auto)

text \<open>A daemon that serves cannot be dumped, unless the debugging variable is set.\<close>

lemma keycelld_main_hardened:
  assumes "keycelld_main h w srv args sock p = (out, p')" and "deSent out \<noteq> []" and "dwEnv w DebugEnv \<noteq> ''1''"
    and "\<And>e. hdPrctl h = Some e \<or> hdGetrlimit h = Some e \<or> hdSetrlimit h = Some e \<Longrightarrow> \<not> errors_is e DebugDumpableS"
  shows "\<not> prDumpable p' \<and> prCoreSoft p' = 0 \<and> prCoreHard p' = prCoreHard p"
proof -
  obtain e where H: "Harden h (dwEnv w) p = (e, p')" and out: "out = keycelld_run (w\<lparr>dwHarden := e\<rparr>) srv args sock"
    using assms(1) by (auto simp: keycelld_main_def split: prod.splits)
  have "e = None"
  proof (rule ccontr)
    assume "e \<noteq> None"
    then obtain e' where e: "e = Some e'" by blast
    with H assms(3,4) have "\<not> errors_is e' DebugDumpableS" by (auto simp: Harden_def Let_def split: option.splits)
    then have "\<nexists>cfg. listens (w\<lparr>dwHarden := e\<rparr>) args sock cfg" by (simp add: listens_def e)
    with assms(2) show False
      unfolding out by (rule_tac keycelld_cases [of args "w\<lparr>dwHarden := e\<rparr>" srv sock]) auto
  qed
  with Harden_None H show ?thesis by auto
qed

section \<open>One path for both\<close>

lemma join_with_snoc: "es \<noteq> [] \<Longrightarrow> join_with sep (es @ [e]) = join_with sep es @ sep @ e"
  by (induction sep es rule: join_with.induct) auto

lemma path_elems_append: "path_elems (p @ CHR ''/'' # q) = path_elems p @ path_elems q"
  by (simp add: path_elems_def split_by_cat)

lemma elems_ok_rooted:
  "elems_ok True es \<longleftrightarrow> (\<forall>e \<in> set es. e \<noteq> [] \<and> e \<noteq> ''.'' \<and> CHR ''/'' \<notin> set e \<and> e \<noteq> ''..'')"
  unfolding elems_ok_def list_all_iff using set_dropWhileD by fast

text \<open>\<open>filepath.Join\<close> of a data directory and a file name is the path that the identity files are made of.\<close>

lemma join_in_dir:
  assumes "path_is_clean dir" and "is_abs dir" and "name \<in> {EncryptedFile, PlainFile, VaultName}"
  shows "path_join [dir, name] = in_dir dir name"
proof -
  from assms(1) obtain es where es: "elems_ok True es" "dir = path_text True es"
    using assms(2) path_text_read(2) unfolding path_is_clean_def by metis
  have n: "name \<noteq> []" "CHR ''/'' \<notin> set name" "name \<noteq> ''.''" "name \<noteq> ''..''"
    using assms(3) by (auto simp: EncryptedFile_def PlainFile_def VaultName_def)
  have "path_elems (dir @ CHR ''/'' # name) = es @ [name]"
    using n by (simp add: path_elems_append es(2) path_text_read(1) [OF es(1)]) (simp add: path_elems_def split_by_word)
  moreover have "elems_ok True (es @ [name])"
    unfolding elems_ok_rooted set_append ball_Un
    using es(1) [unfolded elems_ok_rooted] n by (intro conjI) (assumption, simp)
  moreover have "is_abs (dir @ CHR ''/'' # name)" using assms(2) by (auto simp: is_abs_def)
  ultimately have "path_clean (dir @ CHR ''/'' # name) = path_text True (es @ [name])"
    by (simp add: path_clean_def clean_elems_id)
  moreover have "dir \<noteq> []" using assms(2) by (auto simp: is_abs_def)
  ultimately have "path_join [dir, name] = path_text True (es @ [name])" by (simp add: path_join_def)
  moreover have "join_with ''/'' es \<noteq> []" if "es \<noteq> []"
    using that elems_okD(1) [OF es(1)] by (cases "(''/'', es)" rule: join_with.cases) auto
  ultimately show ?thesis
    by (cases "es = []") (auto simp: es(2) path_text_def in_dir_def join_with_snoc)
qed

lemma LoadIdentity_kind:
  assumes "LoadFile A P w path passphrase d = (Er e, q)" and "errors_is e (IdentityS IdErrWrongPassphrase)"
    and "\<not> errors_is e (IdentityS IdErrNotFound)"
  shows "\<exists>e'. LoadIdentity A P w path passphrase d = (Er e', q) \<and> errors_is e' (ClientS CErrInvalidArgument)
    \<and> errors_is e' (IdentityS IdErrWrongPassphrase)"
  using assms by (simp add: LoadIdentity_def)

end
