(* ===== verification/ProcessSamples.thy ===== *)
theory ProcessSamples
  imports Samples Process
begin

text \<open>
  Concrete instances for the commands, the terminal, the configuration and the server loop.
\<close>

section \<open>Answers at the terminal\<close>

definition answers :: read_func where
  "answers n label = (if label = ''Current passphrase: '' \<or> label = ''Passphrase: '' then Ok ''pw'' else Ok ''new'')"

lemma answers_simps [simp]:
  "answers n ''Current passphrase: '' = Ok ''pw''" "answers n ''Passphrase: '' = Ok ''pw''"
  "answers n ''New passphrase: '' = Ok ''new''" "answers n ''Repeat passphrase: '' = Ok ''new''"
  by (simp_all add: answers_def)

lemma tag_foreign: "foreign_errors tag_pass calm_id"
  by (simp add: foreign_errors_def tag_pass_def calm_id_def)

lemma sample_passphrase:
  obtains out d' where "passphrase_cmd tag_age tag_pass calm_id ''/k'' answers [] False sealed_fs = (out, d')"
    and "outCode out = 0"
proof -
  obtain d' where d': "ChangePassphrase tag_age tag_pass calm_id ''/k'' (Some ''pw'') ''new'' sealed_fs
      = (Ok (), (Some (zeroed ''pw''), zeroed ''new''), d')" by (rule sample_change)
  have det: "Detect calm_id ''/k'' sealed_fs = Ok FormEncrypted"
    by (simp add: Detect_calm sealed_fs_plain) (simp add: sealed_fs_def)
  have c: "Confirm answers n ''New passphrase: '' = (Ok ''new'', [zeroed ''new''], n + 2)" for n
    by (simp add: Confirm_Ok)
  have "fst (changePassphrase tag_age tag_pass calm_id ''/k'' answers sealed_fs) = Ok ()"
    by (simp add: changePassphrase_def askPassphrase_def ask_loop.simps passphraseAttempts_def asks_def
        change_once_def change_with_def c d' Let_def eval_nat_numeral)
  then obtain a where "changePassphrase tag_age tag_pass calm_id ''/k'' answers sealed_fs = (Ok (), a)"
    by (cases "changePassphrase tag_age tag_pass calm_id ''/k'' answers sealed_fs") simp
  with that det show thesis by (simp add: passphrase_cmd_def noArgs_def)
qed

section \<open>Unlocking\<close>

definition home_fs :: fs where
  "home_fs = sealed_fs(some_path \<mapsto> new_file (tag True # print_json (enc_vault some_vault)) 384)"

lemma some_path_apart: "in_dir ''/k'' EncryptedFile \<noteq> some_path" "in_dir ''/k'' PlainFile \<noteq> some_path"
  by (simp_all add: in_dir_def some_path_def EncryptedFile_def PlainFile_def)

lemma home_fs_files: "home_fs (in_dir ''/k'' EncryptedFile) = sealed_fs (in_dir ''/k'' EncryptedFile)"
  "home_fs (in_dir ''/k'' PlainFile) = None" "home_fs some_path = vault_fs some_vault some_path"
  using some_path_apart by (simp_all add: home_fs_def sealed_fs_plain vault_fs_def)

lemma home_fs_sealed: "sealed tag_pass home_fs (in_dir ''/k'' EncryptedFile) ''pw'' ''T''"
  using sealed_fs_holds by (simp add: sealed_def home_fs_files)

lemma home_fs_read: "Read_file tag_age calm_io some_path True home_fs = Ok (norm_vault some_vault)"
  using vault_fs_read by (simp add: Read_file_def home_fs_files)

lemma sample_unlock_entry:
  "fst (LoadFile tag_age tag_pass calm_id (in_dir ''/k'' EncryptedFile) (Some ''pw'') home_fs) = Ok ''T''"
proof -
  have f: "idOpen calm_id (in_dir ''/k'' EncryptedFile) = None" by simp
  have t: "trim_space ''T'' = ''T''" by (rule trim_graphic) (simp_all add: graphic_def)
  from LoadFile_sealed(1) [where A = tag_age, OF tag_pass_laws home_fs_sealed f]
  show ?thesis by (simp add: validate_key_def t Parse_tag)
qed

lemma sample_send:
  obtains s' where "send_identity (daemon_control tag_age calm_io some_config) None ''T'' (NewSession, home_fs)
      = (Ok (), s', home_fs)"
proof -
  let ?rq = "unlock_request ''T'' None"
  have b: "Bind ?rq unlock_fields zero_unlock = Ok \<lparr> upIdentity = Some ''T'', upFor = None \<rparr>"
    by (rule Bind_unlock) (simp_all add: unlock_request_def)
  obtain r s' where c: "call_unlock tag_age calm_io some_config ?rq NewSession home_fs = (r, s')" by fastforce
  have "no_nil (norm_vault some_vault)" by (rule no_nil_norm) simp
  with unlock_outcomes [OF b c] have "r = Ok REmpty"
    by (simp add: val_bytes_def Parse_tag home_fs_read)
  with c that show thesis
    by (simp add: send_identity_def daemon_control_def daemon_unlock_def server_call_def unlock_request_def method_defs)
qed

lemma sample_unlock_cmd:
  obtains out s' where "unlock_cmd tag_age tag_pass calm_id (daemon_client tag_age calm_io (cfPath some_config))
      (daemon_control tag_age calm_io some_config) ''/k'' answers zero_time [] None home_fs (NewSession, home_fs)
      = (out, s', home_fs)" and "outCode out = 0"
proof -
  obtain s' where s': "send_identity (daemon_control tag_age calm_io some_config) None ''T'' (NewSession, home_fs)
      = (Ok (), s', home_fs)" by (rule sample_send)
  have det: "Detect calm_id ''/k'' home_fs = Ok FormEncrypted"
    by (simp add: Detect_calm home_fs_files) (simp add: sealed_fs_def)
  let ?u = "unlock_once tag_age tag_pass calm_id (daemon_control tag_age calm_io some_config)
      (in_dir ''/k'' EncryptedFile) None home_fs"
  have u: "?u ''pw'' a = (Ok (), a\<lparr>akSt := (s', home_fs)\<rparr>)" if "akSt a = (NewSession, home_fs)" for a
    using that by (simp add: unlock_once_def sample_unlock_entry s')
  have "fst (askPassphrase answers ''Passphrase: '' ?u (asks (NewSession, home_fs))) = Ok ()"
    "akSt (snd (askPassphrase answers ''Passphrase: '' ?u (asks (NewSession, home_fs)))) = (s', home_fs)"
    by (simp_all add: askPassphrase_def ask_loop.simps passphraseAttempts_def asks_def u Let_def eval_nat_numeral)
  then obtain a where a: "askPassphrase answers ''Passphrase: '' ?u (asks (NewSession, home_fs)) = (Ok (), a)"
    "akSt a = (s', home_fs)"
    by (cases "askPassphrase answers ''Passphrase: '' ?u (asks (NewSession, home_fs))") simp
  have "csLocked (daemon_status (NewSession :: bool session))" by (simp add: daemon_status_def Status_def NewSession_def)
  with a det have "unlock_cmd tag_age tag_pass calm_id (daemon_client tag_age calm_io (cfPath some_config))
      (daemon_control tag_age calm_io some_config) ''/k'' answers zero_time [] None home_fs (NewSession, home_fs)
      = (ends_with exitError (Ok ()) (akErr a) (with_LF (lockState (daemon_status s') zero_time)), s', home_fs)"
    by (simp add: unlock_cmd_def noArgs_def for_flag_def)
  then show thesis by (rule that) simp
qed


section \<open>The terminal\<close>

definition some_termios :: termios where
  "some_termios = \<lparr> tmLflag = 15, tmOther = [] \<rparr>"

definition some_tty :: tty_io where
  "some_tty = \<lparr> tyOpen = None, tyGet = call_ok (), tySet = (\<lambda>_. call_ok ()), tyPrompt = None,
     tyInput = [Data ''p'', Data (''w'' @ [CHR 0x0D, LF])], tySignal = None \<rparr>"

definition exact_growth :: "nat \<Rightarrow> nat \<Rightarrow> nat" where
  "exact_growth cap need = max need (2 * cap)"

section \<open>The configuration\<close>

definition some_env :: "bytes \<Rightarrow> bytes" where
  "some_env k = (if k = ''HOME'' then ''/h'' else if k = ''XDG_RUNTIME_DIR'' then ''/r''
     else if k = ''KEYCELL_DATA_DIR'' then ''~/d/../e'' else if k = ''NOTIFY_SOCKET'' then ''@n'' else [])"

definition no_files :: "bytes \<Rightarrow> file_read" where
  "no_files path = OpenFails no_such_file"

definition some_settings :: settings where
  "some_settings = \<lparr> stDataDir = ''/h/e'', stSocket = ''/r/keycell/keycell.sock'',
     stAutoLock = 28800000000000, stLogLevel = ''info'' \<rparr>"

lemma some_paths:
  "expandPath ''~/d/../e'' ''/h'' = Ok ''/h/e''" "path_join [''/r'', ''keycell'', ''keycell.sock''] = ''/r/keycell/keycell.sock''"
  by code_simp+

lemma some_env_layer: "env_layer some_env = no_layer\<lparr>lyDataDir := Some ''~/d/../e''\<rparr>"
  by (simp add: env_layer_def no_layer_def envValue_def some_env_def EnvDataDir_def EnvSocket_def EnvAutoLock_def EnvLogLevel_def)

lemma sample_config: "config_Load [] some_env no_layer no_files = Ok some_settings"
proof -
  have p: "configPath [] some_env = Ok (path_join [path_join [''/h'', ''.config'', ''keycell''], ''config.json''], False)"
    by (simp add: configPath_def xdgDir_def some_env_def EnvConfig_def)
  have f: "readFile no_files path False = Ok no_layer" for path
    by (simp add: readFile_def no_files_def no_such_file_def)
  have n: "apply_layer no_layer home src c = Ok c" for home src c
    by (simp add: apply_layer_def no_layer_def apply_field_def)
  have e: "apply_layer (no_layer\<lparr>lyDataDir := Some ''~/d/../e''\<rparr>) ''/h'' src c = Ok (c\<lparr>stDataDir := ''/h/e''\<rparr>)" for src c
    by (simp add: apply_layer_def no_layer_def apply_field_def some_paths wrap_key_def)
  have h: "some_env ''HOME'' = ''/h''" "some_env ''XDG_RUNTIME_DIR'' = ''/r''" by (simp_all add: some_env_def)
  show ?thesis
    by (simp add: config_Load_def Let_def p f n some_env_layer h e default_dirs_def some_paths some_settings_def
        DefaultAutoLock_def DefaultLogLevel_def Hour_def Minute_def Second_def)
qed

text \<open>An environment in which \<open>XDG_RUNTIME_DIR\<close> is relative.\<close>

definition relative_env :: "bytes \<Rightarrow> bytes" where
  "relative_env k = (if k = ''HOME'' then ''/h'' else if k = ''XDG_RUNTIME_DIR'' then ''r'' else [])"

lemma relative_config: "\<exists>c. config_Load [] relative_env no_layer no_files = Ok c \<and> stSocket c = ''r/keycell/keycell.sock''"
proof -
  have p: "configPath [] relative_env = Ok (path_join [path_join [''/h'', ''.config'', ''keycell''], ''config.json''], False)"
    by (simp add: configPath_def xdgDir_def relative_env_def EnvConfig_def)
  have f: "readFile no_files path False = Ok no_layer" for path
    by (simp add: readFile_def no_files_def no_such_file_def)
  have n: "apply_layer no_layer home src c = Ok c" for home src c
    by (simp add: apply_layer_def no_layer_def apply_field_def)
  have e: "env_layer relative_env = no_layer"
    by (simp add: env_layer_def no_layer_def envValue_def relative_env_def EnvDataDir_def EnvSocket_def
        EnvAutoLock_def EnvLogLevel_def)
  have h: "relative_env ''HOME'' = ''/h''" "relative_env ''XDG_RUNTIME_DIR'' = ''r''" "relative_env ''XDG_DATA_HOME'' = []"
    by (simp_all add: relative_env_def)
  have q: "path_join [''r'', ''keycell'', ''keycell.sock''] = ''r/keycell/keycell.sock''" by code_simp
  show ?thesis by (simp add: config_Load_def Let_def p f n e h default_dirs_def xdgDir_def q)
qed

section \<open>A server that is told to stop\<close>

lemma sample_stops:
  fixes A :: "bool age"
  shows "\<exists>s. serves A X cf peers uid NewSession d s \<and> svPc s = Returned (Ok ()) \<and> svSession s = NewSession"
proof -
  let ?step = "\<lambda>a. serve_step A X cf peers uid a"
  let ?s0 = "serve_start (NewSession :: bool session) d"
  let ?s1 = "?s0\<lparr>svCancelled := True\<rparr>"
  let ?s2 = "?s1\<lparr>svOpen := False\<rparr>"
  let ?s3 = "?s2\<lparr>svPc := Grace\<rparr>"
  let ?s4 = "?s3\<lparr>svPc := Locking\<rparr>"
  let ?s5 = "?s4\<lparr>svSession := Lock (svSession ?s4), svPc := Closing\<rparr>"
  let ?s6 = "?s5\<lparr>svClosed := svClosed ?s5 \<union> svConns ?s5, svPc := Joining\<rparr>"
  let ?s7 = "?s6\<lparr>svPc := Returned (Ok ()), svOpen := False\<rparr>"
  have "?step World ?s0 ?s1" by (rule serve_step.cancel) (simp add: serve_start_def)
  moreover have "?step Own ?s1 ?s2" by (rule serve_step.close_listener) (simp_all add: serve_start_def)
  moreover have "?step Own ?s2 ?s3" by (rule serve_step.accept_stops) (simp_all add: serve_start_def)
  moreover have "?step Own ?s3 ?s4" by (rule serve_step.waited) simp
  moreover have "?step Own ?s4 ?s5" by (rule serve_step.locks) simp
  moreover have "?step Own ?s5 ?s6" by (rule serve_step.closes) simp
  moreover have "?step Own ?s6 ?s7" by (rule serve_step.joins) (simp_all add: serve_start_def)
  ultimately have "serves A X cf peers uid NewSession d ?s7" by (meson serves.intros)
  moreover have "Lock NewSession = NewSession" by (simp add: Lock_def NewSession_def)
  ultimately show ?thesis by (intro exI [of _ ?s7]) (simp add: serve_start_def)
qed

definition some_daemon :: daemon_world where
  "some_daemon = \<lparr> dwEnv = some_env, dwFiles = no_files, dwHarden = None,
     dwListen = \<lparr> liMkdir = None, liChmodDir = None, liRemove = None, liListen = None, liChmod = None \<rparr>,
     dwNotify = \<lparr> ntDial = (\<lambda>_. None), ntWrite = None \<rparr> \<rparr>"

lemma sample_keycelld:
  "keycelld_run some_daemon (\<lambda>cf. Ok ()) [] DeadSocket
    = \<lparr> deCode = 0, deErr = [], deSent = [(NUL # ''n'', ''READY=1''), (NUL # ''n'', ''STOPPING=1'')], deAt = NoSocket \<rparr>"
proof -
  have f: "daemon_flags [] = no_layer" by (simp add: daemon_flags_def no_layer_def)
  show ?thesis
    by (simp add: keycelld_run_def Let_def some_daemon_def f sample_config Listen_def notify_def sdNotify_def some_env_def)
qed


section \<open>A buffer\<close>

definition some_mem :: mem_io where
  "some_mem = \<lparr> meMmap = None, meMlock = None, meMadvise = None, meMunmap = None, mePage = 4096 \<rparr>"

lemma sample_buffer:
  "\<exists>b m'. secmem_New some_mem 74 \<lparr> asMaps = [], asNext = 0 \<rparr> = (Ok b, m') \<and> bfMem b \<noteq> None"
  by (simp add: secmem_New_def some_mem_def page_multiple_def wrap64_def Let_def)

section \<open>Setting up, and three wrong entries\<close>

lemma sample_init_cmd:
  obtains out d' where "initCmd tag_age tag_pass calm_id ''/k'' answers [] False Map.empty = (out, d')" and "outCode out = 0"
proof -
  obtain d' where d': "Init tag_age tag_pass calm_id ''/k'' (Some ''new'') Map.empty = (Ok (), Some (zeroed ''new''), d')"
    by (rule sample_init [of "''new''"]) simp
  have c: "Confirm answers 0 ''New passphrase: '' = (Ok ''new'', [zeroed ''new''], 2)"
    by (simp add: Confirm_Ok)
  have "initCmd tag_age tag_pass calm_id ''/k'' answers [] False Map.empty
      = (fst (initCmd tag_age tag_pass calm_id ''/k'' answers [] False Map.empty), d')"
    and "outCode (fst (initCmd tag_age tag_pass calm_id ''/k'' answers [] False Map.empty)) = 0"
    by (simp_all add: initCmd_def noArgs_def c d')
  with that show thesis by blast
qed

lemma sample_wrong_entries:
  obtains a where "askPassphrase (\<lambda>n l. Ok ''no'') ''Passphrase: '' (unlock_once tag_age tag_pass calm_id
      (daemon_control tag_age calm_io some_config) (in_dir ''/k'' EncryptedFile) None home_fs) (asks (NewSession, home_fs))
      = (Er (Sentinel (IdentityS IdErrWrongPassphrase)), a)"
proof -
  let ?u = "unlock_once tag_age tag_pass calm_id (daemon_control tag_age calm_io some_config)
      (in_dir ''/k'' EncryptedFile) None home_fs"
  have f: "idOpen calm_id (in_dir ''/k'' EncryptedFile) = None" by simp
  have "LoadFile tag_age tag_pass calm_id (in_dir ''/k'' EncryptedFile) (Some ''no'') home_fs
      = (Er (Sentinel (IdentityS IdErrWrongPassphrase)), Some (zeroed ''no''))"
    by (rule LoadFile_sealed(2) [OF tag_pass_laws home_fs_sealed f]) simp
  then have u: "?u ''no'' a = (Er (Sentinel (IdentityS IdErrWrongPassphrase)), a)" for a
    by (simp add: unlock_once_def)
  have "fst (askPassphrase (\<lambda>n l. Ok ''no'') ''Passphrase: '' ?u (asks (NewSession, home_fs)))
      = Er (Sentinel (IdentityS IdErrWrongPassphrase))"
    by (simp add: askPassphrase_def ask_loop.simps passphraseAttempts_def u Let_def eval_nat_numeral)
  then show thesis using that by (metis prod.collapse)
qed


section \<open>An unlock that comes too late\<close>

text \<open>A request to unlock that is still waiting when the server locks the session for its end.\<close>

definition late_request :: "bool serving" where
  "late_request = (goes 1 (InCall (unlock_with ''T'')) (track 1 True (goes 1 Reading (serve_start NewSession (vault_fs some_vault)))))
     \<lparr>svCancelled := True, svOpen := False, svPc := Closing\<rparr>"

lemma late_request_served: "sample_serves late_request"
proof -
  let ?s0 = "serve_start NewSession (vault_fs some_vault) :: bool serving"
  let ?s1 = "track 1 True (goes 1 Reading ?s0)"
  let ?s2 = "goes 1 (InCall (unlock_with ''T'')) ?s1"
  let ?s3 = "?s2\<lparr>svCancelled := True\<rparr>"
  let ?s4 = "?s3\<lparr>svOpen := False\<rparr>"
  let ?s5 = "?s4\<lparr>svPc := Grace\<rparr>"
  let ?s6 = "?s5\<lparr>svPc := Locking\<rparr>"
  have 1: "sample_step World ?s0 ?s1" by (rule serve_step.accept) (simp_all add: serve_start_def)
  have 2: "sample_step World ?s1 ?s2" by (rule serve_step.request) (simp_all add: serve_start_def update_conv')
  have 3: "sample_step World ?s2 ?s3" by (rule serve_step.cancel) (simp add: serve_start_def)
  have 4: "sample_step Own ?s3 ?s4" by (rule serve_step.close_listener) (simp_all add: serve_start_def)
  have 5: "sample_step Own ?s4 ?s5" by (rule serve_step.accept_stops) (simp_all add: serve_start_def)
  have 6: "sample_step Own ?s5 ?s6" by (rule serve_step.waited) simp
  have "Lock NewSession = (NewSession :: bool session)" by (simp add: Lock_def NewSession_def)
  then have e: "late_request = ?s6\<lparr>svSession := Lock (svSession ?s6), svPc := Closing\<rparr>"
    by (simp add: late_request_def serve_start_def goes_def track_def)
  have "sample_step Own ?s6 late_request" unfolding e by (rule serve_step.locks) simp
  with 1 2 3 4 5 6 show ?thesis by (meson serves.intros)
qed

text \<open>It is served after the lock, and the server stops with the session open.\<close>

lemma late_unlock:
  "\<exists>s. sample_serves s \<and> svPc s = Returned (Ok ()) \<and> sId (svSession s) = Some True"
proof -
  let ?T = "unlock_with ''T''"
  have run: "running (svPc late_request)" "map_of (svHandlers late_request) 1 = Some (InCall ?T)"
    by (simp_all add: late_request_def update_conv')
  define s1 where "s1 = goes 1 (Verifying ?T) late_request\<lparr>svSession := unlocked_by True NewSession\<rparr>"
  have ses: "svSession late_request = NewSession" "svFs late_request = vault_fs some_vault" "svConns late_request = {1}"
    by (simp_all add: late_request_def serve_start_def)
  have 1: "sample_step Own late_request s1"
    using serve_step.calls [OF run, of tag_age some_texts some_config "\<lambda>c. call_ok 0" 0 calm_io]
    by (simp add: begin_T s1_def ses)
  have h1: "running (svPc s1)" "map_of (svHandlers s1) 1 = Some (Verifying ?T)" "svFs s1 = vault_fs some_vault"
    "sId (svSession s1) = Some True"
    using run by (simp_all add: s1_def update_conv' ses unlocked_by_def)
  from verify_right [OF h1(4)] obtain r where
    r: "verify_unlock tag_age some_texts calm_io some_config ?T (svSession s1, vault_fs some_vault)
      = Answered r (svSession s1, vault_fs some_vault)" .
  define s2 where "s2 = goes 1 (Writing r) s1\<lparr>svSession := svSession s1, svFs := svFs s1\<rparr>"
  have 2: "sample_step Own s1 s2"
    using serve_step.verifies [OF h1(1,2), of tag_age some_texts some_config "\<lambda>c. call_ok 0" 0 calm_io] r h1(3)
    by (simp add: s2_def)
  define s3 where "s3 = s2\<lparr>svClosed := svClosed s2 \<union> svConns s2, svPc := Joining\<rparr>"
  have 3: "sample_step Own s2 s3"
    unfolding s3_def by (rule serve_step.closes) (simp add: s2_def s1_def late_request_def)
  have h3: "running (svPc s3)" "map_of (svHandlers s3) 1 = Some (Writing r)" "1 \<in> svClosed s3"
    using ses(3) by (simp_all add: s3_def s2_def s1_def update_conv')
  have 4: "sample_step Own s3 (ends 1 s3)" by (rule serve_step.write_closed [OF h3])
  have one: "svHandlers late_request = [(1, InCall ?T)]" by (simp add: late_request_def serve_start_def)
  have 5: "sample_step Own (ends 1 s3) (ends 1 s3\<lparr>svPc := Returned (Ok ()), svOpen := False\<rparr>)"
    by (rule serve_step.joins) (simp_all add: s3_def s2_def s1_def one)
  from late_request_served 1 2 3 4 5 have "sample_serves (ends 1 s3\<lparr>svPc := Returned (Ok ()), svOpen := False\<rparr>)"
    by (meson serves.intros)
  with h1(4) show ?thesis by (intro exI conjI) (assumption, simp_all add: s3_def s2_def)
qed

end
