(* ===== verification/Commands.thy ===== *)
theory Commands
  imports Process SecretCommands GitCredential ExecEnv
begin

text \<open>
  The commands of \<open>keycell\<close> as cmd/keycell declares them (main.go, secrets.go, transfer.go, exec.go,
  gitcredential.go), and the whole program put together. The framework that reads the arguments,
  urfave/cli, is outside: an \<open>invocation\<close> is what it makes of them, the flags with their texts and the
  words that are left. How it looks up flags and subcommands is modelled as far as the declarations
  depend on it. The help texts are left out.
\<close>

section \<open>Declarations\<close>

datatype flag_kind = StringFlag bytes | StringSliceFlag | BoolFlag

record cli_flag =
  flName :: bytes
  flAliases :: "bytes list"
  flKind :: flag_kind

datatype action = RootA | InitA | PassphraseA | UnlockA | StatusA | LockA | StoreA | GetA | DeleteA | ListA
  | ExportA | ImportA | GitRootA | GitGetA | GitStoreA | GitEraseA | ExecA

text \<open>A command: its name, its flags, whether slice flags are left unsplit, its action, its subcommands.\<close>

datatype cli_command = Command (cmName: bytes) (cmFlags: "cli_flag list") (cmUnsplit: bool)
  (cmAction: action) (cmCommands: "cli_command list")

definition string_flag :: "bytes \<Rightarrow> bytes list \<Rightarrow> bytes \<Rightarrow> cli_flag" where
  "string_flag name aliases val = \<lparr> flName = name, flAliases = aliases, flKind = StringFlag val \<rparr>"

definition slice_flag :: "bytes \<Rightarrow> bytes list \<Rightarrow> cli_flag" where
  "slice_flag name aliases = \<lparr> flName = name, flAliases = aliases, flKind = StringSliceFlag \<rparr>"

definition bool_flag :: "bytes \<Rightarrow> bytes list \<Rightarrow> cli_flag" where
  "bool_flag name aliases = \<lparr> flName = name, flAliases = aliases, flKind = BoolFlag \<rparr>"

definition secretCommands :: "cli_command list" where
  "secretCommands =
     (let kind = string_flag ''kind'' [''k''] [];
          attr = slice_flag ''attr'' [''a''];
          jsonFlag = bool_flag ''json'' [] in
      [Command ''store'' [string_flag ''kind'' [''k''] ''generic'', attr, bool_flag ''no-overwrite'' []] True StoreA [],
       Command ''get'' [string_flag ''attr'' [''a''] [], jsonFlag] False GetA [],
       Command ''delete'' [] False DeleteA [],
       Command ''list'' [kind, string_flag ''prefix'' [''p''] [], attr, bool_flag ''long'' [''l''], jsonFlag] True ListA []])"

definition transferCommands :: "cli_command list" where
  "transferCommands =
     [Command ''export'' [] False ExportA [],
      Command ''import'' [bool_flag ''no-overwrite'' []] False ImportA []]"

definition gitCredentialCommands :: "cli_command list" where
  "gitCredentialCommands =
     [Command ''git-credential'' [] False GitRootA
       [Command ''get'' [] False GitGetA [],
        Command ''store'' [] False GitStoreA [],
        Command ''erase'' [] False GitEraseA []]]"

definition execCommands :: "cli_command list" where
  "execCommands =
     [Command ''exec'' [slice_flag ''env'' [''e''], string_flag ''env-file'' [] [], bool_flag ''dry-run'' []] False ExecA []]"

definition command_table :: cli_command where
  "command_table =
     Command ''keycell'' [string_flag ''config'' [] [], string_flag ''socket'' [] []] False RootA
       ([Command ''init'' [bool_flag ''no-passphrase'' []] False InitA [],
         Command ''passphrase'' [bool_flag ''remove'' []] False PassphraseA [],
         Command ''unlock'' [string_flag ''for'' [] []] False UnlockA [],
         Command ''status'' [] False StatusA [],
         Command ''lock'' [] False LockA []]
        @ (secretCommands @ transferCommands) @ (gitCredentialCommands @ execCommands))"

lemmas table_defs = command_table_def secretCommands_def transferCommands_def gitCredentialCommands_def
  execCommands_def string_flag_def slice_flag_def bool_flag_def

section \<open>What the framework does with them\<close>

text \<open>
  \<open>ivGiven\<close> has the texts given to each flag, under its first name, in their order; a bool flag has
  the text \<open>true\<close> or \<open>false\<close>. A lineage is a command with the commands above it. Flags are looked up
  along it; one that is not declared with the kind asked for reads as nothing.
\<close>

record invocation =
  ivGiven :: "(bytes, bytes list) gomap"
  ivWords :: "bytes list"

fun resolve :: "cli_command list \<Rightarrow> cli_command \<Rightarrow> bytes list \<Rightarrow> cli_command list \<times> bytes list" where
  "resolve ups c [] = (c # ups, [])"
| "resolve ups c (w # ws) =
     (case find (\<lambda>d. cmName d = w) (cmCommands c) of
        Some d \<Rightarrow> resolve (c # ups) d ws
      | None \<Rightarrow> (c # ups, w # ws))"

definition find_flag :: "cli_command list \<Rightarrow> bytes \<Rightarrow> cli_flag option" where
  "find_flag l name = find (\<lambda>f. flName f = name) (concat (map cmFlags l))"

definition cli_IsSet :: "cli_command list \<Rightarrow> invocation \<Rightarrow> bytes \<Rightarrow> bool" where
  "cli_IsSet l v name \<longleftrightarrow> find_flag l name \<noteq> None \<and> map_of (ivGiven v) name \<noteq> None"

definition cli_String :: "cli_command list \<Rightarrow> invocation \<Rightarrow> bytes \<Rightarrow> bytes" where
  "cli_String l v name =
     (case find_flag l name of
        None \<Rightarrow> []
      | Some f \<Rightarrow>
          (case (flKind f, map_of (ivGiven v) name) of
             (StringFlag _, Some ts) \<Rightarrow> last ([] # ts)
           | (StringFlag val, None) \<Rightarrow> val
           | _ \<Rightarrow> []))"

definition cli_Bool :: "cli_command list \<Rightarrow> invocation \<Rightarrow> bytes \<Rightarrow> bool" where
  "cli_Bool l v name =
     (case find_flag l name of
        None \<Rightarrow> False
      | Some f \<Rightarrow>
          (case (flKind f, map_of (ivGiven v) name) of
             (BoolFlag, Some ts) \<Rightarrow> last ([] # ts) = ''true''
           | _ \<Rightarrow> False))"

text \<open>
  Every text of a slice flag is split at its commas, unless the command says otherwise. \<open>trim\<close> is what
  the framework does to each piece.
\<close>

definition cli_StringSlice :: "(bytes \<Rightarrow> bytes) \<Rightarrow> cli_command list \<Rightarrow> invocation \<Rightarrow> bytes \<Rightarrow> bytes list" where
  "cli_StringSlice trim l v name =
     (case find_flag l name of
        None \<Rightarrow> []
      | Some f \<Rightarrow>
          (case (flKind f, map_of (ivGiven v) name) of
             (StringSliceFlag, Some ts) \<Rightarrow>
               map trim (if cmUnsplit (hd l) then ts else concat (map (split_by (CHR '','')) ts))
           | _ \<Rightarrow> []))"

section \<open>The actions\<close>

text \<open>
  What a run of \<open>keycell\<close> has around it: the client library for the socket of the settings, the
  terminal and the standard input, the system calls, and the part of the state that is the file
  system. \<open>pwHelp\<close> is what showing the help of a command gives.
\<close>

record ('i, 'st) program_world =
  pwAge :: "'i age"
  pwPass :: "'i pass_age"
  pwClient :: "bytes \<Rightarrow> 'st client"
  pwControl :: "bytes \<Rightarrow> 'st control"
  pwCmd :: cmd_env
  pwInput :: bytes
  pwRead :: read_func
  pwNow :: gotime
  pwIo :: id_io
  pwExec :: exec_system
  pwFs :: "'st \<Rightarrow> fs"
  pwPutFs :: "fs \<Rightarrow> 'st \<Rightarrow> 'st"
  pwHelp :: "cli_command \<Rightarrow> cmd_out"
  pwTrim :: "bytes \<Rightarrow> bytes"
  pwEnv :: "bytes \<Rightarrow> bytes"
  pwFiles :: "bytes \<Rightarrow> file_read"

definition result_out :: "cli_result \<Rightarrow> cmd_out" where
  "result_out r =
     (case r of
        CliOk \<Rightarrow> success []
      | CliExit m code \<Rightarrow> exit_with m code
      | CliError e \<Rightarrow> exit_with (lit ''keycell: '' @ err_msg e) 1)"

definition gitCredentialRoot :: "cmd_out \<Rightarrow> bytes list \<Rightarrow> cmd_out" where
  "gitCredentialRoot help_out args =
     (case args of
        [] \<Rightarrow> help_out
      | a # _ \<Rightarrow> exit_with (lit ''keycell: git-credential: unknown subcommand '' @ [Q a]) 2)"

definition root_out :: "cmd_out \<Rightarrow> bytes list \<Rightarrow> cmd_out" where
  "root_out help_out args = (if args = [] then help_out else result_out (root_cmd CliOk args))"

text \<open>An action that only reads, one that changes the daemon's state, one that changes files.\<close>

definition reads_only :: "'st \<Rightarrow> cmd_out \<Rightarrow> exec_end \<times> 'st" where
  "reads_only st out = (Exited out [], st)"

definition with_daemon :: "cmd_out \<times> 'st \<Rightarrow> exec_end \<times> 'st" where
  "with_daemon r = (Exited (fst r) [], snd r)"

definition with_files :: "(fs \<Rightarrow> 'st \<Rightarrow> 'st) \<Rightarrow> 'st \<Rightarrow> cmd_out \<times> fs \<Rightarrow> exec_end \<times> 'st" where
  "with_files put_fs st r = (Exited (fst r) [], put_fs (snd r) st)"

definition run_action ::
  "('i, 'st) program_world \<Rightarrow> settings \<Rightarrow> cli_command list \<Rightarrow> invocation \<Rightarrow> bytes list \<Rightarrow> 'st \<Rightarrow> exec_end \<times> 'st"
where
  "run_action W cfg l v args st =
     (let A = pwAge W; P = pwPass W; c = pwClient W (stSocket cfg); k = pwControl W (stSocket cfg);
          dir = stDataDir cfg; d = pwFs W st; files = with_files (pwPutFs W) st in
      case cmAction (hd l) of
        RootA \<Rightarrow> reads_only st (root_out (pwHelp W (hd l)) args)
      | InitA \<Rightarrow> files (initCmd A P (pwIo W) dir (pwRead W) args (cli_Bool l v ''no-passphrase'') d)
      | PassphraseA \<Rightarrow> files (passphrase_cmd A P (pwIo W) dir (pwRead W) args (cli_Bool l v ''remove'') d)
      | UnlockA \<Rightarrow> with_daemon (unlock_cmd A P (pwIo W) c k dir (pwRead W) (pwNow W) args
          (if cli_IsSet l v ''for'' then Some (cli_String l v ''for'') else None) d st)
      | StatusA \<Rightarrow> reads_only st (status_cmd c k (pwIo W) cfg (pwNow W) args d st)
      | LockA \<Rightarrow> with_daemon (lock_cmd c k args st)
      | StoreA \<Rightarrow> with_daemon (store_cmd c k (pwCmd W) args (cli_String l v ''kind'')
          (cli_StringSlice (pwTrim W) l v ''attr'') (cli_Bool l v ''no-overwrite'') st)
      | GetA \<Rightarrow> reads_only st (get_cmd c (pwCmd W) args
          (if cli_IsSet l v ''attr'' then Some (cli_String l v ''attr'') else None) (cli_Bool l v ''json'') st)
      | DeleteA \<Rightarrow> with_daemon (delete_cmd c args st)
      | ListA \<Rightarrow> reads_only st (list_cmd c (pwCmd W) args (cli_String l v ''kind'') (cli_String l v ''prefix'')
          (cli_StringSlice (pwTrim W) l v ''attr'') (cli_Bool l v ''long'') (cli_Bool l v ''json'') st)
      | ExportA \<Rightarrow> reads_only st (export_cmd c args st)
      | ImportA \<Rightarrow> with_daemon (import_cmd c (pwCmd W) args (cli_Bool l v ''no-overwrite'') st)
      | GitRootA \<Rightarrow> reads_only st (gitCredentialRoot (pwHelp W (hd l)) args)
      | GitGetA \<Rightarrow> reads_only st (gitCredentialGet c args (pwInput W) st)
      | GitStoreA \<Rightarrow> with_daemon (gitCredentialStore c args (pwInput W) st)
      | GitEraseA \<Rightarrow> with_daemon (gitCredentialErase c args (pwInput W) st)
      | ExecA \<Rightarrow> (execCmd c (pwExec W) (cli_Bool l v ''dry-run'')
          (if cli_IsSet l v ''env-file'' then Some (cli_String l v ''env-file'') else None)
          (cli_StringSlice (pwTrim W) l v ''env'') args st, st))"

text \<open>A whole run: the configuration first, whatever the command, then its action.\<close>

definition run_invocation ::
  "('i, 'st) program_world \<Rightarrow> invocation \<Rightarrow> 'st \<Rightarrow> exec_end \<times> 'st" where
  "run_invocation W v st =
     (case loadConfig (pwEnv W) (pwFiles W) (cli_String [command_table] v ''config'')
        (if cli_IsSet [command_table] v ''socket'' then Some (cli_String [command_table] v ''socket'') else None) of
        Er out \<Rightarrow> reads_only st out
      | Panic \<Rightarrow> reads_only st panic_exit
      | Ok cfg \<Rightarrow> (case resolve [] command_table (ivWords v) of (l, args) \<Rightarrow> run_action W cfg l v args st))"

section \<open>The table\<close>

text \<open>All lineages of a command, and the names under which a flag is reached in one.\<close>

fun lineages :: "cli_command list \<Rightarrow> cli_command \<Rightarrow> cli_command list list" where
  "lineages ups (Command n fs u a cs) =
     (Command n fs u a cs # ups) # concat (map (lineages (Command n fs u a cs # ups)) cs)"

definition flag_names :: "cli_command list \<Rightarrow> bytes list" where
  "flag_names l = concat (map (\<lambda>f. flName f # flAliases f) (concat (map cmFlags l)))"

definition table_ok :: "cli_command list \<Rightarrow> bool" where
  "table_ok l \<longleftrightarrow> distinct (flag_names l) \<and> distinct (map cmName (cmCommands (hd l)))
     \<and> set (flag_names l) \<inter> {''help'', ''h''} = {}"

lemma table_lineages: "\<forall>l \<in> set (lineages [] command_table). table_ok l"
  by code_simp

lemma resolve_lineage: "resolve ups c ws = (l, args) \<Longrightarrow> l \<in> set (lineages ups c)"
proof (induction ups c ws rule: resolve.induct)
  case (1 ups c)
  then show ?case by (cases c) auto
next
  case (2 ups c w ws)
  show ?case
  proof (cases "find (\<lambda>d. cmName d = w) (cmCommands c)")
    case None
    with "2.prems" show ?thesis by (cases c) auto
  next
    case (Some d)
    with "2.prems" have "l \<in> set (lineages (c # ups) d)" by (intro "2.IH") simp_all
    moreover have "d \<in> set (cmCommands c)" using Some by (auto simp: find_Some_iff)
    ultimately show ?thesis by (cases c) auto
  qed
qed

text \<open>Whatever the words are, the command they lead to has no two flags of one name, its own or inherited.\<close>

lemma resolved_ok: "resolve [] command_table ws = (l, args) \<Longrightarrow> table_ok l"
  using resolve_lineage table_lineages by blast

lemma resolve_leaf [simp]: "cmCommands c = [] \<Longrightarrow> resolve ups c ws = (c # ups, ws)"
  by (cases ws) simp_all

section \<open>Commands on the command line\<close>

definition given_text :: "(bytes, bytes list) gomap \<Rightarrow> bytes \<Rightarrow> bytes \<Rightarrow> bytes" where
  "given_text g name val = (case map_of g name of None \<Rightarrow> val | Some ts \<Rightarrow> last ([] # ts))"

definition given_all :: "(bytes, bytes list) gomap \<Rightarrow> bytes \<Rightarrow> bytes list" where
  "given_all g name = (case map_of g name of None \<Rightarrow> [] | Some ts \<Rightarrow> ts)"

definition given_config :: "('i, 'st) program_world \<Rightarrow> (bytes, bytes list) gomap \<Rightarrow> (cmd_out, settings) outcome" where
  "given_config W g = loadConfig (pwEnv W) (pwFiles W) (given_text g ''config'' [])
     (map_option (\<lambda>ts. last ([] # ts)) (map_of g ''socket''))"

lemmas lookup_defs = cli_String_def cli_IsSet_def cli_Bool_def cli_StringSlice_def find_flag_def

lemma root_flags:
  "cli_String [command_table] v ''config'' = given_text (ivGiven v) ''config'' []"
  "cli_String [command_table] v ''socket'' = given_text (ivGiven v) ''socket'' []"
  "cli_IsSet [command_table] v ''socket'' \<longleftrightarrow> map_of (ivGiven v) ''socket'' \<noteq> None"
  by (simp_all add: lookup_defs table_defs given_text_def split: option.split)

lemma run_invocation_config:
  "run_invocation W v st =
     (case given_config W (ivGiven v) of
        Er out \<Rightarrow> reads_only st out
      | Panic \<Rightarrow> reads_only st panic_exit
      | Ok cfg \<Rightarrow> (case resolve [] command_table (ivWords v) of (l, args) \<Rightarrow> run_action W cfg l v args st))"
proof -
  have "(if cli_IsSet [command_table] v ''socket'' then Some (cli_String [command_table] v ''socket'') else None)
      = map_option (\<lambda>ts. last ([] # ts)) (map_of (ivGiven v) ''socket'')"
    by (cases "map_of (ivGiven v) ''socket''") (simp_all add: root_flags given_text_def)
  then show ?thesis by (simp add: run_invocation_def given_config_def root_flags)
qed

text \<open>A flag that is declared reads as what was given.\<close>

lemma lookup_String: "find_flag l n = Some f \<Longrightarrow> flKind f = StringFlag val \<Longrightarrow>
    cli_String l v n = given_text (ivGiven v) n val"
  by (simp add: cli_String_def given_text_def split: option.split)

lemma lookup_set: "find_flag l n = Some f \<Longrightarrow> flKind f = StringFlag val \<Longrightarrow>
    (if cli_IsSet l v n then Some (cli_String l v n) else None)
      = map_option (\<lambda>ts. last ([] # ts)) (map_of (ivGiven v) n)"
  by (cases "map_of (ivGiven v) n") (simp_all add: cli_IsSet_def cli_String_def)

lemma lookup_Bool: "find_flag l n = Some f \<Longrightarrow> flKind f = BoolFlag \<Longrightarrow>
    cli_Bool l v n = (given_text (ivGiven v) n [] = ''true'')"
  by (simp add: cli_Bool_def given_text_def split: option.split)

lemma lookup_Slice: "find_flag l n = Some f \<Longrightarrow> flKind f = StringSliceFlag \<Longrightarrow>
    cli_StringSlice trim l v n = map trim (if cmUnsplit (hd l) then given_all (ivGiven v) n
      else concat (map (split_by (CHR '','')) (given_all (ivGiven v) n)))"
  by (cases "map_of (ivGiven v) n") (simp_all add: cli_StringSlice_def given_all_def)

lemmas lookups = lookup_String lookup_set lookup_Bool lookup_Slice

definition leaf :: "bytes \<Rightarrow> cli_flag list \<Rightarrow> bool \<Rightarrow> action \<Rightarrow> cli_command list" where
  "leaf n fs u a = [Command n fs u a [], command_table]"

lemma leaf_simps [simp]:
  "cmAction (hd (leaf n fs u a)) = a" "cmUnsplit (hd (leaf n fs u a)) = u"
  "find (\<lambda>f. flName f = m) fs = Some f \<Longrightarrow> find_flag (leaf n fs u a) m = Some f"
  by (auto simp: leaf_def find_flag_def find_append split: option.split)

lemma resolved_leaf:
  "resolve [] command_table (''store'' # args) = (leaf ''store'' [string_flag ''kind'' [''k''] ''generic'',
     slice_flag ''attr'' [''a''], bool_flag ''no-overwrite'' []] True StoreA, args)"
  "resolve [] command_table (''get'' # args) = (leaf ''get'' [string_flag ''attr'' [''a''] [],
     bool_flag ''json'' []] False GetA, args)"
  "resolve [] command_table (''exec'' # args) = (leaf ''exec'' [slice_flag ''env'' [''e''],
     string_flag ''env-file'' [] [], bool_flag ''dry-run'' []] False ExecA, args)"
  by (simp_all add: table_defs leaf_def Let_def)

declare resolve.simps(2) [simp del]

lemma flag_kinds [simp]:
  "flName (string_flag n al val) = n" "flKind (string_flag n al val) = StringFlag val"
  "flName (slice_flag n al) = n" "flKind (slice_flag n al) = StringSliceFlag"
  "flName (bool_flag n al) = n" "flKind (bool_flag n al) = BoolFlag"
  by (simp_all add: string_flag_def slice_flag_def bool_flag_def)

lemma run_store:
  assumes "given_config W g = Ok cfg"
  shows "run_invocation W \<lparr> ivGiven = g, ivWords = ''store'' # args \<rparr> st =
     with_daemon (store_cmd (pwClient W (stSocket cfg)) (pwControl W (stSocket cfg)) (pwCmd W) args
       (given_text g ''kind'' ''generic'') (map (pwTrim W) (given_all g ''attr''))
       (given_text g ''no-overwrite'' [] = ''true'') st)"
  by (simp add: run_invocation_config assms resolved_leaf run_action_def lookups)

lemma run_get:
  assumes "given_config W g = Ok cfg"
  shows "run_invocation W \<lparr> ivGiven = g, ivWords = ''get'' # args \<rparr> st =
     reads_only st (get_cmd (pwClient W (stSocket cfg)) (pwCmd W) args
       (map_option (\<lambda>ts. last ([] # ts)) (map_of g ''attr'')) (given_text g ''json'' [] = ''true'') st)"
  by (simp add: run_invocation_config assms resolved_leaf run_action_def lookup_Bool lookup_set)

lemma run_exec:
  assumes "given_config W g = Ok cfg"
  shows "run_invocation W \<lparr> ivGiven = g, ivWords = ''exec'' # argv \<rparr> st =
     (execCmd (pwClient W (stSocket cfg)) (pwExec W) (given_text g ''dry-run'' [] = ''true'')
       (map_option (\<lambda>ts. last ([] # ts)) (map_of g ''env-file''))
       (map (pwTrim W) (concat (map (split_by (CHR '','')) (given_all g ''env'')))) argv st, st)"
  by (simp add: run_invocation_config assms resolved_leaf run_action_def lookup_Bool lookup_set lookup_Slice)

section \<open>What a user sees\<close>

lemma store_cmd_code:
  assumes "store_cmd c k ce args kind attr_flags noOverwrite st = (out, st')" and "outCode out = 0"
  shows "out = success []"
proof -
  have k: "store_check c k ce name noOverwrite st = Some o' \<Longrightarrow> outCode o' \<noteq> 0" for name st o'
    by (auto simp: store_check_def exitError_code exit_with_def panic_exit_def split: outcome.splits if_splits)
  have v: "store_value ce name = Er o' \<Longrightarrow> outCode o' \<noteq> 0" "oneArg ''store'' args = Er o' \<Longrightarrow> outCode o' \<noteq> 0" for name o'
    by (auto simp: store_value_def oneArg_def promptError_def exit_with_def split: outcome.splits if_splits)
  have a: "parse_attrs ps m = Er o' \<Longrightarrow> outCode o' \<noteq> 0" for ps m o'
    by (induction ps m rule: parse_attrs.induct) (auto simp: exit_with_def split: option.splits if_splits)
  show ?thesis
    using assms
    by (auto simp: store_cmd_def parseAttrs_def exitError_code panic_exit_def exit_with_def dest!: k v a
        split: outcome.splits option.splits if_splits prod.splits)
qed

text \<open>
  \<open>keycell store\<close> and then \<open>keycell get\<close>, both with the flags that were given, the second one with none
  that change what it prints.
\<close>

lemma store_then_get_run:
  assumes "daemon_live A w path st" and "\<And>sock. pwClient W sock = daemon_client A w path"
    and "\<And>sock. pwClient W' sock = daemon_client A w path"
    and "run_invocation W \<lparr> ivGiven = g, ivWords = ''store'' # args \<rparr> st = (Exited out bufs, st')"
    and "outCode out = 0" and "given_config W g = Ok cfg" and "given_config W' g' = Ok cfg'"
    and "map_of g' ''attr'' = None" and "map_of g' ''json'' = None"
  shows "\<exists>name buf attrs created now. args = [name] \<and> store_value (pwCmd W) name = Ok buf
    \<and> daemon_table A path st' name = Some (given_text g ''kind'' ''generic'', Some buf, attrs, created, now)
    \<and> run_invocation W' \<lparr> ivGiven = g', ivWords = [''get'', name] \<rparr> st'
      = (Exited (success (buf @ (if ceOutTerminal (pwCmd W') \<and> last buf \<noteq> LF then [LF] else []))) [], st')"
proof -
  let ?c = "daemon_client A w path" and ?kind = "given_text g ''kind'' ''generic''"
    and ?attrs = "map (pwTrim W) (given_all g ''attr'')" and ?no = "given_text g ''no-overwrite'' [] = ''true''"
  have s: "store_cmd ?c (pwControl W (stSocket cfg)) (pwCmd W) args ?kind ?attrs ?no st = (out, st')"
    using assms(4) by (simp add: run_store [OF assms(6)] assms(2) with_daemon_def prod_eq_iff)
  from s have s: "store_cmd ?c (pwControl W (stSocket cfg)) (pwCmd W) args ?kind ?attrs ?no st = (success [], st')"
    using store_cmd_code [OF s assms(5)] by simp
  have "clConnect ?c st' = Ok ()" by (simp add: daemon_client_def)
  from daemon.store_then_get_cmd [OF assms(1) s this] obtain name buf
    where n: "args = [name]" "store_value (pwCmd W) name = Ok buf"
      and g: "get_cmd ?c (pwCmd W') args None False st'
        = success (buf @ (if ceOutTerminal (pwCmd W') \<and> last buf \<noteq> LF then [LF] else []))" by blast
  from store_cmd_success [OF s] obtain name' attrs buf' where a: "args = [name']" "parseAttrs ?attrs = Ok attrs"
      "store_value (pwCmd W) name' = Ok buf'"
    and cl: "clStore ?c \<lparr> dName = name', dKind = ?kind, dAttributes = attrs, dValue = Some buf',
          dCreated = zero_time, dUpdated = zero_time \<rparr> st = (Ok (), st')" by metis
  have "gomap_ok attrs" using a(2) parse_attrs_ok by (auto simp: parseAttrs_def)
  moreover have "name' = name" "buf' = buf" using a(1,3) n by simp_all
  ultimately obtain created now where "daemon_table A path st' name = Some (?kind, Some buf, map_of attrs, created, now)"
    using daemon.store_live [OF assms(1) _ cl] by auto
  moreover have "run_invocation W' \<lparr> ivGiven = g', ivWords = [''get'', name] \<rparr> st'
      = reads_only st' (get_cmd ?c (pwCmd W') args None False st')"
    using n(1) by (simp add: run_get [OF assms(7)] assms(3,8,9) given_text_def)
  ultimately show ?thesis using n g by (auto simp: reads_only_def)
qed

text \<open>
  A name with a comma cannot be given to \<open>exec -e\<close>: the text is split there. \<open>list\<close> and \<open>store\<close> turn the
  splitting off, \<open>exec\<close> does not.
\<close>

lemma env_file_lines_code: "env_file_lines source n ls tooLong m = Er out \<Longrightarrow> outCode out = 2"
  by (induction source n ls tooLong m rule: env_file_lines.induct)
    (auto simp: exec_usage_def exit_with_def Let_def split: outcome.splits if_splits)

lemma env_flags_code: "env_flags vs m = Er out \<Longrightarrow> outCode out = 2"
  by (induction vs m rule: env_flags.induct) (auto simp: exec_usage_def exit_with_def split: outcome.splits)

lemma env_flags_bad: "v \<in> set vs \<Longrightarrow> CHR ''='' \<notin> set v \<Longrightarrow> env_flags vs m \<noteq> Ok m'"
  by (induction vs m rule: env_flags.induct) (auto simp: parseEnvEntry_def cut_at_None_iff [THEN iffD2] split: outcome.splits)

lemma obind_eq_Er: "obind r f = Er e \<longleftrightarrow> r = Er e \<or> (\<exists>x. r = Ok x \<and> f x = Er e)"
  by (cases r) simp_all

lemma parseEnvMapping_code: "parseEnvMapping content source vs = Er out \<Longrightarrow> outCode out = 2"
  using env_flags_code env_file_lines_code
  by (auto simp: parseEnvMapping_def obind_eq_Er split: option.splits prod.splits)

lemma parseEnvMapping_bad:
  assumes "v \<in> set vs" and "CHR ''='' \<notin> set v"
  shows "parseEnvMapping content source vs \<noteq> Ok m"
  using env_flags_bad [OF assms] by (auto simp: parseEnvMapping_def obind_eq_Ok)

lemma execMapping_code: "execMapping open_file env_file vs = Er out \<Longrightarrow> outCode out = 2"
  using parseEnvMapping_code
  by (auto simp: execMapping_def exec_usage_def exit_with_def Let_def split: outcome.splits if_splits)

lemma exec_bad_flag:
  assumes "v \<in> set vs" and "CHR ''='' \<notin> set v"
  shows "\<exists>out bufs. execCmd c X dry env_file vs argv st = Exited out bufs \<and> outCode out = 2"
proof -
  have "execMapping (xOpen X) env_file vs \<noteq> Ok m" for m
    using parseEnvMapping_bad [OF assms] by (auto simp: execMapping_def Let_def split: outcome.splits if_splits)
  then show ?thesis
    using execMapping_code [of "xOpen X" env_file vs]
    by (cases "execMapping (xOpen X) env_file vs") (auto simp: execCmd_def exec_usage_def exit_with_def)
qed

lemma split_by_sub: "p \<in> set (split_by x s) \<Longrightarrow> set p \<subseteq> set s"
proof (induction s arbitrary: p)
  case (Cons c s)
  then show ?case by (auto split: if_splits dest!: set_cons_word) blast
qed simp

lemma exec_comma_run:
  assumes "given_config W g = Ok cfg" and "map_of g ''env'' = Some [var @ ''='' @ a @ '','' @ b]"
    and "CHR ''='' \<notin> set b" and "\<And>p. CHR ''='' \<notin> set p \<Longrightarrow> CHR ''='' \<notin> set (pwTrim W p)"
  shows "\<exists>out bufs. run_invocation W \<lparr> ivGiven = g, ivWords = ''exec'' # argv \<rparr> st = (Exited out bufs, st)
    \<and> outCode out = 2"
proof -
  obtain p where p: "p \<in> set (split_by (CHR '','') b)" using split_by_ne by (metis last_in_set)
  have "CHR ''='' \<notin> set p" using p assms(3) split_by_sub by fastforce
  then have t: "CHR ''='' \<notin> set (pwTrim W p)" by (rule assms(4))
  have "split_by (CHR '','') (var @ ''='' @ a @ '','' @ b)
      = split_by (CHR '','') (var @ ''='' @ a) @ split_by (CHR '','') b"
    using split_by_cat [of "CHR '',''" "var @ ''='' @ a" b] by simp
  then have "pwTrim W p \<in> set (map (pwTrim W) (concat (map (split_by (CHR '','')) (given_all g ''env''))))"
    using p by (simp add: given_all_def assms(2))
  from exec_bad_flag [OF this t] show ?thesis by (simp add: run_exec [OF assms(1)] del: map_concat)
qed

end
