(* ===== verification/Writing.thy ===== *)
theory Writing
  imports Protocol
begin

text \<open>
  The writing half of internal/protocol/codec.go: what a message leaves in memory. \<open>write_line\<close> of
  \<open>Protocol\<close> is the line it writes.
\<close>

section \<open>The writer\<close>

text \<open>
  \<open>Writer\<close> with the array behind its \<open>bytes.Buffer\<close>, which is empty between two messages. The
  encoder hands a message over in one piece; when it does not fit, a new array is made, of a size that
  \<open>grow\<close> chooses, and the old one is left behind as it is. The write to the connection may fail with
  \<open>fails\<close>. An operation yields its result, what went to the connection, and what is left in
  the arrays that are not used any more.
\<close>

record writer =
  wArray :: bytes

definition NewWriter :: writer where
  "NewWriter = \<lparr> wArray = [] \<rparr>"

definition buffer_write :: "(nat \<Rightarrow> nat \<Rightarrow> nat) \<Rightarrow> bytes \<Rightarrow> bytes \<Rightarrow> bytes \<times> bytes list" where
  "buffer_write grow b arr =
     (if length b \<le> length arr then (b @ drop (length b) arr, [])
      else (b @ replicate (grow (length arr) (length b) - length b) NUL, [arr]))"

definition wipe_writer :: "writer \<Rightarrow> writer" where
  "wipe_writer w = w\<lparr>wArray := replicate (length (wArray w)) NUL\<rparr>"

definition writer_write ::
  "(nat \<Rightarrow> nat \<Rightarrow> nat) \<Rightarrow> goerr option \<Rightarrow> json \<Rightarrow> writer \<Rightarrow> unit res \<times> bytes \<times> writer \<times> bytes list" where
  "writer_write grow fails j w =
     (let b = write_line j;
          (arr, left) = buffer_write grow b (wArray w);
          w' = wipe_writer (w\<lparr>wArray := arr\<rparr>)
      in case fails of
           Some e \<Rightarrow> (Er (wrapf (lit ''protocol: write'') e), [], w', left)
         | None \<Rightarrow> (Ok (), take (length b) arr, w', left))"

definition WriteRequest ::
  "(nat \<Rightarrow> nat \<Rightarrow> nat) \<Rightarrow> goerr option \<Rightarrow> request \<Rightarrow> writer \<Rightarrow> unit res \<times> bytes \<times> writer \<times> bytes list" where
  "WriteRequest grow fails q w = writer_write grow fails (enc_request q) w"

definition WriteResponse ::
  "(nat \<Rightarrow> nat \<Rightarrow> nat) \<Rightarrow> goerr option \<Rightarrow> response \<Rightarrow> writer \<Rightarrow> unit res \<times> bytes \<times> writer \<times> bytes list" where
  "WriteResponse grow fails p w = writer_write grow fails (enc_response p) w"

text \<open>A sequence of messages, until a write fails.\<close>

fun write_all ::
  "(nat \<Rightarrow> nat \<Rightarrow> nat) \<Rightarrow> (json \<times> goerr option) list \<Rightarrow> writer \<Rightarrow> unit res \<times> bytes \<times> writer \<times> bytes list" where
  "write_all grow [] w = (Ok (), [], w, [])"
| "write_all grow ((j, fails) # ms) w =
     (case writer_write grow fails j w of
        (Ok u, out, w', left) \<Rightarrow>
          (case write_all grow ms w' of (r, outs, w'', left') \<Rightarrow> (r, out @ outs, w'', left @ left'))
      | x \<Rightarrow> x)"

definition blank :: "bytes \<Rightarrow> bool" where
  "blank b \<longleftrightarrow> set b \<subseteq> {NUL}"

lemma writer_write_blank:
  assumes "writer_write grow fails j w = (r, out, w', left)" and "blank (wArray w)"
  shows "blank (wArray w')" and "\<forall>b \<in> set left. blank b"
    and "r = Ok () \<Longrightarrow> out = write_line j" and "r \<noteq> Ok () \<Longrightarrow> out = []"
  using assms
  by (auto simp: writer_write_def buffer_write_def wipe_writer_def blank_def Let_def
      split: option.splits if_splits)

text \<open>
  Between two messages, and also after a failure, no array that the writer has used holds a byte of a
  message; what the connection got is the lines of the messages before the failing one.
\<close>

lemma write_all_blank:
  assumes "write_all grow ms w = (r, out, w', left)" and "blank (wArray w)"
  shows "blank (wArray w') \<and> (\<forall>b \<in> set left. blank b)
    \<and> (\<exists>k. out = concat (map (\<lambda>m. write_line (fst m)) (take k ms)) \<and> (r = Ok () \<longrightarrow> k = length ms))"
  using assms
proof (induction ms arbitrary: w w' r out left)
  case (Cons m ms)
  obtain j fails where m: "m = (j, fails)" by (cases m)
  obtain r1 out1 w1 left1 where w: "writer_write grow fails j w = (r1, out1, w1, left1)" by (metis prod_cases4)
  note b = writer_write_blank [OF w Cons.prems(2)]
  show ?case
  proof (cases "r1 = Ok ()")
    case True
    obtain r2 out2 w2 left2 where t: "write_all grow ms w1 = (r2, out2, w2, left2)" by (metis prod_cases4)
    from Cons.IH [OF t b(1)] obtain k where k: "out2 = concat (map (\<lambda>m. write_line (fst m)) (take k ms))"
      "r2 = Ok () \<longrightarrow> k = length ms" and z: "blank (wArray w2)" "\<forall>b \<in> set left2. blank b" by blast
    have e: "r = r2" "out = out1 @ out2" "w' = w2" "left = left1 @ left2"
      using Cons.prems(1) m w t True by simp_all
    have "out = concat (map (\<lambda>m. write_line (fst m)) (take (Suc k) (m # ms)))" using e k(1) b(3) True m by simp
    moreover have "r = Ok () \<longrightarrow> Suc k = length (m # ms)" using e k(2) by simp
    ultimately show ?thesis using z b(2) e by (intro conjI exI [of _ "Suc k"]) auto
  next
    case False
    then have "r = r1" "out = out1" "w' = w1" "left = left1" using Cons.prems(1) m w by (cases r1; simp)+
    then show ?thesis using b False by (intro conjI exI [of _ 0]) auto
  qed
qed (simp add: exI [of _ 0])

end
