(* ===== verification/WireClient.thy ===== *)
theory WireClient
  imports UnlockCommands
begin

text \<open>
  The client library over the wire: what a call gets from a daemon at the other end of the connection,
  through request line, \<open>handle\<close>, response line and decoding. Each call is the operation of the daemon,
  as long as the messages are no longer than a line may be. So \<open>daemon_client\<close>, on which the commands
  are proved, is what the library does, up to the wording of errors and the order of attributes.
\<close>

section \<open>One call\<close>

definition wire_request :: "nat \<Rightarrow> bytes \<Rightarrow> json \<Rightarrow> request" where
  "wire_request n meth params = \<lparr> rqId = Some (request_no n), rqMethod = meth, rqParams = Some params \<rparr>"

text \<open>The request is not too long, nor the answer, whose text is one that can be sent as it is.\<close>

definition fits :: "'i age \<Rightarrow> texts \<Rightarrow> io \<Rightarrow> config \<Rightarrow> request \<Rightarrow> 'i session \<times> fs \<Rightarrow> bool" where
  "fits A X w cf q sd \<longleftrightarrow> length (print_json (enc_request q)) \<le> MaxLineLen
     \<and> (case fst (dispatch A X w cf q sd) of
          None \<Rightarrow> True
        | Some p \<Rightarrow> response_ok p \<and> length (print_json (enc_response p)) \<le> MaxLineLen)"

text \<open>What the client makes of an error of the daemon, and of a crash.\<close>

definition said :: "texts \<Rightarrow> bytes \<Rightarrow> bytes \<times> msg \<Rightarrow> goerr" where
  "said X meth e = wrapf (call_prefix meth) (ClientErr (fst e) (lit (render X (snd e))))"

definition hung_up :: "bytes \<Rightarrow> goerr" where
  "hung_up meth = wrapf (call_prefix meth) closed_early"

definition answer_of :: "texts \<Rightarrow> bytes \<Rightarrow> presult res \<Rightarrow> json res" where
  "answer_of X meth r =
     (case r of
        Panic \<Rightarrow> Er (hung_up meth)
      | Er e \<Rightarrow> Er (said X meth (toError e))
      | Ok result \<Rightarrow>
          (case enc_result result of
             None \<Rightarrow> Er (said X meth (CodeInternal, lit ''internal error''))
           | Some j \<Rightarrow> Ok j))"

definition decoded :: "bytes \<Rightarrow> (json \<Rightarrow> 'a option) option \<Rightarrow> 'a \<Rightarrow> json \<Rightarrow> 'a res" where
  "decoded meth dec zero j =
     (case dec of
        None \<Rightarrow> Ok zero
      | Some f \<Rightarrow>
          (case f j of
             None \<Rightarrow> Er (wrapf (call_prefix meth)
               (wrap2 (Sentinel (ClientS CErrProtocol)) (wrapf (lit ''result'') json_err)))
           | Some x \<Rightarrow> Ok x))"

lemma dispatch_id: "dispatch A X w cf q sd = (Some p, sd') \<Longrightarrow> rqId q = Some i \<Longrightarrow> rsId p = Some i"
  by (auto simp: dispatch_def NewResult_def NewError_def split: outcome.splits option.splits prod.splits)

lemma handle_panic:
  assumes "request_ok q" and "length (print_json (enc_request q)) \<le> MaxLineLen"
    and "dispatch A X (wrIo z 0) cf q sd = (None, sd')"
  shows "handle A X cf z 0 NewReader [Data (write_line (enc_request q))] sd = ([], True, sd')"
proof -
  have "json_ok (enc_request q)" using enc_request_ok [OF assms(1)] by simp
  from readLine_message [OF this assms(2)] obtain r' cs'
    where "readLine NewReader [Data (write_line (enc_request q))] = (Ok (print_json (enc_request q)), r', cs')" .
  then show ?thesis
    by (subst handle.simps) (simp add: ReadRequest_def parse_request_print [OF assms(1)] assms(3))
qed

lemma exchange_panic:
  assumes "request_ok q" and "length (print_json (enc_request q)) \<le> MaxLineLen"
    and "dispatch A X (wrIo z 0) cf q sd = (None, sd')"
  shows "exchange socket (linked A X cf z sd) q = Er closed_early"
proof -
  obtain res r' cs' where l: "readLine NewReader [] = (res, r', cs')" by (metis prod_cases3)
  from readLine_spec [OF reader_inv_New _ l] have "res = Er eof" by (simp add: spec_line_def)
  with l show ?thesis
    by (simp add: exchange_def linked_def daemon_reply_def handle_panic [OF assms] ReadResponse_def ioError_def)
      (simp add: eof_def)
qed

text \<open>The daemon's state after a line, and with it gone after a crash.\<close>

definition wire_after ::
  "'i age \<Rightarrow> texts \<Rightarrow> config \<Rightarrow> wire \<Rightarrow> 'i session \<times> fs \<Rightarrow> bytes \<Rightarrow> 'i session \<times> fs" where
  "wire_after A X cf z sd line =
     (case handle A X cf z 0 NewReader [Data line] sd of
        (out, crashed, sd') \<Rightarrow> if crashed then (NewSession, snd sd') else sd')"

lemma call_over_wire:
  fixes sd :: "'i session \<times> fs"
  assumes "meth \<in> set methods" and "doc_ok params"
    and "fits A X (wrIo z 0) cf (wire_request n meth params) sd" and "wrWrites z 0"
    and "server_call A (wrIo z 0) cf (wire_request n meth params) sd = (r, sd')"
  shows "roundTrip socket (linked A X cf z sd) n meth (Some params) dec zero
      = obind (answer_of X meth r) (decoded meth dec zero)"
    and "wire_after A X cf z sd (message_line n meth params) = survives r sd'"
proof -
  let ?q = "wire_request n meth params"
  have q: "request_ok ?q" using assms(1,2) by (simp add: request_ok_def wire_request_def)
  have len: "length (print_json (enc_request ?q)) \<le> MaxLineLen" using assms(3) by (simp add: fits_def)
  have line: "message_line n meth params = write_line (enc_request ?q)"
    by (simp add: message_line_def wire_request_def)
  have new: "NewRequest (Some (JNum (print_int (int n)))) meth (Some params) = Ok ?q"
    by (simp add: NewRequest_def wire_request_def request_no_def)
  show "roundTrip socket (linked A X cf z sd) n meth (Some params) dec zero
      = obind (answer_of X meth r) (decoded meth dec zero)"
    and "wire_after A X cf z sd (message_line n meth params) = survives r sd'"
  proof (atomize (full), cases "r = Panic")
    case True
    then have d: "dispatch A X (wrIo z 0) cf ?q sd = (None, sd')" using assms(5) by (simp add: dispatch_def)
    show "roundTrip socket (linked A X cf z sd) n meth (Some params) dec zero
        = obind (answer_of X meth r) (decoded meth dec zero)
      \<and> wire_after A X cf z sd (message_line n meth params) = survives r sd'"
      using exchange_panic [OF q len d] handle_panic [OF q len d]
      by (simp add: True roundTrip_def new answer_of_def hung_up_def wire_after_def line)
  next
    case False
    then have "\<exists>p. dispatch A X (wrIo z 0) cf ?q sd = (Some p, sd')"
      by (cases r) (auto simp: dispatch_def assms(5) split: outcome.split)
    then obtain p where d: "dispatch A X (wrIo z 0) cf ?q sd = (Some p, sd')" ..
    have p: "response_ok p" "length (print_json (enc_response p)) \<le> MaxLineLen"
      using assms(3) by (simp_all add: fits_def d)
    have pid: "rsId p = Some (request_no n)"
      using dispatch_id [OF d] by (simp add: wire_request_def)
    have pr: "p = (case answer_of X meth r of
        Ok j \<Rightarrow> \<lparr> rsId = Some (request_no n), rsResult = Some j, rsError = None \<rparr>
      | _ \<Rightarrow> (case r of Er e \<Rightarrow> NewError X (Some (request_no n)) (toError e)
             | _ \<Rightarrow> NewError X (Some (request_no n)) (CodeInternal, lit ''internal error'')))"
      using d assms(5) False
      by (auto simp: dispatch_def answer_of_def NewResult_def wire_request_def split: outcome.splits option.splits)
    have "survives r sd' = sd'" using False by (simp add: survives_def)
    then show "roundTrip socket (linked A X cf z sd) n meth (Some params) dec zero
        = obind (answer_of X meth r) (decoded meth dec zero)
      \<and> wire_after A X cf z sd (message_line n meth params) = survives r sd'"
      using exchange_linked [OF q len d assms(4) p] handle_one [OF q len d assms(4)] False pid
      by (simp add: roundTrip_def new wire_after_def line wire_request_def)
        (auto simp: pr answer_of_def decoded_def said_def NewError_def split: outcome.splits option.splits)
  qed
qed

section \<open>Each operation\<close>

definition over_wire :: "texts \<Rightarrow> bytes \<Rightarrow> ('a \<Rightarrow> 'b) \<Rightarrow> 'a res \<Rightarrow> 'b res" where
  "over_wire X meth h r =
     (case r of Ok x \<Rightarrow> Ok (h x) | Er e \<Rightarrow> Er (said X meth (toError e)) | Panic \<Rightarrow> Er (hung_up meth))"

lemma over_wire_simps [simp]:
  "over_wire X meth h (Ok x) = Ok (h x)" "over_wire X meth h (Er e) = Er (said X meth (toError e))"
  "over_wire X meth h Panic = Er (hung_up meth)"
  by (simp_all add: over_wire_def)

lemma answer_simps [simp]:
  "answer_of X meth (Er e) = Er (said X meth (toError e))" "answer_of X meth Panic = Er (hung_up meth)"
  "enc_result x = Some j \<Longrightarrow> answer_of X meth (Ok x) = Ok j"
  by (simp_all add: answer_of_def)

lemma over_wire_call:
  assumes "\<And>x. r = Ok x \<Longrightarrow> \<exists>j. enc_result (g x) = Some j \<and> decoded meth dec zero j = Ok (h x)"
  shows "obind (answer_of X meth (obind r (\<lambda>x. Ok (g x)))) (decoded meth dec zero) = over_wire X meth h r"
  using assms by (cases r) auto

lemma deferred_wipe_Ok: "deferred_wipe v r = Ok x \<longleftrightarrow> no_nil v \<and> r = Ok x"
  by (cases "no_nil v") (simp_all add: wipe_nil)

lemma List_Ok_info:
  assumes "List A w path s f d = (Ok xs, d')"
  shows "\<forall>x \<in> set xs. info_ok x \<and> dValue x = None"
proof -
  obtain i where i: "sId s = Some i"
    using assms by (cases "sId s") (simp_all add: List_def sess.use_locked)
  obtain v ys where v: "Read_file A w path i d = Ok v" and l: "list_loop f (vSecrets v) = Ok ys" and xs: "set xs = set ys"
    using assms unfolding List_def sess.use_open [OF i] prod.inject
    by (auto simp: obind_eq_Ok deferred_wipe_Ok)
  have wf: "\<forall>(n, p) \<in> set (vSecrets v). utf8_valid n \<and> ptr_ok p"
    using Read_file_wf [OF v] by (auto simp: vault_ok_secrets secrets_ok_def)
  have "list_loop f m = Ok zs \<Longrightarrow> set m \<subseteq> set (vSecrets v) \<Longrightarrow> \<forall>x \<in> set zs. info_ok x \<and> dValue x = None" for m zs
  proof (induction m arbitrary: zs)
    case (Cons q m)
    obtain n p where q: "q = (n, p)" by (cases q)
    with Cons.prems have p: "utf8_valid n" "ptr_ok p" using wf by auto
    have new: "info_ok y \<and> dValue y = None" if "toSecret n p = Ok y" for y
      using that p by (auto simp: toSecret_def ptr_ok_def info_ok_def vsecret_ok_def split: option.splits)
    from Cons.prems(1) obtain b where b: "matches f n p = Ok b" and zs: "(if b
        then obind (toSecret n p) (\<lambda>x. obind (list_loop f m) (\<lambda>xs. Ok (x # xs))) else list_loop f m) = Ok zs"
      unfolding q list_loop.simps obind_eq_Ok by blast
    have "list_loop f m = Ok ys \<Longrightarrow> \<forall>x \<in> set ys. info_ok x \<and> dValue x = None" for ys
      using Cons.IH Cons.prems(2) by simp
    with zs new show ?case by (cases b) (auto simp: obind_eq_Ok)
  qed simp
  with l xs show ?thesis by blast
qed

lemma wire_get:
  assumes "utf8_valid name" and "fits A X (wrIo z 0) cf (wire_request n MethodGet (enc_get_params \<lparr> gpName = name \<rparr>)) (s, d)"
    and "wrWrites z 0"
  shows "client_Get socket (linked A X cf z (s, d)) n name
    = over_wire X MethodGet norm_info (fst (Get A (wrIo z 0) (cfPath cf) s name d))"
proof -
  let ?q = "wire_request n MethodGet (enc_get_params \<lparr> gpName = name \<rparr>)"
  let ?g = "fst (Get A (wrIo z 0) (cfPath cf) s name d)"
  have "Bind ?q get_fields zero_get = Ok \<lparr> gpName = name \<rparr>"
    using assms(1) by (intro Bind_get) (simp_all add: wire_request_def)
  then have c: "server_call A (wrIo z 0) cf ?q (s, d) = (obind ?g (\<lambda>x. Ok (RGet x)), s, d)"
    by (cases ?g) (simp_all add: server_call_def wire_request_def method_defs call_get_def toInfo_def)
  have ok: "\<exists>j. enc_result (RGet x) = Some j \<and> decoded MethodGet (Some dec_get) zero_info j = Ok (norm_info x)"
    if "?g = Ok x" for x
  proof -
    have "info_ok x" using that Get_Ok_name by (metis prod.collapse)
    from dec_get_enc [OF this] show ?thesis by (simp add: decoded_def)
  qed
  show ?thesis
    unfolding client_Get_def call_over_wire(1) [OF method_members(1) enc_params_doc_ok(1) assms(2,3) c]
    by (rule over_wire_call) (rule ok)
qed

lemma enc_params_doc_ok':
  "doc_ok (enc_delete_params g)" "doc_ok (enc_list_params l)" "doc_ok (enc_unlock_params u)" "doc_ok enc_empty"
  using json_depth_enc_strmap [of "lpAttributes l"]
  by (auto simp: doc_ok_def enc_delete_params_def enc_list_params_def enc_unlock_params_def enc_empty_def
      fld_def fld_if_def MaxDepth_def split: option.split)

definition norm_filter :: "sfilter \<Rightarrow> sfilter" where
  "norm_filter f = f\<lparr>fAttributes := sort_key fst (fAttributes f)\<rparr>"

definition attrs_valid :: "(bytes, bytes) gomap \<Rightarrow> bool" where
  "attrs_valid m \<longleftrightarrow> gomap_ok m \<and> (\<forall>(k, v) \<in> set m. utf8_valid k \<and> utf8_valid v)"

definition list_params_of :: "sfilter \<Rightarrow> json" where
  "list_params_of f = enc_list_params \<lparr> lpKind = fKind f, lpPrefix = fPrefix f, lpAttributes = fAttributes f \<rparr>"

lemma wire_list:
  assumes "utf8_valid (fKind f)" and "utf8_valid (fPrefix f)" and "attrs_valid (fAttributes f)"
    and "fits A X (wrIo z 0) cf (wire_request n MethodList (list_params_of f)) (s, d)" and "wrWrites z 0"
  shows "client_List socket (linked A X cf z (s, d)) n f
    = over_wire X MethodList (map norm_info) (fst (List A (wrIo z 0) (cfPath cf) s (norm_filter f) d))"
proof -
  let ?q = "wire_request n MethodList (list_params_of f)"
  let ?l = "fst (List A (wrIo z 0) (cfPath cf) s (norm_filter f) d)"
  let ?p = "\<lparr> lpKind = fKind f, lpPrefix = fPrefix f, lpAttributes = fAttributes f \<rparr>"
  have b: "Bind ?q list_fields zero_list = Ok (?p\<lparr>lpAttributes := sort_key fst (lpAttributes ?p)\<rparr>)"
    using assms(1-3) by (intro Bind_list) (simp_all add: wire_request_def attrs_valid_def list_params_of_def)
  have f: "norm_filter f = \<lparr> fKind = fKind f, fPrefix = fPrefix f, fAttributes = sort_key fst (fAttributes f) \<rparr>"
    by (simp add: norm_filter_def)
  have info: "\<forall>x \<in> set xs. info_ok x \<and> dValue x = None" if "?l = Ok xs" for xs
    using that List_Ok_info by (metis prod.collapse)
  then have "map toInfo xs = xs" if "?l = Ok xs" for xs
    using that by (simp add: toInfo_def map_idI)
  then have c: "server_call A (wrIo z 0) cf ?q (s, d) = (obind ?l (\<lambda>x. Ok (RList x)), s, d)"
    by (cases ?l) (simp_all add: server_call_def wire_request_def method_defs call_list_def f b [unfolded wire_request_def method_defs])
  have ok: "\<exists>j. enc_result (RList xs) = Some j \<and> decoded MethodList (Some dec_list) [] j = Ok (map norm_info xs)"
    if "?l = Ok xs" for xs
    using dec_list_enc [OF info [OF that]] by (simp add: decoded_def)
  show ?thesis
    unfolding client_List_def list_params_of_def [symmetric]
      call_over_wire(1) [OF method_members(4) enc_params_doc_ok'(2) [of ?p, folded list_params_of_def] assms(4,5) c]
    by (rule over_wire_call) (rule ok)
qed

text \<open>The order of the attributes of a secret does not reach the file.\<close>

lemma map_sort_key:
  assumes "\<And>x. g (h x) = f x"
  shows "map h (sort_key f xs) = sort_key g (map h xs)"
proof (induction xs)
  case (Cons x xs)
  have "map h (insort_key f x ys) = insort_key g (h x) (map h ys)" for ys
    by (induction ys) (simp_all add: assms)
  with Cons show ?case by simp
qed simp

lemma sort_sorted [simp]: "sort_key f (sort_key f xs) = sort_key f xs"
proof -
  have "sorted (map f ys) \<Longrightarrow> sort_key f ys = ys" for ys
    by (induction ys) (auto simp: insort_is_Cons)
  then show ?thesis by simp
qed

lemma sort_Nil [simp]: "sort_key f xs = [] \<longleftrightarrow> xs = []"
  by (metis length_0_conv length_sort)

lemma map_update: "map (\<lambda>(k, v). (k, f v)) (AList.update k v m) = AList.update k (f v) (map (\<lambda>(k, v). (k, f v)) m)"
  by (induction m) auto

lemma enc_map_values: "enc_map f m = enc_map id (map (\<lambda>(k, v). (k, f v)) m)"
proof -
  have "map (\<lambda>(k, v). (k, f v)) (sort_key fst m) = sort_key fst (map (\<lambda>(k, v). (k, f v)) m)"
    by (rule map_sort_key) auto
  from this [symmetric] show ?thesis by (simp add: enc_map_def comp_def case_prod_beta)
qed

lemma enc_map_update: "f p = f q \<Longrightarrow> enc_map f (AList.update k p m) = enc_map f (AList.update k q m)"
  by (subst (1 2) enc_map_values) (simp add: map_update)

lemma enc_strmap_sorted [simp]: "enc_strmap (sort_key fst m) = enc_strmap m"
  by (simp add: enc_strmap_def enc_map_def)

lemma store_write_cong:
  assumes "\<And>v. m v = m' v \<or> (\<exists>v1 v2. m v = Ok v1 \<and> m' v = Ok v2
      \<and> (\<forall>i d. Write_file A w path i v1 d = Write_file A w path i v2 d)
      \<and> (\<forall>r :: unit res. deferred_wipe v1 r = deferred_wipe v2 r))"
  shows "store_write A w path s m d = store_write A w path s m' d"
proof (cases "sId s")
  case (Some i)
  show ?thesis
  proof (cases "Read_file A w path i d")
    case (Ok v)
    show ?thesis using assms [of v]
      by (auto simp: store_write_def sess.use_open [OF Some] Ok split: outcome.split prod.split)
  qed (simp_all add: store_write_def sess.use_open [OF Some])
qed (simp add: store_write_def sess.use_locked)

lemma Store_sorted:
  assumes "attrs_ok attrs"
  shows "Store_secret A w path s name kind (sort_key fst attrs) val d = Store_secret A w path s name kind attrs val d"
proof -
  have a: "ValidateAttributes (sort_key fst attrs) = ValidateAttributes attrs"
    by (rule trans [of _ "Ok ()", OF _ sym]) (use assms in \<open>simp_all add: attrs_ok_def\<close>)
  let ?p = "\<lambda>m c now. Some \<lparr> vKind = kind, vValue = val, vAttributes = m, vCreated = c, vUpdated = now \<rparr>"
  have w: "Write_file A w path i (v\<lparr>vSecrets := AList.update name (?p (sort_key fst attrs) c now) m\<rparr>) d'
      = Write_file A w path i (v\<lparr>vSecrets := AList.update name (?p attrs c now) m\<rparr>) d'"
    and z: "deferred_wipe (v\<lparr>vSecrets := AList.update name (?p (sort_key fst attrs) c now) m\<rparr>) r
      = deferred_wipe (v\<lparr>vSecrets := AList.update name (?p attrs c now) m\<rparr>) r"
    for i v c now m d' and r :: "unit res"
  proof -
    have e: "enc_map enc_secret_ptr (AList.update name (?p (sort_key fst attrs) c now) m)
        = enc_map enc_secret_ptr (AList.update name (?p attrs c now) m)"
      by (rule enc_map_update) (simp add: enc_secret_ptr_def enc_secret_def)
    have t: "list_all (\<lambda>(k, p). case p of None \<Rightarrow> True | Some s \<Rightarrow> time_ok (vCreated s) \<and> time_ok (vUpdated s))
          (AList.update name (?p (sort_key fst attrs) c now) m)
        = list_all (\<lambda>(k, p). case p of None \<Rightarrow> True | Some s \<Rightarrow> time_ok (vCreated s) \<and> time_ok (vUpdated s))
          (AList.update name (?p attrs c now) m)"
      by (induction m) auto
    show "Write_file A w path i (v\<lparr>vSecrets := AList.update name (?p (sort_key fst attrs) c now) m\<rparr>) d'
      = Write_file A w path i (v\<lparr>vSecrets := AList.update name (?p attrs c now) m\<rparr>) d'"
      by (simp add: Write_file_def Encode_def times_ok_def enc_vault_def e t)
    have "no_nil (v\<lparr>vSecrets := AList.update name (?p (sort_key fst attrs) c now) m\<rparr>)
        \<longleftrightarrow> no_nil (v\<lparr>vSecrets := AList.update name (?p attrs c now) m\<rparr>)"
      unfolding no_nil_def by (induction m) auto
    then show "deferred_wipe (v\<lparr>vSecrets := AList.update name (?p (sort_key fst attrs) c now) m\<rparr>) r
      = deferred_wipe (v\<lparr>vSecrets := AList.update name (?p attrs c now) m\<rparr>) r"
      by (cases "no_nil (v\<lparr>vSecrets := AList.update name (?p attrs c now) m\<rparr>)") (simp_all add: wipe_nil)
  qed
  have "store_modify w name kind (sort_key fst attrs) val v = store_modify w name kind attrs val v
    \<or> (\<exists>v1 v2. store_modify w name kind (sort_key fst attrs) val v = Ok v1 \<and> store_modify w name kind attrs val v = Ok v2
        \<and> (\<forall>i d. Write_file A w path i v1 d = Write_file A w path i v2 d)
        \<and> (\<forall>r :: unit res. deferred_wipe v1 r = deferred_wipe v2 r))" for v
  proof (cases "ValidateSecret name kind attrs (case val of None \<Rightarrow> [] | Some b \<Rightarrow> b)")
    case (Ok u)
    then show ?thesis
      using w z by (auto simp: store_modify_def ValidateSecret_def a Let_def split: option.split)
  qed (simp_all add: store_modify_def ValidateSecret_def a)
  then show ?thesis unfolding Store_secret_def by (rule store_write_cong)
qed

definition store_params_of :: "dsecret \<Rightarrow> json" where
  "store_params_of x = enc_store_params
     \<lparr> spName = dName x, spKind = dKind x, spAttributes = dAttributes x, spValue = dValue x \<rparr>"

lemma attrs_ok_valid: "attrs_ok m \<Longrightarrow> gomap_ok m \<Longrightarrow> attrs_valid m"
  using slug_valid by (fastforce simp: attrs_ok_def attrs_valid_def text_ok_def)

lemma wire_store:
  assumes "utf8_valid (dName x)" and "utf8_valid (dKind x)" and "attrs_ok (dAttributes x)" and "gomap_ok (dAttributes x)"
    and "fits A X (wrIo z 0) cf (wire_request n MethodStore (store_params_of x)) (s, d)" and "wrWrites z 0"
    and "dValue x \<noteq> None"
    and "Store_secret A (wrIo z 0) (cfPath cf) s (dName x) (dKind x) (dAttributes x) (dValue x) d = (r, d')"
  shows "client_Store socket (linked A X cf z (s, d)) n x = over_wire X MethodStore id r
    \<and> wire_after A X cf z (s, d) (message_line n MethodStore (store_params_of x)) = survives r (s, d')"
proof -
  let ?q = "wire_request n MethodStore (store_params_of x)"
  let ?p = "\<lparr> spName = dName x, spKind = dKind x, spAttributes = dAttributes x, spValue = dValue x \<rparr>"
  have "Bind ?q store_fields zero_store = Ok (?p\<lparr>spAttributes := sort_key fst (spAttributes ?p)\<rparr>)"
    using assms(1,2) attrs_ok_valid [OF assms(3,4)]
    by (intro Bind_store) (simp_all add: wire_request_def attrs_valid_def store_params_of_def)
  then have "server_call A (wrIo z 0) cf ?q (s, d) = (obind r (\<lambda>_. Ok REmpty), s, d')"
    using assms(8) by (simp add: server_call_def wire_request_def method_defs call_store_def Store_sorted [OF assms(3)] empty_result_def)
  note c = call_over_wire [OF method_members(2) enc_params_doc_ok(2) [of ?p, folded store_params_of_def] assms(5,6) this]
  have "client_Store socket (linked A X cf z (s, d)) n x
      = obind (answer_of X MethodStore (obind r (\<lambda>_. Ok REmpty))) (decoded MethodStore None ())"
    using assms(7) by (auto simp: client_Store_def Expose_def c(1) store_params_of_def [symmetric])
  also have "\<dots> = over_wire X MethodStore id r"
    by (rule over_wire_call) (simp add: decoded_def)
  finally show ?thesis using c(2) by (cases r) simp_all
qed

lemma wire_delete:
  assumes "utf8_valid name" and "wrWrites z 0"
    and "fits A X (wrIo z 0) cf (wire_request n MethodDelete (enc_delete_params \<lparr> dpName = name \<rparr>)) (s, d)"
    and "Delete A (wrIo z 0) (cfPath cf) s name d = (r, d')"
  shows "client_Delete socket (linked A X cf z (s, d)) n name = over_wire X MethodDelete id r
    \<and> wire_after A X cf z (s, d) (message_line n MethodDelete (enc_delete_params \<lparr> dpName = name \<rparr>)) = survives r (s, d')"
proof -
  let ?q = "wire_request n MethodDelete (enc_delete_params \<lparr> dpName = name \<rparr>)"
  have "Bind ?q delete_fields zero_delete = Ok \<lparr> dpName = name \<rparr>"
    using assms(1) by (intro Bind_delete) (simp_all add: wire_request_def)
  then have "server_call A (wrIo z 0) cf ?q (s, d) = (obind r (\<lambda>_. Ok REmpty), s, d')"
    using assms(4) by (simp add: server_call_def wire_request_def method_defs call_delete_def empty_result_def)
  note c = call_over_wire [OF method_members(3) enc_params_doc_ok'(1) assms(3,2) this]
  have "obind (answer_of X MethodDelete (obind r (\<lambda>_. Ok REmpty))) (decoded MethodDelete None ())
      = over_wire X MethodDelete id r"
    by (rule over_wire_call) (simp add: decoded_def)
  then show ?thesis using c(2) by (cases r) (simp_all add: client_Delete_def c(1))
qed

lemma wire_status:
  assumes "fits A X (wrIo z 0) cf (wire_request n MethodStatus enc_empty) (s, d)" and "wrWrites z 0"
    and "\<forall>t. csLocksAt (daemon_status s) = Some t \<longrightarrow> time_ok t"
  shows "client_Status socket (linked A X cf z (s, d)) n = Ok (daemon_status s)"
proof -
  let ?r = "RStatus (csProtocol (daemon_status s)) (csLocked (daemon_status s)) (csLocksAt (daemon_status s))"
  have "server_call A (wrIo z 0) cf (wire_request n MethodStatus enc_empty) (s, d) = (Ok ?r, s, d)"
    by (simp add: server_call_def wire_request_def daemon_status_of)
  note c = call_over_wire(1) [OF method_members(7) enc_params_doc_ok'(4) assms(1,2) this]
  obtain j where j: "enc_result ?r = Some j"
    using assms(3) by (cases "csLocksAt (daemon_status s)") auto
  have "int64_range (csProtocol (daemon_status s))" by (simp add: daemon_status_def ProtoVersion_def int64_range_def)
  from dec_status_enc [OF j this] show ?thesis by (simp add: client_Status_def c answer_simps(3) [OF j] decoded_def del: enc_result.simps)
qed

lemma wire_lock:
  assumes "fits A X (wrIo z 0) cf (wire_request n MethodLock enc_empty) (s, d)" and "wrWrites z 0"
  shows "client_Lock socket (linked A X cf z (s, d)) n = Ok ()
    \<and> wire_after A X cf z (s, d) (message_line n MethodLock enc_empty) = (Lock s, d)"
proof -
  have "server_call A (wrIo z 0) cf (wire_request n MethodLock enc_empty) (s, d) = (Ok REmpty, Lock s, d)"
    by (simp add: server_call_def wire_request_def method_defs)
  note c = call_over_wire [OF method_members(6) enc_params_doc_ok'(4) assms this]
  show ?thesis using c(2) by (simp add: client_Lock_def c(1) decoded_def)
qed

lemma wire_unlock:
  assumes "fits A X (wrIo z 0) cf (wire_request n MethodUnlock (enc_unlock_params \<lparr> upIdentity = Some x, upFor = secs \<rparr>)) (s, d)"
    and "wrWrites z 0" and "\<forall>m. secs = Some m \<longrightarrow> int64_range m"
    and "call_unlock A (wrIo z 0) cf (unlock_request x secs) s d = (r, s')"
  shows "client_unlock socket (linked A X cf z (s, d)) n x secs = (over_wire X MethodUnlock (\<lambda>_. ()) r, zeroed x)
    \<and> wire_after A X cf z (s, d) (message_line n MethodUnlock (enc_unlock_params \<lparr> upIdentity = Some x, upFor = secs \<rparr>))
      = survives r (s', d)"
proof -
  let ?p = "\<lparr> upIdentity = Some x, upFor = secs \<rparr>"
  let ?q = "wire_request n MethodUnlock (enc_unlock_params ?p)"
  have "Bind ?q unlock_fields zero_unlock = Bind (unlock_request x secs) unlock_fields zero_unlock"
    by (simp add: Bind_def wire_request_def unlock_request_def)
  then have c: "server_call A (wrIo z 0) cf ?q (s, d) = (r, s', d)"
    using assms(4) by (simp add: server_call_def wire_request_def method_defs call_unlock_def)
  have "r = Panic \<or> (\<exists>e. r = Er e) \<or> r = Ok REmpty"
    using assms(4) by (auto simp: call_unlock_def split: outcome.splits prod.splits)
  moreover note c = call_over_wire [OF method_members(5) enc_params_doc_ok'(3) assms(1,2) c]
  ultimately show ?thesis using c(2) by (auto simp: client_unlock_def c(1) decoded_def)
qed

section \<open>The client over the wire\<close>

text \<open>The order of the attributes of a filter does not matter either.\<close>

lemma match_attrs_forall: "match_attrs m p = (if m = [] then Ok True else case p of
    None \<Rightarrow> Panic | Some s \<Rightarrow> Ok (\<forall>(k, v) \<in> set m. map_of (vAttributes s) k = Some v))"
  by (induction m p rule: match_attrs.induct) (auto split: option.splits if_splits)

lemma matches_norm: "matches (norm_filter f) n p = matches f n p"
  by (cases p) (simp_all add: matches_def norm_filter_def match_attrs_forall cong: if_cong)

lemma list_loop_norm: "list_loop (norm_filter f) m = list_loop f m"
  by (induction m) (auto simp: matches_norm cong: if_cong)

lemma attrs_ok_sort [simp]: "attrs_ok (sort_key fst m) \<longleftrightarrow> attrs_ok m"
  by (simp add: attrs_ok_def)

lemma List_norm: "attrs_ok (fAttributes f) \<Longrightarrow> List A w path s (norm_filter f) d = List A w path s f d"
  by (cases "sId s")
    (simp_all add: List_def sess.use_locked sess.use_open list_loop_norm obind_valid, simp add: norm_filter_def obind_valid)

definition wire_client ::
  "'i age \<Rightarrow> texts \<Rightarrow> config \<Rightarrow> wire \<Rightarrow> bytes \<Rightarrow> nat \<Rightarrow> ('i session \<times> fs) client" where
  "wire_client A X cf z socket n =
     \<lparr> clConnect = (\<lambda>st. obind (ConnectSocket socket (linked A X cf z st) n) (\<lambda>_. Ok ())),
       clList = (\<lambda>f st. client_List socket (linked A X cf z st) n f),
       clGet = (\<lambda>name st. client_Get socket (linked A X cf z st) n name),
       clStore = (\<lambda>x st. (client_Store socket (linked A X cf z st) n x,
         if dValue x = None then st else wire_after A X cf z st (message_line n MethodStore (store_params_of x)))),
       clDelete = (\<lambda>name st. (client_Delete socket (linked A X cf z st) n name,
         wire_after A X cf z st (message_line n MethodDelete (enc_delete_params \<lparr> dpName = name \<rparr>)))) \<rparr>"

text \<open>
  An error \<open>e'\<close> that arrived over the wire is told from no other than \<open>e\<close>: the same sentinels, the same code,
  the same text once the fragments of \<open>e\<close> are written out.
\<close>

definition told :: "texts \<Rightarrow> goerr \<Rightarrow> goerr \<Rightarrow> bool" where
  "told X e e' \<longleftrightarrow> (\<forall>t. errors_is e' t = errors_is e t) \<and> is_ambiguous e' = is_ambiguous e \<and> render X (err_msg e') = render X (err_msg e)
     \<and> map_option (map_prod id (render X)) (errors_as_client e') = map_option (map_prod id (render X)) (errors_as_client e)"

definition answers_as :: "texts \<Rightarrow> ('a \<Rightarrow> 'a) \<Rightarrow> 'a res \<Rightarrow> 'a res \<Rightarrow> bool" where
  "answers_as X h r r' \<longleftrightarrow>
     (case r of Ok x \<Rightarrow> r' = Ok (h x) | Er e \<Rightarrow> (\<exists>e'. r' = Er e' \<and> told X e e') | Panic \<Rightarrow> False)"

lemma render_append [simp]: "render X (a @ b) = render X a @ render X b"
  by (simp add: render_def)

lemma told_refl: "told X e e"
  by (simp add: told_def)

lemma told_said: "told X (client_error meth e) (said X meth (toError e))"
  by (simp add: told_def client_error_def said_def wrapf_def is_ambiguous_def split: prod.split)

lemma answers_wire: "answers_as X h (client_res meth r) (over_wire X meth h r)"
  by (cases r) (simp_all add: answers_as_def told_said told_refl hung_up_def)

section \<open>One client for another\<close>

text \<open>
  \<open>c'\<close> answers_as as \<open>c\<close> does, for the arguments and states that the \<open>ok\<close> predicates allow. A command that
  uses the one instead of the other ends with the same output and exit code, and the same text on
  standard error.
\<close>

locale refined_client =
  fixes X :: texts
    and c :: "'st client"
    and c' :: "'st client"
    and okC :: "'st \<Rightarrow> bool"
    and okL :: "sfilter \<Rightarrow> 'st \<Rightarrow> bool"
    and okG :: "bytes \<Rightarrow> 'st \<Rightarrow> bool"
    and okS :: "dsecret \<Rightarrow> 'st \<Rightarrow> bool"
    and okD :: "bytes \<Rightarrow> 'st \<Rightarrow> bool"
  assumes connects: "okC st \<Longrightarrow> clConnect c st = Ok () \<and> clConnect c' st = Ok ()"
    and lists: "okL f st \<Longrightarrow> answers_as X (map norm_info) (clList c f st) (clList c' f st)"
    and lists_attrs: "okL f st \<Longrightarrow> clList c f st = Ok xs \<Longrightarrow> x \<in> set xs \<Longrightarrow> gomap_ok (dAttributes x)"
    and gets: "okG n st \<Longrightarrow> answers_as X norm_info (clGet c n st) (clGet c' n st)"
    and gets_attrs: "okG n st \<Longrightarrow> clGet c n st = Ok x \<Longrightarrow> gomap_ok (dAttributes x)"
    and stores: "okS x st \<Longrightarrow> answers_as X id (fst (clStore c x st)) (fst (clStore c' x st))
      \<and> snd (clStore c' x st) = snd (clStore c x st)"
    and stores_order: "okS x st \<Longrightarrow> norm_info y = norm_info x \<Longrightarrow> clStore c y st = clStore c x st \<and> okS y st"
    and deletes: "okD n st \<Longrightarrow> answers_as X id (fst (clDelete c n st)) (fst (clDelete c' n st))
      \<and> snd (clDelete c' n st) = snd (clDelete c n st)"

lemma gomap_ok_sorted [simp]: "gomap_ok (sort_key fst m) \<longleftrightarrow> gomap_ok m"
proof -
  have "length (sort_key fst m) = length m" and "fst ` set (sort_key fst m) = fst ` set m" by simp_all
  then show ?thesis
    unfolding gomap_ok_def by (metis card_distinct distinct_card length_map set_map)
qed

lemma store_params_norm: "store_params_of (norm_info x) = store_params_of x"
  by (simp add: store_params_of_def enc_store_params_def norm_info_def)

lemma same_norm:
  assumes "norm_info y = norm_info x"
  shows "dName y = dName x" and "dKind y = dKind x" and "dValue y = dValue x"
    and "sort_key fst (dAttributes y) = sort_key fst (dAttributes x)" and "store_params_of y = store_params_of x"
    and "attrs_ok (dAttributes y) = attrs_ok (dAttributes x)" and "gomap_ok (dAttributes y) = gomap_ok (dAttributes x)"
proof -
  show a: "sort_key fst (dAttributes y) = sort_key fst (dAttributes x)"
    using arg_cong [OF assms, of dAttributes] by (simp add: norm_info_def)
  show "dName y = dName x" and "dKind y = dKind x" and "dValue y = dValue x"
    using arg_cong [OF assms, of dName] arg_cong [OF assms, of dKind] arg_cong [OF assms, of dValue]
    by (simp_all add: norm_info_def)
  show "store_params_of y = store_params_of x" using assms store_params_norm by metis
  show "attrs_ok (dAttributes y) = attrs_ok (dAttributes x)" using a attrs_ok_sort by metis
  show "gomap_ok (dAttributes y) = gomap_ok (dAttributes x)" using a gomap_ok_sorted by metis
qed

definition sends :: "'i age \<Rightarrow> texts \<Rightarrow> config \<Rightarrow> wire \<Rightarrow> nat \<Rightarrow> bytes \<Rightarrow> json \<Rightarrow> 'i session \<times> fs \<Rightarrow> bool" where
  "sends A X cf z n meth params st \<longleftrightarrow> fits A X (wrIo z 0) cf (wire_request n meth params) st \<and> wrWrites z 0"

definition status_ok :: "'i age \<Rightarrow> texts \<Rightarrow> config \<Rightarrow> wire \<Rightarrow> nat \<Rightarrow> 'i session \<times> fs \<Rightarrow> bool" where
  "status_ok A X cf z n st \<longleftrightarrow> sends A X cf z n MethodStatus enc_empty st
     \<and> (\<forall>t. csLocksAt (daemon_status (fst st)) = Some t \<longrightarrow> time_ok t)"

definition list_ok :: "'i age \<Rightarrow> texts \<Rightarrow> config \<Rightarrow> wire \<Rightarrow> nat \<Rightarrow> sfilter \<Rightarrow> 'i session \<times> fs \<Rightarrow> bool" where
  "list_ok A X cf z n f st \<longleftrightarrow> utf8_valid (fKind f) \<and> utf8_valid (fPrefix f) \<and> attrs_ok (fAttributes f)
     \<and> gomap_ok (fAttributes f) \<and> sends A X cf z n MethodList (list_params_of f) st"

definition get_ok :: "'i age \<Rightarrow> texts \<Rightarrow> config \<Rightarrow> wire \<Rightarrow> nat \<Rightarrow> bytes \<Rightarrow> 'i session \<times> fs \<Rightarrow> bool" where
  "get_ok A X cf z n name st \<longleftrightarrow> utf8_valid name
     \<and> sends A X cf z n MethodGet (enc_get_params \<lparr> gpName = name \<rparr>) st"

definition store_ok :: "'i age \<Rightarrow> texts \<Rightarrow> config \<Rightarrow> wire \<Rightarrow> nat \<Rightarrow> dsecret \<Rightarrow> 'i session \<times> fs \<Rightarrow> bool" where
  "store_ok A X cf z n x st \<longleftrightarrow> dValue x \<noteq> None \<longrightarrow> utf8_valid (dName x) \<and> utf8_valid (dKind x)
     \<and> attrs_ok (dAttributes x) \<and> gomap_ok (dAttributes x) \<and> sends A X cf z n MethodStore (store_params_of x) st"

definition delete_ok :: "'i age \<Rightarrow> texts \<Rightarrow> config \<Rightarrow> wire \<Rightarrow> nat \<Rightarrow> bytes \<Rightarrow> 'i session \<times> fs \<Rightarrow> bool" where
  "delete_ok A X cf z n name st \<longleftrightarrow> utf8_valid name
     \<and> sends A X cf z n MethodDelete (enc_delete_params \<lparr> dpName = name \<rparr>) st"

lemma answers_nil: "answers_as X h (Er e) (Er e)"
  by (simp add: answers_as_def told_refl)

interpretation wired: refined_client X "daemon_client A (wrIo z 0) (cfPath cf)" "wire_client A X cf z socket n"
    "status_ok A X cf z n" "list_ok A X cf z n" "get_ok A X cf z n" "store_ok A X cf z n" "delete_ok A X cf z n"
  for A X cf z socket n
proof
  fix st :: "'a session \<times> fs" and f :: sfilter and x y :: dsecret and xs :: "dsecret list" and name :: bytes
  obtain s d where st: "st = (s, d)" by (cases st)
  show "clConnect (daemon_client A (wrIo z 0) (cfPath cf)) st = Ok ()
      \<and> clConnect (wire_client A X cf z socket n) st = Ok ()" if "status_ok A X cf z n st"
    using that wire_status [of A X z cf n s d socket]
    by (simp add: st status_ok_def sends_def daemon_client_def wire_client_def ConnectSocket_def)
  show "answers_as X (map norm_info) (clList (daemon_client A (wrIo z 0) (cfPath cf)) f st)
      (clList (wire_client A X cf z socket n) f st)" if "list_ok A X cf z n f st"
    using that wire_list [of f A X z cf n s d socket] attrs_ok_valid
    by (simp add: st list_ok_def sends_def daemon_client_def wire_client_def List_norm answers_wire)
  show "gomap_ok (dAttributes x)"
    if "clList (daemon_client A (wrIo z 0) (cfPath cf)) f st = Ok xs" and "x \<in> set xs"
    using that List_Ok_info [of A "wrIo z 0" "cfPath cf" s f d xs]
    by (auto simp: st daemon_client_def prod_eq_iff info_ok_def)
  show "answers_as X norm_info (clGet (daemon_client A (wrIo z 0) (cfPath cf)) name st)
      (clGet (wire_client A X cf z socket n) name st)" if "get_ok A X cf z n name st"
    using that wire_get [of name A X z cf n s d socket]
    by (simp add: st get_ok_def sends_def daemon_client_def wire_client_def answers_wire)
  show "gomap_ok (dAttributes x)" if "clGet (daemon_client A (wrIo z 0) (cfPath cf)) name st = Ok x"
    using that Get_Ok_name [of A "wrIo z 0" "cfPath cf" s name d x]
    by (auto simp: st daemon_client_def prod_eq_iff info_ok_def)
  show "answers_as X id (fst (clStore (daemon_client A (wrIo z 0) (cfPath cf)) x st))
      (fst (clStore (wire_client A X cf z socket n) x st))
    \<and> snd (clStore (wire_client A X cf z socket n) x st) = snd (clStore (daemon_client A (wrIo z 0) (cfPath cf)) x st)"
    if "store_ok A X cf z n x st"
  proof (cases "dValue x")
    case None
    then show ?thesis
      by (simp add: st daemon_client_def wire_client_def client_Store_def Expose_def nil_value_def answers_nil)
  next
    case (Some b)
    obtain r d' where "Store_secret A (wrIo z 0) (cfPath cf) s (dName x) (dKind x) (dAttributes x) (dValue x) d = (r, d')"
      by fastforce
    with that wire_store [of x A X z cf n s d r d' socket] show ?thesis
      by (simp add: Some st store_ok_def sends_def daemon_client_def wire_client_def answers_wire)
  qed
  show "clStore (daemon_client A (wrIo z 0) (cfPath cf)) y st = clStore (daemon_client A (wrIo z 0) (cfPath cf)) x st
      \<and> store_ok A X cf z n y st" if "store_ok A X cf z n x st" and "norm_info y = norm_info x"
  proof (cases "dValue x")
    case None
    then show ?thesis using same_norm [OF that(2)] by (simp add: daemon_client_def store_ok_def)
  next
    case (Some b)
    with that(1) have a: "attrs_ok (dAttributes x)" by (simp add: store_ok_def)
    have b: "attrs_ok (dAttributes y)" using a same_norm(6) [OF that(2)] by simp
    have "Store_secret A (wrIo z 0) (cfPath cf) s (dName x) (dKind x) (dAttributes y) (dValue x) d
        = Store_secret A (wrIo z 0) (cfPath cf) s (dName x) (dKind x) (dAttributes x) (dValue x) d"
      using Store_sorted [OF a] Store_sorted [OF b] same_norm(4) [OF that(2)] by metis
    then show ?thesis using that(1) same_norm [OF that(2)] by (simp add: st daemon_client_def store_ok_def)
  qed
  show "answers_as X id (fst (clDelete (daemon_client A (wrIo z 0) (cfPath cf)) name st))
      (fst (clDelete (wire_client A X cf z socket n) name st))
    \<and> snd (clDelete (wire_client A X cf z socket n) name st) = snd (clDelete (daemon_client A (wrIo z 0) (cfPath cf)) name st)"
    if "delete_ok A X cf z n name st"
  proof -
    obtain r d' where "Delete A (wrIo z 0) (cfPath cf) s name d = (r, d')" by fastforce
    with that wire_delete [of name z A X cf n s d r d' socket] show ?thesis
      by (simp add: st delete_ok_def sends_def daemon_client_def wire_client_def answers_wire)
  qed
qed

end
