(* ===== verification/WireCommands.thy ===== *)
theory WireCommands
  imports WireClient SecretCommands ExecEnv GitCredential
begin

text \<open>
  The commands over the wire: each ends as it does on the daemon itself, with the same output, the same
  exit code and the same text on standard error, and leaves the same state.
\<close>

definition same_out :: "texts \<Rightarrow> cmd_out \<Rightarrow> cmd_out \<Rightarrow> bool" where
  "same_out X a b \<longleftrightarrow> outText b = outText a \<and> outCode b = outCode a \<and> render X (outErr b) = render X (outErr a)"

text \<open>A command that may change the daemon: its output and the state it leaves.\<close>

definition same_run :: "texts \<Rightarrow> cmd_out \<times> 'st \<Rightarrow> cmd_out \<times> 'st \<Rightarrow> bool" where
  "same_run X a b \<longleftrightarrow> same_out X (fst a) (fst b) \<and> snd b = snd a"

declare same_run_def [simp]

lemma same_out_refl [simp]: "same_out X a a"
  by (simp add: same_out_def)

lemma toldD:
  assumes "told X e e'"
  shows "errors_is e' t = errors_is e t" and "render X (err_msg e') = render X (err_msg e)"
    and "errors_as_client e = None \<Longrightarrow> errors_as_client e' = None"
    and "errors_as_client e = Some (code, m) \<Longrightarrow> \<exists>m'. errors_as_client e' = Some (code, m') \<and> render X m' = render X m"
    and "is_ambiguous e' = is_ambiguous e"
  using assms unfolding told_def by (blast, blast, simp, force, blast)

lemma same_exitError [intro]:
  assumes "told X e e'"
  shows "same_out X (exitError e) (exitError e')"
proof (cases "errors_as_client e")
  case None
  then show ?thesis
    by (simp add: exitError_def toldD(1-3) [OF assms] same_out_def exit_with_def)
next
  case (Some cm)
  obtain code m where cm: "cm = (code, m)" by (cases cm)
  obtain m' where "errors_as_client e' = Some (code, m')" "render X m' = render X m"
    using toldD(4) [OF assms] Some cm by blast
  then show ?thesis using Some cm
    by (simp add: exitError_def toldD(1) [OF assms] same_out_def exit_with_def)
qed

lemma same_errorMessage:
  assumes "told X e e'"
  shows "render X (errorMessage e') = render X (errorMessage e)"
proof (cases "errors_as_client e")
  case None
  then show ?thesis by (simp add: errorMessage_def toldD(2,3) [OF assms])
next
  case (Some cm)
  with toldD(4) [OF assms, of "fst cm" "snd cm"] show ?thesis by (auto simp: errorMessage_def case_prod_beta)
qed

text \<open>What the other order of the attributes leaves as it is.\<close>

lemma norm_info_simps [simp]:
  "dName (norm_info x) = dName x" "dKind (norm_info x) = dKind x" "dValue (norm_info x) = dValue x"
  "dCreated (norm_info x) = dCreated x" "dUpdated (norm_info x) = dUpdated x"
  "dAttributes (norm_info x) = sort_key fst (dAttributes x)"
  by (simp_all add: norm_info_def)

lemma toJSON_norm [simp]: "toJSON (norm_info x) = toJSON x"
  by (simp add: toJSON_def)

lemma formatAttrs_sorted [simp]: "formatAttrs (sort_key fst m) = formatAttrs m"
  by (simp add: formatAttrs_def)

lemma json_times_norm [simp]: "json_times_ok (norm_info x) = json_times_ok x"
  by (simp add: json_times_ok_def)

lemma answers_as_cases:
  assumes "answers_as X h r r'"
  obtains (ok) x where "r = Ok x" and "r' = Ok (h x)"
  | (error) e e' where "r = Er e" and "r' = Er e'" and "told X e e'"
  using assms by (cases r) (auto simp: answers_as_def)

lemma answers_pair:
  assumes "answers_as X id (fst p) (fst p') \<and> snd p' = snd p"
  obtains (ok) u st' where "p = (Ok u, st')" and "p' = (Ok u, st')"
  | (error) e e' st' where "p = (Er e, st')" and "p' = (Er e', st')" and "told X e e'"
proof -
  obtain r st' r' where p: "p = (r, st')" "p' = (r', st')" using assms by (cases p, cases p') simp
  from assms have "answers_as X id r r'" by (simp add: p)
  then show thesis by (cases rule: answers_as_cases) (use p that in auto)
qed

text \<open>\<open>exec\<close>: the same process, or the same end with the same buffers zeroed.\<close>

fun same_end :: "texts \<Rightarrow> exec_end \<Rightarrow> exec_end \<Rightarrow> bool" where
  "same_end X (Replaced p argv env) e \<longleftrightarrow> e = Replaced p argv env"
| "same_end X (Exited out bufs) e \<longleftrightarrow> (\<exists>out'. e = Exited out' bufs \<and> same_out X out out')"

lemma same_end_refl [simp]: "same_end X e e"
  by (cases e) simp_all

definition same_resolved :: "texts \<Rightarrow> cmd_out \<times> bytes list + bytes list \<Rightarrow> cmd_out \<times> bytes list + bytes list \<Rightarrow> bool" where
  "same_resolved X a b \<longleftrightarrow>
     (case a of
        Inr env \<Rightarrow> b = Inr env
      | Inl (out, bufs) \<Rightarrow> (\<exists>out'. b = Inl (out', bufs) \<and> same_out X out out'))"

lemma render_nil [simp]: "render X [] = []"
  by (simp add: render_def)

lemma render_join_msgs: "render X (join_msgs ms) = join_with [LF] (map (render X) ms)"
  by (induction ms rule: join_msgs.induct) simp_all

text \<open>The states between deletions, all of which the next request has to fit.\<close>

fun deletable :: "'st client \<Rightarrow> (bytes \<Rightarrow> 'st \<Rightarrow> bool) \<Rightarrow> bytes list \<Rightarrow> 'st \<Rightarrow> bool" where
  "deletable c ok [] st \<longleftrightarrow> True"
| "deletable c ok (n # ns) st \<longleftrightarrow> ok n st \<and> deletable c ok ns (snd (clDelete c n st))"

text \<open>What a command asks for, given its arguments.\<close>

definition store_fits ::
  "(sfilter \<Rightarrow> 'st \<Rightarrow> bool) \<Rightarrow> (dsecret \<Rightarrow> 'st \<Rightarrow> bool) \<Rightarrow> cmd_env \<Rightarrow> bytes list \<Rightarrow> bytes \<Rightarrow> bytes list \<Rightarrow> bool \<Rightarrow> 'st \<Rightarrow> bool"
where
  "store_fits okL okS ce args kind attr_flags noOverwrite st \<longleftrightarrow>
     (case args of
        [name] \<Rightarrow>
          (noOverwrite \<longrightarrow> okL \<lparr> fKind = [], fPrefix = name, fAttributes = [] \<rparr> st)
          \<and> (\<forall>attrs buf. parseAttrs attr_flags = Ok attrs \<longrightarrow> store_value ce name = Ok buf \<longrightarrow>
               okS \<lparr> dName = name, dKind = kind, dAttributes = attrs, dValue = Some buf,
                 dCreated = zero_time, dUpdated = zero_time \<rparr> st)
      | _ \<Rightarrow> True)"

definition list_fits :: "(sfilter \<Rightarrow> 'st \<Rightarrow> bool) \<Rightarrow> bytes \<Rightarrow> bytes \<Rightarrow> bytes list \<Rightarrow> 'st \<Rightarrow> bool" where
  "list_fits okL kind pre attr_flags st \<longleftrightarrow>
     (\<forall>attrs. parseAttrs attr_flags = Ok attrs \<longrightarrow> okL \<lparr> fKind = kind, fPrefix = pre, fAttributes = attrs \<rparr> st)"

definition exec_fits :: "(bytes \<Rightarrow> 'st \<Rightarrow> bool) \<Rightarrow> exec_system \<Rightarrow> bytes option \<Rightarrow> bytes list \<Rightarrow> 'st \<Rightarrow> bool" where
  "exec_fits okG S env_file flags st \<longleftrightarrow>
     (\<forall>mapping. execMapping (xOpen S) env_file flags = Ok mapping \<longrightarrow> (\<forall>e \<in> set mapping. okG (evName e) st))"

context refined_client begin

lemma get_cmd_refined:
  assumes "okC st" and "\<forall>name \<in> set args. okG name st"
  shows "same_out X (get_cmd c ce args attr json st) (get_cmd c' ce args attr json st)"
proof (cases "oneArg ''get'' args")
  case (Ok name)
  then have n: "okG name st" using assms(2) by (simp add: oneArg_Ok)
  note con = connects [OF assms(1)]
  from gets [OF n] show ?thesis
  proof (cases rule: answers_as_cases)
    case (ok x)
    have "gomap_ok (dAttributes x)" using gets_attrs [OF n ok(1)] .
    then show ?thesis using Ok con ok
      by (simp add: get_cmd_def norm_info_def toJSON_def json_times_ok_def split: option.split)
  next
    case (error e e')
    then show ?thesis using Ok con by (auto simp: get_cmd_def)
  qed
qed (simp_all add: get_cmd_def)

lemma store_cmd_refined:
  assumes "okC st" and "store_fits okL okS ce args kind attr_flags noOverwrite st"
  shows "same_run X (store_cmd c k ce args kind attr_flags noOverwrite st) (store_cmd c' k ce args kind attr_flags noOverwrite st)"
proof (cases "oneArg ''store'' args")
  case name: (Ok name)
  then have "args = [name]" by (simp add: oneArg_Ok)
  with assms(2) have lok: "noOverwrite \<Longrightarrow> okL \<lparr> fKind = [], fPrefix = name, fAttributes = [] \<rparr> st"
    and sok: "parseAttrs attr_flags = Ok attrs \<Longrightarrow> store_value ce name = Ok buf \<Longrightarrow>
      okS \<lparr> dName = name, dKind = kind, dAttributes = attrs, dValue = Some buf,
        dCreated = zero_time, dUpdated = zero_time \<rparr> st" for attrs buf by (simp_all add: store_fits_def)
  note con = connects [OF assms(1)]
  show ?thesis
  proof (cases "parseAttrs attr_flags")
    case attrs: (Ok attrs)
    have check: "rel_option (same_out X) (store_check c k ce name noOverwrite st) (store_check c' k ce name noOverwrite st)"
    proof (cases noOverwrite)
      case True
      from lists [OF lok [OF True]] show ?thesis
        by (cases rule: answers_as_cases) (auto simp: store_check_def True list_ex_iff)
    next
      case False
      then have "store_check c' k ce name noOverwrite st = store_check c k ce name noOverwrite st"
        by (simp add: store_check_def)
      then show ?thesis by (simp add: option.rel_refl)
    qed
    show ?thesis
    proof (cases "store_check c k ce name noOverwrite st")
      case None
      with check have None': "store_check c' k ce name noOverwrite st = None" by simp
      show ?thesis
      proof (cases "store_value ce name")
        case (Ok buf)
        from stores [OF sok [OF attrs Ok]] show ?thesis
          by (cases rule: answers_pair) (use con name attrs None None' Ok in \<open>auto simp: store_cmd_def\<close>)
      qed (use con name attrs None None' in \<open>simp_all add: store_cmd_def\<close>)
    next
      case (Some out)
      with check obtain out' where "store_check c' k ce name noOverwrite st = Some out'" "same_out X out out'"
        by (auto simp: option_rel_Some1)
      then show ?thesis using con name attrs Some by (simp add: store_cmd_def)
    qed
  qed (use con name in \<open>simp_all add: store_cmd_def\<close>)
qed (simp_all add: store_cmd_def)

lemma list_cmd_refined:
  assumes "okC st" and "list_fits okL kind pre attr_flags st"
  shows "same_out X (list_cmd c ce args kind pre attr_flags long json st) (list_cmd c' ce args kind pre attr_flags long json st)"
proof (cases "parseAttrs attr_flags")
  case (Ok attrs)
  note con = connects [OF assms(1)]
  have rows: "long_rows ce (map norm_info xs) = long_rows ce xs" for xs by (simp add: long_rows_def)
  have "okL \<lparr> fKind = kind, fPrefix = pre, fAttributes = attrs \<rparr> st" using assms(2) Ok by (simp add: list_fits_def)
  from lists [OF this] show ?thesis
    by (cases rule: answers_as_cases)
      (use con Ok in \<open>auto simp: list_cmd_def rows list_all_iff comp_def split: option.split\<close>)
qed (auto simp: list_cmd_def split: option.split)

lemma delete_loop_refined:
  assumes "deletable c okD names st" and "render X errs' = render X errs"
  shows "same_run X (delete_loop c names errs missing st) (delete_loop c' names errs' missing st)"
  using assms
proof (induction names arbitrary: st errs errs' missing)
  case Nil
  then show ?case by (simp add: same_out_def)
next
  case (Cons n ns)
  then have ok: "okD n st" and rest: "deletable c okD ns (snd (clDelete c n st))" by simp_all
  from deletes [OF ok] show ?case
  proof (cases rule: answers_pair)
    case (ok u st')
    then show ?thesis using Cons.IH [OF _ Cons.prems(2)] rest by simp
  next
    case (error e e' st')
    have r: "render X (errs' @ m) = render X (errs @ m)" for m using Cons.prems(2) by simp
    show ?thesis
    proof (cases "errors_is e (ClientS CErrNotFound)")
      case True
      then show ?thesis using error Cons.IH [OF _ r] rest by (simp add: toldD(1))
    next
      case False
      have "same_out X (exitError e) (exitError e')" using error(3) by (rule same_exitError)
      then show ?thesis using error False Cons.prems(2) by (simp add: toldD(1) [OF error(3)] same_out_def)
    qed
  qed
qed

lemma delete_cmd_refined:
  assumes "okC st" and "deletable c okD args st"
  shows "same_run X (delete_cmd c args st) (delete_cmd c' args st)"
  using connects [OF assms(1)] delete_loop_refined [OF assms(2), of "[]" "[]"] by (simp add: delete_cmd_def)

lemma resolve_loop_refined:
  assumes "\<And>e. e \<in> set es \<Longrightarrow> okG (evName e) st" and "map (render X) msgs' = map (render X) msgs"
  shows "same_resolved X (resolve_loop c st es env msgs) (resolve_loop c' st es env msgs')"
  using assms
proof (induction es arbitrary: env msgs msgs')
  case Nil
  from Nil(2) have "msgs' = [] \<longleftrightarrow> msgs = []" by auto
  with Nil(2) show ?case
    by (simp add: same_resolved_def same_out_def exit_with_def render_join_msgs)
next
  case (Cons e es)
  have IH: "same_resolved X (resolve_loop c st es env msgs) (resolve_loop c' st es env msgs')"
    if "map (render X) msgs' = map (render X) msgs" for env msgs msgs'
    using Cons.IH [OF _ that] Cons.prems(1) by simp
  have "okG (evName e) st" using Cons.prems(1) by simp
  from gets [OF this] show ?case
  proof (cases rule: answers_as_cases)
    case (ok x)
    then show ?thesis using IH [OF Cons.prems(2)] by (simp add: exec_secret_def norm_info_def)
  next
    case (error err err')
    have r: "map (render X) (msgs' @ [m']) = map (render X) (msgs @ [m])" if "render X m' = render X m" for m m'
      using Cons.prems(2) that by simp
    note told = toldD(1) [OF error(3)] same_exitError [OF error(3)] same_errorMessage [OF error(3)]
    consider (locked) "errors_is err (ClientS CErrLocked) \<or> errors_is err (ClientS CErrNotRunning)"
      | (missing) "\<not> errors_is err (ClientS CErrLocked)" "\<not> errors_is err (ClientS CErrNotRunning)"
          "errors_is err (ClientS CErrNotFound)"
      | (other) "\<not> errors_is err (ClientS CErrLocked)" "\<not> errors_is err (ClientS CErrNotRunning)"
          "\<not> errors_is err (ClientS CErrNotFound)" by blast
    then show ?thesis
    proof cases
      case locked
      then show ?thesis using error told by (auto simp: same_resolved_def)
    next
      case missing
      then show ?thesis using error told IH [OF r] by simp
    next
      case other
      then show ?thesis using error told IH [OF r] by simp
    qed
  qed
qed

lemma execCmd_refined:
  assumes "okC st" and "exec_fits okG S env_file flags st"
  shows "same_end X (execCmd c S dry env_file flags argv st) (execCmd c' S dry env_file flags argv st)"
proof (cases "execMapping (xOpen S) env_file flags")
  case (Ok mapping)
  then have "okG (evName e) st" if "e \<in> set mapping" for e using assms(2) that by (simp add: exec_fits_def)
  note fit = this
  have "same_resolved X (resolveEnv c st mapping) (resolveEnv c' st mapping)"
    unfolding resolveEnv_def connects [OF assms(1), THEN conjunct1] connects [OF assms(1), THEN conjunct2] outcome.case
    using resolve_loop_refined [OF fit, of mapping "[]" "[]" "[]"]
    by (simp add: same_resolved_def)
  then show ?thesis
    by (cases "resolveEnv c st mapping") (auto simp: same_resolved_def execCmd_def Ok Let_def same_out_def)
qed (simp_all add: execCmd_def)

end

end
