(* ===== verification/WireHelpers.thy ===== *)
theory WireHelpers
  imports WireCommands DockerHelper
begin

text \<open>
  The credential helpers over the wire. They look at the attributes of what is listed, but only as a map,
  and send attributes back, of which only the map reaches the daemon; so the order in which the wire
  delivers them does not show.
\<close>

section \<open>Attributes as maps\<close>

lemma attr_or_empty_sorted: "gomap_ok m \<Longrightarrow> attr_or_empty (sort_key fst m) k = attr_or_empty m k"
  by (simp add: attr_or_empty_def)

lemma norm_info_eq:
  assumes "dName y = dName x" and "dKind y = dKind x" and "dValue y = dValue x" and "dCreated y = dCreated x"
    and "dUpdated y = dUpdated x" and "gomap_ok (dAttributes x)" and "gomap_ok (dAttributes y)"
    and "map_of (dAttributes y) = map_of (dAttributes x)"
  shows "norm_info y = norm_info x"
  using assms gomap_sort_unique [OF assms(7,6,8)] by (cases x, cases y) (simp add: norm_info_def)

lemma docker_logins_norm:
  assumes "\<forall>x \<in> set xs. gomap_ok (dAttributes x)"
  shows "docker_logins (map norm_info xs) out = docker_logins xs out"
  using assms by (induction xs arbitrary: out) (simp_all add: attr_or_empty_sorted Let_def)

lemma gitScore_norm: "gomap_ok (dAttributes x) \<Longrightarrow> gitScore (norm_info x) req = gitScore x req"
  by (simp add: gitScore_def attr_or_empty_sorted)

lemma git_best_norm:
  assumes "\<forall>x \<in> set xs. gomap_ok (dAttributes x)"
  shows "git_best (map norm_info xs) req (map norm_info best, sc) = apfst (map norm_info) (git_best xs req (best, sc))"
  using assms
proof (induction xs arbitrary: best sc)
  case (Cons x xs)
  have IH: "git_best (map norm_info xs) req (map norm_info best, sc) = apfst (map norm_info) (git_best xs req (best, sc))"
    for best sc using Cons by simp
  show ?case
    using Cons.prems IH [of "[x]"] IH [of "best @ [x]"] IH [of best]
    by (simp add: gitScore_norm split: option.split)
qed simp

lemma git_best_members: "set (fst (git_best xs req (best, sc))) \<subseteq> set xs \<union> set best"
proof (induction xs arbitrary: best sc)
  case (Cons x xs)
  have "set (fst (git_best xs req ([x], sc))) \<subseteq> set (x # xs) \<union> set best"
    "set (fst (git_best xs req (best @ [x], sc))) \<subseteq> set (x # xs) \<union> set best"
    "set (fst (git_best xs req (best, sc))) \<subseteq> set (x # xs) \<union> set best" for sc
    using Cons.IH [of "[x]" sc] Cons.IH [of "best @ [x]" sc] Cons.IH [of best sc] by auto
  then show ?case by (simp split: option.split)
qed simp

lemma same_daemonError [intro]:
  assumes "told X e e'"
  shows "same_out X (daemonError e) (daemonError e')"
proof (cases "errors_as_client e")
  case None
  then show ?thesis
    by (simp add: daemonError_def toldD(1-3,5) [OF assms] same_out_def docker_exitf_def exit_with_def)
next
  case (Some cm)
  obtain m' where "errors_as_client e' = Some (fst cm, m')" "render X m' = render X (snd cm)"
    using toldD(4) [OF assms, of "fst cm" "snd cm"] Some by auto
  then show ?thesis using Some
    by (cases cm)
      (simp add: daemonError_def toldD(1,2,5) [OF assms] same_out_def docker_exitf_def exit_with_def)
qed

section \<open>docker\<close>

text \<open>What a helper asks for: the listing, then one secret of it, or its replacement.\<close>

definition match_fits ::
  "'st client \<Rightarrow> (sfilter \<Rightarrow> 'st \<Rightarrow> bool) \<Rightarrow> (bytes \<Rightarrow> 'st \<Rightarrow> bool) \<Rightarrow> bytes \<Rightarrow> 'st \<Rightarrow> bool" where
  "match_fits c okL okN server st \<longleftrightarrow> okL (docker_filter server) st
     \<and> (case docker_match c st server of Ok s \<Rightarrow> okN (dName s) st | _ \<Rightarrow> True)"

definition docker_sent :: "bytes \<Rightarrow> bytes \<Rightarrow> dsecret \<Rightarrow> dsecret" where
  "docker_sent user secret s = s\<lparr>dAttributes := AList.update ''username'' user (dAttributes s), dValue := Some secret\<rparr>"

definition docker_store_fits ::
  "'st client \<Rightarrow> (sfilter \<Rightarrow> 'st \<Rightarrow> bool) \<Rightarrow> (dsecret \<Rightarrow> 'st \<Rightarrow> bool) \<Rightarrow> bytes \<Rightarrow> 'st \<Rightarrow> bool" where
  "docker_store_fits c okL okS input st \<longleftrightarrow>
     (case readStoreRequest input of
        Ok req \<Rightarrow>
          (case unquote (print_json (the (srSecret req))) of
             Ok secret \<Rightarrow> okL (docker_filter (srServerURL req)) st
               \<and> okS (docker_sent (srUsername req) secret
                   (case docker_match c st (srServerURL req) of Ok s \<Rightarrow> s | _ \<Rightarrow> docker_secret (srServerURL req))) st
           | _ \<Rightarrow> True)
      | _ \<Rightarrow> True)"

text \<open>The same for git.\<close>

definition git_fits_wire ::
  "'st client \<Rightarrow> (sfilter \<Rightarrow> 'st \<Rightarrow> bool) \<Rightarrow> (bytes \<Rightarrow> 'st \<Rightarrow> bool) \<Rightarrow> bytes \<Rightarrow> 'st \<Rightarrow> bool" where
  "git_fits_wire c okL okN input st \<longleftrightarrow>
     (case git_request_or_end input of
        Inl req \<Rightarrow> okL (git_filter req) st \<and> (case gitMatch c st req of Ok s \<Rightarrow> okN (dName s) st | _ \<Rightarrow> True)
      | _ \<Rightarrow> True)"

definition git_store_fits ::
  "'st client \<Rightarrow> (sfilter \<Rightarrow> 'st \<Rightarrow> bool) \<Rightarrow> (dsecret \<Rightarrow> 'st \<Rightarrow> bool) \<Rightarrow> bytes \<Rightarrow> 'st \<Rightarrow> bool" where
  "git_store_fits c okL okS input st \<longleftrightarrow>
     (case git_request_or_end input of
        Inl req \<Rightarrow> okL (git_filter req) st
          \<and> okS ((case gitMatch c st req of Ok s \<Rightarrow> s | _ \<Rightarrow> git_secret req)\<lparr>dValue := gqPassword req\<rparr>) st
      | _ \<Rightarrow> True)"

context refined_client begin

lemma docker_match_refined:
  assumes "okL (docker_filter server) st"
  shows "answers_as X norm_info (docker_match c st server) (docker_match c' st server)"
  using lists [OF assms]
proof (cases rule: answers_as_cases)
  case (ok xs)
  then show ?thesis
    by (cases xs rule: remdups_adj.cases) (simp_all add: docker_match_def answers_as_def told_refl comp_def)
next
  case (error e e')
  then show ?thesis by (simp add: docker_match_def answers_as_def)
qed

lemma docker_match_attrs:
  assumes "okL (docker_filter server) st" and "docker_match c st server = Ok s"
  shows "gomap_ok (dAttributes s)"
proof -
  obtain xs where l: "clList c (docker_filter server) st = Ok xs" using assms(2) by (auto simp: docker_match_def obind_eq_Ok)
  then have "s \<in> set xs" using assms(2)
    by (cases xs rule: remdups_adj.cases) (simp_all add: docker_match_def)
  then show ?thesis using lists_attrs [OF assms(1) l] by blast
qed

lemma docker_get_refined:
  assumes "okC st" and "\<And>server. readServerURL input = Ok server \<Longrightarrow> match_fits c okL okG server st"
  shows "same_out X (docker_get c input st) (docker_get c' input st)"
proof (cases "readServerURL input")
  case server: (Ok server)
  note con = connects [OF assms(1)]
  have fit: "okL (docker_filter server) st" "docker_match c st server = Ok s \<Longrightarrow> okG (dName s) st" for s
    using assms(2) [OF server] by (simp_all add: match_fits_def)
  from docker_match_refined [OF fit(1)] show ?thesis
  proof (cases rule: answers_as_cases)
    case (ok s)
    note a = docker_match_attrs [OF fit(1) ok(1)]
    from gets [OF fit(2) [OF ok(1)]] show ?thesis
      by (cases rule: answers_as_cases)
        (use server con ok a in \<open>auto simp: docker_get_def attr_or_empty_sorted\<close>)
  next
    case (error e e')
    then show ?thesis using server con toldD(1) [OF error(3)] by (auto simp: docker_get_def)
  qed
qed (simp_all add: docker_get_def)

lemma docker_list_refined:
  assumes "okC st" and "okL \<lparr> fKind = docker_kind, fPrefix = [], fAttributes = [] \<rparr> st"
  shows "same_out X (docker_list c st) (docker_list c' st)"
  using lists [OF assms(2)]
proof (cases rule: answers_as_cases)
  case (ok xs)
  then have "\<forall>x \<in> set xs. gomap_ok (dAttributes x)" using lists_attrs [OF assms(2)] by blast
  then show ?thesis using ok connects [OF assms(1)] by (simp add: docker_list_def docker_logins_norm)
next
  case (error e e')
  then show ?thesis using connects [OF assms(1)] toldD(1) [OF error(3)] by (auto simp: docker_list_def)
qed

lemma docker_send_refined:
  assumes "gomap_ok (dAttributes s)" and "okS (docker_sent user secret s) st"
  shows "same_run X (docker_send c user secret s st) (docker_send c' user secret (norm_info s) st)"
proof (cases "dAttributes s = []")
  case False
  have "norm_info (docker_sent user secret (norm_info s)) = norm_info (docker_sent user secret s)"
    using assms(1) by (intro norm_info_eq) (simp_all add: docker_sent_def gomap_ok_update update_conv')
  from stores_order [OF assms(2) this]
  have y: "clStore c (docker_sent user secret (norm_info s)) st = clStore c (docker_sent user secret s) st"
    "okS (docker_sent user secret (norm_info s)) st" by simp_all
  from stores [OF y(2), unfolded y(1)] show ?thesis
    by (cases rule: answers_pair) (use False in \<open>auto simp: docker_send_def docker_sent_def\<close>)
qed (simp add: docker_send_def)

lemma docker_store_refined:
  assumes "okC st" and "docker_store_fits c okL okS input st"
  shows "same_run X (docker_store c input st) (docker_store c' input st)"
proof (cases "readStoreRequest input")
  case req: (Ok req)
  show ?thesis
  proof (cases "unquote (print_json (the (srSecret req)))")
    case secret: (Ok secret)
    note con = connects [OF assms(1)]
    have l: "okL (docker_filter (srServerURL req)) st" and s: "okS (docker_sent (srUsername req) secret
        (case docker_match c st (srServerURL req) of Ok s \<Rightarrow> s | _ \<Rightarrow> docker_secret (srServerURL req))) st"
      using assms(2) by (simp_all add: docker_store_fits_def req secret)
    from docker_match_refined [OF l] show ?thesis
    proof (cases rule: answers_as_cases)
      case (ok x)
      from docker_send_refined [OF docker_match_attrs [OF l ok(1)]] s ok con req secret show ?thesis
        by (simp add: docker_store_def)
    next
      case (error e e')
      have n: "norm_info (docker_secret (srServerURL req)) = docker_secret (srServerURL req)"
        by (simp add: norm_info_def docker_secret_def)
      have "gomap_ok (dAttributes (docker_secret (srServerURL req)))" by (simp add: docker_secret_def gomap_ok_def)
      from docker_send_refined [OF this, unfolded n] s error con req secret toldD(1) [OF error(3)] show ?thesis
        by (auto simp: docker_store_def)
    qed
  qed (simp_all add: docker_store_def req)
qed (simp_all add: docker_store_def)

lemma docker_erase_refined:
  assumes "okC st" and "\<And>server. readServerURL input = Ok server \<Longrightarrow> match_fits c okL okD server st"
  shows "same_run X (docker_erase c input st) (docker_erase c' input st)"
proof (cases "readServerURL input")
  case server: (Ok server)
  note con = connects [OF assms(1)]
  have fit: "okL (docker_filter server) st" "docker_match c st server = Ok s \<Longrightarrow> okD (dName s) st" for s
    using assms(2) [OF server] by (simp_all add: match_fits_def)
  from docker_match_refined [OF fit(1)] show ?thesis
  proof (cases rule: answers_as_cases)
    case (ok s)
    from deletes [OF fit(2) [OF ok(1)]] show ?thesis
    proof (cases rule: answers_pair)
      case (ok u st')
      then show ?thesis using server con \<open>docker_match c st server = Ok s\<close>
          \<open>docker_match c' st server = Ok (norm_info s)\<close> by (simp add: docker_erase_def)
    next
      case (error e e' st')
      then show ?thesis using server con ok toldD(1) [OF error(3)] by (auto simp: docker_erase_def)
    qed
  next
    case (error e e')
    then show ?thesis using server con toldD(1) [OF error(3)] by (auto simp: docker_erase_def)
  qed
qed (simp_all add: docker_erase_def)

text \<open>git\<close>

lemma git_match_refined:
  assumes "okL (git_filter req) st"
  shows "answers_as X norm_info (gitMatch c st req) (gitMatch c' st req)"
  using lists [OF assms]
proof (cases rule: answers_as_cases)
  case (ok xs)
  have "\<forall>x \<in> set xs. gomap_ok (dAttributes x)" using lists_attrs [OF assms ok(1)] by blast
  then have "git_best (map norm_info xs) req ([], None) = apfst (map norm_info) (git_best xs req ([], None))"
    using git_best_norm [of xs req "[]" None] by simp
  then have "answers_as X norm_info (matchGitCredential xs req) (matchGitCredential (map norm_info xs) req)"
    by (cases "fst (git_best xs req ([], None))" rule: remdups_adj.cases)
      (simp_all add: matchGitCredential_def answers_as_def told_refl comp_def)
  then show ?thesis using ok by (simp add: gitMatch_def)
next
  case (error e e')
  then show ?thesis by (simp add: gitMatch_def answers_as_def)
qed

lemma git_match_attrs:
  assumes "okL (git_filter req) st" and "gitMatch c st req = Ok s"
  shows "gomap_ok (dAttributes s)"
proof -
  obtain xs where l: "clList c (git_filter req) st = Ok xs" and m: "matchGitCredential xs req = Ok s"
    using assms(2) by (auto simp: gitMatch_def obind_eq_Ok)
  from m have "s \<in> set (fst (git_best xs req ([], None)))"
    by (cases "fst (git_best xs req ([], None))" rule: remdups_adj.cases) (simp_all add: matchGitCredential_def)
  then have "s \<in> set xs" using git_best_members [of xs req "[]" None] by auto
  then show ?thesis using lists_attrs [OF assms(1) l] by blast
qed

lemma same_gitError [intro]:
  assumes "told X e e'"
  shows "same_out X (gitError e) (gitError e')"
  using same_exitError [OF assms] toldD(2,5) [OF assms]
  by (simp add: gitError_def gitExitf_def same_out_def exit_with_def)

lemma same_gitAmbiguous [intro]:
  assumes "told X e e'"
  shows "same_out X (gitAmbiguous e what) (gitAmbiguous e' what)"
  using same_exitError [OF assms] toldD(2,5) [OF assms]
  by (simp add: gitAmbiguous_def same_out_def exit_with_def)

lemma git_get_refined:
  assumes "okC st" and "git_fits_wire c okL okG input st"
  shows "same_out X (gitCredentialGet c args input st) (gitCredentialGet c' args input st)"
proof (cases "git_request_or_end input")
  case req: (Inl req)
  note con = connects [OF assms(1)]
  have l: "okL (git_filter req) st" and g: "gitMatch c st req = Ok s \<Longrightarrow> okG (dName s) st" for s
    using assms(2) by (simp_all add: git_fits_wire_def req)
  from git_match_refined [OF l] show ?thesis
  proof (cases rule: answers_as_cases)
    case (ok s)
    have a: "git_answer (norm_info s) b = git_answer s b" for b
      using git_match_attrs [OF l ok(1)] by (simp add: git_answer_def)
    from gets [OF g [OF ok(1)]] show ?thesis
      by (cases rule: answers_as_cases)
        (use req con ok a in \<open>auto simp: gitCredentialGet_def Let_def split: option.split\<close>)
  next
    case (error e e')
    then show ?thesis using req con toldD(1) [OF error(3)] by (auto simp: gitCredentialGet_def split: option.split)
  qed
qed (simp add: gitCredentialGet_def split: option.split)

lemma git_store_refined:
  assumes "okC st" and "git_store_fits c okL okS input st"
  shows "same_run X (gitCredentialStore c args input st) (gitCredentialStore c' args input st)"
proof (cases "git_request_or_end input")
  case req: (Inl req)
  note con = connects [OF assms(1)]
  have l: "okL (git_filter req) st"
    and s: "okS ((case gitMatch c st req of Ok s \<Rightarrow> s | _ \<Rightarrow> git_secret req)\<lparr>dValue := gqPassword req\<rparr>) st"
    using assms(2) by (simp_all add: git_store_fits_def req)
  from git_match_refined [OF l] show ?thesis
  proof (cases rule: answers_as_cases)
    case (ok x)
    let ?x = "x\<lparr>dValue := gqPassword req\<rparr>" and ?y = "(norm_info x)\<lparr>dValue := gqPassword req\<rparr>"
    have "norm_info ?y = norm_info ?x" by (simp add: norm_info_def)
    moreover have "okS ?x st" using s ok by simp
    ultimately have y: "clStore c ?y st = clStore c ?x st" "okS ?y st" using stores_order by blast+
    from stores [OF y(2), unfolded y(1)] show ?thesis
      by (cases rule: answers_pair) (use req con ok in \<open>auto simp: gitCredentialStore_def split: option.split\<close>)
  next
    case (error e e')
    then have "okS ((git_secret req)\<lparr>dValue := gqPassword req\<rparr>) st" using s by simp
    from stores [OF this] show ?thesis
      by (cases rule: answers_pair)
        (use req con error toldD(1) [OF error(3)] in \<open>auto simp: gitCredentialStore_def split: option.split\<close>)
  qed
qed (simp add: gitCredentialStore_def split: option.split)

lemma git_erase_refined:
  assumes "okC st" and "git_fits_wire c okL okD input st"
  shows "same_run X (gitCredentialErase c args input st) (gitCredentialErase c' args input st)"
proof (cases "git_request_or_end input")
  case req: (Inl req)
  note con = connects [OF assms(1)]
  have l: "okL (git_filter req) st" and d: "gitMatch c st req = Ok s \<Longrightarrow> okD (dName s) st" for s
    using assms(2) by (simp_all add: git_fits_wire_def req)
  from git_match_refined [OF l] show ?thesis
  proof (cases rule: answers_as_cases)
    case m: (ok s)
    from deletes [OF d [OF m(1)]] show ?thesis
    proof (cases rule: answers_pair)
      case (error e e' st')
      then show ?thesis using req con m toldD(1) [OF error(3)]
        by (auto simp: gitCredentialErase_def split: option.split)
    qed (use req con m in \<open>simp add: gitCredentialErase_def split: option.split\<close>)
  next
    case (error e e')
    then show ?thesis using req con toldD(1) [OF error(3)] by (auto simp: gitCredentialErase_def split: option.split)
  qed
qed (simp add: gitCredentialErase_def split: option.split)

end

end
