(* ===== verification/WireControl.thy ===== *)
theory WireControl
  imports WireCommands
begin

text \<open>
  \<open>status\<close>, \<open>lock\<close> and \<open>unlock\<close> over the wire: one control in the place of another, up to the wording of
  errors, and the control that asks the daemon over its socket in the place of the daemon's own
  operations. A passphrase is asked for as often, since no error of the daemon is one of the passphrase.
\<close>

text \<open>The same result, or an error that is told from no other.\<close>

definition same_res :: "texts \<Rightarrow> 'a res \<Rightarrow> 'a res \<Rightarrow> bool" where
  "same_res X r r' \<longleftrightarrow> (case r of Er e \<Rightarrow> \<exists>e'. r' = Er e' \<and> told X e e' | _ \<Rightarrow> r' = r)"

lemma same_res_refl [simp]: "same_res X r r"
  by (simp add: same_res_def told_refl split: outcome.split)

lemma answers_same: "answers_as X id r r' \<Longrightarrow> same_res X r r'"
  by (simp add: answers_as_def same_res_def split: outcome.splits)

lemma same_wrong: "same_res X r r' \<Longrightarrow> wrong_pass r' = wrong_pass r"
  by (cases r) (auto simp: same_res_def toldD(1))

lemma same_run_refl [simp]: "same_run X a a"
  by simp

text \<open>One control for another.\<close>

locale refined_control =
  fixes X :: texts
    and k :: "'st control"
    and k' :: "'st control"
    and okT :: "'st \<Rightarrow> bool"
    and okK :: "'st \<Rightarrow> bool"
    and okU :: "int option \<Rightarrow> bytes \<Rightarrow> 'st \<Rightarrow> bool"
  assumes statuses: "okT st \<Longrightarrow> ctStatus k' st = ctStatus k st"
    and locks: "okK st \<Longrightarrow> ctLock k' st = ctLock k st"
    and unlocks: "okU dur i st \<Longrightarrow> same_res X (fst (send_identity k dur i st)) (fst (send_identity k' dur i st))
      \<and> snd (send_identity k' dur i st) = snd (send_identity k dur i st)"
    and unlocks_once: "okU dur i st \<Longrightarrow> \<not> wrong_pass (fst (send_identity k dur i st))"

text \<open>Every identity that the files can give fits, and so do the questions for the status.\<close>

definition unlock_fits ::
  "'i age \<Rightarrow> 'i pass_age \<Rightarrow> id_io \<Rightarrow> bytes \<Rightarrow> fs \<Rightarrow> 'st control \<Rightarrow> ('st \<Rightarrow> bool) \<Rightarrow> (int option \<Rightarrow> bytes \<Rightarrow> 'st \<Rightarrow> bool)
    \<Rightarrow> bytes option \<Rightarrow> 'st \<Rightarrow> bool" where
  "unlock_fits A P w dir d k okT okU flag st \<longleftrightarrow> okT st
     \<and> (\<forall>dur. for_flag flag = Ok dur \<longrightarrow>
         (\<forall>f pass i. fst (LoadFile A P w (in_dir dir f) pass d) = Ok i \<longrightarrow>
            okU dur i st \<and> okT (snd (send_identity k dur i st))))"

context refined_control begin

lemma lock_cmd_refined:
  assumes "clConnect c st = Ok ()" and "clConnect c' st = Ok ()" and "okK st"
  shows "lock_cmd c' k' args st = lock_cmd c k args st"
  using assms locks [OF assms(3)] by (simp add: lock_cmd_def split: option.split)

lemma status_cmd_refined:
  assumes "clConnect c st = Ok ()" and "clConnect c' st = Ok ()" and "okT st"
  shows "status_cmd c' k' w cfg now args d st = status_cmd c k w cfg now args d st"
  using assms statuses [OF assms(3)] by (simp add: status_cmd_def daemonStatus_def split: option.split)

lemma store_cmd_control:
  assumes "okT st"
  shows "store_cmd c k' ce args kind flags noOverwrite st = store_cmd c k ce args kind flags noOverwrite st"
proof -
  have "store_check c k' ce name noOverwrite st = store_check c k ce name noOverwrite st" for name
    unfolding store_check_def statuses [OF assms] ..
  then show ?thesis by (simp only: store_cmd_def)
qed

lemma unlock_once_refined:
  assumes "\<And>i. fst (LoadFile A P w path (Some pass) d) = Ok i \<Longrightarrow> okU dur i (akSt a)"
  shows "same_res X (fst (unlock_once A P w k path dur d pass a)) (fst (unlock_once A P w k' path dur d pass a))
    \<and> snd (unlock_once A P w k' path dur d pass a) = snd (unlock_once A P w k path dur d pass a)"
  using assms unlocks by (auto simp: unlock_once_def prod_eq_iff split: outcome.split prod.split)

lemma ask_refined:
  assumes "\<And>pass i. fst (LoadFile A P w path (Some pass) d) = Ok i \<Longrightarrow> okU dur i (akSt a)"
  shows "same_res X (fst (ask_loop m r label (unlock_once A P w k path dur d) a))
      (fst (ask_loop m r label (unlock_once A P w k' path dur d) a))
    \<and> snd (ask_loop m r label (unlock_once A P w k' path dur d) a) = snd (ask_loop m r label (unlock_once A P w k path dur d) a)"
  using assms
proof (induction m arbitrary: a)
  case 0
  show ?case
  proof (cases "r (akPrompt a) label")
    case (Ok pass)
    with unlock_once_refined [of A P w path pass d dur "a\<lparr>akPrompt := akPrompt a + 1\<rparr>"] 0 show ?thesis
      by (simp add: ask_loop.simps [of 0] split: prod.split) (metis fst_conv snd_conv)
  qed (simp_all add: ask_loop.simps [of 0])
next
  case (Suc m)
  show ?case
  proof (cases "r (akPrompt a) label")
    case (Ok pass)
    let ?a = "a\<lparr>akPrompt := Suc (akPrompt a)\<rparr>"
    obtain res a1 where u: "unlock_once A P w k path dur d pass ?a = (res, a1)" by fastforce
    obtain res' a1' where u': "unlock_once A P w k' path dur d pass ?a = (res', a1')" by fastforce
    have s: "same_res X res res'" "a1' = a1"
      using unlock_once_refined [of A P w path pass d dur ?a] Suc.prems u u' by simp_all
    show ?thesis
    proof (cases "wrong_pass res")
      case True
      have "akSt a1 = akSt a"
      proof (cases "fst (LoadFile A P w path (Some pass) d)")
        case (Ok i)
        from unlocks_once [OF Suc.prems [OF this]] u Ok True show ?thesis
          by (auto simp: unlock_once_def split: prod.splits)
      qed (use u in \<open>auto simp: unlock_once_def\<close>)
      then have "\<And>pass i. fst (LoadFile A P w path (Some pass) d) = Ok i \<Longrightarrow>
          okU dur i (akSt (a1\<lparr>akLeft := zeroed pass0 # akLeft a1, akErr := akErr a1 @ try_again\<rparr>))" for pass0
        using Suc.prems by simp
      from Suc.IH [OF this] True Ok s same_wrong [OF s(1)] show ?thesis
        by (simp add: ask_loop.simps [of "Suc m"] u u')
    next
      case False
      then show ?thesis using Ok s same_wrong [OF s(1)] by (simp add: ask_loop.simps [of "Suc m"] u u')
    qed
  qed (simp_all add: ask_loop.simps [of "Suc m"])
qed

lemma ask_Ok_sent:
  assumes "\<And>pass i. fst (LoadFile A P w path (Some pass) d) = Ok i \<Longrightarrow> okU dur i (akSt a)"
    and "ask_loop m r label (unlock_once A P w k path dur d) a = (Ok u, a')"
  shows "\<exists>pass i. fst (LoadFile A P w path (Some pass) d) = Ok i \<and> akSt a' = snd (send_identity k dur i (akSt a))"
proof -
  let ?keep = "\<lambda>s. s = akSt a"
  have entry: "entry_use (unlock_once A P w k path dur d) ?keep"
  proof
    fix pass b res b' assume u: "unlock_once A P w k path dur d pass b = (res, b')"
    show "akSt b' = akSt a" if "wrong_pass res" and "akSt b = akSt a"
    proof (cases "fst (LoadFile A P w path (Some pass) d)")
      case (Ok i)
      from unlocks_once [OF assms(1) [OF this]] u Ok that show ?thesis
        by (auto simp: unlock_once_def split: prod.splits)
    qed (use u that in \<open>auto simp: unlock_once_def\<close>)
    show "wiped_all (akLeft b')" if "wiped_all (akLeft b)"
      using u that by (auto simp: unlock_once_def split: outcome.splits prod.splits)
  qed
  from entry_use.loop_ends [OF entry assms(2) refl] obtain pass b b' where "akSt b = akSt a"
    "unlock_once A P w k path dur d pass b = (Ok u, b')" "akSt a' = akSt b'" by auto
  then show ?thesis by (auto simp: unlock_once_def split: outcome.splits prod.splits) (metis snd_conv)
qed

lemma same_unlockError:
  assumes "told X e e'"
  shows "same_out X (ends_with unlockError (Er e) errs []) (ends_with unlockError (Er e') errs [])"
  using same_exitError [OF assms] toldD(1,2) [OF assms]
  by (simp add: ends_with_def unlockError_def setupError_def same_out_def exit_with_def)

lemma unlock_cmd_refined:
  assumes "clConnect c st = Ok ()" and "clConnect c' st = Ok ()"
    and "unlock_fits A P w dir d k okT okU flag st"
  shows "same_run X (unlock_cmd A P w c k dir r now args flag d st) (unlock_cmd A P w c' k' dir r now args flag d st)"
proof (cases "for_flag flag")
  case dur: (Ok dur)
  show ?thesis
  proof (cases "Detect w dir d")
    case form: (Ok form)
    have t: "ctStatus k' st = ctStatus k st" using assms(3) statuses by (simp add: unlock_fits_def)
    have u: "okU dur i st" and t2: "ctStatus k' (snd (send_identity k dur i st)) = ctStatus k (snd (send_identity k dur i st))"
      if "fst (LoadFile A P w (in_dir dir f) pass d) = Ok i" for f pass i
      using assms(3) that dur statuses by (auto simp: unlock_fits_def)
    let ?plain = "\<lambda>k. case fst (LoadFile A P w (in_dir dir PlainFile) None d) of
        Er e \<Rightarrow> Er (setupError e) | Panic \<Rightarrow> Panic
      | Ok i \<Rightarrow> Ok (case send_identity k dur i st of (res, st') \<Rightarrow> (res, (asks st)\<lparr>akSt := st'\<rparr>))"
    let ?ask = "\<lambda>k. askPassphrase r ''Passphrase: '' (unlock_once A P w k (in_dir dir EncryptedFile) dur d) (asks st)"
    let ?fin = "\<lambda>k g. case g of
        Er out \<Rightarrow> (out, st)
      | Panic \<Rightarrow> (panic_exit, st)
      | Ok (res, a) \<Rightarrow>
          (case res of
             Er e \<Rightarrow> (ends_with unlockError res (akErr a) [], akSt a)
           | Panic \<Rightarrow> (panic_exit, akSt a)
           | Ok _ \<Rightarrow>
               (case ctStatus k (akSt a) of
                  Er e \<Rightarrow> (ends_with exitError (Er e) (akErr a) [], akSt a)
                | Panic \<Rightarrow> (panic_exit, akSt a)
                | Ok s1 \<Rightarrow> (ends_with exitError res (akErr a) (with_LF (lockState s1 now)), akSt a)))"
    let ?get = "\<lambda>k. if form = FormPlain then ?plain k else Ok (?ask k)"
    have "(\<exists>out. ?get k = Er out \<and> ?get k' = Er out) \<or> ?get k = Panic \<and> ?get k' = Panic
      \<or> (\<exists>res res' a. ?get k = Ok (res, a) \<and> ?get k' = Ok (res', a) \<and> same_res X res res'
            \<and> (\<forall>x. res = Ok x \<longrightarrow> ctStatus k' (akSt a) = ctStatus k (akSt a)))"
    proof (cases "form = FormPlain")
      case True
      show ?thesis
      proof (cases "fst (LoadFile A P w (in_dir dir PlainFile) None d)")
        case (Ok i)
        from unlocks [OF u [OF Ok]] t2 [OF Ok] True Ok show ?thesis
          by (simp split: prod.split) (metis fst_conv snd_conv)
      qed (simp_all add: True)
    next
      case False
      have okU: "okU dur i (akSt (asks st))" if "fst (LoadFile A P w (in_dir dir EncryptedFile) (Some pass) d) = Ok i" for pass i
        using u [OF that] by (simp add: asks_def)
      obtain res a where a: "?ask k = (res, a)" by fastforce
      obtain res' a' where a': "?ask k' = (res', a')" by fastforce
      have s: "same_res X res res' \<and> a' = a"
        using ask_refined [of A P w "in_dir dir EncryptedFile" d dur "asks st" "passphraseAttempts - 1" r "''Passphrase: ''", OF okU]
          a a' by (simp add: askPassphrase_def)
      have "ctStatus k' (akSt a) = ctStatus k (akSt a)" if "res = Ok x" for x
      proof -
        have "\<exists>pass i. fst (LoadFile A P w (in_dir dir EncryptedFile) (Some pass) d) = Ok i
            \<and> akSt a = snd (send_identity k dur i (akSt (asks st)))"
          by (rule ask_Ok_sent [where u = x]) (erule okU, use a that in \<open>simp add: askPassphrase_def\<close>)
        then show ?thesis using t2 by (auto simp: asks_def)
      qed
      with s a a' False show ?thesis by auto
    qed
    then have F: "same_run X (?fin k (?get k)) (?fin k' (?get k'))"
    proof (elim disjE exE conjE)
      fix res res' a
      assume g: "?get k = Ok (res, a)" "?get k' = Ok (res', a)" and s: "same_res X res res'"
        and end_state: "\<forall>x. res = Ok x \<longrightarrow> ctStatus k' (akSt a) = ctStatus k (akSt a)"
      show ?thesis
      proof (cases res)
        case (Er e)
        with s obtain e' where "res' = Er e'" "told X e e'" by (auto simp: same_res_def)
        with Er same_unlockError [of e e' "akErr a"] show ?thesis unfolding g by simp
      next
        case (Ok x)
        with s have "res' = Ok x" by (simp add: same_res_def)
        with Ok end_state show ?thesis unfolding g by simp
      next
        case Panic
        with s have "res' = Panic" by (simp add: same_res_def)
        with Panic show ?thesis unfolding g by simp
      qed
    qed (simp_all only: outcome.case, simp_all)
    have run: "unlock_cmd A P w cc kk dir r now args flag d st =
      (case noArgs ''unlock'' args of Some out \<Rightarrow> (out, st) | None \<Rightarrow>
       if form = FormNone then (exit_with (lit (''keycell: no identity, run '' @ quoted ''keycell init'')) 1, st)
       else case ctStatus kk st of Er e \<Rightarrow> (exitError e, st) | Panic \<Rightarrow> (panic_exit, st) | Ok s0 \<Rightarrow>
       if \<not> csLocked s0 then (success (with_LF (''already '' @ lockState s0 now)), st) else ?fin kk (?get kk))"
      if "clConnect cc st = Ok ()" for cc :: "'st client" and kk
      unfolding unlock_cmd_def dur form that outcome.case ..
    show ?thesis
      unfolding run [OF assms(1)] run [OF assms(2)] t
      by (cases "noArgs ''unlock'' args"; cases "form = FormNone"; cases "ctStatus k st")
        (use F in \<open>auto simp del: same_run_def simp: same_run_refl\<close>)
  qed (use assms(1,2) dur in \<open>simp_all add: unlock_cmd_def split: option.split\<close>)
qed (simp_all add: unlock_cmd_def split: option.split)

end

section \<open>The control over the wire\<close>

definition unlock_line :: "nat \<Rightarrow> bytes \<Rightarrow> int option \<Rightarrow> bytes" where
  "unlock_line n x secs = message_line n MethodUnlock (enc_unlock_params \<lparr> upIdentity = Some x, upFor = secs \<rparr>)"

definition wire_control ::
  "'i age \<Rightarrow> texts \<Rightarrow> config \<Rightarrow> wire \<Rightarrow> bytes \<Rightarrow> nat \<Rightarrow> ('i session \<times> fs) control" where
  "wire_control A X cf z socket n =
     \<lparr> ctStatus = (\<lambda>st. client_Status socket (linked A X cf z st) n),
       ctUnlock = (\<lambda>x st. (fst (client_Unlock socket (linked A X cf z st) n x),
         wire_after A X cf z st (unlock_line n x None))),
       ctUnlockFor = (\<lambda>x d st. (fst (client_UnlockFor socket (linked A X cf z st) n x d),
         wire_after A X cf z st (unlock_line n x (Some (whole_seconds d))))),
       ctLock = (\<lambda>st. (client_Lock socket (linked A X cf z st) n,
         wire_after A X cf z st (message_line n MethodLock enc_empty))) \<rparr>"

definition lock_ok :: "'i age \<Rightarrow> texts \<Rightarrow> config \<Rightarrow> wire \<Rightarrow> nat \<Rightarrow> 'i session \<times> fs \<Rightarrow> bool" where
  "lock_ok A X cf z n st \<longleftrightarrow> sends A X cf z n MethodLock enc_empty st"

definition unlock_ok :: "'i age \<Rightarrow> texts \<Rightarrow> config \<Rightarrow> wire \<Rightarrow> nat \<Rightarrow> int option \<Rightarrow> bytes \<Rightarrow> 'i session \<times> fs \<Rightarrow> bool" where
  "unlock_ok A X cf z n dur x st \<longleftrightarrow> (\<forall>m. dur = Some m \<longrightarrow> int64_range m)
     \<and> sends A X cf z n MethodUnlock
         (enc_unlock_params \<lparr> upIdentity = Some x, upFor = map_option whole_seconds dur \<rparr>) st"

lemma over_wire_unit: "over_wire X meth (\<lambda>_. ()) r = over_wire X meth id (obind r (\<lambda>_. Ok ()))"
  by (cases r) simp_all

lemma survives_obind: "survives (obind r (\<lambda>x. Ok (f x))) st = survives r st"
  by (cases r) simp_all

lemma send_daemon: "send_identity (daemon_control A v cf) dur x = daemon_unlock A v cf x (map_option whole_seconds dur)"
  by (cases dur) (simp_all add: send_identity_def daemon_control_def fun_eq_iff)

lemma send_wire:
  "send_identity (wire_control A X cf z socket n) dur x st =
     (fst (client_unlock socket (linked A X cf z st) n x (map_option whole_seconds dur)),
      wire_after A X cf z st (unlock_line n x (map_option whole_seconds dur)))"
  by (cases dur) (simp_all add: send_identity_def wire_control_def client_Unlock_def client_UnlockFor_def)

lemma daemon_unlock_not_wrong: "\<not> wrong_pass (fst (daemon_unlock A v cf x secs st))"
proof -
  obtain r st' where "server_call A v cf (unlock_request x secs) st = (r, st')" by (metis prod.collapse)
  then show ?thesis
    by (cases r) (auto simp: daemon_unlock_def client_error_def closed_early_def split: prod.split)
qed

interpretation wired_control: refined_control X "daemon_control A (wrIo z 0) cf" "wire_control A X cf z socket n"
    "status_ok A X cf z n" "lock_ok A X cf z n" "unlock_ok A X cf z n"
  for A X cf z socket n
proof
  fix st :: "'a session \<times> fs" and dur :: "int option" and x :: bytes
  obtain s d where st: "st = (s, d)" by (cases st)
  show "ctStatus (wire_control A X cf z socket n) st = ctStatus (daemon_control A (wrIo z 0) cf) st"
    if "status_ok A X cf z n st"
    using that wire_status [of A X z cf n s d socket]
    by (simp add: st status_ok_def sends_def wire_control_def)
  show "ctLock (wire_control A X cf z socket n) st = ctLock (daemon_control A (wrIo z 0) cf) st"
    if "lock_ok A X cf z n st"
    using that wire_lock [of A X z cf n s d socket]
    by (simp add: st lock_ok_def sends_def wire_control_def daemon_control_def)
  show "same_res X (fst (send_identity (daemon_control A (wrIo z 0) cf) dur x st))
      (fst (send_identity (wire_control A X cf z socket n) dur x st))
    \<and> snd (send_identity (wire_control A X cf z socket n) dur x st)
      = snd (send_identity (daemon_control A (wrIo z 0) cf) dur x st)" if "unlock_ok A X cf z n dur x st"
  proof -
    let ?secs = "map_option whole_seconds dur"
    obtain r s' where c: "call_unlock A (wrIo z 0) cf (unlock_request x ?secs) s d = (r, s')" by fastforce
    have secs: "\<forall>m. ?secs = Some m \<longrightarrow> int64_range m"
      using that whole_seconds_range by (auto simp: unlock_ok_def)
    have du: "daemon_unlock A (wrIo z 0) cf x ?secs st = (client_res MethodUnlock (obind r (\<lambda>_. Ok ())), survives r (s', d))"
      using c by (simp add: daemon_unlock_def server_call_def unlock_request_def method_defs st)
    from that wire_unlock [OF _ _ secs c, of X n socket] show ?thesis
      unfolding send_daemon send_wire du
      by (simp add: st unlock_ok_def sends_def unlock_line_def over_wire_unit answers_same answers_wire)
  qed
  show "\<not> wrong_pass (fst (send_identity (daemon_control A (wrIo z 0) cf) dur x st))"
    unfolding send_daemon by (rule daemon_unlock_not_wrong)
qed

end
