(* ===== verification/DockerMain.thy ===== *)
theory DockerMain
  imports DockerHelper Process
begin

text \<open>
  The program docker-credential-keycell around its commands (main.go): the process is hardened, and each
  command finds the daemon through the configuration, like the command line but without flags.
\<close>

text \<open>What the program runs in. \<open>hwDaemon\<close> is the client library on a socket.\<close>

record 'st helper =
  hwEnv :: "bytes \<Rightarrow> bytes"
  hwFiles :: "bytes \<Rightarrow> file_read"
  hwStdin :: bytes
  hwDaemon :: "bytes \<Rightarrow> 'st client"

text \<open>\<open>connect\<close>: the client of the commands, whose first call loads the configuration.\<close>

definition docker_connect :: "'st helper \<Rightarrow> 'st client" where
  "docker_connect h =
     (case config_Load [] (hwEnv h) no_layer (hwFiles h) of
        Ok cfg \<Rightarrow> hwDaemon h (stSocket cfg)
      | Er e \<Rightarrow> (hwDaemon h [])\<lparr>clConnect := (\<lambda>_. Er e)\<rparr>
      | Panic \<Rightarrow> (hwDaemon h [])\<lparr>clConnect := (\<lambda>_. Panic)\<rparr>)"

definition hardening_of :: "goerr option \<Rightarrow> hardening" where
  "hardening_of r =
     (case r of
        None \<Rightarrow> Hardened
      | Some e \<Rightarrow> if errors_is e DebugDumpableS then HardenSkipped (err_msg e) else HardenFailed (err_msg e))"

definition docker_main ::
  "harden_io \<Rightarrow> 'st helper \<Rightarrow> bytes list \<Rightarrow> process \<Rightarrow> 'st \<Rightarrow> (cmd_out \<times> 'st) \<times> process" where
  "docker_main w h args p st =
     (case Harden w (hwEnv h) p of
        (e, p') \<Rightarrow> (docker_run (docker_connect h) (hardening_of e) args (hwStdin h) st, p'))"

lemma docker_connect_Ok:
  "config_Load [] (hwEnv h) no_layer (hwFiles h) = Ok cfg \<Longrightarrow> docker_connect h = hwDaemon h (stSocket cfg)"
  by (simp add: docker_connect_def)

text \<open>The command line, called without flags, talks to the same daemon.\<close>

lemma docker_same_daemon:
  assumes "loadConfig (hwEnv h) (hwFiles h) [] None = Ok cfg"
  shows "docker_connect h = hwDaemon h (stSocket cfg)"
proof -
  have "no_layer\<lparr>lySocket := None\<rparr> = no_layer" by (simp add: no_layer_def)
  then have "config_Load [] (hwEnv h) no_layer (hwFiles h) = Ok cfg"
    using assms by (simp add: loadConfig_def split: outcome.splits)
  then show ?thesis by (rule docker_connect_Ok)
qed

text \<open>Without a configuration, \<open>get\<close> says why; nothing is asked of a daemon.\<close>

lemma docker_no_config:
  assumes "config_Load [] (hwEnv h) no_layer (hwFiles h) = Er e" and "readServerURL input = Ok server"
  shows "docker_get (docker_connect h) input st = daemonError e"
  using assms by (simp add: docker_get_def docker_connect_def)

section \<open>Exit codes\<close>

lemma docker_failure_codes [simp]:
  "outCode (docker_exitf m) = 1" "outCode (daemonError e) = 1" "outCode panic_out = 2"
  by (simp_all add: docker_exitf_def daemonError_def panic_out_def exit_with_def split: option.split)

lemma docker_send_code:
  "outCode (fst (docker_send c user secret s st)) = 0 \<Longrightarrow> fst (docker_send c user secret s st) = success []"
  by (auto simp: docker_send_def split: if_splits prod.splits outcome.splits)

lemma docker_store_code:
  assumes "docker_store c input st = (out, st')" and "outCode out = 0"
  shows "out = success [] \<and> (\<exists>req secret. readStoreRequest input = Ok req
    \<and> unquote (print_json (the (srSecret req))) = Ok secret)"
proof (cases "readStoreRequest input")
  case req: (Ok req)
  show ?thesis
  proof (cases "unquote (print_json (the (srSecret req)))")
    case (Ok secret)
    have "out = success []"
      using assms docker_send_code [of c "srUsername req" secret _ st]
      by (auto simp: docker_store_def req Ok split: outcome.splits if_splits) (metis fst_conv)+
    then show ?thesis using req Ok by blast
  qed (use assms req in \<open>auto simp: docker_store_def\<close>)
qed (use assms in \<open>auto simp: docker_store_def\<close>)

lemma docker_main_code:
  assumes "docker_main w h args p st = ((out, st'), p')" and "outCode out = 0"
  obtains out' where "docker_command (docker_connect h) args (hwStdin h) st = (out', st')"
    and "outText out' = outText out" and "outCode out' = 0"
proof -
  obtain e where "Harden w (hwEnv h) p = (e, p')" and r: "docker_run (docker_connect h) (hardening_of e) args (hwStdin h) st = (out, st')"
    using assms(1) by (auto simp: docker_main_def split: prod.splits)
  obtain out' st2 where c: "docker_command (docker_connect h) args (hwStdin h) st = (out', st2)" by fastforce
  have "hardening_of e \<noteq> HardenFailed m" for m
    using r assms(2) by (auto simp: docker_run_def)
  then have "st2 = st' \<and> outText out' = outText out \<and> outCode out' = 0"
    using r assms(2) c by (cases "hardening_of e") (auto simp: docker_run_def)
  with c that show thesis by simp
qed

text \<open>Hardening that was skipped on request only adds a warning.\<close>

definition hardens :: "harden_io \<Rightarrow> (bytes \<Rightarrow> bytes) \<Rightarrow> process \<Rightarrow> bool" where
  "hardens w env p \<longleftrightarrow> (case fst (Harden w env p) of None \<Rightarrow> True | Some e \<Rightarrow> errors_is e DebugDumpableS)"

lemma docker_main_runs:
  assumes "hardens w (hwEnv h) p" and "docker_command (docker_connect h) args (hwStdin h) st = (out, st')"
  obtains out' where "fst (docker_main w h args p st) = (out', st')"
    and "outText out' = outText out" and "outCode out' = outCode out"
proof -
  obtain e p' where e: "Harden w (hwEnv h) p = (e, p')" by fastforce
  then have "hardening_of e \<noteq> HardenFailed m" for m
    using assms(1) by (auto simp: hardens_def hardening_of_def split: option.splits)
  then have "\<exists>out'. fst (docker_main w h args p st) = (out', st') \<and> outText out' = outText out \<and> outCode out' = outCode out"
    using assms(2) by (cases "hardening_of e") (auto simp: docker_main_def e docker_run_def)
  with that show thesis by blast
qed

text \<open>A run of \<open>store\<close> and then one of \<open>get\<close>.\<close>

context secret_client begin

lemma docker_main_store_get:
  assumes "live st" and "docker_connect h = c" and "docker_connect h' = c"
    and "docker_main w h [prog, ''store''] p st = ((out, st'), p')" and "outCode out = 0"
    and "clConnect c st' = Ok ()" and "hardens w' (hwEnv h') q"
  shows "\<exists>req secret. readStoreRequest (hwStdin h) = Ok req \<and> unquote (print_json (the (srSecret req))) = Ok secret
    \<and> (readServerURL (hwStdin h') = Ok (srServerURL req) \<longrightarrow>
        (\<exists>out'. fst (docker_main w' h' [prog', ''get''] q st') = (out', st') \<and> outCode out' = 0
          \<and> outText out' = writeCredential (srServerURL req) (srUsername req) secret))"
proof -
  obtain out1 where c: "docker_command (docker_connect h) [prog, ''store''] (hwStdin h) st = (out1, st')"
    and "outCode out1 = 0" using docker_main_code [OF assms(4,5)] .
  then have s: "docker_store c (hwStdin h) st = (out1, st')" by (simp add: docker_command_def assms(2))
  from docker_store_code [OF s \<open>outCode out1 = 0\<close>] obtain req secret
    where o: "out1 = success []" and r: "readStoreRequest (hwStdin h) = Ok req"
      "unquote (print_json (the (srSecret req))) = Ok secret" by blast
  have "\<exists>out'. fst (docker_main w' h' [prog', ''get''] q st') = (out', st') \<and> outCode out' = 0
      \<and> outText out' = writeCredential (srServerURL req) (srUsername req) secret"
    if u: "readServerURL (hwStdin h') = Ok (srServerURL req)"
  proof -
    from docker_store_then_get [OF assms(1) r s [unfolded o] assms(6) u]
    have "docker_command (docker_connect h') [prog', ''get''] (hwStdin h') st'
        = (success (writeCredential (srServerURL req) (srUsername req) secret), st')"
      by (simp add: docker_command_def assms(3))
    from docker_main_runs [OF assms(7) this] show ?thesis by (metis cmd_out.select_convs(1,3) success_def)
  qed
  with r show ?thesis by blast
qed

end

end
