(* ===== verification/CommandSamples.thy ===== *)
theory CommandSamples
  imports ProcessSamples Commands Writing WireHelpers WireControl DockerMain
begin

text \<open>
  A run of the command line beside the daemon of \<open>Samples\<close>: concrete values for the theorems on
  \<open>Commands\<close>.
\<close>

definition sample_world :: "(bool, bool session \<times> fs) program_world" where
  "sample_world = \<lparr> pwAge = tag_age, pwPass = tag_pass,
     pwClient = (\<lambda>_. daemon_client tag_age calm_io some_path), pwControl = (\<lambda>_. no_control),
     pwCmd = sample_ce, pwInput = [], pwRead = answers, pwNow = zero_time, pwIo = calm_id,
     pwExec = \<lparr> xOpen = (\<lambda>_. Er no_such_file), xLookPath = Ok, xExec = (\<lambda>_ _ _. None), xEnviron = [] \<rparr>,
     pwFs = snd, pwPutFs = (\<lambda>d st. (fst st, d)), pwHelp = (\<lambda>_. success []), pwTrim = id,
     pwEnv = some_env, pwFiles = no_files \<rparr>"

lemma sample_world_config: "map_of g ''config'' = None \<Longrightarrow> map_of g ''socket'' = None \<Longrightarrow>
    given_config sample_world g = Ok some_settings"
  using sample_config by (simp add: given_config_def given_text_def sample_world_def loadConfig_def no_layer_def)

lemma sample_run_store:
  obtains st' where "run_invocation sample_world \<lparr> ivGiven = [(''kind'', [''token''])], ivWords = [''store'', ''k''] \<rparr>
      (open_session, vault_fs New_vault) = (Exited (success []) [], st')"
proof -
  obtain st' where "store_cmd (daemon_client tag_age calm_io some_path) no_control sample_ce [''k''] ''token'' []
      False (open_session, vault_fs New_vault) = (success [], st')" by (rule sample_store_cmd)
  then show thesis
    by (intro that) (simp add: run_store [OF sample_world_config] given_text_def given_all_def with_daemon_def,
        simp add: sample_world_def)
qed

text \<open>Requests to that daemon that fit into a line, and whose answers do.\<close>

lemma fits_answer:
  assumes "dispatch A X w cf q sd = (Some \<lparr> rsId = Some (request_no n), rsResult = Some j, rsError = None \<rparr>, sd')"
    and "length (print_json (enc_request q)) \<le> MaxLineLen" and "doc_ok j"
    and "length (print_json (request_no n)) + length (print_json j) \<le> 1000"
  shows "fits A X w cf q sd"
  using assms request_no_ok(1) [of n] obj_len [of "fld ''id'' (request_no n) @ fld ''result'' j"]
  by (simp add: fits_def response_ok_def enc_response_def raw_or_null_def fld_def MaxLineLen_eq)

lemma empty_len: "length (print_json enc_empty) = 2" and empty_doc_ok: "doc_ok enc_empty"
  by (simp_all add: enc_empty_def print_json_len doc_ok_def MaxDepth_def)

lemma sample_status_ok: "status_ok tag_age some_texts some_config some_wire 1 (open_session, d)"
proof -
  let ?j = "JObj [(''protocol'', JNum (print_int 1)), (''locked'', JBool False)]"
  have s: "daemon_status open_session = \<lparr> csProtocol = ProtoVersion, csLocked = False, csLocksAt = None \<rparr>"
    by (simp add: daemon_status_def Status_def open_session_def NewSession_def)
  then have r: "call_status open_session = Ok (RStatus 1 False None)" by (simp add: daemon_status_of ProtoVersion_def)
  have j: "enc_result (RStatus 1 False None) = Some ?j" by (simp add: fld_def fld_if_def enc_int_def)
  have d: "dispatch tag_age some_texts calm_io some_config (wire_request 1 MethodStatus enc_empty) (open_session, d)
      = (Some \<lparr> rsId = Some (request_no 1), rsResult = Some ?j, rsError = None \<rparr>, open_session, d)"
    using j by (simp add: dispatch_def server_call_def wire_request_def r NewResult_def)
  have one: "print_int 1 = ''1''" by code_simp
  have "fits tag_age some_texts calm_io some_config (wire_request 1 MethodStatus enc_empty) (open_session, d)"
    by (rule fits_answer [OF d]) (simp_all add: one valid_num_print [of 1, unfolded one] num_char_def is_digit_def print_json_len enc_request_def wire_request_def raw_or_null_def
        fld_def MaxLineLen_eq enc_empty_def doc_ok_def MaxDepth_def method_defs request_no_def enc_plain_def quote_lit.simps esc_ascii_def)
  then show ?thesis by (simp add: status_ok_def sends_def s)
qed

definition sample_secret :: dsecret where
  "sample_secret = \<lparr> dName = ''k'', dKind = ''token'', dAttributes = [], dValue = Some ''pw'',
     dCreated = zero_time, dUpdated = zero_time \<rparr>"

lemma sample_store_ok: "store_ok tag_age some_texts some_config some_wire 1 sample_secret (open_session, vault_fs New_vault)"
proof -
  let ?p = "\<lparr> spName = ''k'', spKind = ''token'', spAttributes = [], spValue = Some ''pw'' \<rparr>"
  let ?q = "wire_request 1 MethodStore (store_params_of sample_secret)"
  obtain d' where d': "Store_secret tag_age calm_io some_path open_session ''k'' ''token'' [] (Some ''pw'')
      (vault_fs New_vault) = (Ok (), d')" by (rule sample_store)
  have p: "store_params_of sample_secret = enc_store_params ?p" by (simp add: store_params_of_def sample_secret_def)
  have u: "utf8_valid ''k''" "utf8_valid ''token''" using text_ok_k slug_valid [OF slug_token] by (simp_all add: text_ok_def)
  then have "Bind ?q store_fields zero_store = Ok (?p\<lparr>spAttributes := sort_key fst (spAttributes ?p)\<rparr>)"
    by (intro Bind_store) (simp_all add: wire_request_def p)
  then have c: "server_call tag_age calm_io some_config ?q (open_session, vault_fs New_vault) = (Ok REmpty, open_session, d')"
    by (simp add: server_call_def wire_request_def method_defs call_store_def d' empty_result_def)
  then have d: "dispatch tag_age some_texts calm_io some_config ?q (open_session, vault_fs New_vault)
      = (Some \<lparr> rsId = Some (request_no 1), rsResult = Some enc_empty, rsError = None \<rparr>, open_session, d')"
    by (simp add: dispatch_def c) (simp add: NewResult_def wire_request_def)
  have "fits tag_age some_texts calm_io some_config ?q (open_session, vault_fs New_vault)"
  proof (rule fits_answer [OF d])
    have "secret_ok ''k'' ''token'' [] (val_bytes (Some ''pw''))" by (simp add: val_bytes_def)
    from request_fits [OF this request_no_len, of 1] show "length (print_json (enc_request ?q)) \<le> MaxLineLen"
      by (simp add: wire_request_def p)
  qed (use request_no_len [of 1] in \<open>simp_all add: empty_len empty_doc_ok\<close>)
  then show ?thesis using u by (simp add: store_ok_def sends_def sample_secret_def attrs_ok_def gomap_ok_def)
qed

lemma sample_store_checked:
  "store_check c k sample_ce ''k'' False st = None"
  "store_value sample_ce ''k'' = Ok ''pw''"
  by (simp_all add: store_check_def store_value_def sample_ce_def)

text \<open>The docker helper asks for a server in the empty vault.\<close>

lemma sample_docker_match:
  "clList (daemon_client tag_age calm_io some_path) (docker_filter ''h'') (open_session, vault_fs New_vault) = Ok []"
proof -
  let ?c = "daemon_client tag_age calm_io some_path" and ?st = "(open_session, vault_fs New_vault)"
  have "text_ok ''h''" by (rule text_ok_graphic; simp add: graphic_def)
  from daemon.list_live [OF sample_live(1) plain_docker_filter [OF this]] obtain xs
    where xs: "clList ?c (docker_filter ''h'') ?st = Ok xs"
    and l: "lists (daemon_table tag_age some_path ?st) (docker_filter ''h'') xs" by blast
  from listsD(2) [OF l] have "xs = []" by (cases xs) (auto simp: sample_live(2))
  with xs show ?thesis by simp
qed

lemma sample_list_ok: "list_ok tag_age some_texts some_config some_wire 1 (docker_filter ''h'') (open_session, vault_fs New_vault)"
proof -
  let ?q = "wire_request 1 MethodList (list_params_of (docker_filter ''h''))"
  let ?p = "\<lparr> lpKind = docker_kind, lpPrefix = [], lpAttributes = [(''server'', ''h'')] \<rparr>"
  have s: "isSlug docker_kind" "isSlug ''server''" by code_simp+
  have t: "text_ok ''h''" by (rule text_ok_graphic; simp add: graphic_def)
  have "fst (List tag_age calm_io some_path open_session (docker_filter ''h'') (vault_fs New_vault)) = Ok []"
    using sample_docker_match
    by (cases "fst (List tag_age calm_io some_path open_session (docker_filter ''h'') (vault_fs New_vault))")
      (simp_all add: daemon_client_def)
  moreover have "Bind ?q list_fields zero_list = Ok (?p\<lparr>lpAttributes := sort_key fst (lpAttributes ?p)\<rparr>)"
    using slug_valid s t
    by (intro Bind_list) (simp_all add: wire_request_def list_params_of_def docker_filter_def gomap_ok_def text_ok_def)
  ultimately have "server_call tag_age calm_io some_config ?q (open_session, vault_fs New_vault)
      = (Ok (RList []), open_session, vault_fs New_vault)"
    by (simp add: server_call_def wire_request_def method_defs call_list_def docker_filter_def)
  then have d: "dispatch tag_age some_texts calm_io some_config ?q (open_session, vault_fs New_vault)
      = (Some \<lparr> rsId = Some (request_no 1), rsResult = Some (JArr []), rsError = None \<rparr>, open_session, vault_fs New_vault)"
    by (simp add: dispatch_def) (simp add: NewResult_def wire_request_def)
  have "fits tag_age some_texts calm_io some_config ?q (open_session, vault_fs New_vault)"
  proof (rule fits_answer [OF d])
    have "length (print_json (enc_strmap [(''server'', ''h'')])) \<le> 100"
      using obj_len [of "[(quote_lit True ''server'', enc_string ''h'')]"] quote_lit_len [of True "''server''"]
        scalar_len(1) [of "''h''"] by (simp add: enc_strmap_def enc_map_def)
    then have "length (print_json (enc_list_params ?p)) \<le> 500"
      using obj_len [of "fld ''kind'' (enc_string docker_kind) @ fld ''attributes'' (enc_strmap [(''server'', ''h'')])"]
        scalar_len(1) [of docker_kind] by (simp add: enc_list_params_def fld_def fld_if_def docker_kind_def)
    then show "length (print_json (enc_request ?q)) \<le> MaxLineLen"
      using obj_len [of "fld ''id'' (request_no 1) @ fld ''method'' (enc_plain MethodList)
          @ fld ''params'' (enc_list_params ?p)"] scalar_len(2) [of MethodList] request_no_len [of 1]
      by (simp add: enc_request_def wire_request_def raw_or_null_def list_params_of_def docker_filter_def fld_def
          MaxLineLen_eq method_defs)
    show "doc_ok (JArr [])" by (simp add: doc_ok_def MaxDepth_def)
    show "length (print_json (request_no 1)) + length (print_json (JArr [])) \<le> 1000"
      using request_no_len [of 1] by (simp add: print_json_len)
  qed
  then show ?thesis using s t
    by (simp add: list_ok_def sends_def docker_filter_def attrs_ok_def gomap_ok_def slug_valid)
qed

text \<open>A run of the docker helper with this standard input.\<close>

definition sample_helper :: "bytes \<Rightarrow> (bool session \<times> fs) helper" where
  "sample_helper input = \<lparr> hwEnv = some_env, hwFiles = no_files, hwStdin = input,
     hwDaemon = (\<lambda>_. daemon_client tag_age calm_io some_path) \<rparr>"

definition no_hindrance :: harden_io where
  "no_hindrance = \<lparr> hdPrctl = None, hdGetrlimit = None, hdSetrlimit = None \<rparr>"

definition some_process :: process where
  "some_process = \<lparr> prDumpable = True, prCoreSoft = 8, prCoreHard = 8 \<rparr>"

lemma sample_hardens: "fst (Harden no_hindrance (hwEnv (sample_helper input)) p) = None"
  "hardens no_hindrance (hwEnv (sample_helper input)) p"
  by (simp_all add: hardens_def Harden_def no_hindrance_def sample_helper_def some_env_def DebugEnv_def Let_def)

lemma sample_helper_connects: "docker_connect (sample_helper input) = daemon_client tag_age calm_io some_path"
  using docker_connect_Ok [of "sample_helper input" some_settings] sample_config by (simp add: sample_helper_def)

lemma sample_docker_main:
  obtains st' p' where "docker_main no_hindrance (sample_helper sample_login) [''d'', ''store''] some_process
      (open_session, vault_fs New_vault) = ((success [], st'), p')"
proof -
  obtain st' where s: "docker_store (daemon_client tag_age calm_io some_path) sample_login
      (open_session, vault_fs New_vault) = (success [], st')" by (rule sample_docker_store)
  obtain p' where "Harden no_hindrance (hwEnv (sample_helper sample_login)) some_process = (None, p')"
    using sample_hardens(1) by (metis prod.collapse)
  then have "docker_main no_hindrance (sample_helper sample_login) [''d'', ''store''] some_process
      (open_session, vault_fs New_vault) = ((success [], st'), p')"
    by (simp add: docker_main_def hardening_of_def docker_run_def docker_command_def sample_helper_connects)
      (simp add: sample_helper_def s)
  then show thesis by (rule that)
qed

end
