(* ===== verification/Spec2Isabelle.thy ===== *)
theory Spec2Isabelle
  imports CommandSamples
begin

text \<open>
  A verification library of keycell: a daemon, \<open>keycelld\<close>, that keeps secrets in a file encrypted with
  age, and the programs that ask it for them, \<open>keycell\<close> and \<open>docker-credential-keycell\<close>.

  \<^bold>\<open>The program.\<close> The vault is one file, read and written as a whole (internal/vault), replaced so that a
  reader never sees half of it (internal/atomicfile). The key to it, the identity, lies beside it, in
  plain or under a passphrase (internal/identity). The daemon (internal/daemon) holds the identity
  while it is unlocked (\<open>Session\<close>), works on the vault (\<open>Store\<close>), and answers requests on a socket, one
  JSON document a line (internal/protocol). The client library (pkg/keycell) sends the requests; the
  commands (cmd/) are its users. internal/config says where everything is, internal/tty reads
  passphrases, internal/secmem keeps keys out of swap and core dumps.

  \<^bold>\<open>The theories\<close>, from the general to the particular.

  \<^item> \<open>Prelude\<close>: byte strings, results (\<open>outcome\<close>: a value, an error, a panic), Go maps as association
    lists, splitting and joining. \<open>GoErrors\<close>: error values, wrapping, \<open>errors.Is\<close>, the sentinels of all
    packages and the texts of errors.
  \<^item> The parts of Go's library whose behaviour the module depends on: \<open>GoText\<close> (UTF-8, white space),
    \<open>GoTime\<close> (RFC 3339, \<open>int64\<close> durations), \<open>GoDuration\<close> (\<open>ParseDuration\<close> with its floating point, \<open>Round\<close>),
    \<open>GoPath\<close> (\<open>Clean\<close>, \<open>Join\<close>), \<open>Base64\<close>, and encoding/json in \<open>JsonText\<close>, \<open>Json\<close>, \<open>JsonDecode\<close> and \<open>JsonStream\<close>.
  \<^item> \<open>Validate\<close>, \<open>Vault\<close>, \<open>VaultFile\<close>: internal/vault (validate.go, vault.go, file.go). \<open>Atomicfile\<close>:
    internal/atomicfile, as a function of the outcome of its system calls and, again, one call at a
    time. \<open>Identity\<close>: internal/identity.
  \<^item> \<open>Session\<close>, \<open>Store\<close>, \<open>Server\<close>, \<open>ServeLoop\<close>: internal/daemon. \<open>Server\<close> has the requests one after the
    other on one connection; \<open>ServeLoop\<close> has \<open>Serve\<close> with all its goroutines as a step relation.
  \<^item> \<open>Framing\<close>, \<open>Protocol\<close>, \<open>Writing\<close>: internal/protocol. \<open>Client\<close>: pkg/keycell.
    \<open>WireClient\<close>: the client with the daemon at the other end; \<open>WireCommands\<close>, \<open>WireControl\<close>,
    \<open>WireHelpers\<close>: the commands on that client.
  \<^item> \<open>Credentials\<close>: what the commands share. \<open>GitCredential\<close>, \<open>DockerHelper\<close>, \<open>ExecEnv\<close>, \<open>SecretCommands\<close>,
    \<open>Setup\<close>, \<open>UnlockCommands\<close>: the commands. \<open>Commands\<close>: the table of commands and flags, and a run of
    \<open>keycell\<close> as a whole. \<open>Process\<close>: the main functions, the daemon's flags, systemd's notifications. \<open>DockerMain\<close>: a run
    of docker-credential-keycell as a whole.
  \<^item> \<open>Config\<close>, \<open>Tty\<close>, \<open>Secmem\<close>: the internal packages of these names.
  \<^item> \<open>Samples\<close>, \<open>ProcessSamples\<close>, \<open>CommandSamples\<close>: a small instance of every parameter, on which each
    theorem with a hypothesis is applied.

  \<^bold>\<open>How code became definitions.\<close> A definition has the name of the function, type or constant it models,
  up to a clash with a name of HOL. A struct is a record, its methods take it and return it. A method
  that changes files takes the file system and returns it; all state is passed that way. An error
  return is \<open>Er\<close>, a panic is \<open>Panic\<close> and ends the process, a command ends with its texts and its exit code
  (\<open>cmd_out\<close>). Integers of 64 bits wrap where the code lets them. What a system call does is a field of
  a record that the operation takes, so a theorem about an operation is one about every way its calls
  may fail, unless it says that they succeed (\<open>io_calm\<close>, \<open>id_calm\<close>).

  \<^bold>\<open>Interfaces.\<close> Where a part relies on what another promises, the promise is a locale, the user's lemmas
  are proved in it, and an interpretation proves it for the model of the provider:
  \<open>dictionary\<close> for Go's maps, \<open>codec\<close> for everything that is written and read back, from base64 to
  requests, \<open>file_store\<close> for \<open>Atomicfile\<close>, \<open>guard\<close> for \<open>Session\<close> (nothing is used while it is locked),
  \<open>secret_table\<close> for \<open>Store\<close>, \<open>secret_client\<close> for every command, provided by the daemon (\<open>Credentials\<close>),
  \<open>refined_client\<close> and \<open>refined_control\<close> for a client that stands in for another, provided by the library
  over the wire,
  \<open>entry_use\<close> for what is done with a passphrase that may be asked for again, provided by
  \<open>changePassphrase\<close>, by \<open>passphrase --remove\<close> and by \<open>unlock\<close>.

  \<^bold>\<open>What is shown.\<close> Each statement below that bears a number is a property of the program; the lemmas
  behind it are in the theory of its component.

  \<^item> Files: one call at a time, \<open>atomicfile.Write\<close> computes what it does as a whole, and its path shows the
    old content, the new one, or nothing where a backup is kept. No step of \<open>init\<close> or of changing a
    passphrase loses the identity.
  \<^item> Round trips: vault, encrypted file, messages, \<open>export\<close> and \<open>import\<close>, credentials of git and docker.
  \<^item> The store refines a table from names to secrets; a locked session uses nothing; stale timers do
    nothing; what a failing write leaves is known.
  \<^item> Reading lines: the buffered reader agrees with one that sees the whole stream, in whatever pieces it
    comes, and zeroes what it has consumed; so does the reader of the terminal, which in addition always
    leaves the terminal as it was.
  \<^item> The server: an invariant of every reachable state, for any interleaving of the connections, the
    timers and the context; it cannot run on by itself, and once the context has ended it stops. Two
    requests to unlock at the same time can answer wrongly, and a request that is late can leave an open
    session behind a stopped server.
  \<^item> The wire: every call of the library does to the daemon what the daemon's own operation does and tells
    the same of it, a crash included (\<open>survives\<close>: the session is gone, the files stay); so the commands and
    the helpers, whose theorems are on the daemon's operations, are what runs over the socket. The
    messages have to fit into a line and text has to be UTF-8, without which \<open>encoding/json\<close> replaces it.
  \<^item> The client, the commands and the configuration: a value that was stored is what is read, through
    library, wire, daemon and file; the four layers of the configuration amount to one merged layer;
    settings are clean absolute paths and valid values.

  \<^bold>\<open>Bounds.\<close> No definition runs on fuel: every recursion is structural or has a measure, and the loops that
  a client could keep running are steps of a relation. \<open>serve_work\<close> bounds the steps of the server by
  itself. \<open>askPassphrase\<close> recurses on the attempts left, two after the first. \<open>MaxLineLen\<close>, the 64 KiB of a
  docker request and of a line of an env file, and the depth of 10000 of a JSON document are those of the
  source or of Go. The exponent of floating-point numbers is not bounded, which changes no result of
  \<open>ParseDuration\<close> (see \<open>GoDuration\<close>).

  \<^bold>\<open>Parameters.\<close> age, scrypt and the generation of keys are parameters, with \<open>age_laws\<close> and \<open>pass_laws\<close> for
  what their documentation promises; so are the network, the terminal, the environment, time zones, and
  the texts of errors made elsewhere. urfave/cli is one as far as it splits the arguments into flags and
  words; how it looks up flags and subcommands, applies defaults and splits slices is modelled.

  \<^bold>\<open>Not modelled.\<close> Logging and the help texts; they have no effect on the rest. The mutexes: an operation under a lock is one step, and where \<open>Serve\<close> lets
  go of the lock the step ends. Copies of secrets that encoding/json and the runtime keep are out of
  reach of the program as well; the theorems on zeroing are about the program's own buffers. The
  contexts of client calls appear as the errors they cause.
\<close>


section \<open>Replacing a file\<close>


text \<open>
  C2: what another process, or a crash, can find under the path at any moment of a write: the old file,
  the complete new file, already synced, or, with a backup, no file while the old one is under
  \<open>path.bak\<close>. A part of the new content is never visible there. Every other name, apart from the
  temporary one, keeps its file.
\<close>

theorem write_visible:
  assumes "(astep W path data perm backup)\<^sup>*\<^sup>* (Start, d) (pc, d')"
  shows "(d' path = d path \<or> d' path = Some (new_file data perm)
      \<or> backup \<and> d' path = None \<and> d path \<noteq> None \<and> d' (bak_name path) = d path)
    \<and> (p \<notin> {path, bak_name path, tmp_name path (sysRandom W)} \<longrightarrow> d' p = d p)"
  using step_inv_path [OF step_inv_reachable [OF assms]] asteps_frame [OF assms, of p] by auto

theorem write_visible_witness:
  "\<exists>d'. (astep (ioSys calm_io) some_path ''new'' 384 True)\<^sup>*\<^sup>* (Start, vault_fs some_vault) (Finished (Ok ()), d')
     \<and> (d' some_path = vault_fs some_vault some_path \<or> d' some_path = Some (new_file ''new'' 384)
        \<or> d' some_path = None)"
proof -
  obtain d' where "atomicfile_Write (ioSys calm_io) some_path ''new'' 384 True (vault_fs some_vault) = (Ok (), d')"
    using Write_keeps_backup [of "ioSys calm_io" some_path "''new''" 384 True "vault_fs some_vault"]
    by auto
  then have run: "(astep (ioSys calm_io) some_path ''new'' 384 True)\<^sup>*\<^sup>* (Start, vault_fs some_vault)
      (Finished (Ok ()), d')" by (simp add: asteps_Write)
  from write_visible [OF run] run show ?thesis by blast
qed

text \<open>
  With no call failing a write succeeds: the complete, synced file is under the path, the replaced
  one under \<open>path.bak\<close> if a backup was asked for, and the temporary file is gone.
\<close>

theorem write_succeeds:
  assumes "\<forall>c. sysFault W c = None"
  shows "\<exists>d'. atomicfile_Write W path data perm backup d = (Ok (), d') \<and> d' path = Some (new_file data perm)
    \<and> d' (tmp_name path (sysRandom W)) = None
    \<and> d' (bak_name path) = (if backup \<and> d path \<noteq> None then d path else d (bak_name path))"
  using assms by (rule Write_keeps_backup)

theorem write_succeeds_witness:
  "\<exists>d'. atomicfile_Write (ioSys calm_io) some_path ''new'' 384 True (vault_fs some_vault) = (Ok (), d')
    \<and> d' (bak_name some_path) = vault_fs some_vault some_path"
proof -
  have "\<forall>c. sysFault (ioSys calm_io) c = None" by simp
  from write_succeeds [OF this, where path = some_path and data = "''new''" and perm = 384 and backup = True
      and d = "vault_fs some_vault"] show ?thesis
    by (auto simp: vault_fs_def)
qed

text \<open>
  When creating, chmodding, writing, syncing or closing the temporary file fails, the write fails,
  every other name keeps its file, and the temporary file is removed again.
\<close>

lemma write_fails_early:
  assumes "early_fault W"
  shows "\<exists>e d'. atomicfile_Write W path data perm backup d = (Er e, d')
    \<and> (\<forall>p. p \<noteq> tmp_name path (sysRandom W) \<longrightarrow> d' p = d p)
    \<and> (sysFault W SysRemove = None \<and> d (tmp_name path (sysRandom W)) = None \<longrightarrow> d' = d)"
  using Write_early [OF assms, where path = path and data = data and perm = perm and backup = backup
    and d = d] by (auto split: prod.splits)

lemma write_fails_early_witness:
  "let W = (ioSys calm_io)\<lparr>sysFault := (\<lambda>c. if c = SysSync then Some eof else None)\<rparr> in
   early_fault W \<and> (\<exists>e. atomicfile_Write W some_path ''new'' 384 True (vault_fs some_vault)
     = (Er e, vault_fs some_vault))"
proof -
  let ?W = "(ioSys calm_io)\<lparr>sysFault := (\<lambda>c. if c = SysSync then Some eof else None)\<rparr>"
  have W: "early_fault ?W" by (simp add: early_fault_def)
  have "vault_fs some_vault (tmp_name some_path (sysRandom ?W)) = None"
    by (simp add: vault_fs_def)
  with write_fails_early [OF W, where path = some_path and data = "''new''" and perm = 384 and backup = True
      and d = "vault_fs some_vault"] W show ?thesis by auto
qed

text \<open>
  When everything before it succeeded and the last rename fails, the old file is left under
  \<open>path.bak\<close> only: a write with a backup can fail and take the file away from its path.
\<close>

lemma write_moved_away:
  assumes "\<not> early_fault W" and "sysFault W SysBackup = None" and "sysFault W SysRename = Some e"
    and "d path = Some f"
  shows "\<exists>d'. atomicfile_Write W path data perm True d = (Er (step_err ''rename'' path e), d')
    \<and> d' path = None \<and> d' (bak_name path) = Some f"
  using assms by (rule Write_moved_away)

lemma write_moved_away_witness:
  "let W = (ioSys calm_io)\<lparr>sysFault := (\<lambda>c. if c = SysRename then Some eof else None)\<rparr> in
   \<exists>d'. atomicfile_Write W some_path ''new'' 384 True (vault_fs some_vault)
       = (Er (step_err ''rename'' some_path eof), d')
     \<and> d' some_path = None \<and> d' (bak_name some_path) = vault_fs some_vault some_path"
proof -
  let ?W = "(ioSys calm_io)\<lparr>sysFault := (\<lambda>c. if c = SysRename then Some eof else None)\<rparr>"
  have "\<not> early_fault ?W" "sysFault ?W SysBackup = None" "sysFault ?W SysRename = Some eof"
    by (simp_all add: early_fault_def)
  moreover have "vault_fs some_vault some_path = Some (the (vault_fs some_vault some_path))"
    by (simp add: vault_fs_def)
  ultimately show ?thesis
    using write_moved_away [where W = ?W and e = eof and d = "vault_fs some_vault" and path = some_path
      and data = "''new''" and perm = 384] by (metis (no_types, lifting))
qed

section \<open>The vault\<close>

text \<open>
  C18: a vault of the current version or an older one that is written is read back: same names, and
  under each of them the same secret, attribute by attribute.
\<close>

theorem vault_roundtrip:
  assumes "vault_ok v" and "vVersion v \<le> Version"
  shows "\<exists>b v'. Encode v = Ok b \<and> Decode b = Ok v' \<and> vVersion v' = Version
    \<and> (\<forall>k. map_of (vSecrets v') k = map_option (map_option norm_secret) (map_of (vSecrets v) k))
    \<and> (no_nil v \<longrightarrow> table v' = table v)"
  using Decode_Encode [OF assms] norm_vault_lookup [OF assms(1)] table_norm [OF assms(1)]
  by (auto simp: norm_vault_def)

theorem vault_roundtrip_witness:
  "\<exists>b v'. Encode some_vault = Ok b \<and> Decode b = Ok v' \<and> table v' = table some_vault"
  using vault_roundtrip [of some_vault] by auto

text \<open>
  Whatever document was accepted, the vault that \<open>Decode\<close> returns has the current version, distinct
  names, UTF-8 texts and times in range; so it can be written again and reads back as the same table.
\<close>

theorem vault_decoded:
  assumes "Decode b = Ok v"
  shows "vVersion v = Version \<and> vault_ok v
    \<and> (\<exists>b'. Encode v = Ok b' \<and> Decode b' = Ok (norm_vault v)) \<and> table (norm_vault v) = table v"
proof -
  from Decode_wf [OF assms] have v: "vVersion v = Version" "vault_ok v" by simp_all
  with Decode_Encode [of v] table_norm [of v] show ?thesis by simp
qed

theorem vault_decoded_witness:
  "Decode (print_json (enc_vault some_vault)) = Ok (norm_vault some_vault)
   \<and> vault_ok (norm_vault some_vault)"
proof -
  have d: "Decode (print_json (enc_vault some_vault)) = Ok (norm_vault some_vault)"
    by (simp add: Decode_print)
  with vault_decoded [OF d] show ?thesis by simp
qed

text \<open>
  A vault of a newer version is refused with \<open>ErrVersion\<close>, whatever its secrets look like.
\<close>

lemma vault_newer:
  assumes "parse_json b = Some (JObj ms)" and "dec_struct False head_fields 0 (JObj ms) = Some n"
    and "Version < n"
  shows "\<exists>e. Decode b = Er e \<and> errors_is e (VaultS ErrVersion)"
  using assms by (simp add: Decode_def)

lemma vault_newer_witness:
  "\<exists>e. Decode (print_json (enc_vault (some_vault\<lparr>vVersion := 2\<rparr>))) = Er e \<and> errors_is e (VaultS ErrVersion)"
proof -
  let ?v = "some_vault\<lparr>vVersion := 2\<rparr>"
  have ok: "vault_ok ?v" using some_vault_ok(1) by (simp add: vault_ok_def int64_range_def)
  obtain ms where j: "enc_vault ?v = JObj ms" by (simp add: enc_vault_def)
  have "parse_json (print_json (enc_vault ?v)) = Some (JObj ms)"
    using enc_vault_ok [of ?v] j by (metis parse_print)
  moreover have "dec_struct False head_fields 0 (JObj ms) = Some 2"
    using ok unfolding j [symmetric]
    by (simp add: vault_ok_def dec_struct_def enc_vault_def fld_def head_fields_def find_field_def
        fold_name.simps)
  ultimately show ?thesis by (rule vault_newer) (simp add: Version_def)
qed

text \<open>
  \<open>Wipe\<close> overwrites the plaintext and every value with zeros of the same length and keeps the rest;
  it panics exactly when one of the secrets is nil.
\<close>

lemma vault_wipe:
  "Wipe (Some v) (Some b) =
    (if no_nil v then Ok (Some (v\<lparr>vSecrets := map (\<lambda>(k, p).
         (k, map_option (\<lambda>s. s\<lparr>vValue := map_option (\<lambda>x. replicate (length x) NUL) (vValue s)\<rparr>) p))
         (vSecrets v)\<rparr>), Some (replicate (length b) NUL))
     else Panic)"
proof -
  have "zeroed = (\<lambda>x. replicate (length x) NUL)" by (simp add: fun_eq_iff zeroed_def)
  then show ?thesis by (simp add: Wipe_def wipe_secrets_eq no_nil_def zeroed_def [of b])
qed

text \<open>
  C19: the encrypted file. After a successful \<open>Write\<close> the identity it was written for reads the same
  table back, and any other identity is told \<open>ErrWrongIdentity\<close>.
\<close>

theorem vault_file_roundtrip:
  assumes "age_laws A" and "vault_ok v" and "vVersion v \<le> Version" and "ioOpen w' = None"
    and "Write_file A w path i v d = (Ok u, d')"
  shows "Read_file A w' path i d' = Ok (norm_vault v)
    \<and> (j \<noteq> i \<longrightarrow> Read_file A w' path j d' = Er (Sentinel (VaultS ErrWrongIdentity)))"
  using Read_after_Write [OF assms] Read_wrong_identity [OF assms(1) _ assms(4,5), of j] by auto

theorem vault_file_roundtrip_witness:
  "\<exists>d'. Write_file tag_age calm_io some_path True some_vault Map.empty = (Ok (), d')
    \<and> Read_file tag_age calm_io some_path True d' = Ok (norm_vault some_vault)
    \<and> Read_file tag_age calm_io some_path False d' = Er (Sentinel (VaultS ErrWrongIdentity))"
proof -
  have "no_faults tag_age calm_io" "vault_ok some_vault" by simp_all
  from Write_file_succeeds [OF this] obtain d'
    where d': "Write_file tag_age calm_io some_path True some_vault Map.empty = (Ok (), d')" by blast
  from vault_file_roundtrip [OF tag_age_laws _ _ _ d', of calm_io] d' show ?thesis by auto
qed

section \<open>The session\<close>

text \<open>
  C6: in every reachable state of the session, buffer and identity come and go together, the
  generation counts the unlocks (modulo 2^64), at most one timer is pending, a request holds the read
  lock only while an identity is there, and an armed auto-lock is still going to happen: its timer is
  pending with the current generation, or its callback is waiting.
\<close>

theorem session_invariant:
  assumes "sreach A dflt n s"
  shows "(sBuf s = None \<longleftrightarrow> sId s = None) \<and> sGen s = of_nat n \<and> length (sPending s) \<le> 1
    \<and> (0 < sReaders s \<longrightarrow> sId s \<noteq> None)
    \<and> (\<forall>h. sTimer s = Some h \<longrightarrow> sId s \<noteq> None \<and> (sPending s = [(h, sGen s)] \<or> sGen s \<in> set (sFired s)))"
  using sreach_inv [OF assms] sreach_one_timer [OF assms] sreach_reader [OF assms] armed_timer [OF assms]
    sreach_coupled [OF assms] by auto

theorem session_invariant_witness:
  "sreach tag_age 0 1 armed_session \<and> length (sPending armed_session) \<le> 1
   \<and> sGen armed_session = 1 \<and> sTimer armed_session \<noteq> None"
proof -
  have "sTimer armed_session \<noteq> None"
    by (simp add: armed_session_def Unlock_def Parse_tag Let_def)
  with session_invariant [OF armed_session_reach] armed_session_reach show ?thesis by simp
qed

text \<open>
  An \<open>Unlock\<close> zeroes the buffer it was given, whatever happens. When it fails nothing else changes;
  when it succeeds the session holds the identity of the encoding under a new generation, and a timer
  runs exactly when the duration is positive.
\<close>

theorem session_unlock:
  assumes "sreach A dflt n s" and "Unlock A w dflt encoded lockAfter s = (r, s', z)"
  shows "z = replicate (length encoded) NUL
    \<and> (case r of
         Ok u \<Rightarrow> (\<exists>i. Parse A encoded = Ok i \<and> sId s' = Some i) \<and> sGen s' = sGen s + 1
           \<and> (let d = (case lockAfter of None \<Rightarrow> dflt | Some d \<Rightarrow> d) in
              if 0 < d then sLocksAt s' = time_add (ioNow w) d \<and> (\<exists>h. sTimer s' = Some h \<and> sPending s' = [(h, sGen s')])
              else sTimer s' = None \<and> sPending s' = [])
       | _ \<Rightarrow> s' = s)"
proof (cases r)
  case (Ok u)
  from assms(2) [unfolded Ok] obtain i where "Parse A encoded = Ok i" "sId s' = Some i"
    "sGen s' = sGen s + 1" "z = zeroed encoded" by (rule Unlock_Ok)
  moreover have "session_inv s" using sreach_inv [OF assms(1)] by simp
  ultimately show ?thesis
    using Unlock_timer [OF _ assms(2) [unfolded Ok] refl] by (simp add: Ok zeroed_def Let_def split: if_splits)
qed (use assms(2) in \<open>auto simp: Unlock_def Let_def Parse_def zeroed_def split: option.splits\<close>)

theorem session_unlock_witness:
  "sreach tag_age 0 0 NewSession \<and> Unlock tag_age calm_io 0 ''T'' (Some 60) NewSession = (Ok (), armed_session, [NUL])
   \<and> sId armed_session = Some True \<and> sLocksAt armed_session = time_add zero_time 60"
  using session_unlock [OF sreach.fresh Unlock_armed] sreach.fresh [of tag_age 0] Unlock_armed
  by (auto simp: Parse_tag Let_def)

text \<open>
  C34: a callback of an earlier unlock, which arrives after the session was unlocked again, does nothing
  (as long as there were fewer than 2^64 unlocks); the callback of the current unlock locks.
\<close>

theorem stale_timer:
  assumes "sreach A dflt n s" and "n < 2 ^ 64" and "k \<le> n"
  shows "if k < n then autoLock (of_nat k) s = s
    else sId (autoLock (of_nat k) s) = None \<and> sBuf (autoLock (of_nat k) s) = None"
proof (cases "k < n")
  case True
  with stale_callback [OF assms(1,2)] show ?thesis by simp
next
  case False
  then have "of_nat k = sGen s" using assms(3) sreach_inv [OF assms(1)] by simp
  then show ?thesis using False autoLock_locks [of s] sreach_coupled [OF assms(1)] by simp
qed

theorem stale_timer_witness:
  "sreach tag_age 0 1 armed_session \<and> autoLock 0 armed_session = armed_session
   \<and> sId (autoLock 1 armed_session) = None"
  using stale_timer [OF armed_session_reach, of 0] stale_timer [OF armed_session_reach, of 1]
    armed_session_reach by simp

section \<open>The secrets\<close>

text \<open>
  C4: \<open>Store\<close> refines the update of a finite map. When it succeeds, the secret obeys the rules of
  validate.go and the file stands for the old table with that one entry replaced; the entry keeps its
  creation time. A secret that breaks a rule is refused with \<open>ErrInvalidArgument\<close> and the file system
  is left alone. When nothing fails outside, a valid secret is stored.
\<close>

theorem store_refines:
  assumes "age_laws A" and "sId s = Some i" and "secrets_at A path i d = Some T" and "gomap_ok attrs"
    and "io_calm w"
  shows "(\<forall>u d'. Store_secret A w path s name kind attrs val d = (Ok u, d') \<longrightarrow>
      secret_ok name kind attrs (val_bytes val)
      \<and> secrets_at A path i d' = Some (T(name \<mapsto> stored w kind attrs val (T name))))
    \<and> (\<not> secret_ok name kind attrs (val_bytes val) \<longrightarrow>
      (\<exists>e. Store_secret A w path s name kind attrs val d = (Er e, d) \<and> errors_is e (DaemonS ErrInvalidArgument)))
    \<and> (no_faults A w \<and> secret_ok name kind attrs (val_bytes val) \<longrightarrow>
      (\<exists>d'. Store_secret A w path s name kind attrs val d = (Ok (), d')))"
  using Store_table [OF assms(1-4)] Store_invalid [OF assms(2,3)] Store_succeeds [OF _ assms(2,3) _ assms(4)]
    assms(5) unfolding io_calm_def by (intro conjI allI impI) blast+

theorem store_refines_witness:
  "\<exists>d'. Store_secret tag_age calm_io some_path open_session ''k'' ''token'' [] (Some ''pw'') (vault_fs New_vault)
      = (Ok (), d')
    \<and> secrets_at tag_age some_path True d'
      = Some [''k'' \<mapsto> (''token'', Some ''pw'', Map.empty, zero_time, zero_time)]"
proof -
  note R = store_refines [OF tag_age_laws _ empty_table gomap_ok_Nil, of open_session calm_io]
  obtain d' where "Store_secret tag_age calm_io some_path open_session ''k'' ''token'' [] (Some ''pw'')
      (vault_fs New_vault) = (Ok (), d')" by (rule sample_store)
  with R [of "''k''" "''token''" "Some ''pw''"] show ?thesis by (auto simp: stored_def)
qed

text \<open>
  What \<open>Get\<close> returns after a successful \<open>Store\<close>: for the stored name the new secret, for every
  other valid name what it would have returned before.
\<close>

lemma store_then_get_secret:
  assumes "age_laws A" and "sId s = Some i" and "secrets_at A path i d = Some T" and "gomap_ok attrs"
    and "io_calm w" and "io_calm w'" and "Store_secret A w path s name kind attrs val d = (Ok u, d')"
    and "text_ok m"
  shows "omap out_view (fst (Get A w' path s m d')) =
    (if m = name then Ok (stored w kind attrs val (T name)) else omap out_view (fst (Get A w' path s m d)))"
proof -
  have e: "env_table (A, path, s) d = Some T" "env_lawful (A, path, s)"
    "env_put (A, path, s) w name (kind, attrs, val) d = (Ok u, d')"
    "case (kind, attrs, val) of (kind, attrs, val) \<Rightarrow> gomap_ok attrs"
    using assms by simp_all
  show ?thesis
    using vault_table.get_put [OF e(1,2) assms(5,6) e(4,3)]
      vault_table.get_put_other [OF e(1,2) assms(5,6) e(4,3) _ assms(8)] by (cases "m = name") simp_all
qed

lemma store_then_get_secret_witness:
  "\<exists>d'. Store_secret tag_age calm_io some_path open_session ''k'' ''token'' [] (Some ''pw'') (vault_fs New_vault)
      = (Ok (), d')
    \<and> omap out_view (fst (Get tag_age calm_io some_path open_session ''k'' d'))
      = Ok (''token'', Some ''pw'', Map.empty, zero_time, zero_time)"
proof -
  obtain d' where d': "Store_secret tag_age calm_io some_path open_session ''k'' ''token'' [] (Some ''pw'')
      (vault_fs New_vault) = (Ok (), d')" by (rule sample_store)
  from store_then_get_secret [OF tag_age_laws _ empty_table gomap_ok_Nil _ _ d', of calm_io "''k''"] d'
  show ?thesis by (simp add: stored_def)
qed

text \<open>
  \<open>Delete\<close> refines the removal from a finite map: with nothing failing outside, a valid name that is
  not there is \<open>ErrNotFound\<close> and leaves the file alone; one that is there is removed, and nothing else.
\<close>

theorem delete_refines:
  assumes "age_laws A" and "no_faults A w" and "sId s = Some i" and "secrets_at A path i d = Some T"
    and "text_ok name"
  shows "if T name = None then Delete A w path s name d = (Er (Sentinel (DaemonS ErrNotFound)), d)
    else \<exists>d'. Delete A w path s name d = (Ok (), d') \<and> secrets_at A path i d' = Some (T(name := None))"
  using Delete_eq [OF assms(2-5)] Delete_table [OF assms(1,3,4)] by (auto split: if_splits)

theorem delete_refines_witness:
  "\<exists>d'. Delete tag_age calm_io some_path open_session ''k'' (vault_fs some_vault) = (Ok (), d')
    \<and> secrets_at tag_age some_path True d' = Some Map.empty"
  using delete_refines [OF tag_age_laws _ _ some_table text_ok_k, of calm_io open_session] by simp

text \<open>
  C37: \<open>List\<close> returns exactly the entries of the table that the filter selects, each once, in the order
  of their names, without their values, and changes nothing.
\<close>

theorem list_selects:
  assumes "secrets_at A path i d = Some T" and "ioOpen w = None" and "sId s = Some i" and "plain_filter f"
  shows "\<exists>xs. List A w path s f d = (Ok xs, d) \<and> sorted_wrt (<) (map dName xs)
    \<and> (\<forall>n. n \<in> dName ` set xs \<longleftrightarrow> (\<exists>e. T n = Some e \<and> selects f n e))
    \<and> (\<forall>x \<in> set xs. dValue x = None \<and> (\<exists>val. T (dName x) =
         Some (dKind x, val, map_of (dAttributes x), dCreated x, dUpdated x)))"
  using List_eq [OF assms(1-3), of f] assms(4) unfolding plain_filter_def by blast

theorem list_selects_witness:
  "\<exists>xs. List tag_age calm_io some_path open_session no_filter (vault_fs some_vault) = (Ok xs, vault_fs some_vault)
    \<and> map dName xs = [''k'']"
proof -
  have "plain_filter no_filter" by (simp add: plain_filter_def no_filter_def attrs_ok_def)
  note L = list_selects [OF some_table calm_io_simps(1) open_session_simps(1) this]
  have sel: "(\<exists>e. [''k'' \<mapsto> x] n = Some e \<and> selects no_filter n e) \<longleftrightarrow> n = ''k''" for n and x :: entry
  proof -
    have "selects no_filter n x" by (cases x) (simp add: selects_def)
    then show ?thesis by (cases "n = ''k''") simp_all
  qed
  from L obtain xs
    where xs: "List tag_age calm_io some_path open_session no_filter (vault_fs some_vault) = (Ok xs, vault_fs some_vault)"
      "sorted_wrt (<) (map dName xs)" "\<forall>n. n \<in> dName ` set xs \<longleftrightarrow> n = ''k''"
    unfolding sel by (elim exE conjE) (rule that)
  have "distinct (map dName xs)" using xs(2) by (simp only: strict_sorted_iff)
  moreover have "set (map dName xs) = {''k''}" unfolding set_map set_eq_iff singleton_iff by (rule xs(3))
  ultimately have "map dName xs = [''k'']" by (rule singleton_list)
  with xs(1) show ?thesis by (intro exI conjI)
qed

text \<open>
  C35: while the session is locked, no operation on secrets reads or changes the file; each one answers
  \<open>ErrLocked\<close>. Locking a session brings this about.
\<close>

theorem locked_session:
  assumes "sreach A dflt n s0" and "s = Lock s0"
  shows "Get A w path s name d = (Er (Sentinel (DaemonS ErrLocked)), d)
    \<and> List A w path s f d = (Er (Sentinel (DaemonS ErrLocked)), d)
    \<and> Store_secret A w path s name kind attrs val d = (Er (Sentinel (DaemonS ErrLocked)), d)
    \<and> Delete A w path s name d = (Er (Sentinel (DaemonS ErrLocked)), d)"
proof -
  have "sId s = None" using sess.lock_locks [of s0] sreach_inv [OF assms(1)] assms(2) by simp
  from locked_operations [OF this] show ?thesis by simp
qed

theorem locked_session_witness:
  "sreach tag_age 0 1 open_session
   \<and> fst (Get tag_age calm_io some_path (Lock open_session) ''k'' (vault_fs some_vault))
     = Er (Sentinel (DaemonS ErrLocked))"
  using locked_session [OF open_session_reach refl] open_session_reach by simp



text \<open>
  A vault file in which a secret is \<open>null\<close> makes \<open>Get\<close> of any valid name, and the list of all
  secrets, panic.
\<close>

lemma nil_secret_panics:
  assumes "sId s = Some i" and "Read_file A w path i d = Ok v" and "\<not> no_nil v" and "text_ok name"
  shows "fst (Get A w path s name d) = Panic \<and> fst (List A w path s no_filter d) = Panic"
  using nil_panics(1,2) [OF assms(1-3)] assms(4) by simp

lemma nil_secret_panics_witness:
  "let d = vault_fs (some_vault\<lparr>vSecrets := [(''n'', None)]\<rparr>) in
   fst (Get tag_age calm_io some_path open_session ''k'' d) = Panic"
proof -
  let ?v = "some_vault\<lparr>vSecrets := [(''n'', None)]\<rparr>"
  have v: "vault_ok ?v" "vVersion ?v = Version" using some_vault_ok by (simp_all add: vault_ok_def)
  have "\<not> no_nil (norm_vault ?v)" by (simp add: no_nil_def norm_vault_def)
  from nil_secret_panics [OF _ vault_fs_read [OF v] this text_ok_k, of open_session] show ?thesis by simp
qed

section \<open>Lines and messages\<close>

text \<open>
  However the bytes of a connection are cut into reads, \<open>readLine\<close> returns the first line of the
  byte stream; a stream whose first line is longer than \<open>MaxLineLen\<close> is \<open>ErrLineTooLong\<close>, one that ends
  inside a line is \<open>io.ErrUnexpectedEOF\<close>, and an empty one \<open>io.EOF\<close>. No byte is lost.
\<close>

theorem read_line:
  assumes "reader_inv r" and "plain_conn cs" and "readLine r cs = (res, r', cs')"
  shows "res = spec_line (held r @ stream cs) \<and> reader_inv r' \<and> plain_conn cs'
    \<and> held r' @ stream cs' = held r @ stream cs
    \<and> (\<forall>l. res = Ok l \<longrightarrow> (\<exists>rest. held r' = l @ LF # rest))"
  using assms by (rule readLine_spec)

theorem read_line_witness:
  "\<exists>r' cs'. readLine NewReader [Data ''a'', Data ''b'', Data [LF]] = (Ok ''ab'', r', cs')"
proof -
  obtain res r' cs' where l: "readLine NewReader [Data ''a'', Data ''b'', Data [LF]] = (res, r', cs')"
    by (metis prod_cases3)
  have p: "plain_conn [Data ''a'', Data ''b'', Data [LF]]" by simp
  have "spec_line ([CHR ''a'', CHR ''b'', LF]) = Ok ''ab''"
    by (simp add: spec_line_def MaxLineLen_eq)
  with read_line [OF reader_inv_New p l] l show ?thesis by simp
qed



text \<open>
  C9: the answers of a connection, and what they do to the daemon, depend on the bytes that were sent
  and not on how they were cut into reads.
\<close>

theorem chunks_do_not_matter:
  assumes "plain_conn cs" and "plain_conn cs'" and "stream cs = stream cs'"
  shows "handle A X cf z k NewReader cs sd = handle A X cf z k NewReader cs' sd"
  using assms by (intro handle_agree) (simp add: same_stream_def reader_inv_New)

theorem chunks_do_not_matter_witness:
  "handle tag_age some_texts some_config some_wire 0 NewReader [Data ''{'', Data [CHR ''}'', LF]] (open_session, Map.empty)
   = handle tag_age some_texts some_config some_wire 0 NewReader [Data [CHR ''{'', CHR ''}'', LF]] (open_session, Map.empty)"
  by (rule chunks_do_not_matter) simp_all

text \<open>
  C24: a message that one side writes is what the other side reads: every request and every response is
  one line, shorter messages than \<open>MaxLineLen\<close> are accepted by the reader, and parsing the line gives
  the message back.
\<close>

theorem message_roundtrip:
  assumes "request_ok q" and "response_ok p"
    and "length (print_json (enc_request q)) \<le> MaxLineLen" and "length (print_json (enc_response p)) \<le> MaxLineLen"
  shows "spec_line (write_line (enc_request q) @ rest) = Ok (print_json (enc_request q))
    \<and> parse_request (print_json (enc_request q)) = (Some q, None)
    \<and> spec_line (write_line (enc_response p) @ rest) = Ok (print_json (enc_response p))
    \<and> parse_response (print_json (enc_response p)) = Ok p"
  using parse_request_print [OF assms(1)] parse_response_print [OF assms(2)] enc_request_ok [OF assms(1)]
    enc_response_ok [OF assms(2)] spec_line_message assms(3,4) by blast

theorem message_roundtrip_witness:
  "let q = \<lparr> rqId = Some (request_no 1), rqMethod = MethodLock, rqParams = None \<rparr>;
       p = \<lparr> rsId = Some (request_no 1), rsResult = Some enc_empty, rsError = None \<rparr> in
   parse_request (print_json (enc_request q)) = (Some q, None)
   \<and> parse_response (print_json (enc_response p)) = Ok p"
proof -
  let ?q = "\<lparr> rqId = Some (request_no 1), rqMethod = MethodLock, rqParams = None \<rparr>"
  let ?p = "\<lparr> rsId = Some (request_no 1), rsResult = Some enc_empty, rsError = None \<rparr>"
  have q: "request_ok ?q" by (simp add: request_ok_def)
  have p: "response_ok ?p" by (simp add: response_ok_def) (simp add: doc_ok_def enc_empty_def MaxDepth_def)
  have "length (print_json (enc_request ?q)) \<le> MaxLineLen"
    using obj_len [of "fld ''id'' (request_no 1) @ fld ''method'' (enc_plain MethodLock) @ fld ''params'' JNull"]
      obj_len [of "fld ''id'' (request_no 1) @ fld ''method'' (enc_plain MethodLock)"]
      request_no_len [of 1] scalar_len(2) [of MethodLock]
    by (simp add: enc_request_def raw_or_null_def fld_def MaxLineLen_eq method_defs print_json_len)
  moreover have "length (print_json (enc_response ?p)) \<le> MaxLineLen"
    using obj_len [of "fld ''id'' (request_no 1) @ fld ''result'' enc_empty"] request_no_len [of 1]
    by (simp add: enc_response_def raw_or_null_def fld_def MaxLineLen_eq enc_empty_def print_json_len)
  ultimately show ?thesis using message_roundtrip [OF q p] by (simp add: Let_def)
qed

text \<open>
  The parameters a client encodes are the ones the daemon's handler sees (attributes sorted by
  key), and a parameter name the method does not have is refused with \<open>INVALID_ARGUMENT\<close>.
\<close>

lemma params_bind:
  assumes "rqParams rq = Some (enc_store_params p)" and "utf8_valid (spName p)" and "utf8_valid (spKind p)"
    and "gomap_ok (spAttributes p)" and "\<forall>(k, v) \<in> set (spAttributes p). utf8_valid k \<and> utf8_valid v"
    and "rqParams rq' = Some (JObj ms)" and "(k, j) \<in> set ms" and "unquote_lit k = Some key"
    and "find_field store_fields key = None"
  shows "Bind rq store_fields zero_store = Ok (p\<lparr>spAttributes := sort_key fst (spAttributes p)\<rparr>)
    \<and> (\<exists>m. Bind rq' store_fields zero_store = Er (ProtoErr CodeInvalidArgument m))"
  using Bind_store [OF assms(2-5,1)] Bind_unknown [OF assms(6-9)] by blast

lemma params_bind_witness:
  "let p = \<lparr> spName = ''k'', spKind = ''token'', spAttributes = [], spValue = Some ''pw'' \<rparr> in
   Bind \<lparr> rqId = None, rqMethod = MethodStore, rqParams = Some (enc_store_params p) \<rparr> store_fields zero_store = Ok p
   \<and> (\<exists>m. Bind \<lparr> rqId = None, rqMethod = MethodStore, rqParams = Some (JObj [(''x'', JNull)]) \<rparr>
        store_fields zero_store = Er (ProtoErr CodeInvalidArgument m))"
proof -
  let ?p = "\<lparr> spName = ''k'', spKind = ''token'', spAttributes = [], spValue = Some ''pw'' \<rparr>"
  have "find_field store_fields ''x'' = None"
    by (simp add: find_field_def store_fields_def fold_name.simps)
  moreover have "unquote_lit ''x'' = Some ''x''" by (rule unquote_plain) simp
  ultimately show ?thesis
    using params_bind [of "\<lparr> rqId = None, rqMethod = MethodStore, rqParams = Some (enc_store_params ?p) \<rparr>" ?p
      "\<lparr> rqId = None, rqMethod = MethodStore, rqParams = Some (JObj [(''x'', JNull)]) \<rparr>" "[(''x'', JNull)]"
      "''x''" JNull "''x''"] by (simp add: Let_def)
qed

section \<open>The daemon\<close>

text \<open>
  Every request that is dispatched without a panic is answered with its own id, and the answer has
  either a result or an error, never both and never neither.
\<close>

theorem one_answer:
  assumes "dispatch A X w cf rq sd = (Some resp, sd')" and "rqId rq \<noteq> None"
  shows "rsId resp = rqId rq \<and> (rsResult resp = None) \<noteq> (rsError resp = None)"
  using assms by (rule dispatch_one_of)

theorem one_answer_witness:
  "\<exists>resp sd'. dispatch tag_age some_texts calm_io some_config
      \<lparr> rqId = Some (request_no 7), rqMethod = ''nope'', rqParams = None \<rparr> (open_session, Map.empty) = (Some resp, sd')
    \<and> rsId resp = Some (request_no 7) \<and> rsError resp \<noteq> None"
proof -
  let ?q = "\<lparr> rqId = Some (request_no 7), rqMethod = ''nope'', rqParams = None \<rparr>"
  have d: "dispatch tag_age some_texts calm_io some_config ?q (open_session, Map.empty)
      = (Some (NewError some_texts (Some (request_no 7))
           (CodeProtocol, lit ''unknown method '' @ [Q ''nope''])), open_session, Map.empty)"
    by (simp add: dispatch_def server_call_def method_defs)
  from one_answer [OF d] d show ?thesis by (simp add: NewError_def)
qed

text \<open>
  Only \<open>unlock\<close> and \<open>lock\<close> change the session and only \<open>store\<close> and \<open>delete\<close> change the file
  system; and every method keeps the invariant of the session.
\<close>

theorem methods_frame:
  assumes "session_inv s" and "sReaders s = 0" and "server_call A w cf rq (s, d) = (r, s', d')"
  shows "(s' \<noteq> s \<longrightarrow> rqMethod rq \<in> {MethodUnlock, MethodLock})
    \<and> (d' \<noteq> d \<longrightarrow> rqMethod rq \<in> {MethodStore, MethodDelete}) \<and> session_inv s'"
  using call_frame [OF assms(3)] call_inv [OF assms] by blast

theorem methods_frame_witness:
  "session_inv open_session
   \<and> (let (r, s', d') = server_call tag_age calm_io some_config
        \<lparr> rqId = None, rqMethod = MethodLock, rqParams = None \<rparr> (open_session, Map.empty)
      in d' = Map.empty \<and> session_inv s' \<and> sId s' = None)"
proof -
  let ?q = "\<lparr> rqId = None, rqMethod = MethodLock, rqParams = None \<rparr>"
  have c: "server_call tag_age calm_io some_config ?q (open_session, Map.empty) = (Ok REmpty, Lock open_session, Map.empty)"
    by (simp add: server_call_def method_defs)
  from methods_frame [OF _ _ c] c show ?thesis by (simp add: Lock_def)
qed

text \<open>
  what \<open>unlock\<close> comes to. A key that does not parse leaves the session as it was. Otherwise the
  vault decides: if it can be read with the identity the session is unlocked with it, and if it cannot,
  the session ends up locked, also when it was unlocked before.
\<close>

theorem unlock_result:
  assumes "Bind rq unlock_fields zero_unlock = Ok p" and "call_unlock A w cf rq s d = (r, s')"
    and "ioSecmem w = None"
  shows "(case Parse A (val_bytes (upIdentity p)) of
      Ok i \<Rightarrow> (case Read_file A w (cfPath cf) i d of
          Ok v \<Rightarrow> if no_nil v then r = Ok REmpty \<and> sId s' = Some i else r = Panic
        | Er e \<Rightarrow> r = Er e \<and> sId s' = None \<and> sBuf s' = None
        | Panic \<Rightarrow> False)
    | Er e \<Rightarrow> r = Er e \<and> s' = s
    | Panic \<Rightarrow> False)"
  using unlock_outcomes [OF assms(1,2), unfolded assms(3) option.case]
  by (cases "Parse A (val_bytes (upIdentity p))") simp_all

theorem unlock_result_witness:
  "let rq = \<lparr> rqId = None, rqMethod = MethodUnlock,
         rqParams = Some (enc_unlock_params \<lparr> upIdentity = Some ''T'', upFor = None \<rparr>) \<rparr> in
   \<exists>s'. call_unlock tag_age calm_io some_config rq NewSession (vault_fs some_vault) = (Ok REmpty, s')
     \<and> sId s' = Some True"
proof -
  let ?p = "\<lparr> upIdentity = Some ''T'', upFor = None \<rparr>"
  let ?rq = "\<lparr> rqId = None, rqMethod = MethodUnlock, rqParams = Some (enc_unlock_params ?p) \<rparr>"
  have b: "Bind ?rq unlock_fields zero_unlock = Ok ?p" by (rule Bind_unlock) simp_all
  obtain r s' where c: "call_unlock tag_age calm_io some_config ?rq NewSession (vault_fs some_vault) = (r, s')"
    by fastforce
  have "no_nil (norm_vault some_vault)" by (rule no_nil_norm) simp
  with unlock_result [OF b c] c show ?thesis
    by (simp add: val_bytes_def Parse_tag vault_fs_read)
qed

text \<open>
  the auto-lock timer after \<open>unlock\<close> with \<open>for\<close> = n seconds is armed exactly when the product with
  a second, taken in \<open>int64\<close>, is positive. From 9223372037 seconds on the product wraps, so a request
  for a very long time is not locked automatically at all.
\<close>

theorem unlock_for:
  assumes "session_inv s" and "Bind rq unlock_fields zero_unlock = Ok p" and "upFor p = Some n"
    and "call_unlock A w cf rq s d = (Ok res, s')"
  shows "(sTimer s' = None) = (wrap64 (n * Second) \<le> 0) \<and> wrap64 (9223372037 * Second) < 0"
  using unlock_timer [OF assms] by (simp add: Second_def wrap64_def)

theorem unlock_for_witness:
  "let rq = \<lparr> rqId = None, rqMethod = MethodUnlock,
         rqParams = Some (enc_unlock_params \<lparr> upIdentity = Some ''T'', upFor = Some 9223372037 \<rparr>) \<rparr> in
   \<exists>s'. call_unlock tag_age calm_io some_config rq NewSession (vault_fs some_vault) = (Ok REmpty, s')
     \<and> sId s' = Some True \<and> sTimer s' = None"
proof -
  let ?p = "\<lparr> upIdentity = Some ''T'', upFor = Some 9223372037 \<rparr>"
  let ?rq = "\<lparr> rqId = None, rqMethod = MethodUnlock, rqParams = Some (enc_unlock_params ?p) \<rparr>"
  have b: "Bind ?rq unlock_fields zero_unlock = Ok ?p"
    by (rule Bind_unlock) (simp_all add: int64_range_def)
  obtain r s' where c: "call_unlock tag_age calm_io some_config ?rq NewSession (vault_fs some_vault) = (r, s')"
    by fastforce
  have "no_nil (norm_vault some_vault)" by (rule no_nil_norm) simp
  with unlock_outcomes [OF b c] have o: "r = Ok REmpty" "sId s' = Some True"
    by (simp_all add: val_bytes_def Parse_tag vault_fs_read)
  have "upFor ?p = Some 9223372037" by simp
  from unlock_for [OF session_inv_New b this c [unfolded o]] c o show ?thesis
    by (simp add: Second_def wrap64_def)
qed

section \<open>Client and daemon together\<close>

text \<open>
  C11: a secret without attributes that a client stores is what a client gets. The call of \<open>Store\<close> on a
  daemon that is unlocked succeeds, and a later \<open>Get\<close> of that name, over its own connection, returns
  kind, value and times, across encoding, framing, dispatch, encryption and back.
\<close>

theorem client_store_get:
  assumes "age_laws A" and "sId s = Some i" and "secrets_at A (cfPath cf) i d = Some T"
    and "dAttributes sec = []" and "dValue sec = Some b" and "secret_ok (dName sec) (dKind sec) [] b"
    and "no_faults A (wrIo z 0)" and "time_ok (UTC (ioNow (wrIo z 0)))" and "wrWrites z 0" and "n < 2 ^ 64"
    and "ioOpen (wrIo z' 0) = None" and "wrWrites z' 0" and "n' < 2 ^ 64"
    and "line = message_line n MethodStore (enc_store_params
      \<lparr> spName = dName sec, spKind = dKind sec, spAttributes = [], spValue = dValue sec \<rparr>)"
  shows "client_Store socket (linked A X cf z (s, d)) n sec = Ok ()
    \<and> (\<exists>created. client_Get socket (linked A X cf z' (daemon_after A X cf z (s, d) line)) n' (dName sec)
        = Ok (sec\<lparr>dCreated := created, dUpdated := UTC (ioNow (wrIo z 0))\<rparr>)
      \<and> created = (case T (dName sec) of None \<Rightarrow> UTC (ioNow (wrIo z 0)) | Some (_, _, _, c, _) \<Rightarrow> c))"
proof -
  note st1 = client_store_daemon(1) [OF assms(2-10), of socket X]
  from client_store_daemon(2) [OF assms(2-10), of X] obtain d' where after: "daemon_after A X cf z (s, d) line = (s, d')"
    and sto: "Store_secret A (wrIo z 0) (cfPath cf) s (dName sec) (dKind sec) [] (dValue sec) d = (Ok (), d')"
    using assms(14) by metis
  from Store_table [OF assms(1-3) gomap_ok_Nil assms(8) sto]
  have T: "secrets_at A (cfPath cf) i d'
    = Some (T(dName sec \<mapsto> stored (wrIo z 0) (dKind sec) [] (dValue sec) (T (dName sec))))" by simp
  have ok: "secret_ok (dName sec) (dKind sec) [] (val_bytes (dValue sec))"
    using assms(5,6) by (simp add: val_bytes_def)
  from client_get_daemon [OF assms(2) T _ ok _ assms(11-13), of Map.empty _ _ socket X]
  show ?thesis using st1 assms(4) by (simp add: after stored_def)
qed

theorem client_store_get_witness:
  "let sec = \<lparr> dName = ''k'', dKind = ''token'', dAttributes = [], dValue = Some ''pw'',
         dCreated = zero_time, dUpdated = zero_time \<rparr> in
   client_Store ''s'' (linked tag_age some_texts some_config some_wire (open_session, vault_fs New_vault)) 1 sec = Ok ()
   \<and> (\<exists>line. client_Get ''s'' (linked tag_age some_texts some_config some_wire
         (daemon_after tag_age some_texts some_config some_wire (open_session, vault_fs New_vault) line)) 2 ''k''
       = Ok sec)"
proof -
  let ?sec = "\<lparr> dName = ''k'', dKind = ''token'', dAttributes = [], dValue = Some ''pw'',
         dCreated = zero_time, dUpdated = zero_time \<rparr>"
  have T: "secrets_at tag_age (cfPath some_config) True (vault_fs New_vault) = Some Map.empty"
    by (simp add: empty_table)
  from client_store_get [where sec = ?sec and b = "''pw''" and n = 1 and n' = 2 and z = some_wire and z' = some_wire
      and socket = "''s''" and X = some_texts, OF tag_age_laws open_session_simps(1) T]
  show ?thesis by (auto simp: Let_def time_ok_zero)
qed

text \<open>
  The bound of the protocol is large enough for every secret without attributes that the vault
  accepts: its \<open>store\<close> request and the response to \<open>get\<close> fit into a line.
\<close>

theorem secrets_fit:
  assumes "secret_ok (dName x) (dKind x) [] (val_bytes (dValue x))" and "dAttributes x = []"
    and "length (print_json rid) \<le> 64" and "enc_result (RGet x) = Some j"
  shows "length (print_json (enc_request \<lparr> rqId = Some rid, rqMethod = MethodStore,
      rqParams = Some (enc_store_params \<lparr> spName = dName x, spKind = dKind x, spAttributes = [], spValue = dValue x \<rparr>) \<rparr>))
      \<le> MaxLineLen
    \<and> length (print_json (enc_response \<lparr> rsId = Some rid, rsResult = Some j, rsError = None \<rparr>)) \<le> MaxLineLen"
  using request_fits [OF assms(1,3)] response_fits [OF assms] by simp

theorem secrets_fit_witness:
  "\<exists>j. enc_result (RGet \<lparr> dName = ''k'', dKind = ''token'', dAttributes = [], dValue = Some ''pw'',
         dCreated = zero_time, dUpdated = zero_time \<rparr>) = Some j
     \<and> length (print_json (enc_response \<lparr> rsId = Some JNull, rsResult = Some j, rsError = None \<rparr>)) \<le> MaxLineLen"
proof -
  let ?x = "\<lparr> dName = ''k'', dKind = ''token'', dAttributes = [], dValue = Some ''pw'',
         dCreated = zero_time, dUpdated = zero_time \<rparr>"
  obtain j where j: "enc_result (RGet ?x) = Some j" by (simp add: info_times_ok_def time_ok_zero)
  have "secret_ok (dName ?x) (dKind ?x) [] (val_bytes (dValue ?x))" by (simp add: val_bytes_def)
  from secrets_fit [OF this _ _ j, of JNull] j show ?thesis by (auto simp: print_json_len)
qed

text \<open>
  A positive duration below one second is sent as zero seconds by \<open>UnlockFor\<close>, and zero seconds
  turn the automatic lock off.
\<close>

lemma short_unlock_never_locks:
  assumes "0 < t" and "t < Second" and "session_inv s" and "Bind rq unlock_fields zero_unlock = Ok p"
    and "upFor p = Some (whole_seconds t)" and "call_unlock A w cf rq s d = (Ok res, s')"
  shows "client_UnlockFor socket nw n identity t = client_unlock socket nw n identity (Some 0) \<and> sTimer s' = None"
proof -
  have z: "whole_seconds t = 0" using assms(1,2) by (simp add: whole_seconds_def)
  then show ?thesis
    using unlock_timer [OF assms(3,4,5,6)] by (simp add: client_UnlockFor_def wrap64_def)
qed

lemma short_unlock_never_locks_witness:
  "let rq = \<lparr> rqId = None, rqMethod = MethodUnlock,
         rqParams = Some (enc_unlock_params \<lparr> upIdentity = Some ''T'', upFor = Some 0 \<rparr>) \<rparr> in
   \<exists>s'. call_unlock tag_age calm_io some_config rq NewSession (vault_fs some_vault) = (Ok REmpty, s')
     \<and> sTimer s' = None"
proof -
  let ?p = "\<lparr> upIdentity = Some ''T'', upFor = Some (whole_seconds 1) \<rparr>"
  let ?rq = "\<lparr> rqId = None, rqMethod = MethodUnlock, rqParams = Some (enc_unlock_params ?p) \<rparr>"
  have ws: "whole_seconds 1 = 0" by (simp add: whole_seconds_def Second_def)
  have b: "Bind ?rq unlock_fields zero_unlock = Ok ?p"
    by (rule Bind_unlock) (simp_all add: ws int64_range_def)
  obtain r s' where c: "call_unlock tag_age calm_io some_config ?rq NewSession (vault_fs some_vault) = (r, s')"
    by fastforce
  have "no_nil (norm_vault some_vault)" by (rule no_nil_norm) simp
  with unlock_outcomes [OF b c] have r: "r = Ok REmpty"
    by (simp_all add: val_bytes_def Parse_tag vault_fs_read)
  have "upFor ?p = Some (whole_seconds 1)" by simp
  from short_unlock_never_locks [OF _ _ session_inv_New b this c [unfolded r]] c r show ?thesis
    by (simp add: ws Second_def)
qed

section \<open>The git credential helper\<close>

text \<open>
  C36: which secret answers git. Over a listing of the table the helper picks the secret with the
  request's host whose protocol, username and path agree with the request wherever both set them and
  which sets more of the three than every other such secret; without exactly one it picks none.
\<close>

theorem git_picks:
  assumes "lists T (git_filter req) xs" and "gqHost req \<noteq> []"
  shows "matchGitCredential xs req = Ok s \<longleftrightarrow> s \<in> set xs \<and> best_name T req (dName s)"
  using assms by (rule match_Ok)

theorem git_picks_witness:
  "let x = \<lparr> dName = ''g'', dKind = gitKind, dAttributes = [(''host'', ''h'')], dValue = None,
         dCreated = zero_time, dUpdated = zero_time \<rparr> in
   matchGitCredential [x] sample_req = Ok x
   \<and> best_name [''g'' \<mapsto> (gitKind, Some ''p'', [''host'' \<mapsto> ''h''], zero_time, zero_time)] sample_req ''g''"
proof -
  let ?x = "\<lparr> dName = ''g'', dKind = gitKind, dAttributes = [(''host'', ''h'')], dValue = None,
         dCreated = zero_time, dUpdated = zero_time \<rparr>"
  let ?T = "[''g'' \<mapsto> (gitKind, Some ''p'', [''host'' \<mapsto> ''h''], zero_time, zero_time)]"
  have "selects (git_filter sample_req) ''g'' (gitKind, Some ''p'', [''host'' \<mapsto> ''h''], zero_time, zero_time)"
    by (simp add: selects_def git_filter_def sample_req_def)
  then have l: "lists ?T (git_filter sample_req) [?x]"
    by (simp add: lists_def)
  have m: "matchGitCredential [?x] sample_req = Ok ?x"
    by (simp add: matchGitCredential_def gitScore_def attr_or_empty_def sample_req_def git_wants_def)
  have "gqHost sample_req \<noteq> []" by (simp add: sample_req_def)
  from git_picks [OF l this, of ?x] m show ?thesis by (simp add: Let_def)
qed

text \<open>
  C13: after \<open>store\<close> has ended with success, \<open>get\<close> with the same request prints that password on one
  line, and before it at most one line with the requested username.
\<close>

theorem git_store_get:
  assumes "daemon_live A w path st" and "parseGitRequest input = Ok req" and "val_bytes (gqPassword req) \<noteq> []"
    and "gitCredentialStore (daemon_client A w path) [] input st = (success [], st')"
  shows "\<exists>user. gitCredentialGet (daemon_client A w path) [] input st'
      = success (user @ ''password='' @ val_bytes (gqPassword req) @ [LF])
    \<and> (user = [] \<or> (\<exists>u. user = ''username='' @ u @ [LF] \<and> LF \<notin> set u
         \<and> (gqUsername req = [] \<or> u = gqUsername req)))"
  by (rule daemon.git_store_then_get [OF assms]) (simp add: daemon_client_def)

theorem git_store_get_witness:
  "\<exists>st' user. gitCredentialStore (daemon_client tag_age calm_io some_path) [] sample_input
       (open_session, vault_fs New_vault) = (success [], st')
     \<and> gitCredentialGet (daemon_client tag_age calm_io some_path) [] sample_input st'
       = success (user @ ''password=p'' @ [LF])"
proof -
  obtain st' where s: "gitCredentialStore (daemon_client tag_age calm_io some_path) [] sample_input
      (open_session, vault_fs New_vault) = (success [], st')" by (rule sample_git_store)
  have p: "val_bytes (gqPassword sample_req) = ''p''" by (simp add: sample_req_def val_bytes_def)
  then have "val_bytes (gqPassword sample_req) \<noteq> []" by simp
  from git_store_get [OF sample_live(1) sample_parse this s] s show ?thesis by (auto simp: p)
qed

section \<open>Encodings\<close>

text \<open>
  JSON. Every document of legal literals that is not nested too deeply is printed as one line and
  parsed back to itself.
\<close>

lemma json_roundtrip:
  assumes "json_ok j" and "json_depth j \<le> MaxDepth"
  shows "parse_json (print_json j) = Some j \<and> LF \<notin> set (print_json j)"
  using parse_print [OF assms] print_json_one_line [OF assms(1)] by simp

lemma json_roundtrip_witness:
  "parse_json (print_json (enc_vault some_vault)) = Some (enc_vault some_vault)"
  using json_roundtrip [of "enc_vault some_vault"] enc_vault_ok [of some_vault] by simp

text \<open>
  Values in JSON. A byte string is written as base64, a UTF-8 text with its escapes, a time as
  RFC 3339 with nanoseconds, and an \<open>int64\<close> in decimal; each is read back as it was.
\<close>

lemma value_roundtrips:
  assumes "utf8_valid t" and "time_ok now" and "int64_range n"
  shows "dec_bytes cur1 (enc_bytes b) = Some b \<and> dec_string cur2 (enc_string t) = Some t
    \<and> dec_time cur3 (enc_time now) = Some now \<and> dec_int64 cur4 (enc_int n) = Some n"
  using assms by simp

lemma value_roundtrips_witness:
  "dec_string [] (enc_string ''a'') = Some ''a'' \<and> dec_time zero_time (enc_time zero_time) = Some zero_time"
  using value_roundtrips [of "''a''" zero_time 0] time_ok_zero by (simp add: int64_range_def)

section \<open>The docker credential helper\<close>



text \<open>
  The JSON that \<open>get\<close> prints is a login that \<open>store\<close> reads back to the same server, username and
  secret, whatever characters the UTF-8 secret holds and whatever follows the document, and docker's
  own decoder reads the literal as that secret too.
\<close>

theorem docker_request_roundtrip:
  assumes "utf8_valid server" and "utf8_valid user" and "utf8_valid secret"
    and "server \<noteq> []" and "user \<noteq> []"
    and "length (print_json (credential_json server user secret) @ rest) \<le> maxRequest"
  shows "writeCredential server user secret = print_json (credential_json server user secret) @ [LF]
    \<and> (\<exists>req. readStoreRequest (print_json (credential_json server user secret) @ rest) = Ok req
         \<and> srServerURL req = server \<and> srUsername req = user
         \<and> unquote (print_json (the (srSecret req))) = Ok secret)
    \<and> unquote_lit (quote_loop secret) = Some secret"
  using readStoreRequest_print [OF assms(1,2,4-6)] stored_secret_unquoted [OF assms(3)]
    unquote_lit_quote [OF assms(3)]
  by (simp add: writeCredential_eq)

theorem docker_request_roundtrip_witness:
  "\<exists>req. readStoreRequest (print_json (credential_json ''h'' ''u'' ''p'') @ [LF]) = Ok req
     \<and> srServerURL req = ''h'' \<and> srUsername req = ''u''"
proof -
  have "length (print_json (credential_json ''h'' ''u'' ''p'') @ [LF]) \<le> maxRequest"
    using sample_login_text by (simp add: sample_login_def writeCredential_eq maxRequest_def)
  from docker_request_roundtrip [OF _ _ _ _ _ this] show ?thesis by auto
qed

text \<open>
  C39: the helper's own unquoting of a JSON string agrees with encoding/json wherever both accept a literal
  of valid UTF-8; a secret is never stored as other bytes than the ones docker sent.
\<close>

theorem unquote_agrees:
  assumes "unquote_lit raw = Some expected" and "utf8_valid raw" and "unquote (DQ # raw @ [DQ]) = Ok secret"
  shows "secret = expected"
  using unquote_loop_agrees [OF assms(1,2), of "[]"] assms(3) by (simp add: unquote_content)

theorem unquote_agrees_witness:
  "unquote (DQ # [BSL, CHR ''n''] @ [DQ]) = Ok [LF] \<and> unquote_lit [BSL, CHR ''n''] = Some [LF]"
proof -
  have u: "unquote (DQ # [BSL, CHR ''n''] @ [DQ]) = Ok [LF]"
    by (simp only: unquote_content) (simp add: unquote_loop.simps(2) simple_esc_def)
  have l: "unquote_lit [BSL, CHR ''n''] = Some [LF]"
    by (simp add: unquote_lit.simps(2) simple_esc_def)
  have "utf8_valid [BSL, CHR ''n'']" by simp
  from unquote_agrees [OF l this u] u l show ?thesis by simp
qed

section \<open>Commands with secrets in the environment\<close>

text \<open>
  The mapping of variables to secrets has each variable once, in order; an entry of the file is
  replaced by a later one for the same variable, and those of the flags come last. Every variable is a
  valid name and no secret's name is empty.
\<close>

theorem exec_mapping:
  assumes "parseEnvMapping source_text source flags = Ok entries"
  shows "sorted_wrt (<) (map evVar entries)
    \<and> (\<exists>es. file_entries source_text @ map parseEnvEntry flags = map Ok es
        \<and> (\<forall>e. e \<in> set entries \<longleftrightarrow> map_of (rev (map entry_pair es)) (evVar e) = Some (evName e)))
    \<and> (\<forall>e \<in> set entries. validEnvVar (evVar e) \<and> evName e \<noteq> [])"
  using mapping_sorted [OF assms] mapping_lookup [OF assms] mapping_vars [OF assms] by blast

theorem exec_mapping_witness:
  "parseEnvMapping None [] [''A=x'', ''A=k''] = Ok [\<lparr> evVar = ''A'', evName = ''k'' \<rparr>]
   \<and> validEnvVar ''A''"
proof -
  have p: "parseEnvMapping None [] [''A=x'', ''A=k''] = Ok [\<lparr> evVar = ''A'', evName = ''k'' \<rparr>]"
    by (simp add: parseEnvMapping_def sample_entry sample_entry_x)
  from exec_mapping [OF p] p show ?thesis by simp
qed

text \<open>
  C27: when the process is replaced, the program runs with the arguments given, every mapped variable has
  the value of its secret, and every other variable is inherited unchanged. All secrets were fetched
  before; one that could not be fetched keeps the program from starting.
\<close>

theorem exec_environment_is:
  assumes "execCmd c X dry env_file flags argv st = Replaced path argv' env"
    and "execMapping (xOpen X) env_file flags = Ok mapping"
  shows "argv' = argv \<and> \<not> dry
    \<and> (\<forall>e \<in> set mapping. \<exists>s. clGet c (evName e) st = Ok s
         \<and> env_get env (evVar e) = Some (evVar e @ ''='' @ val_bytes (dValue s)))
    \<and> (\<forall>v. v \<notin> evVar ` set mapping \<longrightarrow> env_get env v = env_get (xEnviron X) v)"
  using exec_environment [OF assms] execCmd_Replaced [OF assms(1)] by blast

theorem exec_environment_is_witness:
  "\<exists>st env. execCmd (daemon_client tag_age calm_io some_path) sample_exec False None [''A=k''] [''sh''] st
     = Replaced ''/bin/sh'' [''sh''] env
   \<and> env_get env ''A'' = Some ''A=pw'' \<and> env_get env ''H'' = Some ''H=1''"
proof -
  obtain st where s: "execCmd (daemon_client tag_age calm_io some_path) sample_exec False None [''A=k''] [''sh''] st
     = Replaced ''/bin/sh'' [''sh''] [''H=1'', ''A=pw'']" by (rule sample_exec_run)
  from exec_environment_is [OF s sample_exec_mapping]
  have "env_get [''H=1'', ''A=pw''] ''H'' = env_get (xEnviron sample_exec) ''H''" by simp
  moreover have "env_get [''H=1'', ''A=pw''] ''A'' = Some ''A=pw''" "env_get [''H=1'', ''A=pw''] ''H'' = Some ''H=1''"
    by (simp_all add: env_get_def env_key_def)
  ultimately show ?thesis using s by blast
qed



section \<open>The identity\<close>

text \<open>
  C7: whatever fails while the form or the passphrase of the identity is changed, at any of its
  system calls, one of the files holds the key afterwards: under the old passphrase, under the new one,
  in plain, or in the backup of the encrypted file.
\<close>

theorem identity_never_lost:
  assumes "pass_laws P"
  shows "(in_plain d (in_dir dir PlainFile) x \<and> SetPassphrase A P w dir p d = (r1, q1, d1) \<longrightarrow>
      in_plain d1 (in_dir dir PlainFile) x \<or> sealed P d1 (in_dir dir EncryptedFile) p x)
    \<and> (sealed P d (in_dir dir EncryptedFile) p x \<and> RemovePassphrase A P w dir pass d = (r2, q2, d2) \<longrightarrow>
      sealed P d2 (in_dir dir EncryptedFile) p x \<or> in_plain d2 (in_dir dir PlainFile) (trim_space x))
    \<and> (sealed P d (in_dir dir EncryptedFile) p x \<and> ChangePassphrase A P w dir old new_pass d = (r3, q3, d3) \<longrightarrow>
      sealed P d3 (in_dir dir EncryptedFile) p x
      \<or> sealed P d3 (bak_name (in_dir dir EncryptedFile)) p x
      \<or> sealed P d3 (in_dir dir EncryptedFile) new_pass (trim_space x))"
  by (intro conjI impI; elim conjE)
     (rule SetPassphrase_keeps RemovePassphrase_keeps [OF assms] ChangePassphrase_keeps [OF assms]; assumption)+

theorem identity_never_lost_witness:
  "\<exists>r q d'. RemovePassphrase tag_age tag_pass calm_id ''/k'' (Some ''pw'') sealed_fs = (r, q, d')
     \<and> (sealed tag_pass d' (in_dir ''/k'' EncryptedFile) ''pw'' ''T''
        \<or> in_plain d' (in_dir ''/k'' PlainFile) (trim_space ''T''))"
proof -
  obtain r q d' where r: "RemovePassphrase tag_age tag_pass calm_id ''/k'' (Some ''pw'') sealed_fs = (r, q, d')"
    by (cases "RemovePassphrase tag_age tag_pass calm_id ''/k'' (Some ''pw'') sealed_fs")
  from identity_never_lost [OF tag_pass_laws, where d = sealed_fs and dir = "''/k''" and p = "''pw''" and x = "''T''"
      and A = tag_age and w = calm_id and pass = "Some ''pw''" and ?r2.0 = r and ?q2.0 = q and ?d2.0 = d'] r sealed_fs_holds
  have "sealed tag_pass d' (in_dir ''/k'' EncryptedFile) ''pw'' ''T''
    \<or> in_plain d' (in_dir ''/k'' PlainFile) (trim_space ''T'')" by fast
  with r show ?thesis by (intro exI conjI)
qed

text \<open>
  A successful \<open>keycell init\<close> leaves an identity that loads with the passphrase it was created with, as
  the key the new, empty vault is encrypted to, and no readable passphrase in memory.
\<close>

theorem identity_init:
  assumes "age_laws A" and "key_text A" and "pass_laws P"
    and "Init A P w dir pass d = (Ok u, q, d')" and "id_calm w" and "id_calm w'" and "ioOpen v = None"
  shows "\<exists>i. Load A P w' dir pass d' = (Ok (ageString A i), wiped pass) \<and> q = wiped pass
    \<and> Read_file A v (in_dir dir VaultName) i d' = Ok New_vault"
  using assms by (rule Init_Ok)

theorem identity_init_witness:
  "\<exists>d' i. Init tag_age tag_pass calm_id ''/k'' (Some ''pw'') Map.empty = (Ok (), Some (zeroed ''pw''), d')
     \<and> Read_file tag_age calm_io (in_dir ''/k'' VaultName) i d' = Ok New_vault"
proof -
  obtain d' where d': "Init tag_age tag_pass calm_id ''/k'' (Some ''pw'') Map.empty = (Ok (), Some (zeroed ''pw''), d')"
    by (rule sample_init [of "''pw''"]) simp
  have "ioOpen calm_io = None" by simp
  from identity_init [OF tag_age_laws tag_key_text tag_pass_laws d' _ _ this] d' show ?thesis
    by (metis calm_id_simps(1))
qed

text \<open>
  Changing the passphrase succeeds only with the old one, and then the same key loads with the new
  one and no longer with the old one. A wrong old passphrase changes no file. Both passphrases are
  zeroed either way.
\<close>

theorem change_passphrase:
  assumes "pass_laws P" and "sealed P d (in_dir dir EncryptedFile) p x"
    and "d (in_dir dir PlainFile) = None" and "id_calm w" and "id_calm w'"
  shows "(ChangePassphrase A P w dir old new_pass d = (Ok u, q, d') \<longrightarrow>
        old = Some p \<and> q = (Some (zeroed p), zeroed new_pass)
        \<and> Load A P w' dir (Some new_pass) d' = (Ok (trim_space x), Some (zeroed new_pass))
        \<and> (p \<noteq> new_pass \<longrightarrow> fst (Load A P w' dir (Some p) d') = Er (Sentinel (IdentityS IdErrWrongPassphrase))))
    \<and> (wrong \<noteq> p \<longrightarrow> ChangePassphrase A P w dir (Some wrong) new_pass d
        = (Er (Sentinel (IdentityS IdErrWrongPassphrase)), (Some (zeroed wrong), zeroed new_pass), d))"
  using ChangePassphrase_Ok [OF assms(1,2) _ assms(4,5)] ChangePassphrase_wrong [OF assms(1,2) _ assms(4,3)]
  by blast

theorem change_passphrase_witness:
  "\<exists>d'. ChangePassphrase tag_age tag_pass calm_id ''/k'' (Some ''pw'') ''new'' sealed_fs
      = (Ok (), (Some (zeroed ''pw''), zeroed ''new''), d')
     \<and> fst (Load tag_age tag_pass calm_id ''/k'' (Some ''pw'') d') = Er (Sentinel (IdentityS IdErrWrongPassphrase))"
proof -
  obtain d' where d': "ChangePassphrase tag_age tag_pass calm_id ''/k'' (Some ''pw'') ''new'' sealed_fs
      = (Ok (), (Some (zeroed ''pw''), zeroed ''new''), d')" by (rule sample_change)
  from change_passphrase [OF tag_pass_laws sealed_fs_holds sealed_fs_plain calm_id_simps(1,1)] d'
  have "''pw'' \<noteq> ''new'' \<longrightarrow> fst (Load tag_age tag_pass calm_id ''/k'' (Some ''pw'') d')
    = Er (Sentinel (IdentityS IdErrWrongPassphrase))"
    by blast
  with d' show ?thesis by (intro exI conjI) simp_all
qed

section \<open>The commands\<close>

text \<open>
  After \<open>keycell store\<close> has ended with success, \<open>keycell get\<close> of that name prints exactly the value
  that was read, with a line feed added only on a terminal and only when the value has none. In
  between lies the whole daemon, with the encrypted file.
\<close>

theorem store_get_commands:
  assumes "daemon_live A w path st"
    and "store_cmd (daemon_client A w path) k ce args kind attr_flags noOverwrite st = (success [], st')"
  shows "\<exists>name buf. args = [name] \<and> store_value ce name = Ok buf
    \<and> get_cmd (daemon_client A w path) ce' args None False st'
      = success (buf @ (if ceOutTerminal ce' \<and> last buf \<noteq> LF then [LF] else []))"
  by (rule daemon.store_then_get_cmd [OF assms]) (simp add: daemon_client_def)

theorem store_get_commands_witness:
  "\<exists>st'. store_cmd (daemon_client tag_age calm_io some_path) no_control sample_ce [''k''] ''token'' []
       False (open_session, vault_fs New_vault) = (success [], st')
     \<and> get_cmd (daemon_client tag_age calm_io some_path) sample_ce [''k''] None False st' = success ''pw''"
proof -
  obtain st' where s: "store_cmd (daemon_client tag_age calm_io some_path) no_control sample_ce [''k''] ''token'' []
       False (open_session, vault_fs New_vault) = (success [], st')" by (rule sample_store_cmd)
  from store_get_commands [OF sample_live(1) s, of sample_ce] obtain name buf where
    "[''k''] = [name]" "store_value sample_ce name = Ok buf"
    "get_cmd (daemon_client tag_age calm_io some_path) sample_ce [''k''] None False st' = success buf"
    by (auto simp: sample_ce_def)
  moreover from this have "buf = ''pw''" by (simp add: store_value_def sample_ce_def)
  ultimately show ?thesis using s by blast
qed

text \<open>
  C31: what \<open>keycell export\<close> prints, imported into an empty vault, gives the same secrets under the
  same names: kind, value and attributes. Only the times are those of the import.
\<close>

theorem export_then_import_copies:
  assumes "daemon_live A w path st1" and "export_cmd (daemon_client A w path) args1 st1 = success t"
    and "daemon_live A' w' path' st2" and "daemon_table A' path' st2 = Map.empty"
    and "import_cmd (daemon_client A' w' path') ce args noOverwrite st2 = (out, st')" and "outCode out = 0"
    and "readImport ce (if args = [] then [] else hd args) = Ok t"
  shows "(daemon_table A' path' st' n = None \<longleftrightarrow> daemon_table A path st1 n = None)
    \<and> (\<forall>e. daemon_table A path st1 n = Some e \<longrightarrow>
         (\<exists>e'. daemon_table A' path' st' n = Some e' \<and> same_secret e' e))"
proof -
  from daemon.export_cmd_success [OF assms(1,2)] obtain v p where v: "Encode v = Ok p" "t = with_LF p" "vault_ok v"
    "vVersion v = Version" "table v = daemon_table A path st1" by blast
  from daemon.import_exported [OF assms(3-6) v(1,3,4)] assms(7) v(2,5) show ?thesis by metis
qed

theorem export_then_import_copies_witness:
  "\<exists>st' e. export_cmd (daemon_client tag_age calm_io some_path) [] (open_session, vault_fs some_vault)
      = success (with_LF (print_json (enc_vault some_vault)))
    \<and> import_cmd (daemon_client tag_age calm_io some_path) sample_ce [''f''] False
        (open_session, vault_fs New_vault) = (success [], st')
    \<and> daemon_table tag_age some_path st' ''k'' = Some e
    \<and> same_secret e (''token'', Some ''pw'', Map.empty, zero_time, zero_time)"
proof -
  obtain st' where st': "import_cmd (daemon_client tag_age calm_io some_path) sample_ce [''f''] False
      (open_session, vault_fs New_vault) = (success [], st')"
    and r: "readImport sample_ce ''f'' = Ok (with_LF (print_json (enc_vault some_vault)))" by (rule sample_import)
  have c: "outCode (success []) = 0"
    and r': "readImport sample_ce (if [''f''] = [] then [] else hd [''f''])
      = Ok (with_LF (print_json (enc_vault some_vault)))"
    by (simp_all add: success_def r)
  have "daemon_table tag_age some_path (open_session, vault_fs some_vault) ''k''
    = Some (''token'', Some ''pw'', Map.empty, zero_time, zero_time)" by (simp add: full_live(2))
  with export_then_import_copies [OF full_live(1) sample_export sample_live st' c r', of "''k''"]
  obtain e where "daemon_table tag_age some_path st' ''k'' = Some e"
    "same_secret e (''token'', Some ''pw'', Map.empty, zero_time, zero_time)" by blast
  with sample_export st' show ?thesis by blast
qed

text \<open>
  When \<open>keycell import\<close> ends with exit code 0, every secret of the document is in the vault, except
  that with \<open>--no-overwrite\<close> those that existed keep what they had; and no other secret has changed.
\<close>

theorem import_overwrites:
  assumes "daemon_live A w path st"
    and "import_cmd (daemon_client A w path) ce args noOverwrite st = (out, st')" and "outCode out = 0"
  shows "\<exists>inp v. readImport ce (if args = [] then [] else hd args) = Ok inp \<and> Decode inp = Ok v
    \<and> daemon_live A w path st'
    \<and> (\<forall>n. if noOverwrite \<and> daemon_table A path st n \<noteq> None \<or> table v n = None
         then daemon_table A path st' n = daemon_table A path st n
         else \<exists>e. daemon_table A path st' n = Some e \<and> same_secret e (the (table v n)))"
  by (rule daemon.import_cmd_done [OF assms])

theorem import_overwrites_witness:
  "\<exists>st'. import_cmd (daemon_client tag_age calm_io some_path) sample_ce [''f''] False
      (open_session, vault_fs New_vault) = (success [], st') \<and> daemon_live tag_age calm_io some_path st'"
proof -
  obtain st' where st': "import_cmd (daemon_client tag_age calm_io some_path) sample_ce [''f''] False
      (open_session, vault_fs New_vault) = (success [], st')" by (rule sample_import)
  have "outCode (success []) = 0" by (simp add: success_def)
  from import_overwrites [OF sample_live(1) st' this] st' show ?thesis by blast
qed

section \<open>The server and its connections\<close>

text \<open>
  C3: a server whose context has ended, left to itself, stops: whatever state it has reached, and in whatever
  order it goes on, when it has no step of its own left it has returned without an error, its listener
  is closed, no connection is tracked, and every connection it ever had is closed and its goroutine
  gone. Only a panic ends it differently.
\<close>

theorem serve_ends:
  assumes "serves A X cf peers uid s0 d0 s" and "svCancelled s"
    and "(serve_step A X cf peers uid Own)\<^sup>*\<^sup>* s t" and "\<not> (\<exists>u. serve_step A X cf peers uid Own t u)"
  shows "svPc t = Crashed \<or> svPc t = Returned (Ok ()) \<and> \<not> svOpen t \<and> svConns t = {}
    \<and> (\<forall>c h. (c, h) \<in> set (svHandlers t) \<longrightarrow> h = Gone \<and> c \<in> svClosed t)"
  using assms by (rule own_steps_end)

theorem serve_ends_witness:
  "\<exists>t. (serve_step tag_age some_texts some_config (\<lambda>c. call_ok 0) 0 Own)\<^sup>*\<^sup>* (two_requests\<lparr>svCancelled := True\<rparr>) t
     \<and> (svPc t = Crashed \<or> svPc t = Returned (Ok ()) \<and> svConns t = {})"
proof -
  let ?s = "two_requests\<lparr>svCancelled := True\<rparr>"
  have s: "sample_serves ?s"
    by (rule serves.steps [OF two_requests_served]) (rule serve_step.cancel, simp)
  obtain t where t: "(sample_step Own)\<^sup>*\<^sup>* ?s t" "\<not> (\<exists>u. sample_step Own t u)" by (rule own_steps_stop)
  from serve_ends [OF s _ t] t(1) show ?thesis by auto
qed

text \<open>
  C25: a server that is left to itself makes at most \<open>serve_work\<close> steps, at most six
  for the loop, five for each connection and one for each timer that has fired: it cannot go on for
  ever by itself.
\<close>

theorem serve_terminates:
  assumes "(serve_step A X cf peers uid Own ^^ n) s t"
  shows "n + serve_work t \<le> serve_work s
    \<and> serve_work s \<le> 6 + 5 * length (svHandlers s) + length (sFired (svSession s))"
  using own_steps_bound [OF assms] serve_work_bound by blast

theorem serve_terminates_witness:
  "\<exists>t. sample_step Own (two_requests\<lparr>svCancelled := True\<rparr>) t \<and> serve_work t < serve_work (two_requests\<lparr>svCancelled := True\<rparr>)"
proof -
  let ?s = "two_requests\<lparr>svCancelled := True\<rparr>"
  have "sample_step Own ?s (?s\<lparr>svOpen := False\<rparr>)"
    by (rule serve_step.close_listener) (simp_all add: two_requests_def serve_start_def)
  moreover from this have "(sample_step Own ^^ 1) ?s (?s\<lparr>svOpen := False\<rparr>)" by auto
  ultimately show ?thesis using serve_terminates by fastforce
qed

text \<open>
  C15: in every state the server can reach, each connection it serves belongs to a process of its own user,
  and the tracked connections are those whose goroutine still runs, so that none is forgotten when the
  server stops.
\<close>

theorem serve_isolated:
  assumes "serves A X cf peers uid s0 d0 s"
  shows "(\<forall>c h. map_of (svHandlers s) c = Some h \<longrightarrow> peers c = call_ok uid)
    \<and> (\<forall>c. c \<in> svConns s \<longleftrightarrow> (\<exists>h. map_of (svHandlers s) c = Some h \<and> h \<noteq> Gone))
    \<and> (svPc s = Returned (Ok ()) \<longrightarrow> svCancelled s \<and> \<not> svOpen s \<and> svConns s = {})"
  using serves_inv [OF assms] unfolding serve_inv_def peerUID_def raw_do_Ok by simp

theorem serve_isolated_witness: "sample_serves two_requests \<and> 1 \<in> svConns two_requests"
proof -
  note c = serve_isolated [OF two_requests_served, THEN conjunct2, THEN conjunct1]
  have "InCall (unlock_with ''F'') \<noteq> Gone" by simp
  with c two_requests_simps(4) have "1 \<in> svConns two_requests" by blast
  with two_requests_served show ?thesis ..
qed

text \<open>
  C8: \<open>unlock\<close> is not atomic. With a wrong key on connection 1 and the right one on connection 2, both requests
  pending, one order of the steps answers the wrong key with success, since connection 1 verifies the
  identity that connection 2 has put there; another order tells connection 2 that the daemon is
  unlocked and then locks it, since connection 1 locks what it has not unlocked.
\<close>

theorem unlock_race:
  "(\<exists>t r. (sample_step Own ^^ 3) two_requests t
      \<and> map_of (svHandlers t) 1 = Some (Writing r) \<and> rsError r = None)
    \<and> (\<exists>t r. (sample_step Own ^^ 5) two_requests t
      \<and> map_of (svHandlers t) 2 = Some (Writing r) \<and> rsError r = None \<and> sId (svSession t) = None)"
  using race_wrong_key race_locks by blast

text \<open>
  Nor is the end of the server one step: a request to unlock that is served after the session has been
  locked, and before its connection is closed, leaves a stopped server with an open session.
\<close>

lemma shutdown_race:
  "\<exists>s. sample_serves s \<and> svPc s = Returned (Ok ()) \<and> sId (svSession s) = Some True"
  by (rule late_unlock)

section \<open>The configuration\<close>





text \<open>A relative XDG directory passes through: the socket of the daemon depends on where it is started.\<close>

lemma relative_socket:
  "\<exists>c. config_Load [] relative_env no_layer no_files = Ok c \<and> \<not> is_abs (stSocket c)"
  using relative_config by (auto simp: is_abs_def)

section \<open>The terminal\<close>



text \<open>
  C28: what a prompt returns is the first line of the input, without its line ending, in whatever pieces the
  terminal delivers it; when that line is interrupted by a signal before its end, nothing of it is
  returned. If the line and its end come in the first piece of at most 256 bytes, no buffer that was
  used keeps a byte of it.
\<close>

theorem line_read:
  assumes "tyOpen w = None" and "getTermios w = None" and "setTermios w 0 = None" and "tyPrompt w = None"
    and "plain_conn (tyInput w)"
  shows "(tySignal w = None \<longrightarrow>
      fst (tty_Read grow w saved prompt) = Ok (trimmed (first_line (stream (tyInput w)))))
    \<and> (\<forall>n. tySignal w = Some n \<and> LF \<notin> set (stream (take n (tyInput w))) \<longrightarrow>
      fst (tty_Read grow w saved prompt) = Er (Sentinel (TtyS ErrInterrupted)))
    \<and> (\<forall>c cs. tty_input w = Data c # cs \<and> LF \<in> set (take 256 c) \<longrightarrow>
      (\<forall>b \<in> set (snd (snd (tty_Read grow w saved prompt))). set b \<subseteq> {NUL}))"
  using tty_Read_line [OF assms(1-4) _ assms(5)] tty_Read_interrupted [OF assms(1-4)] plain_take [OF assms(5)]
    tty_Read_wiped
  by blast

theorem line_read_witness: "fst (tty_Read exact_growth some_tty some_termios ''p: '') = Ok ''pw''"
proof -
  have "fst (tty_Read exact_growth some_tty some_termios ''p: '')
      = Ok (trimmed (first_line (stream (tyInput some_tty))))"
    using line_read [of some_tty] by (simp add: some_tty_def getTermios_def setTermios_def)
  then show ?thesis by (simp add: some_tty_def getTermios_def setTermios_def first_line_def trimmed_def)
qed

text \<open>A line of more than 256 bytes leaves its beginning in the array that \<open>append\<close> has grown out of.\<close>

lemma long_line_left:
  "\<exists>b \<in> set (snd (tty_readLine (\<lambda>cap need. need) [Data (replicate 300 (CHR ''x'') @ [LF])])). b = replicate 256 (CHR ''x'')"
  using tty_readLine_leaves [of "replicate 300 (CHR ''x'') @ [LF]" "\<lambda>cap need. need" "[]"] by auto

section \<open>The commands that set up and unlock\<close>

text \<open>
  C30: after \<open>keycell init\<close> has ended with 0 the identity loads with the passphrase that was typed twice, or
  without one when none was wanted, it opens the new, empty vault, and a warning was written exactly
  when the identity is not protected.
\<close>

theorem init_command:
  assumes "age_laws A" and "key_text A" and "pass_laws P" and "id_calm w" and "id_calm w'" and "ioOpen v = None"
    and "initCmd A P w dir r args noPass d = (out, d')" and "outCode out = 0"
  shows "\<exists>pass i. (if noPass then pass = None else \<exists>p. pass = Some p \<and> chosen r p)
    \<and> Load A P w' dir pass d' = (Ok (ageString A i), wiped pass)
    \<and> Read_file A v (in_dir dir VaultName) i d' = Ok New_vault
    \<and> outErr out = (if noPass then lit (with_LF unencryptedWarning) else [])"
  using assms by (rule init_cmd_Ok)

theorem init_command_witness:
  "\<exists>out d' p. initCmd tag_age tag_pass calm_id ''/k'' answers [] False Map.empty = (out, d') \<and> outCode out = 0
     \<and> chosen answers p \<and> (\<exists>x. fst (Load tag_age tag_pass calm_id ''/k'' (Some p) d') = Ok x)"
proof -
  obtain out d' where o: "initCmd tag_age tag_pass calm_id ''/k'' answers [] False Map.empty = (out, d')" "outCode out = 0"
    by (rule sample_init_cmd)
  from init_command [OF tag_age_laws tag_key_text tag_pass_laws calm_id_simps(1,1) calm_io_simps(1) o]
  obtain p i where "chosen answers p" "Load tag_age tag_pass calm_id ''/k'' (Some p) d' = (Ok (ageString tag_age i), wiped (Some p))"
    by auto
  with o show ?thesis by (metis fst_conv)
qed



text \<open>No entry is left in memory by a change of the passphrase, however it ends.\<close>

lemma entries_wiped:
  "changePassphrase A P w dir r d = (res, a') \<Longrightarrow> res \<noteq> Panic \<Longrightarrow> \<forall>b \<in> set (akLeft a'). set b \<subseteq> {NUL}"
  using changePassphrase_wiped unfolding wiped_all_def .

text \<open>
  C10: \<open>keycell unlock\<close> on a protected identity and a locked daemon: with exit code 0 one of the entries was the
  passphrase, the daemon now holds the key of the identity file, that key opens the vault, and what is
  printed is the state of the daemon; with exit code 1 the daemon is still locked. Files do not
  change.
\<close>

theorem unlock_opens:
  assumes "pass_laws P" and "id_calm w"
    and "sealed P d (in_dir dir EncryptedFile) p x" and "d (in_dir dir PlainFile) = None"
    and "sBuf s = None" and "sId s = None"
    and "unlock_cmd A P w (daemon_client A v (cfPath cf)) (daemon_control A v cf) dir r now args flag d (s, d)
      = (out, s', d')"
  shows "(outCode out = 0 \<longrightarrow>
      d' = d \<and> outText out = with_LF (lockState (daemon_status s') now)
      \<and> (\<exists>n i t. r n ''Passphrase: '' = Ok p \<and> Parse A (trim_space x) = Ok i \<and> sId s' = Some i
          \<and> Read_file A v (cfPath cf) i d = Ok t))
    \<and> (outCode out = 1 \<longrightarrow> d' = d \<and> sId s' = None)"
  using assms by (rule unlock_cmd_sealed)

theorem unlock_opens_witness:
  "\<exists>out s' i. unlock_cmd tag_age tag_pass calm_id (daemon_client tag_age calm_io (cfPath some_config))
      (daemon_control tag_age calm_io some_config) ''/k'' answers zero_time [] None home_fs (NewSession, home_fs)
      = (out, s', home_fs) \<and> outCode out = 0 \<and> sId s' = Some i"
proof -
  obtain out s' where u: "unlock_cmd tag_age tag_pass calm_id (daemon_client tag_age calm_io (cfPath some_config))
      (daemon_control tag_age calm_io some_config) ''/k'' answers zero_time [] None home_fs (NewSession, home_fs)
      = (out, s', home_fs)" "outCode out = 0" by (rule sample_unlock_cmd)
  have n: "sBuf (NewSession :: bool session) = None" "sId (NewSession :: bool session) = None"
    by (simp_all add: NewSession_def)
  from unlock_opens [OF tag_pass_laws calm_id_simps(1) home_fs_sealed home_fs_files(2) n u(1)] u show ?thesis by blast
qed



text \<open>
  The time that \<open>unlock\<close> and \<open>status\<close> print is the time until the auto-lock rounded to whole minutes,
  half a minute up: nothing below a minute, hours from sixty minutes on, and the parts are those of
  the whole minutes.
\<close>

theorem remaining_minutes:
  assumes "d + Minute < 2 ^ 63"
  shows "formatRemaining d =
    (let m = (d + 30 * Second) div Minute in
     if m < 1 then ''<1m''
     else if m < 60 then print_int m @ ''m''
     else print_int (m div 60) @ ''h'' @ print_int (m mod 60) @ ''m'')"
  using formatRemaining_all [OF assms] unfolding Let_def .

theorem remaining_minutes_witness: "formatRemaining 5400000000000 = ''1h30m''"
proof -
  have "formatRemaining 5400000000000 = print_int 1 @ ''h'' @ print_int 30 @ ''m''"
    using remaining_minutes [of 5400000000000] by (simp add: Minute_def Second_def)
  also have "\<dots> = ''1h30m''" by code_simp
  finally show ?thesis .
qed

section \<open>The process\<close>





section \<open>The command line\<close>

text \<open>
  C20: \<open>keycell store NAME\<close> and then \<open>keycell get NAME\<close>, from the words on the command line, through the
  configuration, the declared flags and the daemon to the encrypted file and back: when the first run
  exits with 0, the secret has the kind given with \<open>--kind\<close>, or \<open>generic\<close>, and the second run prints
  exactly the value that was read.
\<close>

theorem commands_store_get:
  assumes "daemon_live A w path st" and "\<forall>sock. pwClient W sock = daemon_client A w path"
    and "\<forall>sock. pwClient W' sock = daemon_client A w path"
    and "run_invocation W \<lparr> ivGiven = g, ivWords = ''store'' # args \<rparr> st = (Exited out bufs, st')"
    and "outCode out = 0" and "given_config W g = Ok cfg" and "given_config W' g' = Ok cfg'"
    and "map_of g' ''attr'' = None" and "map_of g' ''json'' = None"
  shows "\<exists>name buf attrs created now. args = [name] \<and> store_value (pwCmd W) name = Ok buf
    \<and> daemon_table A path st' name = Some (given_text g ''kind'' ''generic'', Some buf, attrs, created, now)
    \<and> run_invocation W' \<lparr> ivGiven = g', ivWords = [''get'', name] \<rparr> st'
      = (Exited (success (buf @ (if ceOutTerminal (pwCmd W') \<and> last buf \<noteq> LF then [LF] else []))) [], st')"
  using assms(2,3) by (intro store_then_get_run [OF assms(1) _ _ assms(4-9)]) simp_all

theorem commands_store_get_witness:
  "\<exists>st' buf. run_invocation sample_world \<lparr> ivGiven = [(''kind'', [''token''])], ivWords = [''store'', ''k''] \<rparr>
      (open_session, vault_fs New_vault) = (Exited (success []) [], st')
    \<and> run_invocation sample_world \<lparr> ivGiven = [], ivWords = [''get'', ''k''] \<rparr> st' = (Exited (success buf) [], st')"
proof -
  obtain st' where s: "run_invocation sample_world \<lparr> ivGiven = [(''kind'', [''token''])], ivWords = [''store'', ''k''] \<rparr>
      (open_session, vault_fs New_vault) = (Exited (success []) [], st')" by (rule sample_run_store)
  have c: "\<forall>sock. pwClient sample_world sock = daemon_client tag_age calm_io some_path" by (simp add: sample_world_def)
  have z: "outCode (success []) = 0" by (simp add: success_def)
  have g: "given_config sample_world [(''kind'', [''token''])] = Ok some_settings"
    "given_config sample_world [] = Ok some_settings" by (rule sample_world_config; simp)+
  from commands_store_get [OF sample_live(1) c c s z g] s show ?thesis by auto
qed

text \<open>
  A secret whose name contains a comma cannot be given to \<open>keycell exec -e\<close>: such a text is split at its
  commas, and the part behind the comma is no mapping. Names with commas are valid.
\<close>

lemma exec_comma:
  assumes "given_config W g = Ok cfg" and "map_of g ''env'' = Some [var @ ''='' @ a @ '','' @ b]"
    and "CHR ''='' \<notin> set b" and "\<And>p. CHR ''='' \<notin> set p \<Longrightarrow> CHR ''='' \<notin> set (pwTrim W p)"
  shows "\<exists>out bufs. run_invocation W \<lparr> ivGiven = g, ivWords = ''exec'' # argv \<rparr> st = (Exited out bufs, st)
    \<and> outCode out = 2"
  using assms by (rule exec_comma_run)

text \<open>
  A connection's writer leaves nothing behind: after any number of messages, whether the last one could be
  written or not, every array the writer has used is zero.
\<close>

lemma writer_leaves_nothing:
  assumes "write_all grow ms NewWriter = (r, out, w', left)"
  shows "blank (wArray w') \<and> (\<forall>b \<in> set left. blank b)
    \<and> (\<exists>k. out = concat (map (\<lambda>m. write_line (fst m)) (take k ms)) \<and> (r = Ok () \<longrightarrow> k = length ms))"
  using assms by (rule write_all_blank) (simp add: NewWriter_def blank_def)

section \<open>The commands over the wire\<close>







text \<open>
  A name that is not UTF-8 is not refused over the wire: encoding/json replaces what is ill-formed, and
  the daemon, which would refuse the name, gets another one, U+FFFD.
\<close>

lemma bad_name_replaced:
  "ValidateName [CHR 0xFF] \<noteq> Ok ()
    \<and> Bind (wire_request n MethodGet (enc_get_params \<lparr> gpName = [CHR 0xFF] \<rparr>)) get_fields zero_get
      = Ok \<lparr> gpName = encode_rune RuneError \<rparr>"
proof -
  have h: "utf8_head [CHR 0xFF] = None" by code_simp
  have "quote_lit k [CHR 0xFF] = BSL # CHR ''u'' # hex4 RuneError" for k
    by (simp add: quote_lit.simps(2) u_esc_def h)
  moreover have "unquote_lit (BSL # CHR ''u'' # hex4 RuneError) = Some (encode_rune RuneError)"
    using getu4_hex4 [of RuneError "[]"]
    by (simp add: unquote_lit.simps(2) is_surrogate_def RuneError_def hex4_def)
  ultimately have "dec_string [] (enc_string [CHR 0xFF]) = Some (encode_rune RuneError)"
    by (simp add: enc_string_def dec_string_def)
  then have "Bind (wire_request n MethodGet (enc_get_params \<lparr> gpName = [CHR 0xFF] \<rparr>)) get_fields zero_get
      = Ok \<lparr> gpName = encode_rune RuneError \<rparr>"
    by (simp add: enc_get_params_def Bind_params wire_request_def fld_def find_field_def params_defs)
  then show ?thesis by (simp add: text_ok_def h utf8_valid.simps)
qed

end
